(* ===== verification/Prelude.thy ===== *)
theory Prelude
  imports Main "HOL-Library.Char_ord" "HOL-Library.List_Lexorder"
begin

text \<open>
  The shared vocabulary of the development: the exception values of the program
  (src/src/docspec/errors.py and the built-in exceptions the modelled code raises), results as
  sums, the two ways the code sequences fallible steps (one after another, and over a
  collection, stopping at the first exception), Python's slices, and the generic lemmas on
  them that the component theories share.
\<close>

section \<open>Exceptions as values\<close>

text \<open>
  The classes of errors.py, the built-in classes and the subclasses of \<open>IntegrityError\<close> declared
  beside their algorithms. The string is the message; a part of a message that prints an offending value
  (a repr) is left out. \<open>IllTyped\<close> marks an input whose Python type is not the annotated
  one, about which the model makes no statement beyond "no result". \<open>NoReturn\<close> is no
  exception either: it marks a call that does not return.
\<close>

datatype error =
    IntegrityError string
  | SchemaValidationError string
  | BoundedSegmentationError string
  | ExtractionError string
  | StateTransitionError string
  | StateValueRelationUnavailable string
  | ProfileError string
  | LimitExceededError string
  | StaleBaseError string
  | IdentitiesChangedError string
  | ValueError string
  | TypeError string
  | RuntimeError string
  | UnicodeError string
  | KeyError string
  | IndexError
  | IllTyped string
  | NoReturn

text \<open>\<open>except IntegrityError\<close> and \<open>except ValueError\<close>: the class with its subclasses.\<close>

definition is_integrity_error :: "error \<Rightarrow> bool" where
  "is_integrity_error e = (case e of IntegrityError _ \<Rightarrow> True | SchemaValidationError _ \<Rightarrow> True
     | BoundedSegmentationError _ \<Rightarrow> True | ExtractionError _ \<Rightarrow> True | _ \<Rightarrow> False)"

definition is_value_error :: "error \<Rightarrow> bool" where
  "is_value_error e = (case e of ValueError _ \<Rightarrow> True | UnicodeError _ \<Rightarrow> True | _ \<Rightarrow> False)"

definition is_limit_error :: "error \<Rightarrow> bool" where
  "is_limit_error e = (case e of LimitExceededError _ \<Rightarrow> True | _ \<Rightarrow> False)"

text \<open>\<open>str(error)\<close>, and \<open>type(error).__name__\<close>.\<close>

definition message_of :: "error \<Rightarrow> string" where
  "message_of e = (case e of
     IntegrityError m \<Rightarrow> m | SchemaValidationError m \<Rightarrow> m | BoundedSegmentationError m \<Rightarrow> m | ExtractionError m \<Rightarrow> m
   | StateTransitionError m \<Rightarrow> m | StateValueRelationUnavailable m \<Rightarrow> m | ProfileError m \<Rightarrow> m
   | LimitExceededError m \<Rightarrow> m | StaleBaseError m \<Rightarrow> m | IdentitiesChangedError m \<Rightarrow> m
   | ValueError m \<Rightarrow> m | TypeError m \<Rightarrow> m | RuntimeError m \<Rightarrow> m
   | UnicodeError m \<Rightarrow> m | KeyError m \<Rightarrow> [CHR 0x27] @ m @ [CHR 0x27]
   | IndexError \<Rightarrow> ''list index out of range'' | IllTyped m \<Rightarrow> m | NoReturn \<Rightarrow> [])"

definition class_name :: "error \<Rightarrow> string" where
  "class_name e = (case e of
     IntegrityError _ \<Rightarrow> ''IntegrityError'' | SchemaValidationError _ \<Rightarrow> ''SchemaValidationError''
   | BoundedSegmentationError _ \<Rightarrow> ''BoundedSegmentationError'' | ExtractionError _ \<Rightarrow> ''ExtractionError''
   | StateTransitionError _ \<Rightarrow> ''StateTransitionError''
   | StateValueRelationUnavailable _ \<Rightarrow> ''StateValueRelationUnavailable'' | ProfileError _ \<Rightarrow> ''ProfileError''
   | LimitExceededError _ \<Rightarrow> ''LimitExceededError'' | StaleBaseError _ \<Rightarrow> ''StaleBaseError''
   | IdentitiesChangedError _ \<Rightarrow> ''IdentitiesChangedError''
   | ValueError _ \<Rightarrow> ''ValueError'' | TypeError _ \<Rightarrow> ''TypeError'' | RuntimeError _ \<Rightarrow> ''RuntimeError''
   | UnicodeError _ \<Rightarrow> ''UnicodeError'' | KeyError _ \<Rightarrow> ''KeyError'' | IndexError \<Rightarrow> ''IndexError''
   | IllTyped _ \<Rightarrow> ''TypeError'' | NoReturn \<Rightarrow> [])"

type_synonym 'a result = "error + 'a"

definition is_ok :: "'a result \<Rightarrow> bool" where
  "is_ok r = (case r of Inl _ \<Rightarrow> False | Inr _ \<Rightarrow> True)"

lemma is_ok_simps [simp]: "is_ok (Inr x)" "\<not> is_ok (Inl e)"
  by (simp_all add: is_ok_def)

lemma is_ok_iff: "is_ok r \<longleftrightarrow> (\<exists>x. r = Inr x)"
  by (cases r) auto

section \<open>Sequencing\<close>

text \<open>\<open>bindE m f\<close> is \<open>x = m; f(x)\<close>: an exception of \<open>m\<close> is the outcome of the whole.\<close>

definition bindE :: "'a result \<Rightarrow> ('a \<Rightarrow> 'b result) \<Rightarrow> 'b result" where
  "bindE m f = (case m of Inl e \<Rightarrow> Inl e | Inr x \<Rightarrow> f x)"

lemma bindE_simps [simp]: "bindE (Inl e) f = Inl e" "bindE (Inr x) f = f x"
  by (simp_all add: bindE_def)

lemma bindE_Inr_iff: "bindE m f = Inr y \<longleftrightarrow> (\<exists>x. m = Inr x \<and> f x = Inr y)"
  by (cases m) auto

lemma bindE_Inl_iff: "bindE m f = Inl e \<longleftrightarrow> m = Inl e \<or> (\<exists>x. m = Inr x \<and> f x = Inl e)"
  by (cases m) auto

lemma bindE_cong [fundef_cong]:
  "m = m' \<Longrightarrow> (\<And>x. m' = Inr x \<Longrightarrow> f x = f' x) \<Longrightarrow> bindE m f = bindE m' f'"
  by (cases m') auto

lemma bindE_assoc: "bindE (bindE m f) g = bindE m (\<lambda>x. bindE (f x) g)"
  by (cases m) auto

text \<open>\<open>refuse c e\<close> is \<open>if c: raise e\<close>.\<close>

definition refuse :: "bool \<Rightarrow> error \<Rightarrow> unit result" where
  "refuse c e = (if c then Inl e else Inr ())"

lemma refuse_simps [simp]: "refuse True e = Inl e" "refuse False e = Inr ()"
  by (simp_all add: refuse_def)

lemma refuse_Inr_iff: "refuse c e = Inr u \<longleftrightarrow> \<not> c"
  by (simp add: refuse_def)

lemma refuse_Inl_iff: "refuse c e = Inl e' \<longleftrightarrow> c \<and> e' = e"
  by (auto simp: refuse_def)

text \<open>Two checks one after the other.\<close>

definition thenE :: "unit result \<Rightarrow> 'b result \<Rightarrow> 'b result" where
  "thenE m n = bindE m (\<lambda>_. n)"

lemma thenE_simps [simp]: "thenE (Inl e) n = Inl e" "thenE (Inr u) n = n"
  by (simp_all add: thenE_def)

lemma thenE_Inr_iff: "thenE m n = Inr y \<longleftrightarrow> m = Inr () \<and> n = Inr y"
  by (simp add: thenE_def bindE_Inr_iff)

lemma thenE_cong [fundef_cong]:
  "m = m' \<Longrightarrow> (m' = Inr () \<Longrightarrow> n = n') \<Longrightarrow> thenE m n = thenE m' n'"
  by (cases m') (auto simp: thenE_def)

text \<open>A comprehension over a collection whose element expression may raise.\<close>

fun mapE :: "('a \<Rightarrow> 'b result) \<Rightarrow> 'a list \<Rightarrow> 'b list result" where
  "mapE f [] = Inr []"
| "mapE f (x # xs) = bindE (f x) (\<lambda>y. bindE (mapE f xs) (\<lambda>ys. Inr (y # ys)))"

text \<open>A loop whose body only checks.\<close>

fun eachE :: "('a \<Rightarrow> unit result) \<Rightarrow> 'a list \<Rightarrow> unit result" where
  "eachE f [] = Inr ()"
| "eachE f (x # xs) = thenE (f x) (eachE f xs)"

text \<open>A loop that threads a state through a fallible body.\<close>

fun foldE :: "('s \<Rightarrow> 'a \<Rightarrow> 's result) \<Rightarrow> 's \<Rightarrow> 'a list \<Rightarrow> 's result" where
  "foldE f s [] = Inr s"
| "foldE f s (x # xs) = bindE (f s x) (\<lambda>s'. foldE f s' xs)"

lemma mapE_cong [fundef_cong]:
  "xs = ys \<Longrightarrow> (\<And>x. x \<in> set ys \<Longrightarrow> f x = g x) \<Longrightarrow> mapE f xs = mapE g ys"
proof (induction ys arbitrary: xs)
  case (Cons y ys)
  then show ?case by (cases "g y") simp_all
qed simp

lemma eachE_cong [fundef_cong]:
  "xs = ys \<Longrightarrow> (\<And>x. x \<in> set ys \<Longrightarrow> f x = g x) \<Longrightarrow> eachE f xs = eachE g ys"
proof (induction ys arbitrary: xs)
  case (Cons y ys)
  then show ?case by simp
qed simp

lemma mapE_Inr_iff: "mapE f xs = Inr ys \<longleftrightarrow> list_all2 (\<lambda>x y. f x = Inr y) xs ys"
proof (induction xs arbitrary: ys)
  case (Cons x xs)
  then show ?case by (cases ys) (auto simp: bindE_Inr_iff)
qed auto

lemma mapE_length: "mapE f xs = Inr ys \<Longrightarrow> length ys = length xs"
  by (auto simp: mapE_Inr_iff dest: list_all2_lengthD)

lemma mapE_pure: "(\<And>x. x \<in> set xs \<Longrightarrow> f x = Inr (g x)) \<Longrightarrow> mapE f xs = Inr (map g xs)"
  by (induction xs) auto

lemma mapE_id: "(\<And>x. x \<in> set xs \<Longrightarrow> f (g x) = Inr x) \<Longrightarrow> mapE f (map g xs) = Inr xs"
  by (induction xs) auto

lemma mapE_nthD: "mapE f xs = Inr ys \<Longrightarrow> i < length xs \<Longrightarrow> f (xs ! i) = Inr (ys ! i)"
  by (auto simp: mapE_Inr_iff list_all2_conv_all_nth)

lemma mapE_append:
  "mapE f (xs @ ys) = bindE (mapE f xs) (\<lambda>us. bindE (mapE f ys) (\<lambda>vs. Inr (us @ vs)))"
proof (induction xs)
  case Nil
  then show ?case by (cases "mapE f ys") simp_all
next
  case (Cons x xs)
  then show ?case by (cases "f x"; cases "mapE f xs"; cases "mapE f ys") simp_all
qed

lemma eachE_Inr_iff: "eachE f xs = Inr u \<longleftrightarrow> (\<forall>x \<in> set xs. f x = Inr ())"
  by (induction xs) (auto simp: thenE_Inr_iff)

lemma foldE_append: "foldE f s (xs @ ys) = bindE (foldE f s xs) (\<lambda>s'. foldE f s' ys)"
  by (induction xs arbitrary: s) (auto simp: bindE_assoc)

lemma foldE_invariant:
  assumes "foldE f s xs = Inr t" and "P s"
    and "\<And>s x s'. P s \<Longrightarrow> x \<in> set xs \<Longrightarrow> f s x = Inr s' \<Longrightarrow> P s'"
  shows "P t"
  using assms
proof (induction xs arbitrary: s)
  case (Cons x xs)
  from Cons.prems(1) obtain s' where s': "f s x = Inr s'" "foldE f s' xs = Inr t"
    by (auto simp: bindE_Inr_iff)
  have "P s'" by (rule Cons.prems(3) [OF Cons.prems(2) _ s'(1)]) simp
  show ?case
  proof (rule Cons.IH [OF s'(2) \<open>P s'\<close>])
    fix s x s' assume "P s" "x \<in> set xs" "f s x = Inr s'"
    then show "P s'" using Cons.prems(3) [of s x s'] by simp
  qed
qed simp

lemmas result_iffs = bindE_Inr_iff bindE_Inl_iff thenE_Inr_iff refuse_Inr_iff refuse_Inl_iff
  eachE_Inr_iff

section \<open>Slices\<close>

text \<open>\<open>slice_of xs a b\<close> is \<open>xs[a:b]\<close> for non-negative bounds; like Python's it clips at the end.\<close>

definition slice_of :: "'a list \<Rightarrow> nat \<Rightarrow> nat \<Rightarrow> 'a list" where
  "slice_of xs a b = take (b - a) (drop a xs)"

lemma slice_of_all [simp]: "slice_of xs 0 (length xs) = xs"
  by (simp add: slice_of_def)

lemma slice_of_empty [simp]: "slice_of xs a a = []"
  by (simp add: slice_of_def)

lemma slice_of_length: "a \<le> b \<Longrightarrow> b \<le> length xs \<Longrightarrow> length (slice_of xs a b) = b - a"
  by (simp add: slice_of_def)

lemma slice_of_slice:
  assumes "a \<le> b" "b \<le> length xs" "i \<le> j" "j \<le> b - a"
  shows "slice_of (slice_of xs a b) i j = slice_of xs (a + i) (a + j)"
proof -
  have "take (j - i) (drop i (take (b - a) (drop a xs))) = take (j - i) (drop (i + a) xs)"
    using assms by (simp add: drop_take)
  then show ?thesis by (simp add: slice_of_def add.commute)
qed

lemma slice_of_append:
  "a \<le> b \<Longrightarrow> b \<le> c \<Longrightarrow> slice_of xs a b @ slice_of xs b c = slice_of xs a c"
proof -
  assume le: "a \<le> b" "b \<le> c"
  have "drop b xs = drop (b - a) (drop a xs)" using le by simp
  moreover have "c - a = (b - a) + (c - b)" using le by simp
  ultimately show ?thesis by (simp add: slice_of_def take_add)
qed

lemma slice_of_nth: "a + i < b \<Longrightarrow> b \<le> length xs \<Longrightarrow> slice_of xs a b ! i = xs ! (a + i)"
  by (simp add: slice_of_def)

section \<open>First-seen duplicates\<close>

text \<open>The duplicate test of the code: a scan with the set of values seen so far.\<close>

fun has_repeat :: "'a list \<Rightarrow> 'a list \<Rightarrow> bool" where
  "has_repeat seen [] = False"
| "has_repeat seen (x # xs) = (if x \<in> set seen then True else has_repeat (x # seen) xs)"

lemma has_repeat_iff: "has_repeat seen xs \<longleftrightarrow> \<not> (distinct xs \<and> set xs \<inter> set seen = {})"
  by (induction xs arbitrary: seen) auto

lemma has_repeat_Nil [simp]: "has_repeat [] xs \<longleftrightarrow> \<not> distinct xs"
  by (simp add: has_repeat_iff)

section \<open>Association lists as Python dicts\<close>

text \<open>\<open>d[k] = v\<close> keeps the position of an existing key and appends a new one.\<close>

fun dict_set :: "('k \<times> 'v) list \<Rightarrow> 'k \<Rightarrow> 'v \<Rightarrow> ('k \<times> 'v) list" where
  "dict_set [] k v = [(k, v)]"
| "dict_set ((k', v') # d) k v = (if k' = k then (k, v) # d else (k', v') # dict_set d k v)"

definition dict_del :: "('k \<times> 'v) list \<Rightarrow> 'k \<Rightarrow> ('k \<times> 'v) list" where
  "dict_del d k = filter (\<lambda>(k', _). k' \<noteq> k) d"

lemma map_of_dict_set [simp]: "map_of (dict_set d k v) = (map_of d)(k \<mapsto> v)"
  by (induction d k v rule: dict_set.induct) (auto simp: fun_eq_iff)

lemma keys_dict_set: "set (map fst (dict_set d k v)) = insert k (set (map fst d))"
  by (induction d k v rule: dict_set.induct) auto

lemma distinct_dict_set: "distinct (map fst d) \<Longrightarrow> distinct (map fst (dict_set d k v))"
proof (induction d k v rule: dict_set.induct)
  case (2 k' v' d k v)
  then show ?case using keys_dict_set [of d k v] by auto
qed simp

lemma map_of_dict_del: "map_of (dict_del d k) = (map_of d)(k := None)"
  by (induction d) (auto simp: dict_del_def fun_eq_iff)

lemma distinct_dict_del: "distinct (map fst d) \<Longrightarrow> distinct (map fst (dict_del d k))"
  unfolding dict_del_def by (rule distinct_map_filter)

lemma keys_dict_del: "set (map fst (dict_del d k)) = set (map fst d) - {k}"
  by (auto simp: dict_del_def)

lemma dict_set_new: "k \<notin> set (map fst d) \<Longrightarrow> dict_set d k v = d @ [(k, v)]"
  by (induction d k v rule: dict_set.induct) auto

section \<open>Strings\<close>

text \<open>\<open>s.split(c)\<close> for a one-character separator, and \<open>c.join(parts)\<close>.\<close>

fun split_on :: "'a \<Rightarrow> 'a list \<Rightarrow> 'a list list" where
  "split_on c [] = [[]]"
| "split_on c (x # xs) =
     (if x = c then [] # split_on c xs
      else (case split_on c xs of [] \<Rightarrow> [[x]] | p # ps \<Rightarrow> (x # p) # ps))"

fun join_with :: "'a list \<Rightarrow> 'a list list \<Rightarrow> 'a list" where
  "join_with sep [] = []"
| "join_with sep [x] = x"
| "join_with sep (x # y # xs) = x @ sep @ join_with sep (y # xs)"

lemma split_on_not_Nil [simp]: "split_on c xs \<noteq> []"
  by (cases xs) (auto split: list.splits)

lemma join_split_on: "join_with [c] (split_on c xs) = xs"
proof (induction xs)
  case (Cons x xs)
  then show ?case by (cases "split_on c xs" rule: remdups_adj.cases) auto
qed simp

lemma split_on_no_sep: "p \<in> set (split_on c xs) \<Longrightarrow> c \<notin> set p"
proof (induction xs arbitrary: p)
  case (Cons x xs)
  then show ?case by (cases "split_on c xs") (auto split: if_splits)
qed simp

lemma split_on_single: "c \<notin> set p \<Longrightarrow> split_on c p = [p]"
  by (induction p) auto

lemma split_on_append_sep: "c \<notin> set p \<Longrightarrow> split_on c (p @ c # xs) = p # split_on c xs"
proof (induction p)
  case (Cons x p)
  then show ?case by auto
qed simp

lemma split_join_with:
  "ps \<noteq> [] \<Longrightarrow> (\<And>p. p \<in> set ps \<Longrightarrow> c \<notin> set p) \<Longrightarrow> split_on c (join_with [c] ps) = ps"
proof (induction "[c]" ps rule: join_with.induct)
  case (2 x)
  then show ?case by (simp add: split_on_single)
next
  case (3 x y xs)
  then show ?case by (simp add: split_on_append_sep)
qed simp

lemma join_with_append:
  "xs \<noteq> [] \<Longrightarrow> ys \<noteq> [] \<Longrightarrow> join_with sep (xs @ ys) = join_with sep xs @ sep @ join_with sep ys"
proof (induction sep xs rule: join_with.induct)
  case (2 sep x)
  then show ?case by (cases ys) auto
qed auto

text \<open>\<open>str.isspace\<close> and \<open>str.strip\<close> on the characters an Isabelle \<open>string\<close> holds.\<close>

definition char_isspace :: "char \<Rightarrow> bool" where
  "char_isspace c = (let n = (of_char c :: nat) in
     9 \<le> n \<and> n \<le> 13 \<or> 28 \<le> n \<and> n \<le> 32 \<or> n = 133 \<or> n = 160)"

definition strip :: "string \<Rightarrow> string" where
  "strip s = rev (dropWhile char_isspace (rev (dropWhile char_isspace s)))"

lemma strip_eq_Nil_iff: "strip s = [] \<longleftrightarrow> list_all char_isspace s"
proof -
  have "strip s = [] \<longleftrightarrow> list_all char_isspace (dropWhile char_isspace s)"
    by (simp add: strip_def list_all_iff)
  also have "\<dots> \<longleftrightarrow> list_all char_isspace s"
    by (induction s) auto
  finally show ?thesis .
qed

definition starts_with :: "'a list \<Rightarrow> 'a list \<Rightarrow> bool" where
  "starts_with p s = (take (length p) s = p)"

definition remove_prefix :: "string \<Rightarrow> string \<Rightarrow> string" where
  "remove_prefix p s = (if starts_with p s then drop (length p) s else s)"

lemma starts_with_append [simp]: "starts_with p (p @ s)"
  by (simp add: starts_with_def)

lemma remove_prefix_append [simp]: "remove_prefix p (p @ s) = s"
  by (simp add: remove_prefix_def)

text \<open>Decimal digits of a number, as \<open>str(n)\<close> prints them.\<close>

fun digits_of_nat :: "nat \<Rightarrow> string" where
  "digits_of_nat n = (if n < 10 then [char_of (48 + n)]
     else digits_of_nat (n div 10) @ [char_of (48 + n mod 10)])"

declare digits_of_nat.simps [simp del]

definition str_of_int :: "int \<Rightarrow> string" where
  "str_of_int i = (if i < 0 then CHR ''-'' # digits_of_nat (nat (- i)) else digits_of_nat (nat i))"

end
