(* ===== verification/Json.thy ===== *)
theory Json
  imports Prelude
begin

text \<open>
  JSON values and the conversions of src/src/docspec/domain/identity.py: the immutable
  form (\<open>freeze_json\<close>, \<open>thaw_json\<close>, the trusted shortcut) and the plain form the
  canonical encoder receives (\<open>_canonical_plain\<close>). A Python string is an Isabelle
  \<open>string\<close>; dict ordering is the order of the association list. The lemmas show that both
  conversions accept the same inputs with the same refusals and differ in key order only.
\<close>

section \<open>Values\<close>

datatype json =
    JNull
  | JBool bool
  | JInt int
  | JStr string
  | JArr "json list"
  | JObj "(string \<times> json) list"

text \<open>
  The Python objects the converters tell apart. \<open>PDict\<close> is an exact dict, \<open>PMapping\<close>
  another Mapping (whose iteration may repeat a key), \<open>PSeq\<close> a tuple or another Sequence,
  \<open>PData\<close> a dataclass instance with the items of its asdict, \<open>PEnum\<close> a member with its
  value. A float keeps only whether it is finite. \<open>POther\<close> carries a type name.
\<close>

datatype pyval =
    PNone
  | PBool bool
  | PInt int
  | PStr string
  | PFloat bool
  | PDict "(pyval \<times> pyval) list"
  | PList "pyval list"
  | PData "(pyval \<times> pyval) list"
  | PEnum pyval
  | PMapping "(pyval \<times> pyval) list"
  | PSeq "pyval list"
  | POther string

text \<open>The immutable value: tuples and read-only mappings over the same scalars.\<close>

datatype frozen =
    FNull
  | FBool bool
  | FInt int
  | FStr string
  | FTuple "frozen list"
  | FMap "(string \<times> frozen) list"

section \<open>The converters\<close>

definition float_refusal :: "string \<Rightarrow> bool \<Rightarrow> error" where
  "float_refusal label fin =
     (if \<not> fin then ValueError (label @ '' contains a non-finite number'')
      else ValueError (label @
        '' contains a floating-point number; use an integer unit or decimal string''))"

fun freeze_checked :: "string \<Rightarrow> pyval \<Rightarrow> frozen result"
  and freeze_items :: "string \<Rightarrow> bool \<Rightarrow> string list \<Rightarrow> (pyval \<times> pyval) list
        \<Rightarrow> (string \<times> frozen) list result"
  and freeze_list :: "string \<Rightarrow> pyval list \<Rightarrow> frozen list result" where
  "freeze_checked label PNone = Inr FNull"
| "freeze_checked label (PBool b) = Inr (FBool b)"
| "freeze_checked label (PInt i) = Inr (FInt i)"
| "freeze_checked label (PStr s) = Inr (FStr s)"
| "freeze_checked label (PFloat fin) = Inl (float_refusal label fin)"
| "freeze_checked label (PDict kvs) =
     bindE (freeze_items label False [] kvs) (\<lambda>fs. Inr (FMap (sort_key fst fs)))"
| "freeze_checked label (PList xs) = bindE (freeze_list label xs) (\<lambda>fs. Inr (FTuple fs))"
| "freeze_checked label (PData kvs) =
     bindE (freeze_items label False [] kvs) (\<lambda>fs. Inr (FMap (sort_key fst fs)))"
| "freeze_checked label (PEnum v) = freeze_checked label v"
| "freeze_checked label (PMapping kvs) =
     bindE (freeze_items label True [] kvs) (\<lambda>fs. Inr (FMap (sort_key fst fs)))"
| "freeze_checked label (PSeq xs) = bindE (freeze_list label xs) (\<lambda>fs. Inr (FTuple fs))"
| "freeze_checked label (POther t) = Inl (ValueError (label @ '' contains unsupported type '' @ t))"
| "freeze_items label abstract seen [] = Inr []"
| "freeze_items label abstract seen ((k, v) # kvs) =
     (case k of
        PStr key \<Rightarrow>
          (if abstract \<and> key \<in> set seen
           then Inl (ValueError (label @ '' contains a duplicate key: '' @ key))
           else bindE (freeze_checked (label @ ''.'' @ key) v) (\<lambda>f.
                bindE (freeze_items label abstract (key # seen) kvs) (\<lambda>fs. Inr ((key, f) # fs))))
      | _ \<Rightarrow> Inl (ValueError (label @ '' contains a non-string object key'')))"
| "freeze_list label [] = Inr []"
| "freeze_list label (x # xs) =
     bindE (freeze_checked (label @ ''[]'') x) (\<lambda>f.
     bindE (freeze_list label xs) (\<lambda>fs. Inr (f # fs)))"

fun canonical_plain_checked :: "string \<Rightarrow> pyval \<Rightarrow> json result"
  and plain_items :: "string \<Rightarrow> bool \<Rightarrow> string list \<Rightarrow> (pyval \<times> pyval) list
        \<Rightarrow> (string \<times> json) list result"
  and plain_list :: "string \<Rightarrow> pyval list \<Rightarrow> json list result" where
  "canonical_plain_checked label PNone = Inr JNull"
| "canonical_plain_checked label (PBool b) = Inr (JBool b)"
| "canonical_plain_checked label (PInt i) = Inr (JInt i)"
| "canonical_plain_checked label (PStr s) = Inr (JStr s)"
| "canonical_plain_checked label (PFloat fin) = Inl (float_refusal label fin)"
| "canonical_plain_checked label (PDict kvs) =
     bindE (plain_items label False [] kvs) (\<lambda>js. Inr (JObj js))"
| "canonical_plain_checked label (PList xs) = bindE (plain_list label xs) (\<lambda>js. Inr (JArr js))"
| "canonical_plain_checked label (PData kvs) =
     bindE (plain_items label False [] kvs) (\<lambda>js. Inr (JObj js))"
| "canonical_plain_checked label (PEnum v) = canonical_plain_checked label v"
| "canonical_plain_checked label (PMapping kvs) =
     bindE (plain_items label True [] kvs) (\<lambda>js. Inr (JObj js))"
| "canonical_plain_checked label (PSeq xs) = bindE (plain_list label xs) (\<lambda>js. Inr (JArr js))"
| "canonical_plain_checked label (POther t) =
     Inl (ValueError (label @ '' contains unsupported type '' @ t))"
| "plain_items label abstract seen [] = Inr []"
| "plain_items label abstract seen ((k, v) # kvs) =
     (case k of
        PStr key \<Rightarrow>
          (if abstract \<and> key \<in> set seen
           then Inl (ValueError (label @ '' contains a duplicate key: '' @ key))
           else bindE (canonical_plain_checked (label @ ''.'' @ key) v) (\<lambda>j.
                bindE (plain_items label abstract (key # seen) kvs) (\<lambda>js. Inr ((key, j) # js))))
      | _ \<Rightarrow> Inl (ValueError (label @ '' contains a non-string object key'')))"
| "plain_list label [] = Inr []"
| "plain_list label (x # xs) =
     bindE (canonical_plain_checked (label @ ''[]'') x) (\<lambda>j.
     bindE (plain_list label xs) (\<lambda>js. Inr (j # js)))"

fun thaw_json :: "frozen \<Rightarrow> json" where
  "thaw_json FNull = JNull"
| "thaw_json (FBool b) = JBool b"
| "thaw_json (FInt i) = JInt i"
| "thaw_json (FStr s) = JStr s"
| "thaw_json (FTuple fs) = JArr (map thaw_json fs)"
| "thaw_json (FMap kvs) = JObj (map (\<lambda>kv. (fst kv, thaw_json (snd kv))) kvs)"

text \<open>Inside \<open>trusted_json_input\<close> a value decoded from admitted bytes is only wrapped.\<close>

fun wrap_trusted :: "json \<Rightarrow> frozen" where
  "wrap_trusted JNull = FNull"
| "wrap_trusted (JBool b) = FBool b"
| "wrap_trusted (JInt i) = FInt i"
| "wrap_trusted (JStr s) = FStr s"
| "wrap_trusted (JArr js) = FTuple (map wrap_trusted js)"
| "wrap_trusted (JObj kvs) = FMap (map (\<lambda>kv. (fst kv, wrap_trusted (snd kv))) kvs)"

text \<open>A decoded JSON value as the Python object it is.\<close>

fun python_of :: "json \<Rightarrow> pyval" where
  "python_of JNull = PNone"
| "python_of (JBool b) = PBool b"
| "python_of (JInt i) = PInt i"
| "python_of (JStr s) = PStr s"
| "python_of (JArr js) = PList (map python_of js)"
| "python_of (JObj kvs) = PDict (map (\<lambda>kv. (PStr (fst kv), python_of (snd kv))) kvs)"

text \<open>The first argument is the value of the context variable \<open>_TRUSTED_JSON_INPUT\<close>.\<close>

definition freeze_json :: "bool \<Rightarrow> string \<Rightarrow> json \<Rightarrow> frozen result" where
  "freeze_json trusted label value =
     (if trusted then Inr (wrap_trusted value) else freeze_checked label (python_of value))"

definition canonical_plain :: "bool \<Rightarrow> string \<Rightarrow> json \<Rightarrow> json result" where
  "canonical_plain trusted label value =
     (if trusted then Inr value else canonical_plain_checked label (python_of value))"

section \<open>Key order\<close>

text \<open>
  The reference notion: \<open>key_sorted\<close> puts the keys of every object in ascending order, and
  \<open>in_key_order\<close> says that they already are. \<open>unique_keys\<close> is what a decoded dict has.
\<close>

fun key_sorted :: "json \<Rightarrow> json" where
  "key_sorted (JArr js) = JArr (map key_sorted js)"
| "key_sorted (JObj kvs) = JObj (sort_key fst (map (\<lambda>kv. (fst kv, key_sorted (snd kv))) kvs))"
| "key_sorted j = j"

fun in_key_order :: "json \<Rightarrow> bool" where
  "in_key_order (JArr js) = list_all in_key_order js"
| "in_key_order (JObj kvs) = (sorted (map fst kvs) \<and> list_all (\<lambda>kv. in_key_order (snd kv)) kvs)"
| "in_key_order j = True"

fun unique_keys :: "json \<Rightarrow> bool" where
  "unique_keys (JArr js) = list_all unique_keys js"
| "unique_keys (JObj kvs) = (distinct (map fst kvs) \<and> list_all (\<lambda>kv. unique_keys (snd kv)) kvs)"
| "unique_keys j = True"

abbreviation thaw_pair :: "string \<times> frozen \<Rightarrow> string \<times> json" where
  "thaw_pair kv \<equiv> (fst kv, thaw_json (snd kv))"

abbreviation sort_pair :: "string \<times> json \<Rightarrow> string \<times> json" where
  "sort_pair kv \<equiv> (fst kv, key_sorted (snd kv))"

lemma map_insort_key_compat:
  "(\<And>x. f (g x) = f' x) \<Longrightarrow> map g (insort_key f' x xs) = insort_key f (g x) (map g xs)"
  by (induction xs) auto

lemma map_sort_key_compat:
  assumes "\<And>x. f (g x) = f' x"
  shows "map g (sort_key f' xs) = sort_key f (map g xs)"
proof (induction xs)
  case (Cons x xs)
  then show ?case using map_insort_key_compat [of f g f', OF assms] by simp
qed simp

lemma sort_key_fst_map:
  "map (\<lambda>kv. (fst kv, h (snd kv))) (sort_key fst kvs) = sort_key fst (map (\<lambda>kv. (fst kv, h (snd kv))) kvs)"
  by (rule map_sort_key_compat) simp

lemma key_sorted_in_key_order: "in_key_order (key_sorted j)"
proof (induction j rule: key_sorted.induct)
  case (2 kvs)
  have "list_all (\<lambda>kv. in_key_order (snd kv)) (map (\<lambda>kv. (fst kv, key_sorted (snd kv))) kvs)"
    using 2 by (auto simp: list_all_iff)
  then show ?case by (simp add: list_all_iff)
qed (auto simp: list_all_iff)

lemma key_sorted_ident: "in_key_order j \<Longrightarrow> key_sorted j = j"
proof (induction j rule: key_sorted.induct)
  case (1 js)
  then show ?case by (auto simp: list_all_iff map_idI)
next
  case (2 kvs)
  then have "map (\<lambda>kv. (fst kv, key_sorted (snd kv))) kvs = kvs"
    by (intro map_idI) (auto simp: list_all_iff)
  with 2 show ?case by (simp add: sort_key_id_if_sorted)
qed auto


section \<open>The two conversions agree\<close>

lemma thaw_sorted_items:
  "map thaw_pair fs = map sort_pair js \<Longrightarrow>
     thaw_json (FMap (sort_key fst fs)) = key_sorted (JObj js)"
  by (simp add: sort_key_fst_map [where h = thaw_json])

lemma map_sum_bindE_cong:
  assumes "map_sum id f m = map_sum id g n"
    and "\<And>x y. m = Inr x \<Longrightarrow> n = Inr y \<Longrightarrow> f x = g y \<Longrightarrow> map_sum id h (k x) = map_sum id h' (k' y)"
  shows "map_sum id h (bindE m k) = map_sum id h' (bindE n k')"
  using assms by (cases m; cases n) auto

text \<open>
  Both walk the value in the same order, so they raise the same exception; on success the
  thawed immutable value is the plain value with the keys of every object sorted.
\<close>

lemma freeze_plain_agree:
  "map_sum id thaw_json (freeze_checked label v) = map_sum id key_sorted (canonical_plain_checked label v)"
  "map_sum id (map thaw_pair) (freeze_items label abstract seen kvs)
     = map_sum id (map sort_pair) (plain_items label abstract seen kvs)"
  "map_sum id (map thaw_json) (freeze_list label xs) = map_sum id (map key_sorted) (plain_list label xs)"
proof (induction label v and label abstract seen kvs and label xs
    rule: freeze_checked_freeze_items_freeze_list.induct)
  case (6 label kvs)
  show ?case unfolding freeze_checked.simps canonical_plain_checked.simps
    by (rule map_sum_bindE_cong [OF 6]) (simp add: thaw_sorted_items del: thaw_json.simps key_sorted.simps)
next
  case (7 label xs)
  show ?case unfolding freeze_checked.simps canonical_plain_checked.simps
    by (rule map_sum_bindE_cong [OF 7]) simp
next
  case (8 label kvs)
  show ?case unfolding freeze_checked.simps canonical_plain_checked.simps
    by (rule map_sum_bindE_cong [OF 8]) (simp add: thaw_sorted_items del: thaw_json.simps key_sorted.simps)
next
  case (10 label kvs)
  show ?case unfolding freeze_checked.simps canonical_plain_checked.simps
    by (rule map_sum_bindE_cong [OF 10]) (simp add: thaw_sorted_items del: thaw_json.simps key_sorted.simps)
next
  case (11 label xs)
  show ?case unfolding freeze_checked.simps canonical_plain_checked.simps
    by (rule map_sum_bindE_cong [OF 11]) simp
next
  case (14 label abstract seen k v kvs)
  show ?case
  proof (cases k)
    case (PStr key)
    show ?thesis
    proof (cases "abstract \<and> key \<in> set seen")
      case False
      from PStr False have IH:
        "map_sum id thaw_json (freeze_checked (label @ ''.'' @ key) v)
           = map_sum id key_sorted (canonical_plain_checked (label @ ''.'' @ key) v)"
        using 14(1) [of key] by (auto simp: id_def)
      have IH2: "map_sum id (map thaw_pair) (freeze_items label abstract (key # seen) kvs)
           = map_sum id (map sort_pair) (plain_items label abstract (key # seen) kvs)"
        if "freeze_checked (label @ ''.'' @ key) v = Inr f" for f
        using 14(2) [of key f] PStr False that by (auto simp: id_def)
      have "map_sum id (map thaw_pair)
           (bindE (freeze_checked (label @ ''.'' @ key) v) (\<lambda>f.
              bindE (freeze_items label abstract (key # seen) kvs) (\<lambda>fs. Inr ((key, f) # fs))))
         = map_sum id (map sort_pair)
           (bindE (canonical_plain_checked (label @ ''.'' @ key) v) (\<lambda>j.
              bindE (plain_items label abstract (key # seen) kvs) (\<lambda>js. Inr ((key, j) # js))))"
        by (rule map_sum_bindE_cong [OF IH], rule map_sum_bindE_cong [OF IH2]) simp_all
      with PStr False show ?thesis by (auto simp: id_def)
    qed (use PStr in auto)
  qed auto
next
  case (16 label x xs)
  show ?case unfolding freeze_list.simps plain_list.simps
    by (rule map_sum_bindE_cong [OF 16(1)], rule map_sum_bindE_cong [OF 16(2)]) simp_all
qed simp_all

lemma freeze_checked_sorted:
  assumes "freeze_checked label v = Inr f"
  shows "in_key_order (thaw_json f)"
proof -
  from assms freeze_plain_agree(1) [of label v]
  obtain j where "thaw_json f = key_sorted j"
    by (cases "canonical_plain_checked label v") auto
  then show ?thesis by (simp add: key_sorted_in_key_order)
qed

lemma plain_items_python_of:
  assumes "\<And>kv l. kv \<in> set kvs \<Longrightarrow> canonical_plain_checked l (python_of (snd kv)) = Inr (snd kv)"
  shows "plain_items label False seen (map (\<lambda>kv. (PStr (fst kv), python_of (snd kv))) kvs) = Inr kvs"
  using assms by (induction kvs arbitrary: seen) auto

lemma plain_list_python_of:
  assumes "\<And>j l. j \<in> set js \<Longrightarrow> canonical_plain_checked l (python_of j) = Inr j"
  shows "plain_list label (map python_of js) = Inr js"
  using assms by (induction js) auto

lemma plain_python_of: "canonical_plain_checked label (python_of j) = Inr j"
proof (induction j arbitrary: label rule: python_of.induct)
  case (5 js)
  then show ?case by (simp add: plain_list_python_of)
next
  case (6 kvs)
  have "plain_items label False [] (map (\<lambda>kv. (PStr (fst kv), python_of (snd kv))) kvs) = Inr kvs"
    by (rule plain_items_python_of) (use 6 in force)
  then show ?case by simp
qed simp_all

lemma thaw_wrap_trusted: "thaw_json (wrap_trusted j) = j"
  by (induction j rule: wrap_trusted.induct) (auto intro!: map_idI)

lemma wrap_thaw: "wrap_trusted (thaw_json f) = f"
  by (induction f rule: thaw_json.induct) (auto intro!: map_idI)

lemma thaw_json_inject: "thaw_json f = thaw_json g \<longleftrightarrow> f = g"
  by (metis wrap_thaw)

lemma freeze_json_cases:
  "freeze_json trusted label j = Inr f \<Longrightarrow> thaw_json f = (if trusted then j else key_sorted j)"
  using freeze_plain_agree(1) [of label "python_of j"]
  by (auto simp: freeze_json_def plain_python_of thaw_wrap_trusted)

lemma freeze_json_total: "\<exists>f. freeze_json trusted label j = Inr f"
  using freeze_plain_agree(1) [of label "python_of j"]
  by (cases "freeze_checked label (python_of j)") (auto simp: freeze_json_def plain_python_of)

text \<open>\<open>thaw_json(freeze_json(value))\<close>, the detached copy the records keep of a JSON argument.\<close>

definition detached :: "string \<Rightarrow> json \<Rightarrow> json result" where
  "detached label value = bindE (freeze_json False label value) (\<lambda>f. Inr (thaw_json f))"

lemma detached_eq [simp]: "detached label j = Inr (key_sorted j)"
proof -
  obtain f where f: "freeze_json False label j = Inr f" using freeze_json_total by blast
  then have "thaw_json f = key_sorted j" using freeze_json_cases by fastforce
  with f show ?thesis by (simp add: detached_def)
qed

lemma key_sorted_idem [simp]: "key_sorted (key_sorted j) = key_sorted j"
  by (rule key_sorted_ident [OF key_sorted_in_key_order])

end
