(* ===== verification/Identity.thy ===== *)
theory Identity
  imports Json "HOL-Library.Word"
begin

text \<open>
  Identities of src/src/docspec/domain/identity.py: the text, digest and path checks, the
  closed-shape check, digests of canonical bytes, content URNs, and the incremental array
  digester. The canonical encoder and decoder (the package rulespec_artifacts) and SHA-256
  are the fields of a \<^theory_text>\<open>platform\<close> record that every definition using them takes.
\<close>

type_synonym byte = "8 word"
type_synonym bytes = "byte list"

definition ascii_bytes :: "string \<Rightarrow> bytes" where
  "ascii_bytes s = map of_char s"

section \<open>The imported functions\<close>

text \<open>
  \<open>canonical\<close> is \<open>rulespec_artifacts.canonical_json_bytes\<close>, \<open>parse_canonical\<close> is
  \<open>rulespec_artifacts.parse_canonical_json\<close>, \<open>sha256_hex\<close> is the hexadecimal SHA-256 of
  hashlib. docs/canonical-json.md states what the first two do. \<open>from_isoformat\<close> is
  \<open>datetime.fromisoformat\<close>: the proleptic day number and clock fields of the parsed value
  and its offset from UTC in microseconds, if it states one.
\<close>

record iso_moment =
  im_ordinal :: int
  im_hour :: int
  im_minute :: int
  im_second :: int
  im_microsecond :: int
  im_utcoffset :: "int option"

record platform =
  canonical :: "json \<Rightarrow> bytes result"
  parse_canonical :: "bytes \<Rightarrow> json result"
  sha256_hex :: "bytes \<Rightarrow> string"
  from_isoformat :: "string \<Rightarrow> iso_moment option"

definition is_hex :: "char \<Rightarrow> bool" where
  "is_hex c = (c \<in> set ''0123456789abcdef'')"

text \<open>Documented facts the code relies on, used as named hypotheses.\<close>

definition hex_documented :: "platform \<Rightarrow> bool" where
  "hex_documented P = (\<forall>b. length (sha256_hex P b) = 64 \<and> list_all is_hex (sha256_hex P b))"

definition array_framing_documented :: "platform \<Rightarrow> bool" where
  "array_framing_documented P = (\<forall>js. canonical P (JArr js) =
     bindE (mapE (canonical P) js)
       (\<lambda>bs. Inr (ascii_bytes ''['' @ join_with (ascii_bytes '','') bs @ ascii_bytes '']'')))"

text \<open>Two values have the same canonical bytes exactly when they differ in key order only.\<close>

definition canonical_documented :: "platform \<Rightarrow> bool" where
  "canonical_documented P = (\<forall>j k b. canonical P j = Inr b \<longrightarrow>
     (canonical P k = Inr b \<longleftrightarrow> key_sorted j = key_sorted k))"

text \<open>The decoder inverts the encoder up to the key order of objects.\<close>

definition parse_documented :: "platform \<Rightarrow> bool" where
  "parse_documented P = (\<forall>j b. canonical P j = Inr b \<longrightarrow> parse_canonical P b = Inr (key_sorted j))"

section \<open>Checks\<close>

definition require_text :: "json \<Rightarrow> string \<Rightarrow> string result" where
  "require_text value label =
     (case value of
        JStr s \<Rightarrow> if strip s = [] then Inl (ValueError (label @ '' must be a non-empty string''))
                  else Inr s
      | _ \<Rightarrow> Inl (ValueError (label @ '' must be a non-empty string'')))"

text \<open>The full match of \<open>_SHA256_RE\<close>.\<close>

definition is_sha256 :: "string \<Rightarrow> bool" where
  "is_sha256 s = (starts_with ''sha256:'' s \<and> length s = 71 \<and> list_all is_hex (drop 7 s))"

definition require_sha256 :: "json \<Rightarrow> string \<Rightarrow> string result" where
  "require_sha256 value label =
     (case value of
        JStr s \<Rightarrow> if \<not> is_sha256 s
                  then Inl (ValueError (label @
                    '' must be sha256 followed by 64 lowercase hexadecimal characters''))
                  else Inr s
      | _ \<Rightarrow> Inl (ValueError (label @
                    '' must be sha256 followed by 64 lowercase hexadecimal characters'')))"

text \<open>The parts of a relative PurePosixPath: empty and \<open>.\<close> components disappear.\<close>

definition posix_parts :: "string \<Rightarrow> string list" where
  "posix_parts s = filter (\<lambda>p. p \<noteq> [] \<and> p \<noteq> ''.'') (split_on (CHR ''/'') s)"

definition require_relative_path :: "json \<Rightarrow> string \<Rightarrow> string result" where
  "require_relative_path value label =
     bindE (require_text value label) (\<lambda>s.
       let parts = posix_parts s in
       if starts_with ''/'' s \<or> parts = [] \<or> ''..'' \<in> set parts
       then Inl (ValueError (label @ '' must be a contained relative path''))
       else Inr (join_with ''/'' parts))"

text \<open>\<open>closed_mapping\<close>: \<open>e\<close> is the exception class, applied to the message.\<close>

definition closed_mapping ::
    "(string \<Rightarrow> error) \<Rightarrow> json \<Rightarrow> string list \<Rightarrow> string \<Rightarrow> (string \<times> json) list result" where
  "closed_mapping e value keys label =
     (case value of
        JObj kvs \<Rightarrow> if set (map fst kvs) \<noteq> set keys
                    then Inl (e (label @ '' has an invalid closed shape'')) else Inr kvs
      | _ \<Rightarrow> Inl (e (label @ '' has an invalid closed shape'')))"

section \<open>Digests and URNs\<close>

definition canonical_json_bytes :: "platform \<Rightarrow> pyval \<Rightarrow> bytes result" where
  "canonical_json_bytes P value =
     bindE (canonical_plain_checked ''value'' value) (canonical P)"

definition canonical_value_bytes :: "platform \<Rightarrow> json \<Rightarrow> bytes result" where
  "canonical_value_bytes P value = canonical P value"

definition snapshot_json_value :: "platform \<Rightarrow> json \<Rightarrow> string \<Rightarrow> json result" where
  "snapshot_json_value P value label =
     (case canonical_value_bytes P value of
        Inl e \<Rightarrow> Inl (IntegrityError (label @ '' is outside its JSON codec''))
      | Inr payload \<Rightarrow>
          (case parse_canonical P payload of
             Inl e \<Rightarrow> Inl (IntegrityError (label @ '' is not canonical JSON''))
           | Inr j \<Rightarrow> Inr j))"

definition decode_canonical_json_value :: "platform \<Rightarrow> bytes \<Rightarrow> string \<Rightarrow> json result" where
  "decode_canonical_json_value P data label =
     (case parse_canonical P data of
        Inl e \<Rightarrow> Inl (IntegrityError (label @ '' is not canonical JSON''))
      | Inr j \<Rightarrow> Inr j)"

definition sha256_digest :: "platform \<Rightarrow> bytes \<Rightarrow> string" where
  "sha256_digest P data = ''sha256:'' @ sha256_hex P data"

definition identity_digest :: "platform \<Rightarrow> json \<Rightarrow> string result" where
  "identity_digest P value =
     bindE (canonical_json_bytes P (python_of value)) (\<lambda>b. Inr (sha256_digest P b))"

text \<open>The full match of \<open>_URN_PART_RE\<close>.\<close>

definition is_urn_part :: "string \<Rightarrow> bool" where
  "is_urn_part s = (case s of [] \<Rightarrow> False
     | c # cs \<Rightarrow> c \<in> set ''abcdefghijklmnopqrstuvwxyz'' \<and>
         list_all (\<lambda>d. d \<in> set ''abcdefghijklmnopqrstuvwxyz0123456789-'') cs)"

definition stable_urn :: "platform \<Rightarrow> string \<Rightarrow> json \<Rightarrow> string result" where
  "stable_urn P kind value =
     bindE (require_text (JStr kind) ''identity kind'') (\<lambda>kind.
     if \<not> is_urn_part kind
     then Inl (ValueError ''identity kind must use lowercase letters, digits, and hyphens'')
     else bindE (identity_digest P value) (\<lambda>digest.
          Inr (''urn:docspec:'' @ kind @ '':v'' @ str_of_int 1 @ '':'' @
               remove_prefix ''sha256:'' digest)))"

section \<open>The incremental array digester\<close>

text \<open>
  \<open>OrderedJsonSequenceDigester\<close>. The hash object is the bytes fed to it so far.
\<close>

record digester =
  dg_fed :: bytes
  dg_finished :: bool
  dg_first :: bool
  dg_result :: "string option"
  dg_ending :: bytes
  dg_byte_size :: nat

definition digester_new :: "platform \<Rightarrow> json list option \<Rightarrow> digester result" where
  "digester_new P prefix =
     bindE (case prefix of None \<Rightarrow> Inr (ascii_bytes ''['')
            | Some p \<Rightarrow> bindE (canonical_json_bytes P (python_of (JArr p))) (\<lambda>b.
                Inr (butlast b @ (if p \<noteq> [] then ascii_bytes '',['' else ascii_bytes ''[''))))
       (\<lambda>opening. Inr \<lparr>dg_fed = opening, dg_finished = False, dg_first = True, dg_result = None,
          dg_ending = (if prefix = None then ascii_bytes '']'' else ascii_bytes '']]''),
          dg_byte_size = length opening\<rparr>)"

definition accept_admitted_payload :: "digester \<Rightarrow> bytes \<Rightarrow> digester result" where
  "accept_admitted_payload d payload =
     (if dg_finished d
      then Inl (RuntimeError ''ordered JSON sequence digest is already complete'')
      else let sep = (if \<not> dg_first d then ascii_bytes '','' else []) in
        Inr (d\<lparr>dg_fed := dg_fed d @ sep @ payload,
               dg_byte_size := dg_byte_size d + length sep + length payload,
               dg_first := False\<rparr>))"

definition accept_admitted_batch :: "digester \<Rightarrow> bytes list \<Rightarrow> digester result" where
  "accept_admitted_batch d payloads =
     (if dg_finished d
      then Inl (RuntimeError ''ordered JSON sequence digest is already complete'')
      else if payloads \<noteq> [] then accept_admitted_payload d (join_with (ascii_bytes '','') payloads)
      else Inr d)"

definition accept_value :: "platform \<Rightarrow> digester \<Rightarrow> json \<Rightarrow> digester result" where
  "accept_value P d value =
     bindE (canonical_json_bytes P (python_of value)) (accept_admitted_payload d)"

text \<open>\<open>finish\<close> returns the digest and the object after the call.\<close>

definition digester_finish :: "platform \<Rightarrow> digester \<Rightarrow> string option \<times> digester" where
  "digester_finish P d =
     (let d' = (if \<not> dg_finished d
        then d\<lparr>dg_fed := dg_fed d @ dg_ending d,
               dg_byte_size := dg_byte_size d + length (dg_ending d),
               dg_result := Some (''sha256:'' @ sha256_hex P (dg_fed d @ dg_ending d)),
               dg_finished := True\<rparr>
        else d)
      in (dg_result d', d'))"

definition ordered_json_sequence_digest :: "platform \<Rightarrow> json list \<Rightarrow> string option result" where
  "ordered_json_sequence_digest P values =
     bindE (digester_new P None) (\<lambda>d.
     bindE (foldE (accept_value P) d values) (\<lambda>d. Inr (fst (digester_finish P d))))"

text \<open>A run of the two framing calls, for statements about any mixture of them.\<close>

datatype framing_call = OnePayload bytes | PayloadBatch "bytes list"

fun framing_step :: "digester \<Rightarrow> framing_call \<Rightarrow> digester result" where
  "framing_step d (OnePayload p) = accept_admitted_payload d p"
| "framing_step d (PayloadBatch ps) = accept_admitted_batch d ps"

fun call_payloads :: "framing_call \<Rightarrow> bytes list" where
  "call_payloads (OnePayload p) = [p]"
| "call_payloads (PayloadBatch ps) = ps"

section \<open>Lemmas\<close>

lemma require_text_ok_iff: "require_text (JStr s) label = Inr t \<longleftrightarrow> t = s \<and> strip s \<noteq> []"
  by (auto simp: require_text_def)

lemma require_text_value: "require_text v label = Inr t \<Longrightarrow> v = JStr t \<and> strip t \<noteq> []"
  by (auto simp: require_text_def split: json.splits if_splits)

lemma require_sha256_ok_iff: "require_sha256 (JStr s) label = Inr t \<longleftrightarrow> t = s \<and> is_sha256 s"
  by (auto simp: require_sha256_def)

lemma sha256_digest_form: "hex_documented P \<Longrightarrow> is_sha256 (sha256_digest P b)"
  by (simp add: is_sha256_def sha256_digest_def hex_documented_def starts_with_def)

lemma canonical_json_bytes_json [simp]: "canonical_json_bytes P (python_of j) = canonical P j"
  by (simp add: canonical_json_bytes_def plain_python_of)

lemma identity_digest_eq: "identity_digest P j = bindE (canonical P j) (\<lambda>b. Inr (sha256_digest P b))"
  by (simp add: identity_digest_def)

lemma stable_urn_eq:
  assumes "is_urn_part kind" "strip kind \<noteq> []"
  shows "stable_urn P kind j = bindE (canonical P j)
           (\<lambda>b. Inr (''urn:docspec:'' @ kind @ '':v1:'' @ sha256_hex P b))"
proof -
  have "str_of_int 1 = ''1''"
    by code_simp
  moreover have "remove_prefix ''sha256:'' (sha256_digest P b) = sha256_hex P b" for b
    by (simp only: sha256_digest_def remove_prefix_append)
  ultimately show ?thesis using assms
    by (simp add: stable_urn_def require_text_def identity_digest_eq bindE_assoc del: append_assoc)
qed

lemma snapshot_json_value_eq:
  assumes "parse_documented P" "canonical P j = Inr b"
  shows "snapshot_json_value P j label = Inr (key_sorted j)"
  using assms by (simp add: snapshot_json_value_def canonical_value_bytes_def parse_documented_def)

text \<open>A component of an accepted path is never empty, \<open>.\<close> or \<open>..\<close>.\<close>

lemma posix_parts_no_slash: "p \<in> set (posix_parts s) \<Longrightarrow> CHR ''/'' \<notin> set p \<and> p \<noteq> [] \<and> p \<noteq> ''.''"
  using split_on_no_sep [of p "CHR ''/''" s] by (auto simp: posix_parts_def)

lemma posix_parts_join:
  assumes "parts \<noteq> []" "\<And>p. p \<in> set parts \<Longrightarrow> CHR ''/'' \<notin> set p \<and> p \<noteq> [] \<and> p \<noteq> ''.''"
  shows "posix_parts (join_with ''/'' parts) = parts"
proof -
  have "split_on (CHR ''/'') (join_with ''/'' parts) = parts"
    using assms by (intro split_join_with) auto
  then show ?thesis using assms(2) by (auto simp: posix_parts_def intro: filter_True)
qed

lemma join_with_hd:
  "parts \<noteq> [] \<Longrightarrow> hd parts \<noteq> [] \<Longrightarrow> hd (join_with sep parts) = hd (hd parts) \<and> join_with sep parts \<noteq> []"
  by (cases parts rule: remdups_adj.cases) auto

text \<open>An accepted relative path is contained, portable, and its own normal form.\<close>

lemma relative_path_normal:
  assumes "require_relative_path v label = Inr p"
  shows "posix_parts p \<noteq> [] \<and> ''..'' \<notin> set (posix_parts p) \<and> \<not> starts_with ''/'' p
     \<and> p = join_with ''/'' (posix_parts p)"
proof -
  from assms obtain s where s: "require_text v label = Inr s" and np: "posix_parts s \<noteq> []"
    "''..'' \<notin> set (posix_parts s)" and p: "p = join_with ''/'' (posix_parts s)"
    by (auto simp: require_relative_path_def bindE_Inr_iff Let_def split: if_splits)
  have pp: "posix_parts p = posix_parts s"
    unfolding p by (rule posix_parts_join [OF np(1)]) (rule posix_parts_no_slash)
  have h: "hd (posix_parts s) \<in> set (posix_parts s)" using np(1) by simp
  then have "hd (hd (posix_parts s)) \<noteq> CHR ''/''" "hd (posix_parts s) \<noteq> []"
    using posix_parts_no_slash by (metis hd_in_set)+
  then have "hd p \<noteq> CHR ''/''" "p \<noteq> []" using join_with_hd [OF np(1)] p by auto
  then have "\<not> starts_with ''/'' p" by (cases p) (auto simp: starts_with_def)
  with pp np p show ?thesis by simp
qed

lemma require_text_strip_join:
  assumes "p = join_with ''/'' parts" "parts \<noteq> []" "strip p \<noteq> []"
  shows "require_text (JStr p) label = Inr p"
  using assms by (simp add: require_text_def)

subsection \<open>Framing\<close>

text \<open>An object no payload has reached, and the state after the payloads \<open>ps\<close>.\<close>

definition digester_open :: "digester \<Rightarrow> bool" where
  "digester_open d \<longleftrightarrow> \<not> dg_finished d \<and> dg_first d \<and> dg_byte_size d = length (dg_fed d)"

definition framed :: "digester \<Rightarrow> digester \<Rightarrow> bytes list \<Rightarrow> bool" where
  "framed d0 d ps \<longleftrightarrow>
     dg_fed d = dg_fed d0 @ join_with (ascii_bytes '','') ps \<and> dg_first d = (ps = [])
     \<and> \<not> dg_finished d \<and> dg_ending d = dg_ending d0 \<and> dg_byte_size d = length (dg_fed d)"

lemma digester_new_open: "digester_new P prefix = Inr d \<Longrightarrow> digester_open d"
  by (auto simp: digester_new_def digester_open_def bindE_Inr_iff)

lemma framed_start: "digester_open d \<Longrightarrow> framed d d []"
  by (simp add: framed_def digester_open_def)

lemma framed_payload:
  assumes "framed d0 d ps"
  shows "\<exists>d'. accept_admitted_payload d (join_with (ascii_bytes '','') qs) = Inr d' \<and>
           (qs \<noteq> [] \<longrightarrow> framed d0 d' (ps @ qs))"
proof (cases "ps = []")
  case True
  then show ?thesis using assms by (auto simp: accept_admitted_payload_def framed_def)
next
  case False
  then show ?thesis using assms
    by (auto simp: accept_admitted_payload_def framed_def join_with_append Let_def)
qed

lemma framed_call:
  assumes "framed d0 d ps"
  shows "\<exists>d'. framing_step d c = Inr d' \<and> framed d0 d' (ps @ call_payloads c)"
proof (cases c)
  case (OnePayload p)
  then show ?thesis using framed_payload [OF assms, of "[p]"] by auto
next
  case (PayloadBatch qs)
  show ?thesis
  proof (cases "qs = []")
    case True
    then show ?thesis using assms PayloadBatch by (auto simp: accept_admitted_batch_def framed_def)
  next
    case False
    moreover have "\<not> dg_finished d" using assms by (simp add: framed_def)
    ultimately show ?thesis using framed_payload [OF assms, of qs] PayloadBatch
      by (auto simp: accept_admitted_batch_def)
  qed
qed

lemma framed_calls:
  "framed d0 d ps \<Longrightarrow>
     \<exists>d'. foldE framing_step d calls = Inr d' \<and> framed d0 d' (ps @ concat (map call_payloads calls))"
proof (induction calls arbitrary: d ps)
  case (Cons c calls)
  obtain d1 where "framing_step d c = Inr d1" "framed d0 d1 (ps @ call_payloads c)"
    using framed_call [OF Cons.prems] by blast
  with Cons.IH show ?case by force
qed simp

lemma framed_finish:
  assumes "framed d0 d ps"
  defines "all \<equiv> dg_fed d0 @ join_with (ascii_bytes '','') ps @ dg_ending d0"
  shows "fst (digester_finish P d) = Some (sha256_digest P all)"
    "dg_byte_size (snd (digester_finish P d)) = length all"
    "dg_finished (snd (digester_finish P d))"
  using assms by (simp_all add: framed_def digester_finish_def sha256_digest_def Let_def)

lemma digester_opening:
  assumes "array_framing_documented P" "digester_new P (Some prefix) = Inr d"
    "mapE (canonical P) prefix = Inr bs"
  shows "dg_fed d @ join_with (ascii_bytes '','') ps @ dg_ending d =
     ascii_bytes ''['' @ join_with (ascii_bytes '','')
        (bs @ [ascii_bytes ''['' @ join_with (ascii_bytes '','') ps @ ascii_bytes '']'']) @ ascii_bytes '']''"
proof -
  have arr: "canonical P (JArr prefix) =
      Inr (ascii_bytes ''['' @ join_with (ascii_bytes '','') bs @ ascii_bytes '']'')"
    using assms(1,3) by (simp add: array_framing_documented_def)
  have len: "length bs = length prefix" using assms(3) by (rule mapE_length)
  have "butlast (ascii_bytes ''['' @ join_with (ascii_bytes '','') bs @ ascii_bytes '']'')
      = ascii_bytes ''['' @ join_with (ascii_bytes '','') bs"
    by (simp add: ascii_bytes_def butlast_append)
  then have "dg_fed d = ascii_bytes ''['' @ join_with (ascii_bytes '','') bs @
      (if prefix \<noteq> [] then ascii_bytes '',['' else ascii_bytes ''['')" and e: "dg_ending d = ascii_bytes '']]''"
    using assms(2) by (auto simp: digester_new_def arr simp del: python_of.simps)
  moreover have "join_with (ascii_bytes '','') (bs @ [x]) =
      (if prefix \<noteq> [] then join_with (ascii_bytes '','') bs @ ascii_bytes '','' @ x else x)" for x
    using len by (cases "bs = []") (auto simp: join_with_append)
  ultimately show ?thesis using len by (auto simp: ascii_bytes_def)
qed

end
