(* ===== verification/Core_Records.thy ===== *)
theory Core_Records
  imports Identity
begin

text \<open>
  The version 1 Core records of src/src/docspec/domain/core.py: one record per struct class,
  one datatype per tagged union or Literal, with the field constraints its annotations
  declare. A tuple field is a list, a dict field an association list, \<open>| None\<close> an option,
  a \<open>tuple | ContentRef\<close> field a sum. Constant fields (\<open>format_version\<close>, \<open>version\<close>,
  fixed codecs and formats) appear only in the encoding.
\<close>

section \<open>Annotated field types\<close>

definition is_identifier :: "string \<Rightarrow> bool" where
  "is_identifier s = (1 \<le> length s)"

text \<open>
  The \<open>Digest\<close> pattern is searched, and its \<open>$\<close> also matches before a final newline.
\<close>

definition digest_pattern :: "string \<Rightarrow> bool" where
  "digest_pattern s = (is_sha256 s \<or> (s \<noteq> [] \<and> last s = CHR 0x0A \<and> is_sha256 (butlast s)))"

definition is_count :: "int \<Rightarrow> bool" where
  "is_count n = (0 \<le> n \<and> n \<le> 2 ^ 53 - 1)"

definition opt_all :: "('a \<Rightarrow> bool) \<Rightarrow> 'a option \<Rightarrow> bool" where
  "opt_all p x = (case x of None \<Rightarrow> True | Some y \<Rightarrow> p y)"

type_synonym object = "(string \<times> json) list"

section \<open>Values and entities\<close>

datatype content_codec = JsonV1 | BytesV1

record content_ref =
  cr_digest :: string
  cr_byte_size :: int
  cr_locator :: string
  cr_media_type :: string
  cr_codec :: content_codec

datatype value_ref = InlineValue json | ContentRef content_ref

datatype evidence_codec = EvidenceJson | EvidenceBytes | EvidenceMembers

record comparison_evidence =
  ce_codec :: evidence_codec
  ce_digest :: string
  ce_byte_size :: int
  ce_entity_id :: "string option"

datatype entity_type = Occurrence | Artifact

record entity =
  en_entity_id :: string
  en_entity_type :: entity_type
  en_value :: value_ref

record membership =
  mb_member_key :: string
  mb_occurrence_id :: string

record state =
  st_state_id :: string

record state_representation =
  sr_representation_id :: string
  sr_state_id :: string
  sr_membership :: "membership list + content_ref"
  sr_revision_id :: "string option"

section \<open>Revisions\<close>

datatype edit =
    Put (edit_sequence: int) (edit_member_key: string) string
  | Remove (edit_sequence: int) (edit_member_key: string)

record value_edit =
  ve_source_occurrence_id :: string
  ve_result_occurrence_id :: string
  ve_execution_id :: string
  ve_patch :: "object list"

record revision =
  rv_revision_id :: string
  rv_base_state_id :: string
  rv_result_state_id :: string
  rv_edits :: "edit list + content_ref"
  rv_value_edits :: "value_edit list"

section \<open>Selections of values\<close>

datatype comparison_mode = ByValue | ByIdentity

record field =
  fd_label :: string
  fd_pointer :: string

text \<open>The classes \<open>Whole\<close> and \<open>JsonFields\<close>, which a \<open>StateMembers\<close> selector nests.\<close>

datatype member_selector =
    Whole comparison_mode
  | JsonFields "field list" comparison_mode

record state_members =
  sm_member_selector :: member_selector
  sm_scope :: "string list option"
  sm_material_keys :: bool
  sm_sort_rule :: "string option"

datatype selector = ValueSelector member_selector | StateMembers state_members

record origin =
  or_parent_entity_id :: string
  or_state_id :: "string option"
  or_member_key :: "string option"

record member_origin =
  mo_member_key :: string
  mo_occurrence_id :: "string option"

datatype selected_source = Retained value_ref | FromParent

record selected_value =
  sv_selected_value_id :: string
  sv_definition :: selector
  sv_origin :: origin
  sv_value :: selected_source
  sv_member_origins :: "member_origin list + content_ref"

section \<open>Operations, requests and executions\<close>

datatype input_binding =
    WholeInput (binding_label: string) string
  | StateInput (binding_label: string) string
  | SelectedInput (binding_label: string) string

datatype certainty = Established | Uncertain

record resource =
  rs_label :: string
  rs_description :: object
  rs_certainty :: certainty

datatype operation_kind = Capture | Transformation

record operation_definition =
  od_definition_id :: string
  od_implementation_id :: string
  od_implementation_version :: string
  od_operation_kind :: operation_kind
  od_configuration :: object
  od_resources :: "resource list"

record dependency =
  dp_label :: string
  dp_binding_label :: string
  dp_selection :: selector

record request =
  rq_request_id :: string
  rq_definition_id :: string
  rq_inputs :: "input_binding list"
  rq_dependencies :: "dependency list"

record execution =
  ex_execution_id :: string
  ex_request_id :: string
  ex_capture_origin :: "origin option"

section \<open>Results\<close>

datatype role = Raw | Derived
datatype production = New | Adopted

record result_binding =
  rb_label :: string
  rb_entity_id :: string
  rb_role :: role
  rb_production :: production

datatype status = Success | Failed | Interrupted | Incomplete
datatype outcome_value = Outputs | Empty | NullOutcome

record outcome =
  oc_status :: status
  oc_value :: "outcome_value option"
  oc_outputs :: "result_binding list"
  oc_error :: "string option"

record entity_event =
  ev_event_id :: string
  ev_entity_id :: string
  ev_happened_at :: "string option"

record derivation =
  dv_generated_entity_id :: string
  dv_used_entity_id :: string
  dv_generation_event_id :: "string option"
  dv_usage_event_id :: "string option"

record result_record =
  rt_result_id :: string
  rt_execution_id :: string
  rt_outcome :: outcome
  rt_generations :: "entity_event list"
  rt_usages :: "entity_event list"
  rt_derivations :: "derivation list"

record selection =
  sl_selection_id :: string
  sl_target :: origin
  sl_request_id :: string
  sl_selected_result_id :: string
  sl_output_labels :: "string list"

record retention_policy =
  rp_policy_id :: string
  rp_description :: object

section \<open>Dependency evidence\<close>

datatype omission_scope = DependencyScope | ResourceScope

record dependency_omission =
  do_scope :: omission_scope
  do_label :: string
  do_reason :: string

record historical_observation =
  ho_result_id :: string
  ho_resource :: "resource option"
  ho_dependency :: "dependency option"
  ho_historical_input :: "input_binding option"

record dependency_supplement =
  ds_reason :: string
  ds_observation :: historical_observation
  ds_supporting_entities :: "string list"

record evaluated_dependency =
  ed_dependency :: dependency
  ed_binding :: input_binding
  ed_selector :: selector
  ed_evidence :: comparison_evidence

datatype evidence_status = Omission | Supplement

record dependency_evidence =
  de_evidence_id :: string
  de_result_id :: string
  de_status :: evidence_status
  de_description :: object
  de_supersedes_evidence_id :: "string option"

section \<open>The record union\<close>

datatype core_record =
    EntityRecord entity
  | StateRecord state
  | RepresentationRecord state_representation
  | RevisionRecord revision
  | SelectedValueRecord selected_value
  | DefinitionRecord operation_definition
  | RequestRecord request
  | ExecutionRecord execution
  | ResultRecord result_record
  | SelectionRecord selection
  | PolicyRecord retention_policy
  | EvidenceRecord dependency_evidence

text \<open>\<open>RECORD_ID_FIELDS\<close>: the tag of each record kind and its identity field.\<close>

definition record_id_fields :: "(string \<times> string) list" where
  "record_id_fields =
     [(''entity'', ''entity_id''), (''state'', ''state_id''),
      (''state_representation'', ''representation_id''), (''revision'', ''revision_id''),
      (''selected_value'', ''selected_value_id''), (''operation_definition'', ''definition_id''),
      (''request'', ''request_id''), (''execution'', ''execution_id''), (''result'', ''result_id''),
      (''selection'', ''selection_id''), (''retention_policy'', ''policy_id''),
      (''dependency_evidence'', ''evidence_id'')]"

type_synonym record_key = "string \<times> string"

fun record_key_of :: "core_record \<Rightarrow> record_key" where
  "record_key_of (EntityRecord r) = (''entity'', en_entity_id r)"
| "record_key_of (StateRecord r) = (''state'', st_state_id r)"
| "record_key_of (RepresentationRecord r) = (''state_representation'', sr_representation_id r)"
| "record_key_of (RevisionRecord r) = (''revision'', rv_revision_id r)"
| "record_key_of (SelectedValueRecord r) = (''selected_value'', sv_selected_value_id r)"
| "record_key_of (DefinitionRecord r) = (''operation_definition'', od_definition_id r)"
| "record_key_of (RequestRecord r) = (''request'', rq_request_id r)"
| "record_key_of (ExecutionRecord r) = (''execution'', ex_execution_id r)"
| "record_key_of (ResultRecord r) = (''result'', rt_result_id r)"
| "record_key_of (SelectionRecord r) = (''selection'', sl_selection_id r)"
| "record_key_of (PolicyRecord r) = (''retention_policy'', rp_policy_id r)"
| "record_key_of (EvidenceRecord r) = (''dependency_evidence'', de_evidence_id r)"

end
