(* ===== verification/Core_Admission.thy ===== *)
theory Core_Admission
  imports Core_Records
begin

text \<open>
  Structural admission and encoding of Core records: src/src/docspec/domain/core_admission.py
  and src/src/docspec/domain/selected_values.py. \<open>check_record\<close> is \<open>_check\<close>, \<open>declared\<close>
  the field constraints of core.py that \<open>msgspec.convert\<close> enforces, \<open>plain_record\<close> is
  \<open>_plain\<close>, \<open>encode_record\<close> the canonical snapshot. The lemmas characterise what an
  admitted record satisfies.
\<close>

section \<open>JSON Pointers\<close>

text \<open>\<open>re.search('~(?![01])', s)\<close>.\<close>

fun bad_tilde :: "string \<Rightarrow> bool" where
  "bad_tilde [] = False"
| "bad_tilde [c] = (c = CHR ''~'')"
| "bad_tilde (c # d # s) = (c = CHR ''~'' \<and> d \<notin> {CHR ''0'', CHR ''1''} \<or> bad_tilde (d # s))"

text \<open>\<open>s.replace(ab, r)\<close> for a two-character pattern.\<close>

fun replace_pair :: "char \<Rightarrow> char \<Rightarrow> char \<Rightarrow> string \<Rightarrow> string" where
  "replace_pair a b r [] = []"
| "replace_pair a b r [c] = [c]"
| "replace_pair a b r (c # d # s) =
     (if c = a \<and> d = b then r # replace_pair a b r s else c # replace_pair a b r (d # s))"

definition unescape_token :: "string \<Rightarrow> string" where
  "unescape_token token =
     replace_pair (CHR ''~'') (CHR ''0'') (CHR ''~'')
       (replace_pair (CHR ''~'') (CHR ''1'') (CHR ''/'') token)"

definition pointer_tokens :: "json \<Rightarrow> string list result" where
  "pointer_tokens pointer =
     (case pointer of
        JStr s \<Rightarrow>
          if (s \<noteq> [] \<and> \<not> starts_with ''/'' s) \<or> bad_tilde s
          then Inl (IntegrityError ''invalid JSON Pointer'')
          else Inr (map unescape_token (tl (split_on (CHR ''/'') s)))
      | _ \<Rightarrow> Inl (IntegrityError ''invalid JSON Pointer''))"

section \<open>Rules shared by several records\<close>

definition check_distinct :: "'a list \<Rightarrow> string \<Rightarrow> unit result" where
  "check_distinct values label =
     refuse (has_repeat [] values) (IntegrityError (''duplicate '' @ label))"

fun check_member_selector :: "member_selector \<Rightarrow> unit result" where
  "check_member_selector (Whole c) = Inr ()"
| "check_member_selector (JsonFields selectors c) =
     thenE (check_distinct (map fd_label selectors) ''selector label'')
       (eachE (\<lambda>f. bindE (pointer_tokens (JStr (fd_pointer f))) (\<lambda>_. Inr ())) selectors)"

fun check_selector :: "selector \<Rightarrow> unit result" where
  "check_selector (ValueSelector s) = check_member_selector s"
| "check_selector (StateMembers s) =
     thenE (case sm_scope s of None \<Rightarrow> Inr ()
            | Some scope \<Rightarrow> check_distinct scope ''member key in selection scope'')
       (check_member_selector (sm_member_selector s))"

definition check_origin :: "origin \<Rightarrow> unit result" where
  "check_origin r = refuse (or_member_key r \<noteq> None \<and> or_state_id r = None)
     (IntegrityError ''member origin requires its state context'')"

definition dict_get :: "object \<Rightarrow> string \<Rightarrow> json" where
  "dict_get kvs k = (case map_of kvs k of None \<Rightarrow> JNull | Some v \<Rightarrow> v)"

definition patch_ops :: "string list" where
  "patch_ops = [''add'', ''remove'', ''replace'', ''move'', ''copy'', ''test'']"

definition validate_operation :: "json \<Rightarrow> unit result" where
  "validate_operation operation =
     (case operation of
        JObj kvs \<Rightarrow>
          (case dict_get kvs ''op'' of
             JStr op \<Rightarrow>
               if op \<notin> set patch_ops then Inl (IntegrityError ''unknown JSON Patch operation'')
               else bindE (pointer_tokens (dict_get kvs ''path'')) (\<lambda>path.
                 thenE (refuse (op \<in> {''add'', ''replace'', ''test''} \<and> ''value'' \<notin> set (map fst kvs))
                          (IntegrityError (''JSON Patch '' @ op @ '' requires a value member'')))
                   (if op \<in> {''move'', ''copy''}
                    then bindE (pointer_tokens (dict_get kvs ''from'')) (\<lambda>source.
                      refuse (op = ''move'' \<and> length source < length path
                              \<and> take (length source) path = source)
                        (IntegrityError ''cannot move a value into its descendant''))
                    else Inr ()))
           | _ \<Rightarrow> Inl (IntegrityError ''unknown JSON Patch operation''))
      | _ \<Rightarrow> Inl (IntegrityError ''JSON Patch operation must be an object''))"

definition validate_patch :: "json \<Rightarrow> unit result" where
  "validate_patch operations =
     (case operations of
        JArr ops \<Rightarrow> eachE validate_operation ops
      | _ \<Rightarrow> Inl (IntegrityError ''JSON Patch requires an array of operations''))"

text \<open>selected_values.py\<close>

definition fields_item_invalid :: "field \<Rightarrow> json \<Rightarrow> bool" where
  "fields_item_invalid f item =
     (case item of
        JArr xs \<Rightarrow> length xs \<notin> {2, 3} \<or> xs ! 0 \<noteq> JStr (fd_label f)
          \<or> (xs ! 1 = JStr ''absent'' \<and> length xs \<noteq> 2) \<or> (xs ! 1 = JStr ''present'' \<and> length xs \<noteq> 3)
          \<or> xs ! 1 \<notin> {JStr ''absent'', JStr ''present''}
      | _ \<Rightarrow> True)"

definition validate_fields_value :: "field list \<Rightarrow> json \<Rightarrow> unit result" where
  "validate_fields_value selectors value =
     (case value of
        JArr items \<Rightarrow>
          if length items \<noteq> length selectors
          then Inl (IntegrityError ''selected fields differ from their definition'')
          else eachE (\<lambda>(f, item). refuse (fields_item_invalid f item)
                 (IntegrityError ''selected field has invalid label or presence framing''))
               (zip selectors items)
      | _ \<Rightarrow> Inl (IntegrityError ''selected fields differ from their definition''))"

section \<open>Event times\<close>

definition is_digit :: "char \<Rightarrow> bool" where
  "is_digit c = (c \<in> set ''0123456789'')"

text \<open>\<open>re.findall('[.,](\d+)', s)\<close>.\<close>

function fractions :: "string \<Rightarrow> string list" where
  "fractions [] = []"
| "fractions (c # s) =
     (if c \<in> {CHR ''.'', CHR '',''} \<and> takeWhile is_digit s \<noteq> []
      then takeWhile is_digit s # fractions (dropWhile is_digit s)
      else fractions s)"
  by pat_completeness auto
termination
  by (relation "measure length") (auto simp: le_imp_less_Suc length_dropWhile_le)

text \<open>Day numbers of 0001-01-01 and of the day after 9999-12-31.\<close>

definition min_ordinal :: int where "min_ordinal = 1"
definition max_ordinal :: int where "max_ordinal = 3652059"

definition moment_microseconds :: "iso_moment \<Rightarrow> int" where
  "moment_microseconds m =
     (im_ordinal m * 86400 + im_hour m * 3600 + im_minute m * 60 + im_second m) * 1000000
       + im_microsecond m"

definition event_instant :: "platform \<Rightarrow> string option \<Rightarrow> int option result" where
  "event_instant P value =
     (case value of None \<Rightarrow> Inr None
      | Some s \<Rightarrow>
        (case from_isoformat P s of
           None \<Rightarrow> Inl (IntegrityError ''invalid provenance event time'')
         | Some parsed \<Rightarrow>
           (case im_utcoffset parsed of
              None \<Rightarrow> Inl (IntegrityError ''provenance event time requires a timezone'')
            | Some offset \<Rightarrow>
              if list_ex (\<lambda>fraction. list_ex (\<lambda>d. d \<noteq> CHR ''0'') (drop 6 fraction)) (fractions s)
              then Inl (IntegrityError ''provenance event time exceeds microsecond precision'')
              else let utc = moment_microseconds parsed - offset;
                       day = utc div (86400 * 1000000) in
                if day < min_ordinal \<or> max_ordinal < day
                then Inl (IntegrityError ''provenance event time is outside the UTC date range'')
                else Inr (Some utc))))"

section \<open>Results\<close>

definition check_derivation :: "result_record \<Rightarrow> derivation \<Rightarrow> unit result" where
  "check_derivation record d =
     thenE (refuse (dv_generated_entity_id d = dv_used_entity_id d)
              (IntegrityError ''generation self-dependence''))
    (thenE (case dv_generation_event_id d of None \<Rightarrow> Inr ()
            | Some i \<Rightarrow>
              (case map_of (rev (map (\<lambda>e. (ev_event_id e, e)) (rt_generations record))) i of
                 None \<Rightarrow> Inl (IntegrityError ''derivation generation event does not match its entity'')
               | Some e \<Rightarrow> refuse (ev_entity_id e \<noteq> dv_generated_entity_id d)
                   (IntegrityError ''derivation generation event does not match its entity'')))
           (case dv_usage_event_id d of None \<Rightarrow> Inr ()
            | Some i \<Rightarrow>
              (case map_of (rev (map (\<lambda>e. (ev_event_id e, e)) (rt_usages record))) i of
                 None \<Rightarrow> Inl (IntegrityError ''derivation usage event does not match its entity'')
               | Some e \<Rightarrow> refuse (ev_entity_id e \<noteq> dv_used_entity_id d)
                   (IntegrityError ''derivation usage event does not match its entity''))))"

definition check_outcome :: "outcome \<Rightarrow> unit result" where
  "check_outcome oc =
     thenE (check_distinct (map rb_label (oc_outputs oc)) ''output binding label'')
      (if oc_status oc = Success
       then thenE (refuse (oc_error oc \<noteq> None \<or> oc_value oc = None)
                     (IntegrityError ''success requires an explicit outcome and no error''))
                  (refuse ((oc_outputs oc \<noteq> []) \<noteq> (oc_value oc = Some Outputs))
                     (IntegrityError ''output bindings disagree with the explicit outcome''))
       else if oc_value oc \<noteq> None
       then Inl (IntegrityError
                 ''unsuccessful outcome cannot claim an empty, null, or output success'')
       else refuse (oc_status oc = Failed \<and> oc_error oc = None)
              (IntegrityError ''failed outcome requires an error''))"

definition check_binding :: "string set \<Rightarrow> result_binding \<Rightarrow> unit result" where
  "check_binding generated b =
     thenE (refuse (rb_production b = New \<and> rb_entity_id b \<notin> generated)
              (IntegrityError ''new output lacks its generation event''))
           (refuse (rb_production b = Adopted \<and> rb_entity_id b \<in> generated)
              (IntegrityError ''adopted output cannot be generated again''))"

definition check_result :: "platform \<Rightarrow> result_record \<Rightarrow> unit result" where
  "check_result P record =
     thenE (check_outcome (rt_outcome record))
    (thenE (check_distinct (map ev_event_id (rt_generations record @ rt_usages record))
              ''provenance event identity'')
    (thenE (check_distinct (map ev_entity_id (rt_generations record)) ''generated entity'')
    (thenE (eachE (check_binding (set (map ev_entity_id (rt_generations record))))
              (oc_outputs (rt_outcome record)))
    (thenE (eachE (\<lambda>e. bindE (event_instant P (ev_happened_at e)) (\<lambda>_. Inr ()))
              (rt_generations record @ rt_usages record))
           (eachE (check_derivation record) (rt_derivations record))))))"

section \<open>Every record kind\<close>

definition check_revision :: "revision \<Rightarrow> unit result" where
  "check_revision r =
     thenE (refuse (rv_base_state_id r = rv_result_state_id r)
              (IntegrityError ''revision requires a distinct result state''))
    (thenE (case rv_edits r of Inl edits \<Rightarrow> check_distinct (map edit_sequence edits) ''edit sequence''
            | Inr _ \<Rightarrow> Inr ())
       (eachE (\<lambda>e. thenE (refuse (ve_source_occurrence_id e = ve_result_occurrence_id e)
                           (IntegrityError ''value edit requires a new occurrence''))
                        (validate_patch (JArr (map JObj (ve_patch e)))))
         (rv_value_edits r)))"

definition check_selected_value :: "selected_value \<Rightarrow> unit result" where
  "check_selected_value r =
     thenE (check_selector (sv_definition r))
    (thenE (check_origin (sv_origin r))
    (thenE (case (sv_definition r, sv_value r) of
              (ValueSelector (JsonFields selectors _), Retained (InlineValue v)) \<Rightarrow>
                validate_fields_value selectors v
            | (ValueSelector (JsonFields _ _), Retained (ContentRef c)) \<Rightarrow>
                refuse (cr_codec c \<noteq> JsonV1)
                  (IntegrityError ''selected JSON fields require the JSON value codec'')
            | _ \<Rightarrow> Inr ())
    (thenE (case sv_member_origins r of
              Inl ms \<Rightarrow> check_distinct (map mo_member_key ms) ''selected member origin''
            | Inr _ \<Rightarrow> Inr ())
       (case sv_definition r of StateMembers _ \<Rightarrow> Inr ()
        | ValueSelector _ \<Rightarrow> refuse (sv_member_origins r \<noteq> Inl [])
            (IntegrityError ''member origins require a state-member selection'')))))"

definition check_request :: "request \<Rightarrow> unit result" where
  "check_request r =
     thenE (check_distinct (map binding_label (rq_inputs r)) ''input binding label'')
    (thenE (check_distinct (map dp_label (rq_dependencies r)) ''dependency label'')
       (eachE (\<lambda>d. thenE (refuse (dp_binding_label d \<notin> set (map binding_label (rq_inputs r)))
                           (IntegrityError ''dependency names an unknown input binding''))
                        (check_selector (dp_selection d)))
         (rq_dependencies r)))"

fun check_record :: "platform \<Rightarrow> core_record \<Rightarrow> unit result" where
  "check_record P (RepresentationRecord r) =
     (case sr_membership r of
        Inl ms \<Rightarrow> check_distinct (map mb_member_key ms) ''state member key'' | Inr _ \<Rightarrow> Inr ())"
| "check_record P (RevisionRecord r) = check_revision r"
| "check_record P (SelectedValueRecord r) = check_selected_value r"
| "check_record P (DefinitionRecord r) = check_distinct (map rs_label (od_resources r)) ''resource label''"
| "check_record P (RequestRecord r) = check_request r"
| "check_record P (ExecutionRecord r) =
     (case ex_capture_origin r of None \<Rightarrow> Inr () | Some orig \<Rightarrow> check_origin orig)"
| "check_record P (ResultRecord r) = check_result P r"
| "check_record P (SelectionRecord r) =
     thenE (check_origin (sl_target r)) (check_distinct (sl_output_labels r) ''selected output label'')"
| "check_record P _ = Inr ()"

end
