(* ===== verification/Core_Wire.thy ===== *)
theory Core_Wire
  imports Core_Admission
begin

text \<open>
  The wire form of Core records: the declared field constraints of
  src/src/docspec/domain/core.py, the conversion to plain JSON values (\<open>_plain\<close>) and the
  canonical snapshot (\<open>record_value\<close>, \<open>encode_record\<close>) of
  src/src/docspec/domain/core_admission.py. The lemmas show that the plain form determines the
  record and that encoding admits exactly the records that satisfy every rule.
\<close>

section \<open>Declared constraints\<close>

fun declared_value :: "value_ref \<Rightarrow> bool" where
  "declared_value (InlineValue v) = True"
| "declared_value (ContentRef c) =
     (digest_pattern (cr_digest c) \<and> is_count (cr_byte_size c) \<and> is_identifier (cr_locator c)
      \<and> is_identifier (cr_media_type c))"

definition declared_evidence :: "comparison_evidence \<Rightarrow> bool" where
  "declared_evidence e = (digest_pattern (ce_digest e) \<and> is_count (ce_byte_size e)
     \<and> opt_all is_identifier (ce_entity_id e))"

fun declared_edit :: "edit \<Rightarrow> bool" where
  "declared_edit (Put n k occ) = (is_count n \<and> is_identifier occ)"
| "declared_edit (Remove n k) = is_count n"

definition declared_value_edit :: "value_edit \<Rightarrow> bool" where
  "declared_value_edit e = (is_identifier (ve_source_occurrence_id e)
     \<and> is_identifier (ve_result_occurrence_id e) \<and> is_identifier (ve_execution_id e))"

fun declared_member_selector :: "member_selector \<Rightarrow> bool" where
  "declared_member_selector (Whole c) = True"
| "declared_member_selector (JsonFields fs c) = list_all (\<lambda>f. is_identifier (fd_label f)) fs"

fun declared_selector :: "selector \<Rightarrow> bool" where
  "declared_selector (ValueSelector s) = declared_member_selector s"
| "declared_selector (StateMembers s) =
     (declared_member_selector (sm_member_selector s) \<and> opt_all is_identifier (sm_sort_rule s))"

definition declared_origin :: "origin \<Rightarrow> bool" where
  "declared_origin r = (is_identifier (or_parent_entity_id r) \<and> opt_all is_identifier (or_state_id r))"

fun declared_binding :: "input_binding \<Rightarrow> bool" where
  "declared_binding (WholeInput l i) = (is_identifier l \<and> is_identifier i)"
| "declared_binding (StateInput l i) = (is_identifier l \<and> is_identifier i)"
| "declared_binding (SelectedInput l i) = (is_identifier l \<and> is_identifier i)"

definition declared_dependency :: "dependency \<Rightarrow> bool" where
  "declared_dependency d = (is_identifier (dp_label d) \<and> is_identifier (dp_binding_label d)
     \<and> declared_selector (dp_selection d))"

definition declared_result_binding :: "result_binding \<Rightarrow> bool" where
  "declared_result_binding b = (is_identifier (rb_label b) \<and> is_identifier (rb_entity_id b))"

definition declared_event :: "entity_event \<Rightarrow> bool" where
  "declared_event e = (is_identifier (ev_event_id e) \<and> is_identifier (ev_entity_id e))"

definition declared_derivation :: "derivation \<Rightarrow> bool" where
  "declared_derivation d = (is_identifier (dv_generated_entity_id d) \<and> is_identifier (dv_used_entity_id d)
     \<and> opt_all is_identifier (dv_generation_event_id d) \<and> opt_all is_identifier (dv_usage_event_id d))"

definition declared_outcome :: "outcome \<Rightarrow> bool" where
  "declared_outcome oc = (list_all declared_result_binding (oc_outputs oc)
     \<and> opt_all is_identifier (oc_error oc))"

definition declared_result :: "result_record \<Rightarrow> bool" where
  "declared_result r = (is_identifier (rt_result_id r) \<and> is_identifier (rt_execution_id r)
     \<and> declared_outcome (rt_outcome r) \<and> list_all declared_event (rt_generations r)
     \<and> list_all declared_event (rt_usages r) \<and> list_all declared_derivation (rt_derivations r))"

fun declared :: "core_record \<Rightarrow> bool" where
  "declared (EntityRecord r) = (is_identifier (en_entity_id r) \<and> declared_value (en_value r))"
| "declared (StateRecord r) = is_identifier (st_state_id r)"
| "declared (RepresentationRecord r) =
     (is_identifier (sr_representation_id r) \<and> is_identifier (sr_state_id r)
      \<and> (case sr_membership r of Inl ms \<Rightarrow> list_all (\<lambda>m. is_identifier (mb_occurrence_id m)) ms
         | Inr c \<Rightarrow> declared_value (ContentRef c))
      \<and> opt_all is_identifier (sr_revision_id r))"
| "declared (RevisionRecord r) =
     (is_identifier (rv_revision_id r) \<and> is_identifier (rv_base_state_id r)
      \<and> is_identifier (rv_result_state_id r)
      \<and> (case rv_edits r of Inl es \<Rightarrow> list_all declared_edit es | Inr c \<Rightarrow> declared_value (ContentRef c))
      \<and> list_all declared_value_edit (rv_value_edits r))"
| "declared (SelectedValueRecord r) =
     (is_identifier (sv_selected_value_id r) \<and> declared_selector (sv_definition r)
      \<and> declared_origin (sv_origin r)
      \<and> (case sv_value r of Retained v \<Rightarrow> declared_value v | FromParent \<Rightarrow> True)
      \<and> (case sv_member_origins r of
           Inl ms \<Rightarrow> list_all (\<lambda>m. opt_all is_identifier (mo_occurrence_id m)) ms
         | Inr c \<Rightarrow> declared_value (ContentRef c)))"
| "declared (DefinitionRecord r) =
     (is_identifier (od_definition_id r) \<and> is_identifier (od_implementation_id r)
      \<and> is_identifier (od_implementation_version r)
      \<and> list_all (\<lambda>x. is_identifier (rs_label x)) (od_resources r))"
| "declared (RequestRecord r) =
     (is_identifier (rq_request_id r) \<and> is_identifier (rq_definition_id r)
      \<and> list_all declared_binding (rq_inputs r) \<and> list_all declared_dependency (rq_dependencies r))"
| "declared (ExecutionRecord r) =
     (is_identifier (ex_execution_id r) \<and> is_identifier (ex_request_id r)
      \<and> opt_all declared_origin (ex_capture_origin r))"
| "declared (ResultRecord r) = declared_result r"
| "declared (SelectionRecord r) =
     (is_identifier (sl_selection_id r) \<and> declared_origin (sl_target r)
      \<and> is_identifier (sl_request_id r) \<and> is_identifier (sl_selected_result_id r)
      \<and> list_all is_identifier (sl_output_labels r))"
| "declared (PolicyRecord r) = is_identifier (rp_policy_id r)"
| "declared (EvidenceRecord r) =
     (is_identifier (de_evidence_id r) \<and> is_identifier (de_result_id r)
      \<and> opt_all is_identifier (de_supersedes_evidence_id r))"

section \<open>Plain values\<close>

definition plain_opt :: "string option \<Rightarrow> json" where
  "plain_opt x = (case x of None \<Rightarrow> JNull | Some s \<Rightarrow> JStr s)"

fun plain_content :: "content_ref \<Rightarrow> json" where
  "plain_content c = JObj [(''kind'', JStr ''content''), (''digest'', JStr (cr_digest c)),
     (''byte_size'', JInt (cr_byte_size c)), (''locator'', JStr (cr_locator c)),
     (''media_type'', JStr (cr_media_type c)),
     (''codec'', JStr (case cr_codec c of JsonV1 \<Rightarrow> ''json-v1'' | BytesV1 \<Rightarrow> ''bytes-v1''))]"

fun plain_value :: "value_ref \<Rightarrow> json" where
  "plain_value (InlineValue v) =
     JObj [(''kind'', JStr ''inline''), (''value'', v), (''codec'', JStr ''json-v1'')]"
| "plain_value (ContentRef c) = plain_content c"

definition plain_evidence :: "comparison_evidence \<Rightarrow> json" where
  "plain_evidence e = JObj
     [(''codec'', JStr (case ce_codec e of EvidenceJson \<Rightarrow> ''json-v1'' | EvidenceBytes \<Rightarrow> ''bytes-v1''
                        | EvidenceMembers \<Rightarrow> ''members-v1'')),
      (''digest'', JStr (ce_digest e)), (''byte_size'', JInt (ce_byte_size e)),
      (''entity_id'', plain_opt (ce_entity_id e))]"

definition plain_membership :: "membership \<Rightarrow> json" where
  "plain_membership m =
     JObj [(''member_key'', JStr (mb_member_key m)), (''occurrence_id'', JStr (mb_occurrence_id m))]"

fun plain_edit :: "edit \<Rightarrow> json" where
  "plain_edit (Put n k occ) = JObj [(''kind'', JStr ''put''), (''sequence'', JInt n),
     (''member_key'', JStr k), (''occurrence_id'', JStr occ)]"
| "plain_edit (Remove n k) =
     JObj [(''kind'', JStr ''remove''), (''sequence'', JInt n), (''member_key'', JStr k)]"

definition plain_value_edit :: "value_edit \<Rightarrow> json" where
  "plain_value_edit e = JObj
     [(''source_occurrence_id'', JStr (ve_source_occurrence_id e)),
      (''result_occurrence_id'', JStr (ve_result_occurrence_id e)),
      (''execution_id'', JStr (ve_execution_id e)), (''patch'', JArr (map JObj (ve_patch e)))]"

definition plain_mode :: "comparison_mode \<Rightarrow> json" where
  "plain_mode c = JStr (case c of ByValue \<Rightarrow> ''value'' | ByIdentity \<Rightarrow> ''identity'')"

definition plain_field :: "field \<Rightarrow> json" where
  "plain_field f = JObj [(''label'', JStr (fd_label f)), (''pointer'', JStr (fd_pointer f))]"

fun plain_member_selector :: "member_selector \<Rightarrow> json" where
  "plain_member_selector (Whole c) =
     JObj [(''kind'', JStr ''whole''), (''version'', JInt 1), (''comparison'', plain_mode c)]"
| "plain_member_selector (JsonFields fs c) =
     JObj [(''kind'', JStr ''json_fields''), (''selectors'', JArr (map plain_field fs)),
       (''version'', JInt 1), (''comparison'', plain_mode c)]"

fun plain_selector :: "selector \<Rightarrow> json" where
  "plain_selector (ValueSelector s) = plain_member_selector s"
| "plain_selector (StateMembers s) = JObj
     [(''kind'', JStr ''state_members''),
      (''member_selector'', plain_member_selector (sm_member_selector s)), (''version'', JInt 1),
      (''scope'', case sm_scope s of None \<Rightarrow> JNull | Some ks \<Rightarrow> JArr (map JStr ks)),
      (''material_keys'', JBool (sm_material_keys s)), (''sort_rule'', plain_opt (sm_sort_rule s))]"

definition plain_origin :: "origin \<Rightarrow> json" where
  "plain_origin r = JObj [(''parent_entity_id'', JStr (or_parent_entity_id r)),
     (''state_id'', plain_opt (or_state_id r)), (''member_key'', plain_opt (or_member_key r))]"

definition plain_member_origin :: "member_origin \<Rightarrow> json" where
  "plain_member_origin m = JObj [(''member_key'', JStr (mo_member_key m)),
     (''occurrence_id'', plain_opt (mo_occurrence_id m))]"

fun plain_input :: "input_binding \<Rightarrow> json" where
  "plain_input (WholeInput l i) =
     JObj [(''kind'', JStr ''whole_value''), (''label'', JStr l), (''entity_id'', JStr i)]"
| "plain_input (StateInput l i) =
     JObj [(''kind'', JStr ''dataset_state''), (''label'', JStr l), (''state_id'', JStr i)]"
| "plain_input (SelectedInput l i) =
     JObj [(''kind'', JStr ''selected_value''), (''label'', JStr l), (''selected_value_id'', JStr i)]"

definition plain_resource :: "resource \<Rightarrow> json" where
  "plain_resource r = JObj [(''label'', JStr (rs_label r)), (''description'', JObj (rs_description r)),
     (''certainty'', JStr (case rs_certainty r of Established \<Rightarrow> ''established''
                           | Uncertain \<Rightarrow> ''uncertain''))]"

definition plain_dependency :: "dependency \<Rightarrow> json" where
  "plain_dependency d = JObj [(''label'', JStr (dp_label d)),
     (''binding_label'', JStr (dp_binding_label d)), (''selection'', plain_selector (dp_selection d))]"

definition plain_result_binding :: "result_binding \<Rightarrow> json" where
  "plain_result_binding b = JObj [(''label'', JStr (rb_label b)), (''entity_id'', JStr (rb_entity_id b)),
     (''role'', JStr (case rb_role b of Raw \<Rightarrow> ''raw'' | Derived \<Rightarrow> ''derived'')),
     (''production'', JStr (case rb_production b of New \<Rightarrow> ''new'' | Adopted \<Rightarrow> ''adopted''))]"

definition plain_status :: "status \<Rightarrow> json" where
  "plain_status s = JStr (case s of Success \<Rightarrow> ''success'' | Failed \<Rightarrow> ''failed''
     | Interrupted \<Rightarrow> ''interrupted'' | Incomplete \<Rightarrow> ''incomplete'')"

definition plain_outcome :: "outcome \<Rightarrow> json" where
  "plain_outcome oc = JObj [(''status'', plain_status (oc_status oc)),
     (''value'', case oc_value oc of None \<Rightarrow> JNull | Some Outputs \<Rightarrow> JStr ''outputs''
                 | Some Empty \<Rightarrow> JStr ''empty'' | Some NullOutcome \<Rightarrow> JStr ''null''),
     (''outputs'', JArr (map plain_result_binding (oc_outputs oc))),
     (''error'', plain_opt (oc_error oc))]"

definition plain_event :: "entity_event \<Rightarrow> json" where
  "plain_event e = JObj [(''event_id'', JStr (ev_event_id e)), (''entity_id'', JStr (ev_entity_id e)),
     (''happened_at'', plain_opt (ev_happened_at e))]"

definition plain_derivation :: "derivation \<Rightarrow> json" where
  "plain_derivation d = JObj [(''generated_entity_id'', JStr (dv_generated_entity_id d)),
     (''used_entity_id'', JStr (dv_used_entity_id d)),
     (''generation_event_id'', plain_opt (dv_generation_event_id d)),
     (''usage_event_id'', plain_opt (dv_usage_event_id d))]"

text \<open>The head every Core record carries: its tag and format version.\<close>

definition record_head :: "string \<Rightarrow> object" where
  "record_head kind = [(''kind'', JStr kind), (''format_version'', JInt 1)]"

fun plain_record :: "core_record \<Rightarrow> json" where
  "plain_record (EntityRecord r) = JObj (record_head ''entity'' @
     [(''entity_id'', JStr (en_entity_id r)),
      (''entity_type'', JStr (case en_entity_type r of Occurrence \<Rightarrow> ''occurrence''
                              | Artifact \<Rightarrow> ''artifact'')),
      (''value'', plain_value (en_value r))])"
| "plain_record (StateRecord r) = JObj (record_head ''state'' @ [(''state_id'', JStr (st_state_id r))])"
| "plain_record (RepresentationRecord r) = JObj (record_head ''state_representation'' @
     [(''representation_id'', JStr (sr_representation_id r)), (''state_id'', JStr (sr_state_id r)),
      (''membership'', case sr_membership r of Inl ms \<Rightarrow> JArr (map plain_membership ms)
                       | Inr c \<Rightarrow> plain_content c),
      (''revision_id'', plain_opt (sr_revision_id r))])"
| "plain_record (RevisionRecord r) = JObj (record_head ''revision'' @
     [(''revision_id'', JStr (rv_revision_id r)), (''base_state_id'', JStr (rv_base_state_id r)),
      (''result_state_id'', JStr (rv_result_state_id r)),
      (''edits'', case rv_edits r of Inl es \<Rightarrow> JArr (map plain_edit es) | Inr c \<Rightarrow> plain_content c),
      (''value_edits'', JArr (map plain_value_edit (rv_value_edits r)))])"
| "plain_record (SelectedValueRecord r) = JObj (record_head ''selected_value'' @
     [(''selected_value_id'', JStr (sv_selected_value_id r)),
      (''definition'', plain_selector (sv_definition r)), (''origin'', plain_origin (sv_origin r)),
      (''value'', case sv_value r of Retained v \<Rightarrow> plain_value v
                  | FromParent \<Rightarrow> JObj [(''kind'', JStr ''from_parent'')]),
      (''member_origins'', case sv_member_origins r of Inl ms \<Rightarrow> JArr (map plain_member_origin ms)
                           | Inr c \<Rightarrow> plain_content c)])"
| "plain_record (DefinitionRecord r) = JObj (record_head ''operation_definition'' @
     [(''definition_id'', JStr (od_definition_id r)),
      (''implementation_id'', JStr (od_implementation_id r)),
      (''implementation_version'', JStr (od_implementation_version r)),
      (''operation_kind'', JStr (case od_operation_kind r of Capture \<Rightarrow> ''capture''
                                 | Transformation \<Rightarrow> ''transformation'')),
      (''configuration'', JObj (od_configuration r)),
      (''resources'', JArr (map plain_resource (od_resources r)))])"
| "plain_record (RequestRecord r) = JObj (record_head ''request'' @
     [(''request_id'', JStr (rq_request_id r)), (''definition_id'', JStr (rq_definition_id r)),
      (''inputs'', JArr (map plain_input (rq_inputs r))),
      (''dependencies'', JArr (map plain_dependency (rq_dependencies r)))])"
| "plain_record (ExecutionRecord r) = JObj (record_head ''execution'' @
     [(''execution_id'', JStr (ex_execution_id r)), (''request_id'', JStr (ex_request_id r)),
      (''capture_origin'', case ex_capture_origin r of None \<Rightarrow> JNull | Some orig \<Rightarrow> plain_origin orig)])"
| "plain_record (ResultRecord r) = JObj (record_head ''result'' @
     [(''result_id'', JStr (rt_result_id r)), (''execution_id'', JStr (rt_execution_id r)),
      (''outcome'', plain_outcome (rt_outcome r)),
      (''generations'', JArr (map plain_event (rt_generations r))),
      (''usages'', JArr (map plain_event (rt_usages r))),
      (''derivations'', JArr (map plain_derivation (rt_derivations r)))])"
| "plain_record (SelectionRecord r) = JObj (record_head ''selection'' @
     [(''selection_id'', JStr (sl_selection_id r)), (''target'', plain_origin (sl_target r)),
      (''request_id'', JStr (sl_request_id r)),
      (''selected_result_id'', JStr (sl_selected_result_id r)),
      (''output_labels'', JArr (map JStr (sl_output_labels r)))])"
| "plain_record (PolicyRecord r) = JObj (record_head ''retention_policy'' @
     [(''policy_id'', JStr (rp_policy_id r)), (''description'', JObj (rp_description r))])"
| "plain_record (EvidenceRecord r) = JObj (record_head ''dependency_evidence'' @
     [(''evidence_id'', JStr (de_evidence_id r)), (''result_id'', JStr (de_result_id r)),
      (''status'', JStr (case de_status r of Omission \<Rightarrow> ''omission'' | Supplement \<Rightarrow> ''supplement'')),
      (''description'', JObj (de_description r)),
      (''supersedes_evidence_id'', plain_opt (de_supersedes_evidence_id r))])"

section \<open>Encoding\<close>

text \<open>\<open>_convert\<close> of a record value: the declared constraints, then \<open>_check\<close>.\<close>

definition convert_record :: "platform \<Rightarrow> core_record \<Rightarrow> core_record result" where
  "convert_record P r =
     (if \<not> declared r then Inl (IntegrityError ''invalid Core record'')
      else thenE (check_record P r) (Inr r))"

definition record_value :: "platform \<Rightarrow> core_record \<Rightarrow> json result" where
  "record_value P r = bindE (convert_record P r) (\<lambda>r. Inr (plain_record r))"

definition encode_record :: "platform \<Rightarrow> core_record \<Rightarrow> bytes result" where
  "encode_record P r =
     bindE (record_value P r) (\<lambda>v.
       case canonical_value_bytes P v of
         Inl e \<Rightarrow> Inl (IntegrityError ''Core record is outside its JSON codec'')
       | Inr b \<Rightarrow> Inr b)"

section \<open>The plain form determines the record\<close>

named_theorems plain_inject

lemma plain_opt_inject [plain_inject]: "plain_opt x = plain_opt y \<longleftrightarrow> x = y"
  by (auto simp: plain_opt_def split: option.splits)

lemma map_inject: "(\<And>x y. f x = f y \<longleftrightarrow> x = y) \<Longrightarrow> map f xs = map f ys \<longleftrightarrow> xs = ys"
  by (metis inj_def inj_map_eq_map)

lemma plain_content_inject [plain_inject]: "plain_content c = plain_content d \<longleftrightarrow> c = d"
  by (cases c; cases d) (auto split: content_codec.splits)

lemma plain_value_inject [plain_inject]: "plain_value v = plain_value w \<longleftrightarrow> v = w"
  by (cases v; cases w) (auto simp: plain_inject simp del: plain_content.simps, auto)

lemma plain_evidence_inject [plain_inject]: "plain_evidence e = plain_evidence f \<longleftrightarrow> e = f"
  by (cases e; cases f) (auto simp: plain_evidence_def plain_inject split: evidence_codec.splits)

lemma plain_membership_inject [plain_inject]: "plain_membership m = plain_membership n \<longleftrightarrow> m = n"
  by (cases m; cases n) (auto simp: plain_membership_def)

lemma plain_edit_inject [plain_inject]: "plain_edit e = plain_edit f \<longleftrightarrow> e = f"
  by (cases e; cases f) auto

lemma plain_value_edit_inject [plain_inject]: "plain_value_edit e = plain_value_edit f \<longleftrightarrow> e = f"
  by (cases e; cases f) (auto simp: plain_value_edit_def map_inject)

lemma plain_mode_inject [plain_inject]: "plain_mode c = plain_mode d \<longleftrightarrow> c = d"
  by (auto simp: plain_mode_def split: comparison_mode.splits)

lemma plain_field_inject [plain_inject]: "plain_field f = plain_field g \<longleftrightarrow> f = g"
  by (cases f; cases g) (auto simp: plain_field_def)

lemma plain_member_selector_inject [plain_inject]:
  "plain_member_selector s = plain_member_selector t \<longleftrightarrow> s = t"
  by (cases s; cases t) (auto simp: plain_inject map_inject)

lemma plain_selector_inject [plain_inject]: "plain_selector s = plain_selector t \<longleftrightarrow> s = t"
proof (cases s)
  case (ValueSelector a)
  then show ?thesis
    by (cases t; cases a) (auto simp: plain_inject simp del: plain_member_selector.simps, auto)
next
  case (StateMembers a)
  show ?thesis
  proof (cases t)
    case (ValueSelector b)
    with StateMembers show ?thesis by (cases b) auto
  next
    case (StateMembers b)
    with \<open>s = StateMembers a\<close> show ?thesis
      by (cases a; cases b) (auto simp: plain_inject map_inject split: option.splits)
  qed
qed

lemma plain_origin_inject [plain_inject]: "plain_origin r = plain_origin q \<longleftrightarrow> r = q"
  by (cases r; cases q) (auto simp: plain_origin_def plain_inject)

lemma plain_member_origin_inject [plain_inject]: "plain_member_origin m = plain_member_origin n \<longleftrightarrow> m = n"
  by (cases m; cases n) (auto simp: plain_member_origin_def plain_inject)

lemma plain_input_inject [plain_inject]: "plain_input b = plain_input c \<longleftrightarrow> b = c"
  by (cases b; cases c) auto

lemma plain_resource_inject [plain_inject]: "plain_resource r = plain_resource q \<longleftrightarrow> r = q"
  by (cases r; cases q) (auto simp: plain_resource_def split: certainty.splits)

lemma plain_dependency_inject [plain_inject]: "plain_dependency d = plain_dependency e \<longleftrightarrow> d = e"
  by (cases d; cases e) (auto simp: plain_dependency_def plain_inject)

lemma plain_result_binding_inject [plain_inject]: "plain_result_binding b = plain_result_binding c \<longleftrightarrow> b = c"
  by (cases b; cases c) (auto simp: plain_result_binding_def split: role.splits production.splits)

lemma plain_status_inject [plain_inject]: "plain_status s = plain_status t \<longleftrightarrow> s = t"
  by (auto simp: plain_status_def split: status.splits)

lemma plain_outcome_inject [plain_inject]: "plain_outcome a = plain_outcome b \<longleftrightarrow> a = b"
  by (cases a; cases b)
    (auto simp: plain_outcome_def plain_inject map_inject split: option.splits outcome_value.splits)

lemma plain_event_inject [plain_inject]: "plain_event e = plain_event f \<longleftrightarrow> e = f"
  by (cases e; cases f) (auto simp: plain_event_def plain_inject)

lemma plain_derivation_inject [plain_inject]: "plain_derivation d = plain_derivation e \<longleftrightarrow> d = e"
  by (cases d; cases e) (auto simp: plain_derivation_def plain_inject)

text \<open>The alternatives of a field: an array, or a content reference (an object).\<close>

lemma plain_list_or_content:
  assumes "\<And>x y. f x = f y \<longleftrightarrow> x = y"
  shows "(case m of Inl xs \<Rightarrow> JArr (map f xs) | Inr c \<Rightarrow> plain_content c)
       = (case n of Inl xs \<Rightarrow> JArr (map f xs) | Inr c \<Rightarrow> plain_content c) \<longleftrightarrow> m = n"
  using map_inject [of f, OF assms] plain_content_inject
  by (cases m; cases n) (auto simp del: plain_content.simps, auto)

lemma plain_selected_source_inject:
  "(case v of Retained w \<Rightarrow> plain_value w | FromParent \<Rightarrow> JObj [(''kind'', JStr ''from_parent'')])
   = (case u of Retained w \<Rightarrow> plain_value w | FromParent \<Rightarrow> JObj [(''kind'', JStr ''from_parent'')])
   \<longleftrightarrow> v = u"
proof -
  have "plain_value w \<noteq> JObj [(''kind'', JStr ''from_parent'')]" for w by (cases w) auto
  then show ?thesis
    by (cases v; cases u) (auto simp: plain_inject simp del: plain_value.simps dest: sym)
qed

lemma plain_capture_origin_inject:
  "(case x of None \<Rightarrow> JNull | Some orig \<Rightarrow> plain_origin orig)
   = (case y of None \<Rightarrow> JNull | Some orig \<Rightarrow> plain_origin orig) \<longleftrightarrow> x = y"
  by (auto simp: plain_inject split: option.splits) (auto simp: plain_origin_def)

lemma plain_record_tag:
  "\<exists>rest. plain_record r = JObj ((''kind'', JStr (fst (record_key_of r))) # rest)"
  by (cases r) (simp_all add: record_head_def)

lemma plain_record_inject: "plain_record r = plain_record q \<longleftrightarrow> r = q"
proof
  assume eq: "plain_record r = plain_record q"
  have tag: "fst (record_key_of r) = fst (record_key_of q)"
    using eq plain_record_tag [of r] plain_record_tag [of q] by auto
  note simps = record_head_def plain_inject map_inject [OF plain_inject(1)]
  show "r = q"
  proof (cases r)
    case (EntityRecord a)
    then obtain b where "q = EntityRecord b" using tag by (cases q) auto
    with EntityRecord eq show ?thesis
      by (cases a; cases b) (auto simp: simps split: entity_type.splits)
  next
    case (StateRecord a)
    then obtain b where "q = StateRecord b" using tag by (cases q) auto
    with StateRecord eq show ?thesis by (cases a; cases b) (auto simp: simps)
  next
    case (RepresentationRecord a)
    then obtain b where "q = RepresentationRecord b" using tag by (cases q) auto
    with RepresentationRecord eq show ?thesis
      by (cases a; cases b) (auto simp: simps plain_list_or_content simp del: plain_content.simps)
  next
    case (RevisionRecord a)
    then obtain b where "q = RevisionRecord b" using tag by (cases q) auto
    with RevisionRecord eq show ?thesis
      by (cases a; cases b)
        (auto simp: simps plain_list_or_content map_inject simp del: plain_content.simps)
  next
    case (SelectedValueRecord a)
    then obtain b where "q = SelectedValueRecord b" using tag by (cases q) auto
    with SelectedValueRecord eq show ?thesis
      by (cases a; cases b)
        (auto simp: simps plain_list_or_content plain_selected_source_inject
           simp del: plain_content.simps plain_value.simps)
  next
    case (DefinitionRecord a)
    then obtain b where "q = DefinitionRecord b" using tag by (cases q) auto
    with DefinitionRecord eq show ?thesis
      by (cases a; cases b) (auto simp: simps map_inject split: operation_kind.splits)
  next
    case (RequestRecord a)
    then obtain b where "q = RequestRecord b" using tag by (cases q) auto
    with RequestRecord eq show ?thesis by (cases a; cases b) (auto simp: simps map_inject)
  next
    case (ExecutionRecord a)
    then obtain b where "q = ExecutionRecord b" using tag by (cases q) auto
    with ExecutionRecord eq show ?thesis
      by (cases a; cases b) (auto simp: simps plain_capture_origin_inject)
  next
    case (ResultRecord a)
    then obtain b where "q = ResultRecord b" using tag by (cases q) auto
    with ResultRecord eq show ?thesis by (cases a; cases b) (auto simp: simps map_inject)
  next
    case (SelectionRecord a)
    then obtain b where "q = SelectionRecord b" using tag by (cases q) auto
    with SelectionRecord eq show ?thesis by (cases a; cases b) (auto simp: simps map_inject)
  next
    case (PolicyRecord a)
    then obtain b where "q = PolicyRecord b" using tag by (cases q) auto
    with PolicyRecord eq show ?thesis by (cases a; cases b) (auto simp: simps)
  next
    case (EvidenceRecord a)
    then obtain b where "q = EvidenceRecord b" using tag by (cases q) auto
    with EvidenceRecord eq show ?thesis
      by (cases a; cases b) (auto simp: simps split: evidence_status.splits)
  qed
qed simp

section \<open>What encoding admits\<close>

lemma encode_record_admits:
  "encode_record P r = Inr b \<Longrightarrow> declared r \<and> check_record P r = Inr () \<and> canonical P (plain_record r) = Inr b"
  by (auto simp: encode_record_def record_value_def convert_record_def canonical_value_bytes_def
      bindE_Inr_iff thenE_Inr_iff split: if_splits sum.splits)

lemma encode_record_eq:
  "declared r \<Longrightarrow> check_record P r = Inr () \<Longrightarrow> canonical P (plain_record r) = Inr b
     \<Longrightarrow> encode_record P r = Inr b"
  by (simp add: encode_record_def record_value_def convert_record_def canonical_value_bytes_def)

lemma encode_record_result_rules:
  "encode_record P (ResultRecord r) = Inr b \<Longrightarrow> check_result P r = Inr ()"
  using encode_record_admits [of P "ResultRecord r" b] by simp

end
