(* ===== verification/Json_Patch.thy ===== *)
theory Json_Patch
  imports Core_Admission
begin

text \<open>
  JSON Pointer lookup and ordered JSON Patch edits: src/src/docspec/domain/json_values.py. A
  document is \<open>json option\<close>, with \<open>None\<close> for the ABSENT sentinel. The code mutates a private
  copy in place; the model rebuilds the path from the root to the edited parent, which is the
  same because the copy is a tree without sharing. The lemmas give the effect of each edit on
  later lookups, and the inverse pair of insertion and removal.
\<close>

section \<open>Addresses\<close>

text \<open>The full match of \<open>0|[1-9][0-9]*\<close>, and \<open>int(token)\<close>.\<close>

definition is_index_token :: "string \<Rightarrow> bool" where
  "is_index_token t = (t = ''0'' \<or> (t \<noteq> [] \<and> list_all is_digit t \<and> hd t \<noteq> CHR ''0''))"

definition nat_of_digits :: "string \<Rightarrow> nat" where
  "nat_of_digits t = foldl (\<lambda>n c. 10 * n + (of_char c - 48)) 0 t"

definition array_index :: "string \<Rightarrow> nat \<Rightarrow> bool \<Rightarrow> nat result" where
  "array_index token len ins =
     (if ins \<and> token = ''-'' then Inr len
      else if \<not> is_index_token token \<or> length (digits_of_nat len) < length token
      then Inl (IntegrityError ''JSON Pointer array index is invalid'')
      else let index = nat_of_digits token in
        if len < index \<or> (index = len \<and> \<not> ins)
        then Inl (IntegrityError ''JSON Pointer array index is out of range'')
        else Inr index)"

datatype json_key = Member string | Element nat

definition child_key :: "json option \<Rightarrow> string \<Rightarrow> bool \<Rightarrow> json_key result" where
  "child_key parent token ins =
     (case parent of
        Some (JObj kvs) \<Rightarrow>
          if \<not> ins \<and> token \<notin> set (map fst kvs)
          then Inl (IntegrityError ''JSON Pointer member is missing'') else Inr (Member token)
      | Some (JArr xs) \<Rightarrow> bindE (array_index token (length xs) ins) (\<lambda>i. Inr (Element i))
      | _ \<Rightarrow> Inl (IntegrityError ''JSON Pointer cannot traverse a scalar or absent value''))"

fun get_child :: "json \<Rightarrow> json_key \<Rightarrow> json" where
  "get_child (JObj kvs) (Member k) = dict_get kvs k"
| "get_child (JArr xs) (Element i) = xs ! i"
| "get_child j _ = JNull"

fun set_child :: "json \<Rightarrow> json_key \<Rightarrow> json \<Rightarrow> json" where
  "set_child (JObj kvs) (Member k) v = JObj (dict_set kvs k v)"
| "set_child (JArr xs) (Element i) v = JArr (xs[i := v])"
| "set_child j _ _ = j"

fun insert_child :: "json \<Rightarrow> json_key \<Rightarrow> json \<Rightarrow> json" where
  "insert_child (JArr xs) (Element i) v = JArr (take i xs @ v # drop i xs)"
| "insert_child j k v = set_child j k v"

fun delete_child :: "json \<Rightarrow> json_key \<Rightarrow> json" where
  "delete_child (JObj kvs) (Member k) = JObj (dict_del kvs k)"
| "delete_child (JArr xs) (Element i) = JArr (take i xs @ drop (Suc i) xs)"
| "delete_child j _ = j"

fun json_lookup :: "json option \<Rightarrow> string list \<Rightarrow> json result" where
  "json_lookup document [] =
     (case document of None \<Rightarrow> Inl (IntegrityError ''JSON Pointer document is absent'')
      | Some v \<Rightarrow> Inr v)"
| "json_lookup document (t # ts) =
     bindE (child_key document t False) (\<lambda>k. json_lookup (Some (get_child (the document) k)) ts)"

definition pointer_value :: "json \<Rightarrow> json \<Rightarrow> json option result" where
  "pointer_value value pointer =
     bindE (pointer_tokens pointer) (\<lambda>tokens.
       case json_lookup (Some value) tokens of Inl _ \<Rightarrow> Inr None | Inr v \<Rightarrow> Inr (Some v))"

section \<open>Edits\<close>

text \<open>Apply \<open>f\<close> to the value at an address, rebuilding the path above it.\<close>

fun edit_at :: "(json \<Rightarrow> json result) \<Rightarrow> json option \<Rightarrow> string list \<Rightarrow> json result" where
  "edit_at f document [] =
     (case document of None \<Rightarrow> Inl (IntegrityError ''JSON Pointer document is absent'')
      | Some v \<Rightarrow> f v)"
| "edit_at f document (t # ts) =
     bindE (child_key document t False) (\<lambda>k.
     bindE (edit_at f (Some (get_child (the document) k)) ts) (\<lambda>v.
       Inr (set_child (the document) k v)))"

definition json_write :: "json option \<Rightarrow> string list \<Rightarrow> json \<Rightarrow> bool \<Rightarrow> json option result" where
  "json_write document tokens value add =
     (if tokens = []
      then (if \<not> add then bindE (json_lookup document []) (\<lambda>_. Inr (Some value))
            else Inr (Some value))
      else bindE (edit_at (\<lambda>parent.
             bindE (child_key (Some parent) (last tokens) add) (\<lambda>k.
               Inr (if add then insert_child parent k value else set_child parent k value)))
             document (butlast tokens)) (\<lambda>v. Inr (Some v)))"

definition json_remove :: "json option \<Rightarrow> string list \<Rightarrow> json option result" where
  "json_remove document tokens =
     (if tokens = [] then bindE (json_lookup document []) (\<lambda>_. Inr None)
      else bindE (edit_at (\<lambda>parent.
             bindE (child_key (Some parent) (last tokens) False) (\<lambda>k. Inr (delete_child parent k)))
             document (butlast tokens)) (\<lambda>v. Inr (Some v)))"

definition apply_operation :: "platform \<Rightarrow> json option \<Rightarrow> object \<Rightarrow> json option result" where
  "apply_operation P document operation =
     (let op = dict_get operation ''op'' in
      bindE (pointer_tokens (dict_get operation ''path'')) (\<lambda>path.
      if op = JStr ''test'' then
        bindE (json_lookup document path) (\<lambda>found.
        bindE (canonical_value_bytes P found) (\<lambda>a.
        bindE (canonical_value_bytes P (dict_get operation ''value'')) (\<lambda>b.
          if a \<noteq> b then Inl (IntegrityError ''JSON Patch test failed'') else Inr document)))
      else if op = JStr ''remove'' then json_remove document path
      else if op \<in> {JStr ''move'', JStr ''copy''} then
        bindE (pointer_tokens (dict_get operation ''from'')) (\<lambda>source.
        bindE (json_lookup document source) (\<lambda>replacement.
        bindE (if op = JStr ''move'' then json_remove document source else Inr document)
          (\<lambda>document. json_write document path replacement True)))
      else json_write document path (dict_get operation ''value'') (op \<noteq> JStr ''replace'')))"

fun object_items :: "json \<Rightarrow> object" where
  "object_items (JObj kvs) = kvs"
| "object_items _ = []"

definition apply_patch :: "platform \<Rightarrow> json \<Rightarrow> json \<Rightarrow> json result" where
  "apply_patch P value operations =
     bindE (snapshot_json_value P value ''JSON Patch source'') (\<lambda>document.
     bindE (snapshot_json_value P operations ''JSON Patch operations'') (\<lambda>operations.
     thenE (validate_patch operations)
     (bindE (foldE (apply_operation P) (Some document)
               (case operations of JArr ops \<Rightarrow> map object_items ops | _ \<Rightarrow> [])) (\<lambda>document.
       case document of
         None \<Rightarrow> Inl (IntegrityError ''JSON Patch must produce a complete occurrence value'')
       | Some v \<Rightarrow> Inr v))))"

section \<open>Lookups and edits\<close>

lemma json_lookup_append:
  "json_lookup (Some j) (xs @ ys) = bindE (json_lookup (Some j) xs) (\<lambda>v. json_lookup (Some v) ys)"
  by (induction xs arbitrary: j) (simp_all add: bindE_assoc)

text \<open>A key the code resolves without insertion names a child of its parent.\<close>

definition has_child :: "json \<Rightarrow> json_key \<Rightarrow> bool" where
  "has_child j k = (case (j, k) of (JObj kvs, Member m) \<Rightarrow> m \<in> set (map fst kvs)
     | (JArr xs, Element i) \<Rightarrow> i < length xs | _ \<Rightarrow> False)"

lemma child_key_has_child:
  "child_key (Some j) t False = Inr k \<Longrightarrow> has_child j k"
  by (cases j)
    (auto simp: child_key_def has_child_def array_index_def Let_def bindE_Inr_iff image_iff
      split: if_splits, force)

lemma child_key_parent: "child_key doc t ins = Inr k \<Longrightarrow> \<exists>j. doc = Some j"
  by (cases doc) (auto simp: child_key_def)

lemma get_set_child: "has_child j k \<Longrightarrow> get_child (set_child j k v) k = v"
  by (cases j; cases k) (auto simp: has_child_def dict_get_def)

lemma set_child_has: "has_child j k \<Longrightarrow> has_child (set_child j k v) k"
  by (cases j; cases k) (auto simp: has_child_def keys_dict_set [simplified])

lemma set_child_key: "has_child j k \<Longrightarrow> child_key (Some (set_child j k v)) t ins = child_key (Some j) t ins"
proof (cases j; cases k)
  fix kvs m assume "j = JObj kvs" "k = Member m" "has_child j k"
  then have "insert m (fst ` set kvs) = fst ` set kvs" by (auto simp: has_child_def)
  with \<open>j = _\<close> \<open>k = _\<close> keys_dict_set [of kvs m v] show ?thesis by (simp add: child_key_def)
qed (auto simp: has_child_def child_key_def)

lemma set_child_twice:
  "set_child (set_child j k v) k w = set_child j k w"
proof -
  have "dict_set (dict_set kvs m v) m w = dict_set kvs m w" for kvs and m :: string and v w :: json
    by (induction kvs m v rule: dict_set.induct) auto
  then show ?thesis by (cases j; cases k) auto
qed

lemma set_get_child: "has_child j k \<Longrightarrow> set_child j k (get_child j k) = j"
proof -
  have "m \<in> fst ` set kvs \<Longrightarrow> dict_set kvs m (dict_get kvs m) = kvs" for kvs and m :: string
    by (induction kvs m "dict_get kvs m" rule: dict_set.induct) (auto simp: dict_get_def)
  then show "has_child j k \<Longrightarrow> set_child j k (get_child j k) = j"
    by (cases j; cases k) (auto simp: has_child_def)
qed

lemma edit_at_lookup:
  "edit_at f doc ts = Inr v' \<Longrightarrow>
     \<exists>v. json_lookup doc ts = Inr v \<and> (\<exists>w. f v = Inr w \<and> json_lookup (Some v') ts = Inr w)"
proof (induction ts arbitrary: doc v')
  case Nil
  then show ?case by (auto split: option.splits)
next
  case (Cons t ts)
  from Cons.prems obtain k c where k: "child_key doc t False = Inr k"
    and c: "edit_at f (Some (get_child (the doc) k)) ts = Inr c" and v': "v' = set_child (the doc) k c"
    by (auto simp: bindE_Inr_iff)
  obtain j where j: "doc = Some j" using child_key_parent [OF k] by blast
  have hc: "has_child j k" using k j child_key_has_child by simp
  with Cons.IH [OF c] k j v' show ?case
    by (auto simp: set_child_key get_set_child)
qed

lemma edit_at_edit_at:
  "edit_at f doc ts = Inr v' \<Longrightarrow>
     edit_at g (Some v') ts = edit_at (\<lambda>v. bindE (f v) g) doc ts"
proof (induction ts arbitrary: doc v')
  case Nil
  then show ?case by (auto split: option.splits)
next
  case (Cons t ts)
  from Cons.prems obtain k c where k: "child_key doc t False = Inr k"
    and c: "edit_at f (Some (get_child (the doc) k)) ts = Inr c" and v': "v' = set_child (the doc) k c"
    by (auto simp: bindE_Inr_iff)
  obtain j where j: "doc = Some j" using child_key_parent [OF k] by blast
  have hc: "has_child j k" using k j child_key_has_child by simp
  with Cons.IH [OF c] k j v' show ?case
    by (simp add: set_child_key get_set_child set_child_twice)
qed

lemma edit_at_id:
  "edit_at (\<lambda>v. Inr v) doc ts = Inr v' \<Longrightarrow> doc = Some v'"
proof (induction ts arbitrary: doc v')
  case Nil
  then show ?case by (auto split: option.splits)
next
  case (Cons t ts)
  from Cons.prems obtain k c where k: "child_key doc t False = Inr k"
    and c: "edit_at (\<lambda>v. Inr v) (Some (get_child (the doc) k)) ts = Inr c"
    and v': "v' = set_child (the doc) k c"
    by (auto simp: bindE_Inr_iff)
  obtain j where j: "doc = Some j" using child_key_parent [OF k] by blast
  have hc: "has_child j k" using k j child_key_has_child by simp
  from Cons.IH [OF c] have "c = get_child j k" using j by simp
  with hc v' j show ?case by (simp add: set_get_child)
qed

lemma edit_at_ok:
  "edit_at f doc ts = Inr v' \<Longrightarrow> edit_at (\<lambda>v. bindE (f v) (\<lambda>_. Inr v)) doc ts = Inr (the doc)"
proof (induction ts arbitrary: doc v')
  case Nil
  then show ?case by (auto split: option.splits)
next
  case (Cons t ts)
  from Cons.prems obtain k c where k: "child_key doc t False = Inr k"
    and c: "edit_at f (Some (get_child (the doc) k)) ts = Inr c" and v': "v' = set_child (the doc) k c"
    by (auto simp: bindE_Inr_iff)
  obtain j where j: "doc = Some j" using child_key_parent [OF k] by blast
  have hc: "has_child j k" using k j child_key_has_child by simp
  from Cons.IH [OF c] k j hc show ?case by (simp add: set_get_child)
qed

section \<open>Index tokens\<close>

lemma digits_of_nat_small: "n < 10 \<Longrightarrow> digits_of_nat n = [char_of (48 + n)]"
  by (simp add: digits_of_nat.simps [of n])

lemma digits_of_nat_step:
  "0 < n \<Longrightarrow> d < 10 \<Longrightarrow> digits_of_nat (10 * n + d) = digits_of_nat n @ [char_of (48 + d)]"
  by (simp add: digits_of_nat.simps [of "10 * n + d"])

lemma digits_length_mono: "m \<le> n \<Longrightarrow> length (digits_of_nat m) \<le> length (digits_of_nat n)"
proof (induction n arbitrary: m rule: less_induct)
  case (less n)
  show ?case
  proof (cases "m < 10")
    case True
    then show ?thesis by (simp add: digits_of_nat_small digits_of_nat.simps [of n])
  next
    case False
    with less.prems have "length (digits_of_nat (m div 10)) \<le> length (digits_of_nat (n div 10))"
      by (intro less.IH) (auto intro: div_le_mono)
    with False less.prems show ?thesis
      by (simp add: digits_of_nat.simps [of n] digits_of_nat.simps [of m])
  qed
qed

lemma digit_value:
  assumes "is_digit c"
  shows "of_char c - 48 < (10 :: nat) \<and> char_of (48 + (of_char c - 48) :: nat) = c
    \<and> (c \<noteq> CHR ''0'' \<longrightarrow> 0 < (of_char c - 48 :: nat))"
proof -
  have range: "48 \<le> (of_char c :: nat)" "(of_char c :: nat) < 58" "c \<noteq> CHR ''0'' \<longrightarrow> 48 < (of_char c :: nat)"
    using assms by (auto simp: is_digit_def)
  then have "48 + (of_char c - 48) = (of_char c :: nat)" by simp
  then have "char_of (48 + (of_char c - 48) :: nat) = c" by (metis char_of_char)
  with range show ?thesis by auto
qed

lemma nat_of_digits_snoc: "nat_of_digits (t @ [c]) = 10 * nat_of_digits t + (of_char c - 48)"
  by (simp add: nat_of_digits_def)

lemma nat_of_digits_pos:
  "t \<noteq> [] \<Longrightarrow> list_all is_digit t \<Longrightarrow> hd t \<noteq> CHR ''0'' \<Longrightarrow> 0 < nat_of_digits t"
proof (induction t rule: rev_induct)
  case (snoc c t)
  show ?case
  proof (cases "t = []")
    case True
    with snoc.prems digit_value [of c] show ?thesis by (simp add: nat_of_digits_def)
  next
    case False
    with snoc show ?thesis by (simp add: nat_of_digits_snoc)
  qed
qed simp

lemma digits_nat_of_digits: "is_index_token t \<Longrightarrow> digits_of_nat (nat_of_digits t) = t"
proof -
  have "t \<noteq> [] \<Longrightarrow> list_all is_digit t \<Longrightarrow> hd t \<noteq> CHR ''0'' \<Longrightarrow> digits_of_nat (nat_of_digits t) = t"
  proof (induction t rule: rev_induct)
    case (snoc c t)
    from snoc.prems have c: "is_digit c" by simp
    show ?case
    proof (cases "t = []")
      case True
      with c digit_value [of c] show ?thesis
        by (simp add: nat_of_digits_def digits_of_nat_small)
    next
      case False
      with snoc.prems have "0 < nat_of_digits t" by (intro nat_of_digits_pos) auto
      with False snoc digit_value [OF c] show ?thesis
        by (simp add: nat_of_digits_snoc digits_of_nat_step)
    qed
  qed simp
  moreover have "digits_of_nat (nat_of_digits ''0'') = ''0''" by code_simp
  ultimately show "is_index_token t \<Longrightarrow> digits_of_nat (nat_of_digits t) = t"
    by (auto simp: is_index_token_def)
qed

lemma array_index_inject:
  "array_index s n False = Inr i \<Longrightarrow> array_index t n False = Inr i \<Longrightarrow> s = t"
  using digits_nat_of_digits by (auto simp: array_index_def Let_def split: if_splits) metis

lemma array_index_grown:
  assumes "array_index t n ins = Inr i" "t \<noteq> ''-''" "i < m" "n \<le> m"
  shows "array_index t m False = Inr i"
  using assms digits_length_mono [of n m]
  by (auto simp: array_index_def Let_def split: if_splits)

lemma array_index_bound: "array_index t n ins = Inr i \<Longrightarrow> i \<le> n \<and> (\<not> ins \<longrightarrow> i < n)"
  by (auto simp: array_index_def Let_def split: if_splits)

section \<open>Effects of the edits\<close>

lemma edit_at_local:
  "json_lookup doc ts = Inr p \<Longrightarrow> f p = g p \<Longrightarrow> edit_at f doc ts = edit_at g doc ts"
proof (induction ts arbitrary: doc)
  case Nil
  then show ?case by (auto split: option.splits)
qed (auto simp: bindE_Inr_iff)

lemma edit_at_same: "json_lookup (Some d) ts = Inr p \<Longrightarrow> edit_at Inr (Some d) ts = Inr d"
proof (induction ts arbitrary: d)
  case (Cons t ts)
  then obtain k where k: "child_key (Some d) t False = Inr k"
    and "json_lookup (Some (get_child d k)) ts = Inr p"
    by (auto simp: bindE_Inr_iff)
  with Cons.IH set_get_child [OF child_key_has_child [OF k]] show ?case by simp
qed simp

text \<open>Inside the edited parent: the new child is found under the same token.\<close>

lemma added_child:
  assumes "child_key (Some p) t add = Inr k" "add \<longrightarrow> t \<noteq> ''-''"
    and w_def: "w = (if add then insert_child p k v else set_child p k v)"
  shows "child_key (Some w) t False = Inr k \<and> get_child w k = v"
proof (cases p)
  case (JArr xs)
  then obtain i where k: "k = Element i" and i: "array_index t (length xs) add = Inr i"
    using assms(1) by (auto simp: child_key_def bindE_Inr_iff)
  have dash: "array_index ''-'' (length xs) False \<noteq> Inr i"
    by (simp add: array_index_def is_index_token_def is_digit_def)
  show ?thesis
  proof (cases add)
    case True
    have "i \<le> length xs" using array_index_bound [OF i] by simp
    moreover have "array_index t (Suc (length xs)) False = Inr i"
      by (rule array_index_grown [OF i]) (use True assms(2) \<open>i \<le> length xs\<close> in auto)
    ultimately show ?thesis using True JArr k by (simp add: w_def child_key_def nth_append)
  next
    case False
    then have "i < length xs" using array_index_bound [OF i] by simp
    with False JArr k i show ?thesis by (simp add: w_def child_key_def)
  qed
next
  case (JObj kvs)
  then have k: "k = Member t" using assms(1) by (auto simp: child_key_def split: if_splits)
  have "t \<in> set (map fst (dict_set kvs t v))" using keys_dict_set [of kvs t v] by simp
  with k JObj show ?thesis by (simp add: w_def child_key_def dict_get_def)
qed (use assms(1) in \<open>auto simp: child_key_def\<close>)

lemma write_then_lookup:
  assumes "json_write (Some d) (ts @ [t]) v add = Inr doc'" "add \<longrightarrow> t \<noteq> ''-''"
  shows "\<exists>d'. doc' = Some d' \<and> json_lookup (Some d') (ts @ [t]) = Inr v"
proof -
  obtain d' where d': "doc' = Some d'" and e: "edit_at (\<lambda>parent.
      bindE (child_key (Some parent) t add) (\<lambda>k.
        Inr (if add then insert_child parent k v else set_child parent k v))) (Some d) ts = Inr d'"
    using assms(1) by (auto simp: json_write_def bindE_Inr_iff)
  obtain p w k where "child_key (Some p) t add = Inr k"
    and w: "w = (if add then insert_child p k v else set_child p k v)"
    and l: "json_lookup (Some d') ts = Inr w"
    using edit_at_lookup [OF e] by (auto simp: bindE_Inr_iff)
  then have "child_key (Some w) t False = Inr k \<and> get_child w k = v"
    using added_child [OF _ assms(2)] by simp
  with l d' show ?thesis by (simp add: json_lookup_append)
qed

lemma removed_added_child:
  assumes "child_key (Some p) t True = Inr k" "t \<noteq> ''-''"
    and "\<And>kvs. p = JObj kvs \<Longrightarrow> t \<notin> set (map fst kvs)"
  shows "delete_child (insert_child p k v) k = p"
proof (cases p)
  case (JArr xs)
  then obtain i where k: "k = Element i" and i: "array_index t (length xs) True = Inr i"
    using assms(1) by (auto simp: child_key_def bindE_Inr_iff)
  then show ?thesis using JArr array_index_bound [OF i] by (simp add: drop_append)
next
  case (JObj kvs)
  then have k: "k = Member t" using assms(1) by (auto simp: child_key_def split: if_splits)
  have t: "t \<notin> set (map fst kvs)" by (rule assms(3) [OF JObj])
  then have "dict_del (dict_set kvs t v) t = filter (\<lambda>(k', _). k' \<noteq> t) kvs"
    by (simp add: dict_set_new dict_del_def)
  also have "\<dots> = kvs" using t by (force intro: filter_True)
  finally show ?thesis using JObj k by simp
qed (use assms(1) in \<open>auto simp: child_key_def\<close>)

lemma write_then_remove:
  assumes w: "json_write (Some d) (ts @ [t]) v True = Inr (Some d')" and t: "t \<noteq> ''-''"
    and fresh: "\<And>kvs. json_lookup (Some d) ts = Inr (JObj kvs) \<Longrightarrow> t \<notin> set (map fst kvs)"
  shows "json_remove (Some d') (ts @ [t]) = Inr (Some d)"
proof -
  define f where "f parent = bindE (child_key (Some parent) t True) (\<lambda>k. Inr (insert_child parent k v))" for parent
  define g where "g parent = bindE (child_key (Some parent) t False) (\<lambda>k. Inr (delete_child parent k))" for parent
  have e: "edit_at f (Some d) ts = Inr d'" using w by (auto simp: json_write_def bindE_Inr_iff f_def [abs_def])
  obtain p where p: "json_lookup (Some d) ts = Inr p" and fp: "is_ok (f p)"
    using edit_at_lookup [OF e] by (auto simp: is_ok_def)
  obtain k where k: "child_key (Some p) t True = Inr k"
    using fp by (cases "child_key (Some p) t True") (auto simp: f_def)
  have "bindE (f p) g = Inr p"
    using added_child [OF k, of "insert_child p k v" v] removed_added_child [OF k t, of v] fresh p k t
    by (auto simp: f_def g_def)
  then have "edit_at (\<lambda>x. bindE (f x) g) (Some d) ts = edit_at Inr (Some d) ts"
    by (intro edit_at_local [OF p]) simp
  also have "\<dots> = Inr d" by (rule edit_at_same [OF p])
  finally have "edit_at g (Some d') ts = Inr d" by (simp add: edit_at_edit_at [OF e])
  then show ?thesis by (simp add: json_remove_def g_def [abs_def])
qed

lemma get_set_other:
  assumes "child_key (Some j) a False = Inr k" "child_key (Some j) b False = Inr l" "a \<noteq> b"
  shows "get_child (set_child j k v) l = get_child j l"
proof (cases j)
  case (JArr xs)
  then obtain m n where m: "array_index a (length xs) False = Inr m" "k = Element m"
    and n: "array_index b (length xs) False = Inr n" "l = Element n"
    using assms by (auto simp: child_key_def bindE_Inr_iff)
  have "m \<noteq> n" using array_index_inject m(1) n(1) assms(3) by metis
  with JArr m n show ?thesis by simp
qed (use assms in \<open>auto simp: child_key_def dict_get_def split: if_splits\<close>)

text \<open>An edit below one child leaves the lookups below every other child as they were.\<close>

lemma edit_at_frame:
  "edit_at f doc (c @ a # as) = Inr d' \<Longrightarrow> json_lookup doc (c @ b # bs) = Inr x \<Longrightarrow> a \<noteq> b
     \<Longrightarrow> json_lookup (Some d') (c @ b # bs) = Inr x"
proof (induction c arbitrary: doc d')
  case Nil
  from Nil.prems obtain k e where k: "child_key doc a False = Inr k" and d': "d' = set_child (the doc) k e"
    by (auto simp: bindE_Inr_iff)
  from Nil.prems obtain l where l: "child_key doc b False = Inr l"
    and x: "json_lookup (Some (get_child (the doc) l)) bs = Inr x"
    by (auto simp: bindE_Inr_iff)
  obtain j where j: "doc = Some j" using child_key_parent [OF k] by blast
  have "child_key (Some d') b False = Inr l"
    using set_child_key [OF child_key_has_child] k l d' j by simp
  then show ?case using get_set_other [of j a k b l e] k l j d' x Nil.prems(3) by simp
next
  case (Cons t c)
  from Cons.prems(1) obtain k e where k: "child_key doc t False = Inr k"
    and e: "edit_at f (Some (get_child (the doc) k)) (c @ a # as) = Inr e"
    and d': "d' = set_child (the doc) k e"
    by (auto simp: bindE_Inr_iff)
  obtain j where j: "doc = Some j" using child_key_parent [OF k] by blast
  have hc: "has_child j k" using k j child_key_has_child by simp
  have "json_lookup (Some (get_child (the doc) k)) (c @ b # bs) = Inr x"
    using Cons.prems(2) k by simp
  then have "json_lookup (Some e) (c @ b # bs) = Inr x" by (rule Cons.IH [OF e _ Cons.prems(3)])
  with d' j hc k show ?case by (simp add: set_child_key get_set_child)
qed

lemma replace_frame:
  assumes "json_write (Some d) (c @ a # as) v False = Inr (Some d')"
    and "json_lookup (Some d) (c @ b # bs) = Inr x" "a \<noteq> b"
  shows "json_lookup (Some d') (c @ b # bs) = Inr x"
proof -
  define f where "f parent = bindE (child_key (Some parent) (last (a # as)) False)
      (\<lambda>k. Inr (set_child parent k v))" for parent
  have e: "edit_at f (Some d) (butlast (c @ a # as)) = Inr d'"
    using assms(1) by (auto simp: json_write_def bindE_Inr_iff f_def [abs_def])
  have full: "edit_at (\<lambda>_. Inr v) (Some d) (c @ a # as) = Inr d'"
  proof -
    have snoc: "edit_at (\<lambda>_. Inr v) doc (ts @ [t]) =
        edit_at (\<lambda>p. bindE (child_key (Some p) t False) (\<lambda>k. Inr (set_child p k v))) doc ts"
      if "doc \<noteq> None" for doc ts t
      using that by (induction ts arbitrary: doc) auto
    have "c @ a # as = butlast (c @ a # as) @ [last (a # as)]"
      by (metis append_butlast_last_id append_is_Nil_conv last_appendR list.distinct(1))
    with snoc [of "Some d" "butlast (c @ a # as)" "last (a # as)"] e show ?thesis
      by (simp add: f_def [abs_def])
  qed
  show ?thesis by (rule edit_at_frame [OF full assms(2,3)])
qed

end
