(* ===== verification/Reference_Codec.thy ===== *)
theory Reference_Codec
  imports Json_Patch
begin

text \<open>
  A concrete instance of the imported functions, for the closed examples of this development:
  an encoder that sorts keys and adds no whitespace, with its decoder, and stand-ins for the
  digest and the time parser. The lemmas show that the instance has every documented fact the
  theorems name as a hypothesis, so none of these hypotheses is empty. It is not the program's
  codec: its strings escape only the quote and the backslash.
\<close>

section \<open>The encoder\<close>

fun quoted :: "string \<Rightarrow> string" where
  "quoted [] = [CHR 0x22]"
| "quoted (c # s) = (if c = CHR 0x22 \<or> c = CHR 0x5C then CHR 0x5C # c # quoted s else c # quoted s)"

fun emit :: "json \<Rightarrow> string" where
  "emit JNull = ''null''"
| "emit (JBool b) = (if b then ''true'' else ''false'')"
| "emit (JInt i) = str_of_int i"
| "emit (JStr s) = CHR 0x22 # quoted s"
| "emit (JArr js) = CHR ''['' # join_with '','' (map emit js) @ '']''"
| "emit (JObj kvs) =
     CHR ''{'' # join_with '','' (map (\<lambda>kv. (CHR 0x22 # quoted (fst kv)) @ CHR '':'' # emit (snd kv)) kvs) @ ''}''"

section \<open>The decoder\<close>

fun unquote :: "string \<Rightarrow> (string \<times> string) option" where
  "unquote [] = None"
| "unquote (c # s) =
     (if c = CHR 0x22 then Some ([], s)
      else if c = CHR 0x5C then
        (case s of [] \<Rightarrow> None | d # t \<Rightarrow> map_option (\<lambda>(u, r). (d # u, r)) (unquote t))
      else map_option (\<lambda>(u, r). (c # u, r)) (unquote s))"

definition read_int :: "string \<Rightarrow> (json \<times> string) option" where
  "read_int s =
     (case s of [] \<Rightarrow> None
      | c # t \<Rightarrow> if c = CHR ''-''
                then Some (JInt (- int (nat_of_digits (takeWhile is_digit t))), dropWhile is_digit t)
                else Some (JInt (int (nat_of_digits (takeWhile is_digit s))), dropWhile is_digit s))"

fun read_json :: "nat \<Rightarrow> string \<Rightarrow> (json \<times> string) option"
  and read_items :: "nat \<Rightarrow> string \<Rightarrow> (json list \<times> string) option"
  and read_pairs :: "nat \<Rightarrow> string \<Rightarrow> ((string \<times> json) list \<times> string) option" where
  "read_json 0 s = None"
| "read_json (Suc n) s =
     (case s of
        [] \<Rightarrow> None
      | c # t \<Rightarrow>
        if c = CHR ''n'' then Some (JNull, drop 3 t)
        else if c = CHR ''t'' then Some (JBool True, drop 3 t)
        else if c = CHR ''f'' then Some (JBool False, drop 4 t)
        else if c = CHR 0x22 then map_option (\<lambda>(u, r). (JStr u, r)) (unquote t)
        else if c = CHR ''['' then
          (if starts_with '']'' t then Some (JArr [], drop 1 t)
           else map_option (\<lambda>(js, r). (JArr js, r)) (read_items n t))
        else if c = CHR ''{'' then
          (if starts_with ''}'' t then Some (JObj [], drop 1 t)
           else map_option (\<lambda>(kvs, r). (JObj kvs, r)) (read_pairs n t))
        else read_int s)"
| "read_items 0 s = None"
| "read_items (Suc n) s =
     (case read_json n s of None \<Rightarrow> None
      | Some (j, r) \<Rightarrow>
        (case r of [] \<Rightarrow> None
         | c # t \<Rightarrow> if c = CHR '','' then map_option (\<lambda>(js, r). (j # js, r)) (read_items n t)
                   else Some ([j], t)))"
| "read_pairs 0 s = None"
| "read_pairs (Suc n) s =
     (case unquote (drop 1 s) of None \<Rightarrow> None
      | Some (k, r) \<Rightarrow>
        (case read_json n (drop 1 r) of None \<Rightarrow> None
         | Some (j, r) \<Rightarrow>
           (case r of [] \<Rightarrow> None
            | c # t \<Rightarrow> if c = CHR '','' then map_option (\<lambda>(kvs, r). ((k, j) # kvs, r)) (read_pairs n t)
                      else Some ([(k, j)], t))))"

section \<open>The decoder inverts the encoder\<close>

lemma unquote_quoted [simp]: "unquote (quoted s @ r) = Some (s, r)"
  by (induction s) auto

lemma digits_of_nat_digits: "list_all is_digit (digits_of_nat n) \<and> digits_of_nat n \<noteq> []"
proof (induction n rule: digits_of_nat.induct)
  case (1 n)
  have d: "is_digit (char_of (48 + m))" if "m < 10" for m :: nat
  proof -
    have "\<forall>m \<in> set [0..<10]. is_digit (char_of (48 + m :: nat))" by code_simp
    then show ?thesis using that by simp
  qed
  show ?case using 1 d [of n] d [of "n mod 10"] by (simp add: digits_of_nat.simps [of n])
qed

lemma nat_of_digits_of_nat: "nat_of_digits (digits_of_nat n) = n"
proof (induction n rule: digits_of_nat.induct)
  case (1 n)
  have d: "of_char (char_of (48 + m)) - 48 = m" if "m < 10" for m :: nat
  proof -
    have "48 + m < 256" using that by simp
    then show ?thesis by (simp add: of_char_of)
  qed
  show ?case
  proof (cases "n < 10")
    case True
    then show ?thesis using d [of n] by (simp add: digits_of_nat_small nat_of_digits_def)
  next
    case False
    then show ?thesis using 1 d [of "n mod 10"]
      by (simp add: digits_of_nat.simps [of n] nat_of_digits_snoc)
  qed
qed

text \<open>What may follow an integer.\<close>

definition number_ends :: "string \<Rightarrow> bool" where
  "number_ends r = (case r of [] \<Rightarrow> True | c # _ \<Rightarrow> \<not> is_digit c)"

lemma take_digits:
  "number_ends r \<Longrightarrow> takeWhile is_digit (digits_of_nat n @ r) = digits_of_nat n
     \<and> dropWhile is_digit (digits_of_nat n @ r) = r"
  using digits_of_nat_digits [of n]
  by (cases r) (auto simp: number_ends_def list_all_iff)

lemma read_str_of_int:
  assumes "number_ends r"
  shows "read_int (str_of_int i @ r) = Some (JInt i, r)"
proof (cases "i < 0")
  case True
  then show ?thesis using take_digits [OF assms]
    by (simp add: read_int_def str_of_int_def nat_of_digits_of_nat)
next
  case False
  obtain c t where ct: "digits_of_nat (nat i) = c # t" "is_digit c"
    using digits_of_nat_digits [of "nat i"] by (cases "digits_of_nat (nat i)") auto
  then have "c \<noteq> CHR ''-''" by (auto simp: is_digit_def)
  then show ?thesis using take_digits [OF assms, of "nat i"] ct False nat_of_digits_of_nat [of "nat i"]
    by (simp add: read_int_def str_of_int_def)
qed

lemma str_of_int_hd: "\<exists>c t. str_of_int i = c # t \<and> (c = CHR ''-'' \<or> is_digit c)"
  using digits_of_nat_digits [of "nat i"]
  by (cases "digits_of_nat (nat i)") (auto simp: str_of_int_def)

lemma emit_hd: "\<exists>c t. emit j = c # t \<and> c \<notin> {CHR '']'', CHR ''}'', CHR '',''}"
  using str_of_int_hd by (cases j) (auto simp: is_digit_def, fastforce)

lemma read_items_emit:
  assumes "\<And>j n r. j \<in> set js \<Longrightarrow> length (emit j) \<le> n \<Longrightarrow> number_ends r \<Longrightarrow> read_json n (emit j @ r) = Some (j, r)"
    and "js \<noteq> []" "length (join_with '','' (map emit js)) < n"
  shows "read_items n (join_with '','' (map emit js) @ CHR '']'' # r) = Some (js, r)"
  using assms
proof (induction js arbitrary: n)
  case (Cons j js)
  obtain m where n: "n = Suc m" using Cons.prems(3) by (cases n) auto
  show ?case
  proof (cases js)
    case Nil
    have "read_json m (emit j @ CHR '']'' # r) = Some (j, CHR '']'' # r)"
      using Cons.prems(3) Nil n by (intro Cons.prems(1)) (auto simp: number_ends_def is_digit_def)
    then show ?thesis using Nil n by simp
  next
    case (Cons k ks)
    let ?rest = "join_with '','' (map emit js)"
    have j: "join_with '','' (map emit (j # js)) = emit j @ CHR '','' # ?rest" using Cons by simp
    have "read_json m (emit j @ CHR '','' # ?rest @ CHR '']'' # r) = Some (j, CHR '','' # ?rest @ CHR '']'' # r)"
      using Cons.prems(3) n j by (intro Cons.prems(1)) (auto simp: number_ends_def is_digit_def)
    moreover have "read_items m (?rest @ CHR '']'' # r) = Some (js, r)"
      using Cons.prems(3) n j Cons by (intro Cons.IH Cons.prems(1)) auto
    ultimately show ?thesis using n j by simp
  qed
qed simp

abbreviation emit_pair :: "string \<times> json \<Rightarrow> string" where
  "emit_pair kv \<equiv> (CHR 0x22 # quoted (fst kv)) @ CHR '':'' # emit (snd kv)"

lemma read_pairs_emit:
  assumes "\<And>kv n r. kv \<in> set kvs \<Longrightarrow> length (emit (snd kv)) \<le> n \<Longrightarrow> number_ends r
             \<Longrightarrow> read_json n (emit (snd kv) @ r) = Some (snd kv, r)"
    and "kvs \<noteq> []" "length (join_with '','' (map emit_pair kvs)) < n"
  shows "read_pairs n (join_with '','' (map emit_pair kvs) @ CHR ''}'' # r) = Some (kvs, r)"
  using assms
proof (induction kvs arbitrary: n)
  case (Cons kv kvs)
  obtain m where n: "n = Suc m" using Cons.prems(3) by (cases n) auto
  show ?case
  proof (cases kvs)
    case Nil
    have "read_json m (emit (snd kv) @ CHR ''}'' # r) = Some (snd kv, CHR ''}'' # r)"
      using Cons.prems(3) Nil n by (intro Cons.prems(1)) (auto simp: number_ends_def is_digit_def)
    then show ?thesis using Nil n by simp
  next
    case (Cons k ks)
    let ?rest = "join_with '','' (map emit_pair kvs)"
    have j: "join_with '','' (map emit_pair (kv # kvs)) = emit_pair kv @ CHR '','' # ?rest"
      using Cons by simp
    have "read_json m (emit (snd kv) @ CHR '','' # ?rest @ CHR ''}'' # r)
        = Some (snd kv, CHR '','' # ?rest @ CHR ''}'' # r)"
      using Cons.prems(3) n j by (intro Cons.prems(1)) (auto simp: number_ends_def is_digit_def)
    moreover have "read_pairs m (?rest @ CHR ''}'' # r) = Some (kvs, r)"
      using Cons.prems(3) n j Cons by (intro Cons.IH Cons.prems(1)) auto
    ultimately show ?thesis using n unfolding j by simp
  qed
qed simp

lemma read_emit:
  "length (emit j) \<le> n \<Longrightarrow> number_ends r \<Longrightarrow> read_json n (emit j @ r) = Some (j, r)"
proof (induction j arbitrary: n r rule: emit.induct)
  case 1
  then show ?case by (cases n) auto
next
  case (2 b)
  then show ?case by (cases n; cases b) auto
next
  case (3 i)
  obtain c t where ct: "str_of_int i = c # t" "c = CHR ''-'' \<or> is_digit c"
    using str_of_int_hd by blast
  then have "c \<notin> {CHR ''n'', CHR ''t'', CHR ''f'', CHR 0x22, CHR ''['', CHR ''{''}"
    by (auto simp: is_digit_def)
  moreover have "read_int (c # t @ r) = Some (JInt i, r)"
    using read_str_of_int [OF 3(2), of i] ct by simp
  ultimately show ?case using ct(1) 3(1) by (cases n) auto
next
  case (4 s)
  then show ?case by (cases n) auto
next
  case (5 js)
  obtain m where n: "n = Suc m" using 5(2) by (cases n) auto
  show ?case
  proof (cases "js = []")
    case True
    then show ?thesis using n by (simp add: starts_with_def)
  next
    case False
    let ?body = "join_with '','' (map emit js)"
    have "read_items m (?body @ CHR '']'' # r) = Some (js, r)"
      using 5(2) n by (intro read_items_emit False 5(1)) auto
    moreover obtain c t where "?body = c # t" "c \<noteq> CHR '']''"
      using False emit_hd [of "hd js"] by (cases js rule: remdups_adj.cases) auto
    ultimately show ?thesis using n by (simp add: starts_with_def)
  qed
next
  case (6 kvs)
  obtain m where n: "n = Suc m" using 6(2) by (cases n) auto
  show ?case
  proof (cases "kvs = []")
    case True
    then show ?thesis using n by (simp add: starts_with_def)
  next
    case False
    let ?body = "join_with '','' (map emit_pair kvs)"
    have "read_pairs m (?body @ CHR ''}'' # r) = Some (kvs, r)"
      using 6(2) n by (intro read_pairs_emit False 6(1)) auto
    moreover obtain t where "?body = CHR 0x22 # t"
      using False by (cases kvs rule: remdups_adj.cases) auto
    ultimately show ?thesis using n by (simp add: starts_with_def)
  qed
qed

lemma emit_inject: "emit j = emit k \<longleftrightarrow> j = k"
  using read_emit [of j "length (emit j)" "[]"] read_emit [of k "length (emit j)" "[]"]
  by (auto simp: number_ends_def)

section \<open>The instance\<close>

definition chars_of :: "bytes \<Rightarrow> string" where
  "chars_of b = map (\<lambda>x. char_of (unat x)) b"

lemma chars_of_ascii [simp]: "chars_of (ascii_bytes s) = s"
proof -
  have "char_of (unat (of_char c :: byte)) = c" for c
  proof -
    have "(of_char c :: byte) = of_nat (of_char c)" by (simp add: of_nat_of_char)
    then have "unat (of_char c :: byte) = take_bit 8 (of_char c)" by (simp add: unat_of_nat take_bit_eq_mod)
    then show ?thesis by (simp add: take_bit_eq_mod)
  qed
  then show ?thesis by (simp add: chars_of_def ascii_bytes_def map_idI)
qed

definition reference_decode :: "bytes \<Rightarrow> json result" where
  "reference_decode b =
     (case read_json (length b) (chars_of b) of
        Some (j, []) \<Rightarrow> if emit (key_sorted j) = chars_of b then Inr j else Inl (ValueError ''not canonical'')
      | _ \<Rightarrow> Inl (ValueError ''not canonical''))"

definition hex_digit :: "nat \<Rightarrow> char" where
  "hex_digit n = ''0123456789abcdef'' ! (n mod 16)"

text \<open>A stand-in with the form of a digest: the length and the first bytes, in hexadecimal.\<close>

definition reference_hex :: "bytes \<Rightarrow> string" where
  "reference_hex b = hex_digit (length b div 16) # hex_digit (length b)
     # map (\<lambda>i. hex_digit (if i < length b then unat (b ! i) else 0)) [0..<62]"

definition reference_platform :: platform where
  "reference_platform =
     \<lparr>canonical = (\<lambda>j. Inr (ascii_bytes (emit (key_sorted j)))),
      parse_canonical = reference_decode,
      sha256_hex = reference_hex,
      from_isoformat = (\<lambda>s. if s = ''2024-01-01T00:00:00+00:00''
        then Some \<lparr>im_ordinal = 738886, im_hour = 0, im_minute = 0, im_second = 0,
                   im_microsecond = 0, im_utcoffset = Some 0\<rparr>
        else None)\<rparr>"

lemma reference_canonical [simp]:
  "canonical reference_platform j = Inr (ascii_bytes (emit (key_sorted j)))"
  by (simp add: reference_platform_def)

lemma ascii_bytes_inject: "ascii_bytes s = ascii_bytes t \<longleftrightarrow> s = t"
  by (metis chars_of_ascii)

lemma reference_hex_documented [simp]: "hex_documented reference_platform"
proof -
  have "is_hex (hex_digit n)" for n
  proof -
    have "hex_digit n \<in> set ''0123456789abcdef''" unfolding hex_digit_def by (rule nth_mem) simp
    then show ?thesis by (simp add: is_hex_def)
  qed
  then show ?thesis by (simp add: hex_documented_def reference_platform_def reference_hex_def list_all_iff)
qed

lemma reference_canonical_documented [simp]: "canonical_documented reference_platform"
  by (auto simp: canonical_documented_def ascii_bytes_inject emit_inject)

lemma ascii_bytes_append: "ascii_bytes (s @ t) = ascii_bytes s @ ascii_bytes t"
  by (simp add: ascii_bytes_def)

lemma ascii_bytes_join: "ascii_bytes (join_with sep ss) = join_with (ascii_bytes sep) (map ascii_bytes ss)"
  by (induction sep ss rule: join_with.induct) (simp_all add: ascii_bytes_append, simp add: ascii_bytes_def)

lemma reference_array_framing [simp]: "array_framing_documented reference_platform"
  unfolding array_framing_documented_def
proof
  fix js
  have "mapE (canonical reference_platform) js = Inr (map (\<lambda>j. ascii_bytes (emit (key_sorted j))) js)"
    by (rule mapE_pure) simp
  moreover have "ascii_bytes (emit (key_sorted (JArr js))) =
      ascii_bytes ''['' @ ascii_bytes (join_with '','' (map (\<lambda>j. emit (key_sorted j)) js)) @ ascii_bytes '']''"
    unfolding ascii_bytes_append [symmetric] by (simp add: o_def)
  ultimately show "canonical reference_platform (JArr js) = bindE (mapE (canonical reference_platform) js)
      (\<lambda>bs. Inr (ascii_bytes ''['' @ join_with (ascii_bytes '','') bs @ ascii_bytes '']''))"
    by (simp add: ascii_bytes_join o_def del: emit.simps key_sorted.simps)
qed

lemma reference_parse [simp]: "parse_documented reference_platform"
proof -
  have "reference_decode (ascii_bytes (emit (key_sorted j))) = Inr (key_sorted j)" for j
  proof -
    have "length (ascii_bytes (emit (key_sorted j))) = length (emit (key_sorted j))"
      by (simp add: ascii_bytes_def)
    then show ?thesis using read_emit [of "key_sorted j" "length (emit (key_sorted j))" "[]"]
      by (simp add: reference_decode_def number_ends_def)
  qed
  then show ?thesis by (simp add: parse_documented_def) (simp add: reference_platform_def)
qed

end
