(* ===== verification/Key_Order.thy ===== *)
theory Key_Order
  imports Json "HOL-Library.Multiset"
begin

text \<open>
  Objects up to the order of their keys: what equality of \<^theory_text>\<open>key_sorted\<close> objects says
  about their members, and when it holds. Shared by the comparison and encoding theories.
\<close>

section \<open>Keys of canonical objects\<close>

lemma map_of_sort_pairs:
  "distinct (map fst kvs) \<Longrightarrow>
     map_of (sort_key fst (map sort_pair kvs)) k = map_option key_sorted (map_of kvs k)"
proof -
  assume d: "distinct (map fst kvs)"
  have "map_of (sort_key fst (map sort_pair kvs)) k = map_of (map sort_pair kvs) k"
    using d by (intro fun_cong [OF map_of_inject_set [THEN iffD2]]) (auto simp: distinct_map inj_on_def)
  also have "map_of (map sort_pair kvs) k = map_option key_sorted (map_of kvs k)"
    by (induction kvs) auto
  finally show ?thesis .
qed

lemma key_sorted_obj_get:
  assumes "key_sorted (JObj a) = key_sorted (JObj b)" "distinct (map fst a)" "distinct (map fst b)"
  shows "map_option key_sorted (map_of a k) = map_option key_sorted (map_of b k)"
  using assms map_of_sort_pairs [of a k] map_of_sort_pairs [of b k] by (metis json.inject(5) key_sorted.simps(2))

lemma key_sorted_obj_permute:
  assumes "set a = set b" "distinct (map fst a)" "distinct (map fst b)"
  shows "key_sorted (JObj a) = key_sorted (JObj b)"
proof -
  have "mset a = mset b"
    using assms by (metis distinct_map set_eq_iff_mset_eq_distinct)
  then have "mset (map sort_pair a) = mset (map sort_pair b)" by simp
  moreover have "inj_on fst (set (map sort_pair a))"
    using assms(2) by (auto simp: inj_on_def distinct_map)
  ultimately have "sort_key fst (map sort_pair a) = sort_key fst (map sort_pair b)"
    by (intro sort_key_inj_key_eq) auto
  then show ?thesis by simp
qed

lemma key_sorted_member:
  assumes "key_sorted (JObj a) = key_sorted (JObj b)" "distinct (map fst a)" "distinct (map fst b)"
    and "map_of a k = Some v"
  shows "\<exists>w. map_of b k = Some w \<and> key_sorted v = key_sorted w"
  using key_sorted_obj_get [OF assms(1-3), of k] assms(4) by (cases "map_of b k") auto

lemma key_sorted_obj_cong:
  "list_all2 (\<lambda>x y. fst x = fst y \<and> key_sorted (snd x) = key_sorted (snd y)) a b
     \<Longrightarrow> key_sorted (JObj a) = key_sorted (JObj b)"
proof -
  assume "list_all2 (\<lambda>x y. fst x = fst y \<and> key_sorted (snd x) = key_sorted (snd y)) a b"
  then have "map sort_pair a = map sort_pair b" by (induction rule: list_all2_induct) auto
  then show ?thesis by simp
qed

lemma key_sorted_obj_mset:
  assumes "mset a = mset b" "distinct (map fst a)"
  shows "key_sorted (JObj a) = key_sorted (JObj b)"
proof (rule key_sorted_obj_permute)
  show "set a = set b" using assms(1) by (rule mset_eq_setD)
  have "mset (map fst a) = mset (map fst b)" using assms(1) by simp
  then show "distinct (map fst b)" using assms(2) mset_eq_imp_distinct_iff by blast
qed (rule assms(2))

text \<open>Equality up to key order, member by member.\<close>

lemma key_sorted_obj_iff:
  assumes "distinct (map fst a)" "distinct (map fst b)"
  shows "key_sorted (JObj a) = key_sorted (JObj b) \<longleftrightarrow>
     (\<forall>k. map_option key_sorted (map_of a k) = map_option key_sorted (map_of b k))"
proof
  assume "key_sorted (JObj a) = key_sorted (JObj b)"
  then show "\<forall>k. map_option key_sorted (map_of a k) = map_option key_sorted (map_of b k)"
    using key_sorted_obj_get assms by blast
next
  assume eq: "\<forall>k. map_option key_sorted (map_of a k) = map_option key_sorted (map_of b k)"
  have set_pairs: "set (map sort_pair kvs) = {(k, v). map_option key_sorted (map_of kvs k) = Some v}"
    if "distinct (map fst kvs)" for kvs
    using that by (force simp: map_of_eq_Some_iff image_iff)
  have "set (map sort_pair a) = set (map sort_pair b)"
    unfolding set_pairs [OF assms(1)] set_pairs [OF assms(2)] using eq by simp
  then have "key_sorted (JObj (map sort_pair a)) = key_sorted (JObj (map sort_pair b))"
    using assms by (intro key_sorted_obj_permute) (simp_all add: o_def)
  then show "key_sorted (JObj a) = key_sorted (JObj b)" by (simp add: o_def)
qed

end
