(* ===== verification/Core_Encoding.thy ===== *)
theory Core_Encoding
  imports Core_Wire Reference_Codec Key_Order
begin

text \<open>
  Comparison bytes: src/src/docspec/domain/core_encoding.py. A missing value (the ABSENT
  sentinel) is \<open>None\<close>. The lemmas show that the member stream is the digest of one canonical
  array, that unordered rows are accepted only in byte order, and that equal comparison bytes
  mean equal material meaning.
\<close>

section \<open>Selected values\<close>

definition selected_field :: "string \<times> json option \<Rightarrow> json" where
  "selected_field f = (case f of
     (label, None) \<Rightarrow> JArr [JStr label, JStr ''absent'']
   | (label, Some value) \<Rightarrow> JArr [JStr label, JStr ''present'', value])"

text \<open>The loop of \<open>selected_fields\<close> with its \<open>labels\<close> seen so far.\<close>

fun selected_fields_from :: "string list \<Rightarrow> (string \<times> json option) list \<Rightarrow> json list result" where
  "selected_fields_from labels [] = Inr []"
| "selected_fields_from labels ((label, value) # rest) =
     (if label = [] \<or> label \<in> set labels
      then Inl (IntegrityError ''selected fields require distinct nonempty labels'')
      else bindE (selected_fields_from (label # labels) rest)
             (\<lambda>more. Inr (selected_field (label, value) # more)))"

definition selected_fields :: "(string \<times> json option) list \<Rightarrow> json list result" where
  "selected_fields labelled = selected_fields_from [] labelled"

definition member_row :: "json option \<Rightarrow> string option \<Rightarrow> string option \<Rightarrow> json result" where
  "member_row value member_key entity_id =
     thenE (refuse (entity_id \<noteq> None \<and> (value = None \<or> entity_id = Some []))
              (IntegrityError ''material entity identity requires a present member''))
      (Inr (JArr ((case value of None \<Rightarrow> [JStr ''absent''] | Some v \<Rightarrow> [JStr ''present'', v])
        @ (case member_key of None \<Rightarrow> [] | Some k \<Rightarrow> [JArr [JStr ''key'', JStr k]])
        @ (case entity_id of None \<Rightarrow> [] | Some i \<Rightarrow> [JArr [JStr ''entity'', JStr i]]))))"

definition member_bytes ::
    "platform \<Rightarrow> json option \<Rightarrow> string option \<Rightarrow> string option \<Rightarrow> bytes result" where
  "member_bytes P value member_key entity_id =
     bindE (member_row value member_key entity_id) (canonical_value_bytes P)"

section \<open>Evidence\<close>

text \<open>Python orders bytes lexicographically by value.\<close>

fun bytes_less :: "bytes \<Rightarrow> bytes \<Rightarrow> bool" where
  "bytes_less a [] = False"
| "bytes_less [] (y # b) = True"
| "bytes_less (x # a) (y # b) = (unat x < unat y \<or> (x = y \<and> bytes_less a b))"

fun accept_rows :: "bool \<Rightarrow> bytes option \<Rightarrow> digester \<Rightarrow> bytes list \<Rightarrow> digester result" where
  "accept_rows ordered previous d [] = Inr d"
| "accept_rows ordered previous d (row # rows) =
     (if \<not> ordered \<and> (case previous of None \<Rightarrow> False | Some p \<Rightarrow> bytes_less row p)
      then Inl (IntegrityError ''unordered member comparison requires canonical byte order'')
      else bindE (accept_admitted_payload d row) (\<lambda>d. accept_rows ordered (Some row) d rows))"

definition stream_prefix :: "json list" where
  "stream_prefix = [JStr ''docspec-selected-members'', JInt 1]"

definition member_stream_evidence ::
    "platform \<Rightarrow> bytes list \<Rightarrow> bool \<Rightarrow> comparison_evidence result" where
  "member_stream_evidence P rows ordered =
     bindE (digester_new P (Some stream_prefix)) (\<lambda>d.
     bindE (accept_rows ordered None d rows) (\<lambda>d.
       let (result, d) = digester_finish P d in
       Inr \<lparr>ce_codec = EvidenceMembers, ce_digest = the result,
            ce_byte_size = int (dg_byte_size d), ce_entity_id = None\<rparr>))"

definition json_evidence :: "platform \<Rightarrow> json \<Rightarrow> string option \<Rightarrow> comparison_evidence result" where
  "json_evidence P value entity_id =
     bindE (canonical_value_bytes P value) (\<lambda>data.
       Inr \<lparr>ce_codec = EvidenceJson, ce_digest = sha256_digest P data,
            ce_byte_size = int (length data), ce_entity_id = entity_id\<rparr>)"

definition content_evidence :: "content_ref \<Rightarrow> string option \<Rightarrow> comparison_evidence result" where
  "content_evidence content entity_id =
     (if \<not> declared_value (ContentRef content) then Inl (IntegrityError ''invalid Core record'')
      else Inr \<lparr>ce_codec = (case cr_codec content of JsonV1 \<Rightarrow> EvidenceJson | BytesV1 \<Rightarrow> EvidenceBytes),
                ce_digest = cr_digest content, ce_byte_size = cr_byte_size content,
                ce_entity_id = entity_id\<rparr>)"

section \<open>Correspondence\<close>

text \<open>
  \<open>list.sort(key=canonical_value_bytes)\<close>: the keys first, then a stable sort by them. A key
  the encoder refuses is an error of the whole.
\<close>

fun insert_by_bytes :: "bytes \<times> 'a \<Rightarrow> (bytes \<times> 'a) list \<Rightarrow> (bytes \<times> 'a) list" where
  "insert_by_bytes x [] = [x]"
| "insert_by_bytes x (y # ys) =
     (if bytes_less (fst y) (fst x) then y # insert_by_bytes x ys else x # y # ys)"

definition sort_by_bytes :: "(bytes \<times> 'a) list \<Rightarrow> (bytes \<times> 'a) list" where
  "sort_by_bytes xs = foldr insert_by_bytes xs []"

definition sorted_scope :: "platform \<Rightarrow> string list \<Rightarrow> string list result" where
  "sorted_scope P scope =
     bindE (mapE (\<lambda>k. bindE (canonical_value_bytes P (JStr k)) (\<lambda>b. Inr (b, k))) scope)
       (\<lambda>keyed. Inr (map snd (sort_by_bytes keyed)))"

definition convert_selector :: "selector \<Rightarrow> selector result" where
  "convert_selector s =
     (if \<not> declared_selector s then Inl (IntegrityError ''invalid Core record'')
      else thenE (check_selector s) (Inr s))"

definition selector_value :: "platform \<Rightarrow> selector \<Rightarrow> json result" where
  "selector_value P s =
     bindE (convert_selector s) (\<lambda>s.
       case s of
         StateMembers m \<Rightarrow>
           (case sm_scope m of
              None \<Rightarrow> Inr (plain_selector s)
            | Some scope \<Rightarrow> bindE (sorted_scope P scope) (\<lambda>scope.
                Inr (plain_selector (StateMembers (m\<lparr>sm_scope := Some scope\<rparr>)))))
       | ValueSelector _ \<Rightarrow> Inr (plain_selector s))"

fun comparison_of :: "member_selector \<Rightarrow> comparison_mode" where
  "comparison_of (Whole c) = c"
| "comparison_of (JsonFields fs c) = c"

definition evidence_mode :: "selector \<Rightarrow> comparison_evidence \<Rightarrow> unit result" where
  "evidence_mode s evidence =
     (case s of
        StateMembers _ \<Rightarrow>
          refuse (ce_codec evidence \<noteq> EvidenceMembers \<or> ce_entity_id evidence \<noteq> None)
            (IntegrityError ''member comparison needs member evidence without a parent identity'')
      | ValueSelector v \<Rightarrow>
          refuse ((comparison_of v = ByIdentity) \<noteq> (ce_entity_id evidence \<noteq> None))
            (IntegrityError ''comparison evidence must match the declared identity mode''))"

definition dependency_binding ::
    "platform \<Rightarrow> string \<times> selector \<times> comparison_evidence \<Rightarrow> (string \<times> json) result" where
  "dependency_binding P d = (case d of (label, s, evidence) \<Rightarrow>
     thenE (refuse (label = []) (IntegrityError ''dependency label must be nonempty text''))
    (bindE (selector_value P s) (\<lambda>definition.
     thenE (refuse (\<not> declared_evidence evidence) (IntegrityError ''invalid Core record''))
    (thenE (evidence_mode s evidence)
       (Inr (label, JObj [(''definition'', definition), (''evidence'', plain_evidence evidence)])))))) "

definition resource_meaning :: "resource \<Rightarrow> string \<times> json" where
  "resource_meaning r = (rs_label r, JObj [(''description'', JObj (rs_description r)),
     (''certainty'', JStr (case rs_certainty r of Established \<Rightarrow> ''established''
                           | Uncertain \<Rightarrow> ''uncertain''))])"

text \<open>The operation without its record head and logical identity, resources keyed by label.\<close>

definition operation_meaning :: "operation_definition \<Rightarrow> json" where
  "operation_meaning r = JObj
     [(''implementation_id'', JStr (od_implementation_id r)),
      (''implementation_version'', JStr (od_implementation_version r)),
      (''operation_kind'', JStr (case od_operation_kind r of Capture \<Rightarrow> ''capture''
                                 | Transformation \<Rightarrow> ''transformation'')),
      (''configuration'', JObj (od_configuration r)),
      (''resources'', JObj (map resource_meaning (od_resources r)))]"

definition correspondence_value :: "operation_definition \<Rightarrow> object \<Rightarrow> json" where
  "correspondence_value definition bindings = JObj
     [(''purpose'', JStr ''docspec-correspondence''), (''encoding_version'', JInt 1),
      (''operation'', operation_meaning definition), (''dependencies'', JObj bindings)]"

definition correspondence_bytes ::
    "platform \<Rightarrow> operation_definition \<Rightarrow> (string \<times> selector \<times> comparison_evidence) list \<Rightarrow> bytes result" where
  "correspondence_bytes P definition dependencies =
     bindE (convert_record P (DefinitionRecord definition)) (\<lambda>_.
     bindE (mapE (dependency_binding P) dependencies) (\<lambda>bindings.
       canonical_value_bytes P (correspondence_value definition bindings)))"

section \<open>Byte order\<close>

lemma bytes_less_nat: "bytes_less a b \<longleftrightarrow> map unat a < map unat b"
  by (induction a b rule: bytes_less.induct) (auto simp: word_unat_eq_iff)

lemma map_unat_inject: "map unat a = map unat (b :: bytes) \<longleftrightarrow> a = b"
proof -
  have "inj (unat :: byte \<Rightarrow> nat)" by (rule injI) (simp add: word_unat_eq_iff)
  then show ?thesis by (rule inj_map_eq_map)
qed

text \<open>The member check keeps one previous row; along the stream that is sortedness.\<close>

definition in_byte_order :: "bytes list \<Rightarrow> bool" where
  "in_byte_order rows = sorted (map (map unat) rows)"

lemma accept_rows_framed:
  "framed d0 d ps \<Longrightarrow>
     (if ordered \<or> in_byte_order ((case previous of None \<Rightarrow> [] | Some p \<Rightarrow> [p]) @ rows)
      then \<exists>d'. accept_rows ordered previous d rows = Inr d' \<and> framed d0 d' (ps @ rows)
      else accept_rows ordered previous d rows =
        Inl (IntegrityError ''unordered member comparison requires canonical byte order''))"
proof (induction rows arbitrary: previous d ps)
  case Nil
  then show ?case by (cases previous) (auto simp: in_byte_order_def)
next
  case (Cons row rows)
  obtain d1 where d1: "accept_admitted_payload d row = Inr d1" "framed d0 d1 (ps @ [row])"
    using framed_call [OF Cons.prems, of "OnePayload row"] by auto
  note IH = Cons.IH [OF d1(2), of "Some row"]
  show ?case
  proof (cases previous)
    case None
    then show ?thesis using IH d1(1) by auto
  next
    case (Some p)
    have "in_byte_order (p # row # rows) \<longleftrightarrow> \<not> bytes_less row p \<and> in_byte_order (row # rows)"
      by (auto simp: in_byte_order_def bytes_less_nat not_less intro: order_trans)
    then show ?thesis using IH d1(1) Some by auto
  qed
qed

lemma in_byte_order_unique:
  assumes "in_byte_order xs" "in_byte_order ys" "mset xs = mset ys"
  shows "xs = ys"
proof -
  have "mset (map (map unat) xs) = mset (map (map unat) ys)" using assms(3) by simp
  then have "map (map unat) xs = map (map unat) ys"
    using assms(1,2) unfolding in_byte_order_def by (metis properties_for_sort)
  moreover have "inj (map unat :: bytes \<Rightarrow> nat list)" by (rule injI) (simp add: map_unat_inject)
  ultimately show ?thesis by (metis inj_map_eq_map)
qed

text \<open>The evidence of a stream: the digest and size of the framed rows.\<close>

lemma member_stream_eq:
  assumes "digester_new P (Some stream_prefix) = Inr d0"
    and all: "all = dg_fed d0 @ join_with (ascii_bytes '','') rows @ dg_ending d0"
  shows "member_stream_evidence P rows ordered =
     (if ordered \<or> in_byte_order rows
      then Inr \<lparr>ce_codec = EvidenceMembers, ce_digest = sha256_digest P all,
                ce_byte_size = int (length all), ce_entity_id = None\<rparr>
      else Inl (IntegrityError ''unordered member comparison requires canonical byte order''))"
proof -
  have fr: "framed d0 d0 []" by (rule framed_start [OF digester_new_open [OF assms(1)]])
  show ?thesis
  proof (cases "ordered \<or> in_byte_order rows")
    case True
    then obtain d' where d': "accept_rows ordered None d0 rows = Inr d'" "framed d0 d' rows"
      using accept_rows_framed [OF fr, of ordered None rows] by auto
    obtain r d2 where fin: "digester_finish P d' = (r, d2)" by force
    show ?thesis using framed_finish [OF d'(2), of P] fin True d'(1) assms
      by (simp add: member_stream_evidence_def)
  next
    case False
    then show ?thesis using accept_rows_framed [OF fr, of ordered None rows] assms
      by (simp add: member_stream_evidence_def)
  qed
qed

section \<open>Evidence of member streams\<close>

text \<open>
  Streaming admitted member rows yields the digest and the byte size of the one canonical
  array \<open>["docspec-selected-members", 1, [rows]]\<close>, whatever the rows.
\<close>

theorem member_stream_digest:
  assumes "array_framing_documented P" "mapE (canonical P) js = Inr rows"
    and "canonical P (JArr (stream_prefix @ [JArr js])) = Inr b" "ordered \<or> in_byte_order rows"
  shows "member_stream_evidence P rows ordered =
     Inr \<lparr>ce_codec = EvidenceMembers, ce_digest = sha256_digest P b,
          ce_byte_size = int (length b), ce_entity_id = None\<rparr>"
proof -
  have "mapE (canonical P) (stream_prefix @ [JArr js]) \<noteq> Inl e" for e
    using assms(1,3) by (auto simp: array_framing_documented_def)
  then obtain bs where bs: "mapE (canonical P) stream_prefix = Inr bs"
    by (cases "mapE (canonical P) stream_prefix") (auto simp: mapE_append)
  have inner: "canonical P (JArr js) =
      Inr (ascii_bytes ''['' @ join_with (ascii_bytes '','') rows @ ascii_bytes '']'')"
    using assms(1,2) by (simp add: array_framing_documented_def)
  have b: "b = ascii_bytes ''['' @ join_with (ascii_bytes '','')
      (bs @ [ascii_bytes ''['' @ join_with (ascii_bytes '','') rows @ ascii_bytes '']'']) @ ascii_bytes '']''"
    using assms(1,3) bs inner by (simp add: array_framing_documented_def mapE_append)
  obtain d0 where d0: "digester_new P (Some stream_prefix) = Inr d0"
    using assms(1) bs
    by (simp add: digester_new_def array_framing_documented_def del: python_of.simps)
  show ?thesis
    using member_stream_eq [OF d0, of "dg_fed d0 @ join_with (ascii_bytes '','') rows @ dg_ending d0" rows ordered]
      digester_opening [OF assms(1) d0 bs, of rows] assms(4) b by simp
qed

theorem member_stream_digest_witness:
  "member_stream_evidence reference_platform
     [ascii_bytes (emit (JArr [JStr ''absent''])), ascii_bytes (emit (JArr [JStr ''present'', JInt 7]))] True
   = Inr \<lparr>ce_codec = EvidenceMembers,
       ce_digest = sha256_digest reference_platform (ascii_bytes (emit (JArr (stream_prefix @
         [JArr [JArr [JStr ''absent''], JArr [JStr ''present'', JInt 7]]])))),
       ce_byte_size = int (length (ascii_bytes (emit (JArr (stream_prefix @
         [JArr [JArr [JStr ''absent''], JArr [JStr ''present'', JInt 7]]]))))), ce_entity_id = None\<rparr>"
  by (rule member_stream_digest [where js = "[JArr [JStr ''absent''], JArr [JStr ''present'', JInt 7]]"])
    (simp_all add: stream_prefix_def)

text \<open>
  C31. Without a declared order the evidence exists exactly for rows in byte order, so it depends
  only on the multiset of rows: two accepted streams over the same rows have equal evidence.
\<close>

theorem member_stream_multiset:
  assumes "digester_new P (Some stream_prefix) = Inr d0"
  shows "((\<exists>e. member_stream_evidence P xs False = Inr e) \<longleftrightarrow> in_byte_order xs) \<and>
     (mset xs = mset ys \<and> member_stream_evidence P xs False = Inr e \<and>
       member_stream_evidence P ys False = Inr f \<longrightarrow> e = f)"
proof -
  note eq = member_stream_eq [OF assms refl, of _ False]
  have order: "(\<exists>e. member_stream_evidence P xs False = Inr e) \<longleftrightarrow> in_byte_order xs" for xs
    by (simp add: eq)
  have "e = f" if same: "mset xs = mset ys" and e: "member_stream_evidence P xs False = Inr e"
    and f: "member_stream_evidence P ys False = Inr f"
  proof -
    have "xs = ys" using order [of xs] order [of ys] e f in_byte_order_unique [OF _ _ same] by blast
    then show ?thesis using e f by simp
  qed
  with order show ?thesis by blast
qed

theorem member_stream_multiset_witness:
  "\<exists>e. member_stream_evidence reference_platform [[1, 2], [1, 2], [3]] False = Inr e"
proof -
  obtain d0 where d0: "digester_new reference_platform (Some stream_prefix) = Inr d0"
    by (simp add: digester_new_def del: python_of.simps)
  have "in_byte_order [[1, 2], [1, 2], [3 :: byte]]" by (simp add: in_byte_order_def)
  then show ?thesis
    using member_stream_multiset [OF d0, of "[[1, 2], [1, 2], [3]]" "[[1, 2], [1, 2], [3]]"] by blast
qed

section \<open>Selected fields\<close>

lemma selected_fields_from_eq:
  "selected_fields_from labels fs = Inr v \<longleftrightarrow>
     distinct (map fst fs) \<and> set (map fst fs) \<inter> set labels = {} \<and> [] \<notin> set (map fst fs)
     \<and> v = map selected_field fs"
  by (induction labels fs arbitrary: v rule: selected_fields_from.induct) (auto simp: bindE_Inr_iff)

lemma selected_field_inject: "selected_field f = selected_field g \<longleftrightarrow> f = g"
  by (cases f; cases g) (auto simp: selected_field_def split: option.splits)

lemma selected_field_valid: "fd_label s = fst f \<Longrightarrow> \<not> fields_item_invalid s (selected_field f)"
  by (cases f) (auto simp: selected_field_def fields_item_invalid_def split: option.splits)

text \<open>
  A selection is built exactly for distinct nonempty labels; it always has the closed shape the
  record check demands, and it determines the fields: absent and null stay apart.
\<close>

theorem selected_fields_exact:
  "((\<exists>v. selected_fields fs = Inr v) \<longleftrightarrow> distinct (map fst fs) \<and> [] \<notin> set (map fst fs)) \<and>
   (\<forall>v. selected_fields fs = Inr v \<longrightarrow>
      (map fd_label selectors = map fst fs \<longrightarrow> validate_fields_value selectors (JArr v) = Inr ()) \<and>
      (selected_fields gs = Inr v \<longrightarrow> fs = gs))"
proof (intro conjI allI impI)
  show "(\<exists>v. selected_fields fs = Inr v) \<longleftrightarrow> distinct (map fst fs) \<and> [] \<notin> set (map fst fs)"
    by (simp add: selected_fields_def selected_fields_from_eq)
next
  fix v assume "selected_fields fs = Inr v" "selected_fields gs = Inr v"
  then have "map selected_field fs = map selected_field gs"
    by (simp add: selected_fields_def selected_fields_from_eq)
  then show "fs = gs" using map_inject [of selected_field, OF selected_field_inject] by blast
next
  fix v assume "selected_fields fs = Inr v" and l: "map fd_label selectors = map fst fs"
  then have v: "v = map selected_field fs" by (simp add: selected_fields_def selected_fields_from_eq)
  have len: "length selectors = length fs" using l by (metis length_map)
  have "\<not> fields_item_invalid (selectors ! i) (v ! i)" if "i < length fs" for i
  proof -
    have "fd_label (selectors ! i) = fst (fs ! i)" using that len l by (metis nth_map)
    then show ?thesis using selected_field_valid that v by simp
  qed
  then show "validate_fields_value selectors (JArr v) = Inr ()"
    using len v by (auto simp: validate_fields_value_def eachE_Inr_iff refuse_Inr_iff set_zip)
qed

theorem selected_fields_exact_witness:
  "validate_fields_value [\<lparr>fd_label = ''title'', fd_pointer = ''/t''\<rparr>, \<lparr>fd_label = ''year'', fd_pointer = ''/y''\<rparr>]
     (JArr [JArr [JStr ''title'', JStr ''absent''], JArr [JStr ''year'', JStr ''present'', JNull]]) = Inr ()"
proof -
  have "selected_fields [(''title'', None), (''year'', Some JNull)] =
      Inr [JArr [JStr ''title'', JStr ''absent''], JArr [JStr ''year'', JStr ''present'', JNull]]"
    by (simp add: selected_fields_def selected_field_def)
  then show ?thesis
    using selected_fields_exact [of "[(''title'', None), (''year'', Some JNull)]"
      "[\<lparr>fd_label = ''title'', fd_pointer = ''/t''\<rparr>, \<lparr>fd_label = ''year'', fd_pointer = ''/y''\<rparr>]"] by simp
qed

section \<open>What comparison bytes determine\<close>

lemma member_row_parts:
  "member_row v k e = Inr r \<Longrightarrow> r = JArr
     ((case v of None \<Rightarrow> [JStr ''absent''] | Some x \<Rightarrow> [JStr ''present'', x])
      @ map (\<lambda>s. JArr [JStr ''key'', JStr s]) (case k of None \<Rightarrow> [] | Some s \<Rightarrow> [s])
      @ map (\<lambda>s. JArr [JStr ''entity'', JStr s]) (case e of None \<Rightarrow> [] | Some s \<Rightarrow> [s]))"
  by (cases k; cases e) (simp_all add: member_row_def thenE_Inr_iff)

lemma member_row_inject:
  assumes "member_row v k e = Inr r" "member_row v' k' e' = Inr r'" "key_sorted r = key_sorted r'"
  shows "map_option key_sorted v = map_option key_sorted v' \<and> k = k' \<and> e = e'"
  using assms(3) unfolding member_row_parts [OF assms(1)] member_row_parts [OF assms(2)]
  by (cases v; cases v'; cases k; cases k'; cases e; cases e') simp_all

text \<open>
  Equal member bytes mean the same presence, the same value up to key order, and the same
  material key and entity identity.
\<close>

theorem member_bytes_inject:
  assumes "canonical_documented P"
    and "member_bytes P v k e = Inr b" "member_bytes P v' k' e' = Inr b"
  shows "map_option key_sorted v = map_option key_sorted v' \<and> k = k' \<and> e = e'"
proof -
  obtain r r' where r: "member_row v k e = Inr r" "canonical P r = Inr b"
    and r': "member_row v' k' e' = Inr r'" "canonical P r' = Inr b"
    using assms(2,3) by (auto simp: member_bytes_def canonical_value_bytes_def bindE_Inr_iff)
  then have "key_sorted r = key_sorted r'" using assms(1) unfolding canonical_documented_def by blast
  then show ?thesis
    by (rule member_row_inject [OF r(1) r'(1)])
qed

theorem member_bytes_inject_witness:
  "member_bytes reference_platform (Some JNull) (Some ''k'') None
     \<noteq> member_bytes reference_platform None (Some ''k'') None"
proof
  assume same: "member_bytes reference_platform (Some JNull) (Some ''k'') None
     = member_bytes reference_platform None (Some ''k'') None"
  obtain b where b: "member_bytes reference_platform (Some JNull) (Some ''k'') None = Inr b"
    by (simp add: member_bytes_def member_row_def canonical_value_bytes_def del: emit.simps)
  then have "member_bytes reference_platform None (Some ''k'') None = Inr b" unfolding same .
  from member_bytes_inject [OF reference_canonical_documented b this] show False by simp
qed

text \<open>Two objects equal up to key order agree, up to key order, at every key.\<close>

lemma object_get:
  assumes "key_sorted x = key_sorted y" "x = JObj (object_items x)" "y = JObj (object_items y)"
    and "distinct (map fst (object_items x))" "distinct (map fst (object_items y))"
  shows "map_option key_sorted (map_of (object_items x) k) = map_option key_sorted (map_of (object_items y) k)"
  using key_sorted_obj_get [of "object_items x" "object_items y" k] assms by metis

lemma key_sorted_evidence:
  assumes "key_sorted (plain_evidence e) = key_sorted (plain_evidence f)"
  shows "e = f"
proof -
  have get: "map_option key_sorted (map_of (object_items (plain_evidence e)) k)
     = map_option key_sorted (map_of (object_items (plain_evidence f)) k)" for k
    by (rule object_get [OF assms]) (simp_all add: plain_evidence_def)
  have "plain_evidence e = plain_evidence f"
    using get [of "''codec''"] get [of "''digest''"] get [of "''byte_size''"] get [of "''entity_id''"]
    by (simp add: plain_evidence_def plain_opt_def split: option.splits)
  then show ?thesis by (simp add: plain_evidence_inject)
qed

lemma dependency_binding_parts:
  "dependency_binding P (label, s, e) = Inr binding \<Longrightarrow>
     \<exists>d. selector_value P s = Inr d \<and> binding = (label, JObj [(''definition'', d), (''evidence'', plain_evidence e)])"
  by (auto simp: dependency_binding_def result_iffs)

lemma bindings_keys: "mapE (dependency_binding P) deps = Inr bindings \<Longrightarrow> map fst bindings = map fst deps"
proof (induction deps arbitrary: bindings)
  case (Cons d deps)
  then show ?case using dependency_binding_parts [of P "fst d" "fst (snd d)" "snd (snd d)"]
    by (auto simp: bindE_Inr_iff)
qed simp

lemma bindings_get:
  assumes "mapE (dependency_binding P) deps = Inr bindings" "map_of deps label = Some (s, e)"
  shows "\<exists>d. selector_value P s = Inr d \<and>
     map_of bindings label = Some (JObj [(''definition'', d), (''evidence'', plain_evidence e)])"
  using assms
proof (induction deps arbitrary: bindings)
  case (Cons dep deps)
  obtain l t f where dep: "dep = (l, t, f)" by (cases dep) auto
  obtain binding rest where b: "dependency_binding P dep = Inr binding"
    and rest: "mapE (dependency_binding P) deps = Inr rest" "bindings = binding # rest"
    using Cons.prems(1) by (auto simp: bindE_Inr_iff)
  show ?case using dependency_binding_parts [of P l t f binding] b dep Cons.prems(2) Cons.IH [OF rest(1)] rest(2)
    by (auto split: if_splits)
qed simp

definition resource_view :: "resource \<Rightarrow> string \<times> json \<times> certainty" where
  "resource_view r = (rs_label r, key_sorted (JObj (rs_description r)), rs_certainty r)"

lemma operation_meaning_inject:
  assumes "key_sorted (operation_meaning c) = key_sorted (operation_meaning d)"
    and "distinct (map rs_label (od_resources c))" "distinct (map rs_label (od_resources d))"
  shows "od_implementation_id c = od_implementation_id d \<and>
    od_implementation_version c = od_implementation_version d \<and>
    od_operation_kind c = od_operation_kind d \<and>
    key_sorted (JObj (od_configuration c)) = key_sorted (JObj (od_configuration d)) \<and>
    set (map resource_view (od_resources c)) = set (map resource_view (od_resources d))"
proof -
  have get: "map_option key_sorted (map_of (object_items (operation_meaning c)) k)
     = map_option key_sorted (map_of (object_items (operation_meaning d)) k)" for k
    by (rule object_get [OF assms(1)]) (simp_all add: operation_meaning_def)
  have res: "key_sorted (JObj (map resource_meaning (od_resources c)))
      = key_sorted (JObj (map resource_meaning (od_resources d)))"
    using get [of "''resources''"] by (simp add: operation_meaning_def del: key_sorted.simps)
  have sub: "set (map resource_view (od_resources x)) \<subseteq> set (map resource_view (od_resources y))"
    if eq: "key_sorted (JObj (map resource_meaning (od_resources x)))
        = key_sorted (JObj (map resource_meaning (od_resources y)))"
      and dx: "distinct (map rs_label (od_resources x))" and dy: "distinct (map rs_label (od_resources y))"
    for x y
  proof
    fix v assume "v \<in> set (map resource_view (od_resources x))"
    then obtain r where r: "r \<in> set (od_resources x)" "v = resource_view r" by auto
    have first: "fst \<circ> resource_meaning = rs_label" by (auto simp: resource_meaning_def)
    then have keys: "map fst (map resource_meaning rs) = map rs_label rs" for rs by simp
    have "map_of (map resource_meaning (od_resources x)) (rs_label r) = Some (snd (resource_meaning r))"
      using r(1) dx by (intro map_of_is_SomeI) (auto simp: first, auto simp: resource_meaning_def image_iff)
    then obtain w where w: "map_of (map resource_meaning (od_resources y)) (rs_label r) = Some w"
      "key_sorted (snd (resource_meaning r)) = key_sorted w"
      using key_sorted_member [OF eq] dx dy keys by metis
    then obtain q where q: "q \<in> set (od_resources y)" "rs_label q = rs_label r" "w = snd (resource_meaning q)"
      using map_of_SomeD [OF w(1)] by (auto simp: resource_meaning_def)
    have g: "map_option key_sorted (map_of (object_items (snd (resource_meaning r))) k)
       = map_option key_sorted (map_of (object_items (snd (resource_meaning q))) k)" for k
      by (rule object_get) (use w(2) q(3) in \<open>simp_all add: resource_meaning_def del: key_sorted.simps\<close>)
    have "resource_view r = resource_view q"
      using g [of "''description''"] g [of "''certainty''"] q(2)
      by (simp add: resource_meaning_def resource_view_def del: key_sorted.simps(2) split: certainty.splits)
    with q r show "v \<in> set (map resource_view (od_resources y))" by simp
  qed
  show ?thesis
    using get [of "''implementation_id''"] get [of "''implementation_version''"] get [of "''operation_kind''"]
      get [of "''configuration''"] sub [OF res assms(2,3)] sub [OF res [symmetric] assms(3,2)]
    by (simp add: operation_meaning_def del: key_sorted.simps(2) split: operation_kind.splits)
qed

lemma bindings_agree:
  assumes "map_of ds label = Some (s, e)" "mapE (dependency_binding P) ds = Inr x"
    and y: "mapE (dependency_binding P) ds' = Inr y"
    and eq: "key_sorted (JObj x) = key_sorted (JObj y)" "distinct (map fst x)" "distinct (map fst y)"
  shows "\<exists>t. map_of ds' label = Some (t, e)"
proof -
  obtain v where v: "map_of x label = Some (JObj [(''definition'', v), (''evidence'', plain_evidence e)])"
    using bindings_get [OF assms(2,1)] by blast
  obtain w where w: "map_of y label = Some w"
    "key_sorted (JObj [(''definition'', v), (''evidence'', plain_evidence e)]) = key_sorted w"
    using key_sorted_member [OF eq v] by blast
  have "label \<in> set (map fst y)" using map_of_SomeD [OF w(1)] by force
  then have "map_of ds' label \<noteq> None" using bindings_keys [OF y] by (simp add: map_of_eq_None_iff)
  then obtain t f where tf: "map_of ds' label = Some (t, f)" by auto
  obtain u where u: "w = JObj [(''definition'', u), (''evidence'', plain_evidence f)]"
    using bindings_get [OF y tf] w(1) by auto
  have "map_option key_sorted (map_of (object_items (JObj [(''definition'', v), (''evidence'', plain_evidence e)])) ''evidence'')
      = map_option key_sorted (map_of (object_items w) ''evidence'')"
    by (rule object_get [OF w(2)]) (simp_all add: u)
  then have "e = f" using key_sorted_evidence by (simp add: u)
  with tf show ?thesis by blast
qed

text \<open>
  C23. Equal correspondence bytes mean the same operation and the same evidence: implementation,
  version, kind, configuration and resources agree up to key and list order, the labels are the
  same, and every label has the same evidence. The definition's own identity is not in them.
\<close>

theorem correspondence_determines:
  assumes "canonical_documented P" "distinct (map fst deps)" "distinct (map fst deps')"
    and "correspondence_bytes P c deps = Inr b" "correspondence_bytes P d deps' = Inr b"
  shows "od_implementation_id c = od_implementation_id d \<and>
    od_implementation_version c = od_implementation_version d \<and>
    od_operation_kind c = od_operation_kind d \<and>
    key_sorted (JObj (od_configuration c)) = key_sorted (JObj (od_configuration d)) \<and>
    set (map resource_view (od_resources c)) = set (map resource_view (od_resources d)) \<and>
    (\<forall>label. map_option snd (map_of deps label) = map_option snd (map_of deps' label))"
proof -
  obtain bc bd where bc: "mapE (dependency_binding P) deps = Inr bc"
      "canonical P (correspondence_value c bc) = Inr b"
    and bd: "mapE (dependency_binding P) deps' = Inr bd" "canonical P (correspondence_value d bd) = Inr b"
    and conv: "convert_record P (DefinitionRecord c) = Inr (DefinitionRecord c)"
      "convert_record P (DefinitionRecord d) = Inr (DefinitionRecord d)"
    using assms(4,5)
    by (auto simp: correspondence_bytes_def canonical_value_bytes_def bindE_Inr_iff convert_record_def
        thenE_Inr_iff split: if_splits)
  have dist: "distinct (map rs_label (od_resources c))" "distinct (map rs_label (od_resources d))"
    using conv by (auto simp: convert_record_def check_distinct_def thenE_Inr_iff refuse_Inr_iff split: if_splits)
  have "key_sorted (correspondence_value c bc) = key_sorted (correspondence_value d bd)"
    using assms(1) bc(2) bd(2) unfolding canonical_documented_def by blast
  then have g: "map_option key_sorted (map_of (object_items (correspondence_value c bc)) k)
     = map_option key_sorted (map_of (object_items (correspondence_value d bd)) k)" for k
    by (rule object_get) (simp_all add: correspondence_value_def)
  have op: "key_sorted (operation_meaning c) = key_sorted (operation_meaning d)"
    using g [of "''operation''"] by (simp add: correspondence_value_def)
  have bind: "key_sorted (JObj bc) = key_sorted (JObj bd)"
    using g [of "''dependencies''"] by (simp add: correspondence_value_def del: key_sorted.simps)
  have dk: "distinct (map fst bc)" "distinct (map fst bd)"
    using bindings_keys [OF bc(1)] bindings_keys [OF bd(1)] assms(2,3) by simp_all
  have "map_option snd (map_of deps label) = map_option snd (map_of deps' label)" for label
  proof (cases "map_of deps label")
    case (Some se)
    then show ?thesis using bindings_agree [OF _ bc(1) bd(1) bind dk, of label "fst se" "snd se"] by auto
  next
    case None
    then show ?thesis
      using bindings_agree [OF _ bd(1) bc(1) bind [symmetric] dk(2,1), of label]
      by (cases "map_of deps' label") auto
  qed
  then show ?thesis using operation_meaning_inject [OF op dist] by blast
qed

definition sample_digest :: string where
  "sample_digest = ''sha256:'' @ replicate 64 (CHR ''0'')"

definition sample_operation :: "string \<Rightarrow> operation_definition" where
  "sample_operation i =
     \<lparr>od_definition_id = i, od_implementation_id = ''segmenter'', od_implementation_version = ''3'',
      od_operation_kind = Transformation, od_configuration = [(''limit'', JInt 9)],
      od_resources = [\<lparr>rs_label = ''model'', rs_description = [], rs_certainty = Established\<rparr>]\<rparr>"

definition sample_evidence :: comparison_evidence where
  "sample_evidence = \<lparr>ce_codec = EvidenceJson, ce_digest = sample_digest, ce_byte_size = 12, ce_entity_id = None\<rparr>"

lemma sample_digest_pattern [simp]: "digest_pattern sample_digest" "is_sha256 sample_digest"
  by code_simp+

theorem correspondence_determines_witness:
  "set (map resource_view (od_resources (sample_operation ''d1'')))
     = set (map resource_view (od_resources (sample_operation ''d2'')))"
proof -
  let ?deps = "[(''text'', ValueSelector (Whole ByValue), sample_evidence)]"
  have c: "correspondence_bytes reference_platform (sample_operation i) ?deps =
      Inr (ascii_bytes (emit (key_sorted (correspondence_value (sample_operation i)
        [(''text'', JObj [(''definition'', plain_selector (ValueSelector (Whole ByValue))),
                          (''evidence'', plain_evidence sample_evidence)])]))))"
    if "i \<noteq> []" for i
    using that
    by (cases i) (simp_all add: correspondence_bytes_def canonical_value_bytes_def convert_record_def is_identifier_def
        check_distinct_def dependency_binding_def selector_value_def convert_selector_def declared_evidence_def
        evidence_mode_def sample_operation_def sample_evidence_def is_count_def opt_all_def
        del: emit.simps key_sorted.simps)
  have c2: "correspondence_value (sample_operation ''d2'') B = correspondence_value (sample_operation ''d1'') B" for B
    by (simp add: correspondence_value_def operation_meaning_def sample_operation_def)
  from correspondence_determines [OF reference_canonical_documented _ _ c [of "''d1''"] c [of "''d2''", unfolded c2]]
  show ?thesis by simp
qed

section \<open>What they leave out\<close>

lemma mapE_permute:
  assumes "mapE f xs = Inr ys" "mset xs' = mset xs"
  shows "\<exists>ys'. mapE f xs' = Inr ys' \<and> mset ys' = mset ys"
  using list_all2_reorder_left_invariance [of "\<lambda>x y. f x = Inr y" xs ys xs'] assms
  by (auto simp: mapE_Inr_iff)

text \<open>
  The bytes do not depend on the definition's identity nor on the order in which resources
  and dependencies are listed.
\<close>

theorem correspondence_order:
  assumes "canonical_documented P" "distinct (map fst deps)"
    and "correspondence_bytes P c deps = Inr b"
    and "mset (od_resources d) = mset (od_resources c)" "mset deps' = mset deps"
    and "od_definition_id d \<noteq> []" "od_implementation_id d = od_implementation_id c"
    and "od_implementation_version d = od_implementation_version c"
    and "od_operation_kind d = od_operation_kind c" "od_configuration d = od_configuration c"
  shows "correspondence_bytes P d deps' = Inr b"
proof -
  obtain bc where bc: "mapE (dependency_binding P) deps = Inr bc"
      "canonical P (correspondence_value c bc) = Inr b"
    and conv: "declared (DefinitionRecord c)" "check_record P (DefinitionRecord c) = Inr ()"
    using assms(3)
    by (auto simp: correspondence_bytes_def canonical_value_bytes_def bindE_Inr_iff convert_record_def
        thenE_Inr_iff split: if_splits)
  obtain bd where bd: "mapE (dependency_binding P) deps' = Inr bd" "mset bd = mset bc"
    using mapE_permute [OF bc(1) assms(5)] by blast
  have dist: "distinct (map rs_label (od_resources c))"
    using conv(2) by (simp add: check_distinct_def refuse_Inr_iff)
  have "mset (map rs_label (od_resources d)) = mset (map rs_label (od_resources c))"
    using assms(4) by simp
  then have "distinct (map rs_label (od_resources d))" using dist mset_eq_imp_distinct_iff by blast
  moreover have "set (od_resources d) = set (od_resources c)" using assms(4) by (rule mset_eq_setD)
  ultimately have "convert_record P (DefinitionRecord d) = Inr (DefinitionRecord d)"
    using conv assms(6-8)
    by (simp add: convert_record_def check_distinct_def list_all_iff is_identifier_def Suc_le_eq)
  moreover have "key_sorted (JObj (map resource_meaning (od_resources d)))
      = key_sorted (JObj (map resource_meaning (od_resources c)))"
  proof (rule key_sorted_obj_mset)
    have "fst \<circ> resource_meaning = rs_label" by (auto simp: resource_meaning_def)
    then show "distinct (map fst (map resource_meaning (od_resources d)))"
      using \<open>distinct (map rs_label (od_resources d))\<close> by simp
  qed (use assms(4) in simp)
  then have "key_sorted (operation_meaning d) = key_sorted (operation_meaning c)"
    unfolding operation_meaning_def using assms(7-10)
    by (intro key_sorted_obj_cong) (simp del: key_sorted.simps)
  moreover have "key_sorted (JObj bd) = key_sorted (JObj bc)"
  proof (rule key_sorted_obj_mset [OF bd(2)])
    have "mset (map fst bd) = mset (map fst bc)" using bd(2) by simp
    then show "distinct (map fst bd)"
      using assms(2) bindings_keys [OF bc(1)] mset_eq_imp_distinct_iff by metis
  qed
  ultimately have "key_sorted (correspondence_value d bd) = key_sorted (correspondence_value c bc)"
    unfolding correspondence_value_def by (intro key_sorted_obj_cong) (simp del: key_sorted.simps)
  then have "canonical P (correspondence_value d bd) = Inr b"
    using assms(1) bc(2) unfolding canonical_documented_def by metis
  with bd(1) \<open>convert_record P (DefinitionRecord d) = _\<close> show ?thesis
    by (simp add: correspondence_bytes_def canonical_value_bytes_def)
qed

theorem correspondence_order_witness:
  "correspondence_bytes reference_platform (sample_operation ''other'')
     [(''text'', ValueSelector (Whole ByValue), sample_evidence),
      (''year'', ValueSelector (Whole ByValue), sample_evidence)]
   = correspondence_bytes reference_platform (sample_operation ''one'')
     [(''year'', ValueSelector (Whole ByValue), sample_evidence),
      (''text'', ValueSelector (Whole ByValue), sample_evidence)]"
proof -
  let ?deps = "[(''year'', ValueSelector (Whole ByValue), sample_evidence),
      (''text'', ValueSelector (Whole ByValue), sample_evidence)]"
  obtain b where b: "correspondence_bytes reference_platform (sample_operation ''one'') ?deps = Inr b"
    by (simp add: correspondence_bytes_def canonical_value_bytes_def convert_record_def is_identifier_def
        check_distinct_def dependency_binding_def selector_value_def convert_selector_def declared_evidence_def
        evidence_mode_def sample_operation_def sample_evidence_def is_count_def opt_all_def
        del: emit.simps key_sorted.simps)
  have "correspondence_bytes reference_platform (sample_operation ''other'')
      [(''text'', ValueSelector (Whole ByValue), sample_evidence),
       (''year'', ValueSelector (Whole ByValue), sample_evidence)] = Inr b"
    by (rule correspondence_order [OF reference_canonical_documented _ b])
      (simp_all add: sample_operation_def add_mset_commute)
  with b show ?thesis by simp
qed

end
