(* ===== verification/Comparison.thy ===== *)
theory Comparison
  imports Reference_Codec Key_Order
begin

text \<open>
  The comparison primitives of src/src/docspec/application/comparison.py and the bounded
  control unit of src/src/docspec/domain/streams.py. The \<open>_MISSING\<close> sentinel is \<open>None\<close>;
  an iterator is the list of the rows it yields. The lemmas show that every reported change
  addresses, by JSON Pointer, the two values it reports, and that the merge loses no row.
\<close>

section \<open>Bounded control units\<close>

fun bounded_from :: "nat \<Rightarrow> 'a list \<Rightarrow> 'a list \<Rightarrow> 'a list result" where
  "bounded_from limit result [] = Inr result"
| "bounded_from limit result (v # source) =
     (if length result = limit
      then Inl (LimitExceededError (''control unit exceeds '' @ digits_of_nat limit @ '' rows''))
      else bounded_from limit (result @ [v]) source)"

definition bounded_items :: "'a list \<Rightarrow> nat \<Rightarrow> 'a list result" where
  "bounded_items values limit = bounded_from limit [] values"

lemma bounded_from_eq:
  "length result \<le> limit \<Longrightarrow> bounded_from limit result source =
     (if length result + length source \<le> limit then Inr (result @ source)
      else Inl (LimitExceededError (''control unit exceeds '' @ digits_of_nat limit @ '' rows'')))"
  by (induction limit result source rule: bounded_from.induct) auto

section \<open>JSON changes\<close>

definition json_equal :: "platform \<Rightarrow> json \<Rightarrow> json \<Rightarrow> bool result" where
  "json_equal P older newer =
     bindE (canonical_json_bytes P (python_of older)) (\<lambda>a.
     bindE (canonical_json_bytes P (python_of newer)) (\<lambda>b. Inr (a = b)))"

text \<open>\<open>s.replace(c, r)\<close> for a one-character pattern.\<close>

definition replace_char :: "char \<Rightarrow> string \<Rightarrow> string \<Rightarrow> string" where
  "replace_char c r s = concat (map (\<lambda>d. if d = c then r else [d]) s)"

definition escape_token :: "string \<Rightarrow> string" where
  "escape_token key = replace_char (CHR ''/'') ''~1'' (replace_char (CHR ''~'') ''~0'' key)"

text \<open>A reported change; the two presence flags exist only for a missing side.\<close>

record change =
  ch_path :: string
  ch_older :: json
  ch_newer :: json
  ch_present :: "(bool \<times> bool) option"

definition value_or_null :: "json option \<Rightarrow> json" where
  "value_or_null v = (case v of None \<Rightarrow> JNull | Some j \<Rightarrow> j)"

lemma object_child_smaller: "map_of kvs k = Some v \<Longrightarrow> size v < size (JObj kvs)"
  by (induction kvs) (auto split: if_splits)

function json_changes :: "platform \<Rightarrow> json option \<Rightarrow> json option \<Rightarrow> string \<Rightarrow> change list result" where
  "json_changes P older newer path =
     (if older = None \<or> newer = None
      then Inr [\<lparr>ch_path = path, ch_older = value_or_null older, ch_newer = value_or_null newer,
                 ch_present = Some (older \<noteq> None, newer \<noteq> None)\<rparr>]
      else bindE (json_equal P (the older) (the newer)) (\<lambda>same.
        if same then Inr []
        else case (the older, the newer) of
          (JObj a, JObj b) \<Rightarrow>
            bindE (mapE (\<lambda>key. json_changes P (map_of a key) (map_of b key)
                       (path @ ''/'' @ escape_token key))
                    (sort (remdups (map fst a @ map fst b))))
              (\<lambda>changes. Inr (concat changes))
        | _ \<Rightarrow> Inr [\<lparr>ch_path = path, ch_older = the older, ch_newer = the newer, ch_present = None\<rparr>]))"
  by pat_completeness auto
termination
  by (relation "measure (\<lambda>(P, older, newer, path). case older of None \<Rightarrow> 0 | Some j \<Rightarrow> Suc (size j))")
    (auto simp del: json.size split: option.splits dest: object_child_smaller)

declare json_changes.simps [simp del]

section \<open>The merge of two ordered streams\<close>

function paired_rows :: "('r \<Rightarrow> 'k::linorder) \<Rightarrow> 'r list \<Rightarrow> 'r list \<Rightarrow> ('r option \<times> 'r option) list" where
  "paired_rows key older newer =
     (if older = [] \<and> newer = [] then []
      else if newer = [] \<or> (older \<noteq> [] \<and> key (hd older) < key (hd newer))
      then (Some (hd older), None) # paired_rows key (tl older) newer
      else if older = [] \<or> key (hd newer) < key (hd older)
      then (None, Some (hd newer)) # paired_rows key older (tl newer)
      else (Some (hd older), Some (hd newer)) # paired_rows key (tl older) (tl newer))"
  by pat_completeness auto
termination
  by (relation "measure (\<lambda>(key, older, newer). length older + length newer)")
    (auto simp: neq_Nil_conv)

declare paired_rows.simps [simp del]

section \<open>Escaped addresses\<close>

lemma replace_pair_skip: "x \<noteq> a \<Longrightarrow> replace_pair a b r (x # s) = x # replace_pair a b r s"
  by (cases s) auto

lemma escape_token_Cons:
  "escape_token (c # k) = (if c = CHR ''~'' then ''~0'' else if c = CHR ''/'' then ''~1'' else [c]) @ escape_token k"
  by (simp add: escape_token_def replace_char_def)

lemma escape_token_Nil [simp]: "escape_token [] = []"
  by (simp add: escape_token_def replace_char_def)

lemma unescape_slash:
  "replace_pair (CHR ''~'') (CHR ''1'') (CHR ''/'') (escape_token k) = replace_char (CHR ''~'') ''~0'' k"
proof (induction k)
  case (Cons c k)
  then show ?case by (auto simp: escape_token_Cons replace_char_def replace_pair_skip)
qed (simp add: replace_char_def)

lemma unescape_escape [simp]: "unescape_token (escape_token k) = k"
proof -
  have "replace_pair (CHR ''~'') (CHR ''0'') (CHR ''~'') (replace_char (CHR ''~'') ''~0'' k) = k"
    by (induction k) (auto simp: replace_char_def replace_pair_skip)
  then show ?thesis by (simp add: unescape_token_def unescape_slash)
qed

lemma escape_no_slash: "CHR ''/'' \<notin> set (escape_token k)"
  by (induction k) (auto simp: escape_token_Cons)

lemma bad_tilde_skip: "x \<noteq> CHR ''~'' \<Longrightarrow> bad_tilde (x # s) = bad_tilde s"
  by (cases s) auto

lemma bad_tilde_escape: "bad_tilde (escape_token k @ s) = bad_tilde s"
  by (induction k) (auto simp: escape_token_Cons bad_tilde_skip)

definition address :: "string list \<Rightarrow> string" where
  "address keys = concat (map (\<lambda>k. CHR ''/'' # escape_token k) keys)"

lemma split_address: "split_on (CHR ''/'') (address keys) = [] # map escape_token keys"
proof (induction keys)
  case (Cons k keys)
  show ?case
  proof (cases keys)
    case Nil
    then show ?thesis using escape_no_slash by (simp add: address_def split_on_single)
  next
    case (Cons l ls)
    then obtain rest where r: "address keys = CHR ''/'' # rest" by (simp add: address_def)
    then have "split_on (CHR ''/'') rest = map escape_token keys" using Cons.IH by simp
    then show ?thesis
      using r split_on_append_sep [OF escape_no_slash, of k rest] by (simp add: address_def)
  qed
qed (simp add: address_def)

lemma pointer_tokens_address: "pointer_tokens (JStr (address keys)) = Inr keys"
proof -
  have "\<not> bad_tilde (address keys)"
    by (induction keys) (simp_all add: address_def bad_tilde_skip bad_tilde_escape)
  moreover have "address keys = [] \<or> starts_with ''/'' (address keys)"
    by (cases keys) (simp_all add: address_def starts_with_def)
  ultimately show ?thesis by (auto simp: pointer_tokens_def split_address o_def map_idI)
qed

lemma address_snoc: "address keys @ ''/'' @ escape_token k = address (keys @ [k])"
  by (simp add: address_def)

section \<open>Reported changes\<close>

text \<open>What an address resolves to in a document that may be missing.\<close>

definition resolve :: "json option \<Rightarrow> string list \<Rightarrow> json option" where
  "resolve document keys =
     (if document = None then None
      else case json_lookup document keys of Inl _ \<Rightarrow> None | Inr v \<Rightarrow> Some v)"

lemma resolve_pointer:
  "pointer_value j (JStr (address keys)) = Inr (resolve (Some j) keys)"
  by (simp add: pointer_value_def pointer_tokens_address resolve_def split: sum.splits)

lemma resolve_Nil [simp]: "resolve document [] = document"
  by (cases document) (simp_all add: resolve_def)

lemma resolve_None [simp]: "resolve None keys = None"
  by (simp add: resolve_def)

lemma resolve_object: "resolve (Some (JObj kvs)) (k # keys) = resolve (map_of kvs k) keys"
proof (cases "map_of kvs k")
  case None
  then have "k \<notin> set (map fst kvs)" by (simp add: map_of_eq_None_iff)
  then show ?thesis using None by (simp add: resolve_def child_key_def)
next
  case (Some v)
  then have "k \<in> set (map fst kvs)" by (metis domI dom_map_of_conv_image_fst set_map)
  then show ?thesis using Some by (simp add: resolve_def child_key_def dict_get_def)
qed

definition reports :: "change \<Rightarrow> json option \<Rightarrow> json option \<Rightarrow> bool" where
  "reports c x y \<longleftrightarrow> ch_older c = value_or_null x \<and> ch_newer c = value_or_null y \<and>
     (if x = None \<or> y = None
      then ch_present c = Some (x \<noteq> None, y \<noteq> None) \<and> (x \<noteq> None \<or> y \<noteq> None)
      else ch_present c = None \<and> key_sorted (the x) \<noteq> key_sorted (the y))"

lemma json_equal_iff:
  "canonical_documented P \<Longrightarrow> json_equal P a b = Inr same \<Longrightarrow> same \<longleftrightarrow> key_sorted a = key_sorted b"
proof -
  assume doc: "canonical_documented P" and "json_equal P a b = Inr same"
  then obtain x y where x: "canonical P a = Inr x" and y: "canonical P b = Inr y" and same: "same = (x = y)"
    by (auto simp: json_equal_def bindE_Inr_iff)
  have "canonical P b = Inr x \<longleftrightarrow> key_sorted a = key_sorted b"
    using doc x unfolding canonical_documented_def by blast
  then show ?thesis using y same by auto
qed

lemma json_changes_object:
  assumes "json_equal P (JObj a) (JObj b) = Inr False"
  shows "json_changes P (Some (JObj a)) (Some (JObj b)) path =
    bindE (mapE (\<lambda>key. json_changes P (map_of a key) (map_of b key) (path @ ''/'' @ escape_token key))
      (sort (remdups (map fst a @ map fst b)))) (\<lambda>changes. Inr (concat changes))"
  by (rule trans, rule json_changes.simps)
    (simp only: assms option.distinct option.sel bindE_simps if_False prod.case json.case de_Morgan_disj simp_thms)

lemma json_changes_leaf:
  assumes "\<nexists>a b. x = JObj a \<and> y = JObj b"
  shows "json_changes P (Some x) (Some y) path = bindE (json_equal P x y) (\<lambda>same. Inr (if same then []
      else [\<lparr>ch_path = path, ch_older = x, ch_newer = y, ch_present = None\<rparr>]))"
proof -
  have "(case (x, y) of (JObj a, JObj b) \<Rightarrow> f a b | _ \<Rightarrow> z) = z" for f and z :: "change list result"
    using assms by (cases x; cases y) simp_all
  then show ?thesis
    by (intro trans [OF json_changes.simps])
      (simp only: option.distinct option.sel if_False de_Morgan_disj simp_thms if_distrib [of Inr])
qed

lemma json_changes_missing:
  "x = None \<or> y = None \<Longrightarrow> json_changes P x y path =
     Inr [\<lparr>ch_path = path, ch_older = value_or_null x, ch_newer = value_or_null y,
           ch_present = Some (x \<noteq> None, y \<noteq> None)\<rparr>]"
  by (rule trans, rule json_changes.simps) (simp only: if_True)

lemma json_changes_same:
  "json_equal P x y = Inr True \<Longrightarrow> json_changes P (Some x) (Some y) path = Inr []"
  by (rule trans, rule json_changes.simps)
    (simp only: option.distinct option.sel bindE_simps if_True if_False de_Morgan_disj simp_thms)

lemma json_changes_equal_ok:
  "json_changes P (Some x) (Some y) path = Inr changes \<Longrightarrow> \<exists>same. json_equal P x y = Inr same"
proof (cases "json_equal P x y")
  case (Inl e)
  have "json_changes P (Some x) (Some y) path = Inl e"
    by (rule trans, rule json_changes.simps)
      (simp only: Inl option.distinct option.sel bindE_simps if_False de_Morgan_disj simp_thms)
  then show "json_changes P (Some x) (Some y) path = Inr changes \<Longrightarrow> ?thesis" by simp
qed simp

lemma changes_sound:
  assumes doc: "canonical_documented P"
  shows "json_changes P older newer (address pre) = Inr changes \<Longrightarrow> older \<noteq> None \<or> newer \<noteq> None \<Longrightarrow>
     \<forall>c \<in> set changes. \<exists>keys. ch_path c = address (pre @ keys) \<and>
       reports c (resolve older keys) (resolve newer keys)"
proof (induction "case older of None \<Rightarrow> 0 | Some j \<Rightarrow> Suc (size j)" arbitrary: older newer pre changes
    rule: less_induct)
  case less
  show ?case
  proof (cases "older = None \<or> newer = None")
    case True
    then have "changes = [\<lparr>ch_path = address pre, ch_older = value_or_null older,
        ch_newer = value_or_null newer, ch_present = Some (older \<noteq> None, newer \<noteq> None)\<rparr>]"
      using less.prems(1) by (simp add: json_changes_missing)
    then show ?thesis using True less.prems(2) by (auto simp: reports_def intro!: exI [of _ "[]"])
  next
    case False
    then obtain x y where xy: "older = Some x" "newer = Some y" by auto
    obtain same where same: "json_equal P x y = Inr same"
      using json_changes_equal_ok less.prems(1) xy by blast
    show ?thesis
    proof (cases "\<exists>a b. x = JObj a \<and> y = JObj b \<and> \<not> same")
      case False
      then have "changes = [] \<or> \<not> same \<and> changes =
          [\<lparr>ch_path = address pre, ch_older = x, ch_newer = y, ch_present = None\<rparr>]"
        using json_changes_leaf [of x y P "address pre"] json_changes_same [of P x y "address pre"]
          less.prems(1) xy same by (cases same) auto
      then show ?thesis
        using xy json_equal_iff [OF doc same]
        by (auto simp: reports_def value_or_null_def intro!: exI [of _ "[]"])
    next
      case True
      then obtain a b where ab: "x = JObj a" "y = JObj b" and "\<not> same" by blast
      then have ne: "json_equal P (JObj a) (JObj b) = Inr False" using same by simp
      obtain css where css: "mapE (\<lambda>key. json_changes P (map_of a key) (map_of b key)
            (address pre @ ''/'' @ escape_token key)) (sort (remdups (map fst a @ map fst b))) = Inr css"
        and ch: "changes = concat css"
        using less.prems(1) unfolding xy ab json_changes_object [OF ne] bindE_Inr_iff by blast
      show ?thesis
      proof
        fix c assume "c \<in> set changes"
        then obtain i where i: "i < length css" "c \<in> set (css ! i)"
          unfolding ch by (metis in_set_conv_nth UN_E set_concat)
        define key where "key = sort (remdups (map fst a @ map fst b)) ! i"
        have key: "key \<in> set (map fst a) \<union> set (map fst b)"
          using i(1) mapE_length [OF css] nth_mem [of i "sort (remdups (map fst a @ map fst b))"]
          by (simp add: key_def)
        have sub: "json_changes P (map_of a key) (map_of b key) (address (pre @ [key])) = Inr (css ! i)"
          using mapE_nthD [OF css] i(1) mapE_length [OF css] by (simp add: key_def flip: address_snoc)
        have small: "(case map_of a key of None \<Rightarrow> 0 | Some j \<Rightarrow> Suc (size j))
            < (case older of None \<Rightarrow> 0 | Some j \<Rightarrow> Suc (size j))"
          using object_child_smaller [of a key] xy ab by (auto simp del: json.size split: option.splits)
        have some: "map_of a key \<noteq> None \<or> map_of b key \<noteq> None"
          using key by (auto simp: map_of_eq_None_iff)
        obtain keys where "ch_path c = address ((pre @ [key]) @ keys)"
          "reports c (resolve (map_of a key) keys) (resolve (map_of b key) keys)"
          using less.hyps [OF small sub some] i(2) by blast
        then show "\<exists>keys. ch_path c = address (pre @ keys) \<and> reports c (resolve older keys) (resolve newer keys)"
          by (intro exI [of _ "key # keys"]) (simp add: xy ab resolve_object)
      qed
    qed
  qed
qed

text \<open>
  Every reported change is a real one: its path is a JSON Pointer that resolves, in the older
  and in the newer document, to exactly the values the change reports (or to nothing on the side
  it reports as missing), and these differ.
\<close>

theorem json_changes_sound:
  assumes "canonical_documented P" "json_changes P (Some x) (Some y) [] = Inr changes" "c \<in> set changes"
  shows "\<exists>u v. pointer_value x (JStr (ch_path c)) = Inr u \<and> pointer_value y (JStr (ch_path c)) = Inr v \<and>
     reports c u v"
proof -
  have "json_changes P (Some x) (Some y) (address []) = Inr changes" using assms(2) by (simp add: address_def)
  from changes_sound [OF assms(1) this] assms(3) obtain keys where "ch_path c = address keys"
    "reports c (resolve (Some x) keys) (resolve (Some y) keys)" by auto
  then show ?thesis by (auto simp: resolve_pointer)
qed

definition sample_older :: json where
  "sample_older = JObj [(''title'', JStr ''A''), (''a/b'', JObj [(''n'', JInt 1)])]"

definition sample_newer :: json where
  "sample_newer = JObj [(''a/b'', JObj [(''n'', JInt 2)]), (''year'', JNull)]"

lemma sample_changes:
  "json_changes reference_platform (Some sample_older) (Some sample_newer) [] = Inr
     [\<lparr>ch_path = ''/a~1b/n'', ch_older = JInt 1, ch_newer = JInt 2, ch_present = None\<rparr>,
      \<lparr>ch_path = ''/title'', ch_older = JStr ''A'', ch_newer = JNull, ch_present = Some (True, False)\<rparr>,
      \<lparr>ch_path = ''/year'', ch_older = JNull, ch_newer = JNull, ch_present = Some (False, True)\<rparr>]"
  by code_simp

theorem json_changes_sound_witness:
  "pointer_value sample_older (JStr ''/a~1b/n'') = Inr (Some (JInt 1)) \<and>
   pointer_value sample_newer (JStr ''/a~1b/n'') = Inr (Some (JInt 2))"
  using json_changes_sound [OF reference_canonical_documented sample_changes,
      of "\<lparr>ch_path = ''/a~1b/n'', ch_older = JInt 1, ch_newer = JInt 2, ch_present = None\<rparr>"]
  by (auto simp: reports_def value_or_null_def split: if_splits)

lemma child_changes:
  assumes css: "mapE (\<lambda>key. json_changes P (map_of a key) (map_of b key) (f key))
      (sort (remdups (map fst a @ map fst b))) = Inr css" and "concat css = []"
    and "map_of a k \<noteq> None \<or> map_of b k \<noteq> None"
  shows "\<exists>v w. map_of a k = Some v \<and> map_of b k = Some w \<and> json_changes P (Some v) (Some w) (f k) = Inr []"
proof -
  let ?keys = "sort (remdups (map fst a @ map fst b))"
  have "k \<in> set ?keys" using assms(3) by (auto simp: map_of_eq_None_iff)
  then obtain i where i: "i < length ?keys" "?keys ! i = k" by (metis in_set_conv_nth)
  then have sub: "json_changes P (map_of a k) (map_of b k) (f k) = Inr (css ! i)" "css ! i \<in> set css"
    using mapE_nthD [OF css] mapE_length [OF css] by auto
  then have e: "css ! i = []" using assms(2) by simp
  show ?thesis
  proof (cases "map_of a k = None \<or> map_of b k = None")
    case True
    then show ?thesis using sub(1) e by (simp add: json_changes_missing)
  next
    case False
    then show ?thesis using sub(1) e by auto
  qed
qed

lemma changes_complete:
  assumes doc: "canonical_documented P"
  shows "json_changes P (Some x) (Some y) path = Inr [] \<Longrightarrow> unique_keys x \<Longrightarrow> unique_keys y
     \<Longrightarrow> key_sorted x = key_sorted y"
proof (induction "size x" arbitrary: x y path rule: less_induct)
  case less
  obtain same where same: "json_equal P x y = Inr same"
    using json_changes_equal_ok less.prems(1) by blast
  show ?case
  proof (cases same)
    case True
    then show ?thesis using json_equal_iff [OF doc same] by simp
  next
    case False
    then have "\<exists>a b. x = JObj a \<and> y = JObj b"
      using json_changes_leaf [of x y P path] less.prems(1) same by (cases "\<exists>a b. x = JObj a \<and> y = JObj b") auto
    then obtain a b where ab: "x = JObj a" "y = JObj b" by blast
    then have "json_equal P (JObj a) (JObj b) = Inr False" using same False by simp
    from less.prems(1) obtain css where css: "mapE (\<lambda>key. json_changes P (map_of a key) (map_of b key)
        (path @ ''/'' @ escape_token key)) (sort (remdups (map fst a @ map fst b))) = Inr css" "concat css = []"
      unfolding ab json_changes_object [OF \<open>json_equal P (JObj a) (JObj b) = Inr False\<close>] bindE_Inr_iff by blast
    have "map_option key_sorted (map_of a k) = map_option key_sorted (map_of b k)" for k
    proof (cases "map_of a k = None \<and> map_of b k = None")
      case False
      then obtain v w where vw: "map_of a k = Some v" "map_of b k = Some w"
        "json_changes P (Some v) (Some w) (path @ ''/'' @ escape_token k) = Inr []"
        using child_changes [OF css] by blast
      have "unique_keys v" "unique_keys w"
        using vw(1,2) less.prems(2,3) ab by (auto simp: list_all_iff dest!: map_of_SomeD)
      moreover have "size v < size x" using object_child_smaller [OF vw(1)] ab by simp
      ultimately have "key_sorted v = key_sorted w" using less.hyps vw(3) by blast
      then show ?thesis using vw by simp
    qed simp
    then show ?thesis using key_sorted_obj_iff [of a b] less.prems(2,3) ab by simp
  qed
qed

text \<open>
  No change is reported exactly when the two documents differ in key order only (missing and
  null, \<open>true\<close> and 1 included among the differences).
\<close>

theorem json_changes_complete:
  assumes "canonical_documented P" "unique_keys x" "unique_keys y"
    and "json_changes P (Some x) (Some y) path = Inr changes"
  shows "changes = [] \<longleftrightarrow> key_sorted x = key_sorted y"
proof
  assume "changes = []"
  then show "key_sorted x = key_sorted y" using changes_complete [OF assms(1)] assms(2-4) by blast
next
  assume eq: "key_sorted x = key_sorted y"
  obtain same where same: "json_equal P x y = Inr same"
    using json_changes_equal_ok assms(4) by blast
  then have "same" using json_equal_iff [OF assms(1) same] eq by simp
  then show "changes = []" using json_changes_same [of P x y path] same assms(4) by simp
qed

theorem json_changes_complete_witness: "key_sorted sample_older \<noteq> key_sorted sample_newer"
proof -
  have "unique_keys sample_older" "unique_keys sample_newer"
    by (simp_all add: sample_older_def sample_newer_def)
  from json_changes_complete [OF reference_canonical_documented this sample_changes] show ?thesis by simp
qed

section \<open>The merge\<close>

text \<open>The rows of one side of the merged stream, in order.\<close>

definition side :: "('p \<Rightarrow> 'r option) \<Rightarrow> 'p list \<Rightarrow> 'r list" where
  "side f pairs = concat (map (\<lambda>p. case f p of None \<Rightarrow> [] | Some r \<Rightarrow> [r]) pairs)"

lemma side_simps [simp]:
  "side f [] = []" "side f (p # ps) = (case f p of None \<Rightarrow> [] | Some r \<Rightarrow> [r]) @ side f ps"
  by (simp_all add: side_def)

lemma paired_sides: "side fst (paired_rows key older newer) = older \<and> side snd (paired_rows key older newer) = newer"
proof (induction key older newer rule: paired_rows.induct)
  case (1 key older newer)
  then show ?case
    by (subst (1 2) paired_rows.simps) (auto simp: neq_Nil_conv not_less)
qed

text \<open>The storage order the callers supply: keys strictly ascending.\<close>

definition uniquely_ordered :: "('r \<Rightarrow> 'k::linorder) \<Rightarrow> 'r list \<Rightarrow> bool" where
  "uniquely_ordered key rows = sorted_wrt (\<lambda>r s. key r < key s) rows"


text \<open>The specification: the full outer join of the two streams on their keys, in key order.\<close>

definition row_at :: "('r \<Rightarrow> 'k) \<Rightarrow> 'k \<Rightarrow> 'r list \<Rightarrow> 'r option" where
  "row_at key k rows = find (\<lambda>r. key r = k) rows"

definition outer_join :: "('r \<Rightarrow> 'k::linorder) \<Rightarrow> 'r list \<Rightarrow> 'r list \<Rightarrow> ('r option \<times> 'r option) list" where
  "outer_join key older newer =
     map (\<lambda>k. (row_at key k older, row_at key k newer))
       (sorted_list_of_set (key ` set older \<union> key ` set newer))"

lemma sorted_list_of_set_least:
  "finite A \<Longrightarrow> (\<And>a. a \<in> A \<Longrightarrow> m < a) \<Longrightarrow> sorted_list_of_set (insert m A) = m # sorted_list_of_set A"
proof -
  assume A: "finite A" "\<And>a. a \<in> A \<Longrightarrow> m < a"
  then have "m \<notin> A" by blast
  then have "sorted_list_of_set (insert m A) = insort m (sorted_list_of_set A)"
    using A(1) by (simp add: sorted_list_of_set_insert)
  also have "\<dots> = m # sorted_list_of_set A" using A by (intro insort_is_Cons) (auto intro: less_imp_le)
  finally show ?thesis .
qed

lemma row_at_Cons: "row_at key k (r # rows) = (if key r = k then Some r else row_at key k rows)"
  by (simp add: row_at_def)

lemma row_at_None: "k \<notin> key ` set rows \<Longrightarrow> row_at key k rows = None"
  by (force simp: row_at_def find_None_iff)

lemma outer_join_least:
  assumes "\<And>a. a \<in> key ` set older' \<union> key ` set newer' \<Longrightarrow> m < a"
    and "key ` set older \<union> key ` set newer = insert m (key ` set older' \<union> key ` set newer')"
    and "\<And>k. k \<noteq> m \<Longrightarrow> row_at key k older = row_at key k older' \<and> row_at key k newer = row_at key k newer'"
  shows "outer_join key older newer =
     (row_at key m older, row_at key m newer) # outer_join key older' newer'"
proof -
  have "sorted_list_of_set (key ` set older \<union> key ` set newer) =
      m # sorted_list_of_set (key ` set older' \<union> key ` set newer')"
    unfolding assms(2) by (rule sorted_list_of_set_least [OF _ assms(1)]) simp_all
  moreover have "k \<noteq> m" if "k \<in> key ` set older' \<union> key ` set newer'" for k using assms(1) [OF that] by simp
  ultimately show ?thesis using assms(3) by (simp add: outer_join_def)
qed

lemma ordered_Cons:
  "uniquely_ordered key (x # xs) \<longleftrightarrow> (\<forall>a \<in> key ` set xs. key x < a) \<and> uniquely_ordered key xs"
  by (simp add: uniquely_ordered_def)

lemma paired_outer_join:
  "uniquely_ordered key older \<Longrightarrow> uniquely_ordered key newer \<Longrightarrow>
     paired_rows key older newer = outer_join key older newer"
proof (induction key older newer rule: paired_rows.induct)
  case (1 key older newer)
  have cases4: "(older = [] \<and> newer = []) \<or>
      (\<exists>x xs. older = x # xs \<and> (newer = [] \<or> key x < key (hd newer))) \<or>
      (\<exists>y ys. newer = y # ys \<and> (older = [] \<or> key y < key (hd older))) \<or>
      (\<exists>x xs y ys. older = x # xs \<and> newer = y # ys \<and> key x = key y)"
    using linorder_less_linear by (cases older; cases newer) force+
  then consider "older = []" "newer = []"
    | x xs where "older = x # xs" "newer = [] \<or> key x < key (hd newer)"
    | y ys where "newer = y # ys" "older = [] \<or> key y < key (hd older)"
    | x xs y ys where "older = x # xs" "newer = y # ys" "key x = key y"
    by blast
  then show ?case
  proof cases
    case 1
    then show ?thesis by (subst paired_rows.simps) (simp add: outer_join_def)
  next
    case (2 x xs)
    have less: "key x < a" if "a \<in> key ` set newer" for a
      using 2 "1.prems"(2) that by (cases newer) (auto simp: ordered_Cons)
    have "outer_join key older newer = (row_at key (key x) older, row_at key (key x) newer) # outer_join key xs newer"
      using less "1.prems"(1) 2(1) by (intro outer_join_least) (auto simp: ordered_Cons row_at_Cons)
    moreover have "paired_rows key xs newer = outer_join key xs newer"
      using "1.IH"(1) 2 "1.prems" by (auto simp: ordered_Cons)
    moreover have "paired_rows key older newer = (Some x, None) # paired_rows key xs newer"
      using 2 by (subst paired_rows.simps) auto
    moreover have "row_at key (key x) newer = None" using less by (intro row_at_None) blast
    ultimately show ?thesis using 2(1) by (simp add: row_at_Cons)
  next
    case (3 y ys)
    have less: "key y < a" if "a \<in> key ` set older" for a
      using 3 "1.prems"(1) that by (cases older) (auto simp: ordered_Cons)
    have "outer_join key older newer = (row_at key (key y) older, row_at key (key y) newer) # outer_join key older ys"
      using less "1.prems"(2) 3(1) by (intro outer_join_least) (auto simp: ordered_Cons row_at_Cons)
    moreover have "paired_rows key older ys = outer_join key older ys"
      using "1.IH"(2) 3 "1.prems" order.asym [of "key y"] by (auto simp: ordered_Cons)
    moreover have "paired_rows key older newer = (None, Some y) # paired_rows key older ys"
      using 3 by (subst paired_rows.simps) auto
    moreover have "row_at key (key y) older = None" using less by (intro row_at_None) blast
    ultimately show ?thesis using 3(1) by (simp add: row_at_Cons)
  next
    case (4 x xs y ys)
    have "outer_join key older newer = (row_at key (key x) older, row_at key (key x) newer) # outer_join key xs ys"
      using "1.prems" 4 by (intro outer_join_least) (auto simp: ordered_Cons row_at_Cons)
    moreover have "paired_rows key xs ys = outer_join key xs ys"
      using "1.IH"(3) 4 "1.prems" by (auto simp: ordered_Cons)
    moreover have "paired_rows key older newer = (Some x, Some y) # paired_rows key xs ys"
      using 4 by (subst paired_rows.simps) auto
    ultimately show ?thesis using 4 by (simp add: row_at_Cons)
  qed
qed

text \<open>
  Whatever the order, the merge yields every row of both streams once and in order; over
  streams in strictly ascending key order it is the full outer join on the key.
\<close>

theorem paired_rows_join:
  "side fst (paired_rows key older newer) = older \<and> side snd (paired_rows key older newer) = newer \<and>
   (uniquely_ordered key older \<and> uniquely_ordered key newer \<longrightarrow>
      paired_rows key older newer = outer_join key older newer)"
  using paired_sides paired_outer_join by blast

theorem paired_rows_join_witness:
  "paired_rows fst [(1 :: nat, ''a''), (3, ''b'')] [(2, ''c''), (3, ''d'')]
     = [(Some (1, ''a''), None), (None, Some (2, ''c'')), (Some (3, ''b''), Some (3, ''d''))]"
proof -
  have "uniquely_ordered fst [(1 :: nat, ''a''), (3, ''b'')]" "uniquely_ordered fst [(2 :: nat, ''c''), (3, ''d'')]"
    by (simp_all add: uniquely_ordered_def)
  with paired_rows_join [of fst "[(1 :: nat, ''a''), (3, ''b'')]" "[(2, ''c''), (3, ''d'')]"]
  show ?thesis by (simp add: outer_join_def row_at_def insert_Diff_if)
qed

text \<open>
  A control unit is materialised completely, in order, exactly when it has at most the given
  number of rows, and refused otherwise.
\<close>

theorem bounded_items_exact:
  "bounded_items values limit = (if length values \<le> limit then Inr values
     else Inl (LimitExceededError (''control unit exceeds '' @ digits_of_nat limit @ '' rows'')))"
  by (simp add: bounded_items_def bounded_from_eq)

end
