(* ===== verification/Operation_Context.thy ===== *)
theory Operation_Context
  imports Core_Wire Reference_Codec
begin

text \<open>
  The attempt of one operation: \<^theory_text>\<open>OperationContext\<close> and \<open>_perform\<close> of
  src/src/docspec/application/core_execution.py. The record of a context is the attributes the
  methods read and write; the ledger session is its open flag, and its staging and commit are
  parameters of \<open>perform\<close>. A fresh identity (uuid4) is an argument of the operation that
  mints it. A decoded snapshot is the record itself, which differs from it in the key order of
  JSON payloads only.

  The step relation is one call of an operation by the producer. The lemmas show what every
  reachable context satisfies, and decide when its failure can be recorded.
\<close>

section \<open>State\<close>

record op_context =
  cx_session_open :: bool
  cx_execution :: execution
  cx_records :: "core_record list"
  cx_outputs :: "result_binding list"
  cx_generations :: "entity_event list"
  cx_usages :: "entity_event list"
  cx_derivations :: "derivation list"
  cx_active :: bool
  cx_control_bytes :: nat

definition batch_rows :: nat where "batch_rows = 2048"
definition batch_bytes :: nat where "batch_bytes = 8 * 1024 ^ 2"
definition control_reserve :: nat where "control_reserve = 64 * 1024"

definition snapshot_size :: "platform \<Rightarrow> core_record \<Rightarrow> (core_record \<times> nat) result" where
  "snapshot_size P r = bindE (encode_record P r) (\<lambda>payload. Inr (r, length payload))"

definition context_new :: "platform \<Rightarrow> bool \<Rightarrow> execution \<Rightarrow> core_record list \<Rightarrow> op_context result" where
  "context_new P session_open execution input_records =
     bindE (mapE (encode_record P) input_records) (\<lambda>payloads.
       Inr \<lparr>cx_session_open = session_open, cx_execution = execution, cx_records = input_records,
            cx_outputs = [], cx_generations = [], cx_usages = [], cx_derivations = [], cx_active = True,
            cx_control_bytes = sum_list (map length payloads)\<rparr>)"

section \<open>Operations\<close>

definition reserve :: "op_context \<Rightarrow> nat \<Rightarrow> nat \<Rightarrow> op_context result" where
  "reserve c byte_size n =
     (if batch_rows - 4 < length (cx_records c) + n
         \<or> batch_bytes - control_reserve < cx_control_bytes c + byte_size
      then Inl (LimitExceededError ''operation control metadata exceeds its budget; use bulk states or retained content'')
      else Inr (c\<lparr>cx_control_bytes := cx_control_bytes c + byte_size\<rparr>))"

definition require_active :: "op_context \<Rightarrow> unit result" where
  "require_active c =
     thenE (refuse (\<not> cx_session_open c) (StateTransitionError ''publication session is closed''))
           (refuse (\<not> cx_active c) (StateTransitionError ''operation callback is complete''))"

definition new_binding :: "op_context \<Rightarrow> string \<Rightarrow> string \<Rightarrow> role \<Rightarrow> production \<Rightarrow> result_binding result" where
  "new_binding c entity_id label role production =
     (let value = \<lparr>rb_label = label, rb_entity_id = entity_id, rb_role = role, rb_production = production\<rparr> in
      thenE (refuse (\<not> declared_result_binding value) (IntegrityError ''invalid Core record''))
     (thenE (refuse (label \<in> set (map rb_label (cx_outputs c))) (IntegrityError ''duplicate output binding label''))
            (Inr value)))"

text \<open>The result record of a context, under an identity and an outcome.\<close>

definition context_result :: "op_context \<Rightarrow> outcome \<Rightarrow> string \<Rightarrow> result_record" where
  "context_result c oc result_id =
     \<lparr>rt_result_id = result_id, rt_execution_id = ex_execution_id (cx_execution c), rt_outcome = oc,
      rt_generations = cx_generations c, rt_usages = cx_usages c, rt_derivations = cx_derivations c\<rparr>"

text \<open>The one-event result each operation admits before it changes the context.\<close>

definition event_check ::
    "op_context \<Rightarrow> outcome \<Rightarrow> entity_event list \<Rightarrow> entity_event list \<Rightarrow> derivation list \<Rightarrow> result_record" where
  "event_check c oc gens uses edges =
     \<lparr>rt_result_id = ''event-check'', rt_execution_id = ex_execution_id (cx_execution c), rt_outcome = oc,
      rt_generations = gens, rt_usages = uses, rt_derivations = edges\<rparr>"

definition outputs_outcome :: "result_binding list \<Rightarrow> outcome" where
  "outputs_outcome bs = \<lparr>oc_status = Success, oc_value = Some Outputs, oc_outputs = bs, oc_error = None\<rparr>"

definition empty_outcome :: outcome where
  "empty_outcome = \<lparr>oc_status = Success, oc_value = Some Empty, oc_outputs = [], oc_error = None\<rparr>"

definition generated_identity :: "core_record \<Rightarrow> string result" where
  "generated_identity r = (case r of
     EntityRecord e \<Rightarrow> Inr (en_entity_id e)
   | StateRecord s \<Rightarrow> Inr (st_state_id s)
   | _ \<Rightarrow> Inl (IntegrityError ''generation requires an entity or state''))"

definition generate_record ::
    "platform \<Rightarrow> string \<Rightarrow> op_context \<Rightarrow> core_record \<Rightarrow> string \<Rightarrow> role \<Rightarrow> string option \<Rightarrow> op_context result" where
  "generate_record P event_id c r label role happened_at =
     thenE (require_active c)
    (bindE (snapshot_size P r) (\<lambda>(r, record_size).
     bindE (generated_identity r) (\<lambda>identity.
     bindE (new_binding c identity label role New) (\<lambda>binding.
     let event = \<lparr>ev_event_id = event_id, ev_entity_id = identity, ev_happened_at = happened_at\<rparr> in
     bindE (snapshot_size P (ResultRecord (event_check c (outputs_outcome [binding]) [event] [] [])))
       (\<lambda>(_, event_size).
     thenE (refuse (identity \<in> set (map ev_entity_id (cx_generations c)))
              (IntegrityError ''duplicate generation of an entity within this operation''))
    (bindE (reserve c (record_size + event_size) 1) (\<lambda>c.
       Inr (c\<lparr>cx_records := cx_records c @ [r], cx_outputs := cx_outputs c @ [binding],
              cx_generations := cx_generations c @ [event]\<rparr>))))))))"

definition generate ::
    "platform \<Rightarrow> string \<Rightarrow> string \<Rightarrow> op_context \<Rightarrow> value_ref \<Rightarrow> string \<Rightarrow> role \<Rightarrow> entity_type \<Rightarrow>
       string option \<Rightarrow> string option \<Rightarrow> op_context result" where
  "generate P minted event_id c value label role entity_type entity_id happened_at =
     generate_record P event_id c
       (EntityRecord \<lparr>en_entity_id = (case entity_id of Some (x # xs) \<Rightarrow> x # xs | _ \<Rightarrow> minted),
                      en_entity_type = entity_type, en_value = value\<rparr>)
       label role happened_at"

definition adopt :: "platform \<Rightarrow> op_context \<Rightarrow> string \<Rightarrow> string \<Rightarrow> role \<Rightarrow> op_context result" where
  "adopt P c entity_id label role =
     thenE (require_active c)
    (bindE (new_binding c entity_id label role Adopted) (\<lambda>binding.
     bindE (snapshot_size P (ResultRecord (event_check c (outputs_outcome [binding]) [] [] []))) (\<lambda>(_, event_size).
     bindE (reserve c event_size 0) (\<lambda>c. Inr (c\<lparr>cx_outputs := cx_outputs c @ [binding]\<rparr>)))))"

definition use_entity :: "platform \<Rightarrow> string \<Rightarrow> op_context \<Rightarrow> string \<Rightarrow> string option \<Rightarrow> op_context result" where
  "use_entity P event_id c entity_id happened_at =
     thenE (require_active c)
    (let event = \<lparr>ev_event_id = event_id, ev_entity_id = entity_id, ev_happened_at = happened_at\<rparr> in
     bindE (snapshot_size P (ResultRecord (event_check c empty_outcome [] [event] []))) (\<lambda>(_, event_size).
     bindE (reserve c event_size 0) (\<lambda>c. Inr (c\<lparr>cx_usages := cx_usages c @ [event]\<rparr>))))"

definition derive ::
    "platform \<Rightarrow> op_context \<Rightarrow> string \<Rightarrow> string \<Rightarrow> string option \<Rightarrow> string option \<Rightarrow> op_context result" where
  "derive P c generated_entity_id used_entity_id generation_event_id usage_event_id =
     thenE (require_active c)
    (let edge = \<lparr>dv_generated_entity_id = generated_entity_id, dv_used_entity_id = used_entity_id,
                 dv_generation_event_id = generation_event_id, dv_usage_event_id = usage_event_id\<rparr> in
     bindE (snapshot_size P (ResultRecord (event_check c empty_outcome
        (filter (\<lambda>e. Some (ev_event_id e) = generation_event_id) (cx_generations c))
        (filter (\<lambda>e. Some (ev_event_id e) = usage_event_id) (cx_usages c)) [edge]))) (\<lambda>(_, event_size).
     bindE (reserve c event_size 0) (\<lambda>c. Inr (c\<lparr>cx_derivations := cx_derivations c @ [edge]\<rparr>))))"

section \<open>Running a producer\<close>

text \<open>How a producer ends: its return value, an exception, an interruption, or a suspension.\<close>

datatype producer_end = Returned "outcome option" | Raised string string | Interrupt string string | Suspend json

definition diagnostic :: "string \<Rightarrow> string \<Rightarrow> string" where
  "diagnostic name message =
     (let truncated = 4096 < length name + length message + 2;
          shown = take 4096 (take 4096 name @ '': '' @ take 4096 message)
      in take 4096 shown @ (if truncated \<or> 4096 < length shown then '' [truncated]'' else []))"

record prepared =
  pr_execution :: execution
  pr_result :: result_record
  pr_records :: "core_record list"

datatype perform_end =
    Prepared prepared
  | Suspended op_context json
  | FailureStaged "core_record list" result_record
  | FailureCommitted result_record
  | NotRecorded error

definition default_outcome :: "op_context \<Rightarrow> outcome option \<Rightarrow> outcome" where
  "default_outcome c returned = (case returned of
     None \<Rightarrow> \<lparr>oc_status = Success, oc_value = Some (if cx_outputs c \<noteq> [] then Outputs else Empty),
               oc_outputs = cx_outputs c, oc_error = None\<rparr>
   | Some oc \<Rightarrow> oc)"

definition finish_result :: "platform \<Rightarrow> op_context \<Rightarrow> outcome \<Rightarrow> (result_record \<times> nat) result" where
  "finish_result P c oc =
     (let r = context_result c oc (ex_execution_id (cx_execution c) @ '':result'') in
      thenE (refuse (oc_status oc \<noteq> Success)
               (IntegrityError ''producer must return a successful Outcome or complete its context outputs''))
     (thenE (refuse (oc_outputs oc \<noteq> cx_outputs c)
               (IntegrityError ''producer outcome differs from its recorded output bindings''))
     (bindE (snapshot_size P (ResultRecord r)) (\<lambda>(_, result_size). Inr (r, result_size)))))"

definition finish_records :: "platform \<Rightarrow> op_context \<Rightarrow> result_record \<Rightarrow> nat \<Rightarrow> prepared result" where
  "finish_records P c r result_size =
     thenE (refuse (batch_rows - 1 < length (cx_records c))
              (LimitExceededError ''control unit exceeds 2047 rows''))
    (bindE (mapE (snapshot_size P) (cx_records c)) (\<lambda>snapshots.
     thenE (refuse (batch_bytes - control_reserve < sum_list (map snd snapshots) + result_size)
              (LimitExceededError ''operation control metadata exceeds its publication budget''))
       (Inr \<lparr>pr_execution = cx_execution c, pr_result = r, pr_records = map fst snapshots\<rparr>)))"

text \<open>
  The end of the \<open>try\<close> block. A selection is appended to the context's own records, where a
  later failure finds it too.
\<close>

definition finish ::
    "platform \<Rightarrow> (result_record \<Rightarrow> core_record result) option \<Rightarrow> op_context \<Rightarrow> outcome option
       \<Rightarrow> op_context \<times> prepared result" where
  "finish P selection c returned =
     (case finish_result P c (default_outcome c returned) of
        Inl e \<Rightarrow> (c, Inl e)
      | Inr (r, result_size) \<Rightarrow>
        (case selection of
           None \<Rightarrow> (c, finish_records P c r result_size)
         | Some sel \<Rightarrow>
           (case sel r of
              Inl e \<Rightarrow> (c, Inl e)
            | Inr s \<Rightarrow> let c = c\<lparr>cx_records := cx_records c @ [s]\<rparr> in (c, finish_records P c r result_size))))"

definition failure_outcome :: "op_context \<Rightarrow> status \<Rightarrow> string \<Rightarrow> outcome" where
  "failure_outcome c st text =
     \<lparr>oc_status = st, oc_value = None, oc_outputs = cx_outputs c, oc_error = Some text\<rparr>"

text \<open>The \<open>except\<close> clause: build the failure, stage it, or commit it alone when staging refuses.\<close>

definition record_failure ::
    "platform \<Rightarrow> (core_record list \<Rightarrow> unit result) \<Rightarrow> (result_record \<Rightarrow> unit result) \<Rightarrow> op_context \<Rightarrow>
       status \<Rightarrow> string \<Rightarrow> perform_end" where
  "record_failure P stage commit c st text =
     (let failure = context_result c (failure_outcome c st text) (ex_execution_id (cx_execution c) @ '':result'') in
      case snapshot_size P (ResultRecord failure) of
        Inl e \<Rightarrow> NotRecorded e
      | Inr _ \<Rightarrow>
        (case stage (cx_records c @ [ResultRecord failure]) of
           Inr _ \<Rightarrow> FailureStaged (cx_records c) failure
         | Inl e \<Rightarrow>
             if is_limit_error e \<or> is_integrity_error e
             then (case commit failure of Inr _ \<Rightarrow> FailureCommitted failure | Inl e' \<Rightarrow> NotRecorded e')
             else NotRecorded e))"

text \<open>\<open>producer\<close> gives the context after its calls and how it ended.\<close>

definition perform ::
    "platform \<Rightarrow> (core_record list \<Rightarrow> unit result) \<Rightarrow> (result_record \<Rightarrow> unit result) \<Rightarrow>
       (result_record \<Rightarrow> core_record result) option \<Rightarrow> (op_context \<Rightarrow> op_context \<times> producer_end) \<Rightarrow>
       op_context \<Rightarrow> perform_end" where
  "perform P stage commit selection producer c =
     (case reserve c 0 0 of
        Inl e \<Rightarrow> record_failure P stage commit c Failed (diagnostic (class_name e) (message_of e))
      | Inr c \<Rightarrow>
        (case producer c of
           (c, Suspend state) \<Rightarrow> Suspended c state
         | (c, Raised name message) \<Rightarrow> record_failure P stage commit c Failed (diagnostic name message)
         | (c, Interrupt name message) \<Rightarrow> record_failure P stage commit c Interrupted (diagnostic name message)
         | (c, Returned returned) \<Rightarrow>
             (case finish P selection c returned of
                (c, Inl e) \<Rightarrow> record_failure P stage commit c Failed (diagnostic (class_name e) (message_of e))
              | (c, Inr p) \<Rightarrow> Prepared p)))"

section \<open>Steps of a producer\<close>

definition event_ids :: "op_context \<Rightarrow> string list" where
  "event_ids c = map ev_event_id (cx_generations c @ cx_usages c)"

text \<open>One call; a minted event identity is new (uuid4).\<close>

inductive context_step :: "platform \<Rightarrow> op_context \<Rightarrow> op_context \<Rightarrow> bool" for P where
  generates: "generate_record P event_id c r label role happened_at = Inr c' \<Longrightarrow>
     event_id \<notin> set (event_ids c) \<Longrightarrow> context_step P c c'"
| adopts: "adopt P c entity_id label role = Inr c' \<Longrightarrow> context_step P c c'"
| uses: "use_entity P event_id c entity_id happened_at = Inr c' \<Longrightarrow>
     event_id \<notin> set (event_ids c) \<Longrightarrow> context_step P c c'"
| derives: "derive P c generated used generation_event usage_event = Inr c' \<Longrightarrow> context_step P c c'"

inductive_cases context_stepE: "context_step P c c'"

text \<open>The contexts a producer can reach from a new one.\<close>

definition reachable :: "platform \<Rightarrow> op_context \<Rightarrow> bool" where
  "reachable P c \<longleftrightarrow> (\<exists>c0 session_open execution records.
     context_new P session_open execution records = Inr c0 \<and> is_identifier (ex_execution_id execution) \<and>
     (context_step P)\<^sup>*\<^sup>* c0 c)"

section \<open>What every reachable context satisfies\<close>

text \<open>A derivation names events of the context that carry its two entities.\<close>

definition edge_ok :: "op_context \<Rightarrow> derivation \<Rightarrow> bool" where
  "edge_ok c d \<longleftrightarrow> declared_derivation d \<and> dv_generated_entity_id d \<noteq> dv_used_entity_id d \<and>
     (\<forall>i. dv_generation_event_id d = Some i \<longrightarrow>
        (\<exists>e \<in> set (cx_generations c). ev_event_id e = i \<and> ev_entity_id e = dv_generated_entity_id d)) \<and>
     (\<forall>i. dv_usage_event_id d = Some i \<longrightarrow>
        (\<exists>e \<in> set (cx_usages c). ev_event_id e = i \<and> ev_entity_id e = dv_used_entity_id d))"

definition event_ok :: "platform \<Rightarrow> entity_event \<Rightarrow> bool" where
  "event_ok P e \<longleftrightarrow> declared_event e \<and> (\<exists>t. event_instant P (ev_happened_at e) = Inr t)"

definition wf_context :: "platform \<Rightarrow> op_context \<Rightarrow> bool" where
  "wf_context P c \<longleftrightarrow>
     is_identifier (ex_execution_id (cx_execution c)) \<and>
     distinct (map rb_label (cx_outputs c)) \<and> list_all declared_result_binding (cx_outputs c) \<and>
     (\<forall>b \<in> set (cx_outputs c). rb_production b = New \<longrightarrow> rb_entity_id b \<in> set (map ev_entity_id (cx_generations c))) \<and>
     distinct (event_ids c) \<and> distinct (map ev_entity_id (cx_generations c)) \<and>
     (\<forall>e \<in> set (cx_generations c @ cx_usages c). event_ok P e) \<and>
     (\<forall>d \<in> set (cx_derivations c). edge_ok c d)"

lemma find_event:
  "distinct (map ev_event_id es) \<Longrightarrow>
     map_of (rev (map (\<lambda>e. (ev_event_id e, e)) es)) i = Some e \<longleftrightarrow> e \<in> set es \<and> ev_event_id e = i"
  by (subst map_of_eq_Some_iff) (auto simp: o_def rev_map [symmetric])

lemma check_derivation_iff:
  assumes "distinct (map ev_event_id (rt_generations r))" "distinct (map ev_event_id (rt_usages r))"
  shows "check_derivation r d = Inr () \<longleftrightarrow> dv_generated_entity_id d \<noteq> dv_used_entity_id d \<and>
     (\<forall>i. dv_generation_event_id d = Some i \<longrightarrow>
        (\<exists>e \<in> set (rt_generations r). ev_event_id e = i \<and> ev_entity_id e = dv_generated_entity_id d)) \<and>
     (\<forall>i. dv_usage_event_id d = Some i \<longrightarrow>
        (\<exists>e \<in> set (rt_usages r). ev_event_id e = i \<and> ev_entity_id e = dv_used_entity_id d))"
proof -
  have half: "(case map_of (rev (map (\<lambda>e. (ev_event_id e, e)) es)) i of None \<Rightarrow> Inl x
        | Some e \<Rightarrow> refuse (ev_entity_id e \<noteq> entity) x) = Inr ()
      \<longleftrightarrow> (\<exists>e \<in> set es. ev_event_id e = i \<and> ev_entity_id e = entity)"
    if "distinct (map ev_event_id es)" for es i entity and x :: error
    using find_event [OF that, of i]
    by (cases "map_of (rev (map (\<lambda>e. (ev_event_id e, e)) es)) i") (auto simp: refuse_Inr_iff, force)
  show ?thesis
    using half [OF assms(1)] half [OF assms(2)]
    by (auto simp: check_derivation_def thenE_Inr_iff refuse_Inr_iff split: option.splits)
qed

text \<open>The admission rules of a result over the events of a context.\<close>

lemma context_result_admitted:
  assumes "wf_context P c" "result_id \<noteq> []" "oc_outputs oc = cx_outputs c"
    and "check_outcome oc = Inr ()" "opt_all is_identifier (oc_error oc)"
  shows "is_ok (convert_record P (ResultRecord (context_result c oc result_id))) \<longleftrightarrow>
     (\<forall>b \<in> set (cx_outputs c). rb_production b = Adopted \<longrightarrow>
        rb_entity_id b \<notin> set (map ev_entity_id (cx_generations c)))"
proof -
  let ?r = "context_result c oc result_id"
  have ids: "distinct (map ev_event_id (cx_generations c))" "distinct (map ev_event_id (cx_usages c))"
    using assms(1) by (auto simp: wf_context_def event_ids_def)
  have edges: "eachE (check_derivation ?r) (cx_derivations c) = Inr ()"
    using assms(1) check_derivation_iff [of ?r] ids
    by (auto simp: eachE_Inr_iff context_result_def wf_context_def edge_ok_def)
  have "declared (ResultRecord ?r)"
    using assms by (auto simp: declared_result_def context_result_def wf_context_def declared_outcome_def
        is_identifier_def Suc_le_eq list_all_iff event_ok_def edge_ok_def)
  moreover have "check_result P ?r = Inr () \<longleftrightarrow>
      (\<forall>b \<in> set (cx_outputs c). rb_production b = Adopted \<longrightarrow>
        rb_entity_id b \<notin> set (map ev_entity_id (cx_generations c)))"
    using assms edges unfolding check_result_def
    by (auto simp: context_result_def wf_context_def thenE_Inr_iff refuse_Inr_iff eachE_Inr_iff
        check_binding_def check_distinct_def event_ids_def event_ok_def bindE_Inr_iff)
  ultimately show ?thesis
    by (cases "check_result P ?r") (auto simp: convert_record_def)
qed

lemma reserve_frame:
  "reserve c n k = Inr c' \<Longrightarrow> c' = c\<lparr>cx_control_bytes := cx_control_bytes c + n\<rparr> \<and>
     length (cx_records c) + k \<le> batch_rows - 4 \<and> cx_control_bytes c + n \<le> batch_bytes - control_reserve"
  by (auto simp: reserve_def split: if_splits)

lemma snapshot_result:
  assumes "snapshot_size P (ResultRecord r) = Inr (q, n)"
  shows "declared_result r \<and> check_result P r = Inr ()"
  using assms encode_record_admits [of P "ResultRecord r"] by (auto simp: snapshot_size_def bindE_Inr_iff)

lemma new_binding_ok:
  "new_binding c i label role production = Inr b \<Longrightarrow>
     b = \<lparr>rb_label = label, rb_entity_id = i, rb_role = role, rb_production = production\<rparr> \<and>
     declared_result_binding b \<and> label \<notin> set (map rb_label (cx_outputs c))"
  by (auto simp: new_binding_def Let_def result_iffs)

lemma declared_event_checked:
  "declared_result (event_check c oc gens uses edges) \<Longrightarrow> check_result P (event_check c oc gens uses edges) = Inr ()
     \<Longrightarrow> (\<forall>e \<in> set (gens @ uses). event_ok P e) \<and> (\<forall>d \<in> set edges. declared_derivation d)"
  by (auto simp: declared_result_def event_check_def check_result_def thenE_Inr_iff eachE_Inr_iff
      bindE_Inr_iff event_ok_def list_all_iff)

lemma generate_record_ok:
  assumes "generate_record P event_id c r label role happened_at = Inr c'"
  shows "\<exists>identity b e n. generated_identity r = Inr identity \<and>
     b = \<lparr>rb_label = label, rb_entity_id = identity, rb_role = role, rb_production = New\<rparr> \<and>
     e = \<lparr>ev_event_id = event_id, ev_entity_id = identity, ev_happened_at = happened_at\<rparr> \<and>
     declared_result_binding b \<and> label \<notin> set (map rb_label (cx_outputs c)) \<and> event_ok P e \<and>
     identity \<notin> set (map ev_entity_id (cx_generations c)) \<and>
     length (cx_records c) < batch_rows - 4 \<and> n \<le> batch_bytes - control_reserve \<and>
     c' = c\<lparr>cx_control_bytes := n, cx_records := cx_records c @ [r], cx_outputs := cx_outputs c @ [b],
            cx_generations := cx_generations c @ [e]\<rparr>"
proof -
  from assms obtain q size1 identity b s1 size2 c1 where
    snap: "snapshot_size P r = Inr (q, size1)" and id: "generated_identity q = Inr identity"
    and b: "new_binding c identity label role New = Inr b"
    and check: "snapshot_size P (ResultRecord (event_check c (outputs_outcome [b])
       [\<lparr>ev_event_id = event_id, ev_entity_id = identity, ev_happened_at = happened_at\<rparr>] [] [])) = Inr (s1, size2)"
    and fresh: "identity \<notin> set (map ev_entity_id (cx_generations c))"
    and res: "reserve c (size1 + size2) 1 = Inr c1"
    and c': "c' = c1\<lparr>cx_records := cx_records c1 @ [q], cx_outputs := cx_outputs c1 @ [b],
       cx_generations := cx_generations c1 @
         [\<lparr>ev_event_id = event_id, ev_entity_id = identity, ev_happened_at = happened_at\<rparr>]\<rparr>"
    by (auto simp: generate_record_def result_iffs Let_def)
  have "q = r" using snap by (auto simp: snapshot_size_def bindE_Inr_iff)
  moreover have "event_ok P \<lparr>ev_event_id = event_id, ev_entity_id = identity, ev_happened_at = happened_at\<rparr>"
    using declared_event_checked snapshot_result [OF check] by fastforce
  ultimately show ?thesis using id new_binding_ok [OF b] fresh reserve_frame [OF res] c' by force
qed

lemma adopt_ok:
  assumes "adopt P c entity_id label role = Inr c'"
  shows "\<exists>b n. b = \<lparr>rb_label = label, rb_entity_id = entity_id, rb_role = role, rb_production = Adopted\<rparr> \<and>
     declared_result_binding b \<and> label \<notin> set (map rb_label (cx_outputs c)) \<and>
     length (cx_records c) \<le> batch_rows - 4 \<and> n \<le> batch_bytes - control_reserve \<and>
     c' = c\<lparr>cx_control_bytes := n, cx_outputs := cx_outputs c @ [b]\<rparr>"
  using assms new_binding_ok [of c entity_id label role Adopted] reserve_frame [of c _ 0]
  by (auto simp: adopt_def result_iffs) force+

lemma use_entity_ok:
  assumes "use_entity P event_id c entity_id happened_at = Inr c'"
  shows "\<exists>e n. e = \<lparr>ev_event_id = event_id, ev_entity_id = entity_id, ev_happened_at = happened_at\<rparr> \<and>
     event_ok P e \<and> length (cx_records c) \<le> batch_rows - 4 \<and> n \<le> batch_bytes - control_reserve \<and>
     c' = c\<lparr>cx_control_bytes := n, cx_usages := cx_usages c @ [e]\<rparr>"
proof -
  from assms obtain s1 size2 c1 where
    check: "snapshot_size P (ResultRecord (event_check c empty_outcome [] 
       [\<lparr>ev_event_id = event_id, ev_entity_id = entity_id, ev_happened_at = happened_at\<rparr>] [])) = Inr (s1, size2)"
    and res: "reserve c size2 0 = Inr c1"
    and c': "c' = c1\<lparr>cx_usages := cx_usages c1 @
         [\<lparr>ev_event_id = event_id, ev_entity_id = entity_id, ev_happened_at = happened_at\<rparr>]\<rparr>"
    by (auto simp: use_entity_def result_iffs Let_def)
  have "event_ok P \<lparr>ev_event_id = event_id, ev_entity_id = entity_id, ev_happened_at = happened_at\<rparr>"
    using declared_event_checked snapshot_result [OF check] by fastforce
  with reserve_frame [OF res] c' show ?thesis by force
qed

lemma derive_ok:
  assumes "derive P c g u ge ue = Inr c'" "wf_context P c"
  shows "\<exists>d n. d = \<lparr>dv_generated_entity_id = g, dv_used_entity_id = u, dv_generation_event_id = ge,
       dv_usage_event_id = ue\<rparr> \<and>
     edge_ok c d \<and> length (cx_records c) \<le> batch_rows - 4 \<and> n \<le> batch_bytes - control_reserve \<and>
     c' = c\<lparr>cx_control_bytes := n, cx_derivations := cx_derivations c @ [d]\<rparr>"
proof -
  define d where "d = \<lparr>dv_generated_entity_id = g, dv_used_entity_id = u, dv_generation_event_id = ge,
       dv_usage_event_id = ue\<rparr>"
  define r where "r = event_check c empty_outcome
     (filter (\<lambda>e. Some (ev_event_id e) = ge) (cx_generations c))
     (filter (\<lambda>e. Some (ev_event_id e) = ue) (cx_usages c)) [d]"
  from assms(1) obtain s1 size2 c1 where check: "snapshot_size P (ResultRecord r) = Inr (s1, size2)"
    and res: "reserve c size2 0 = Inr c1" and c': "c' = c1\<lparr>cx_derivations := cx_derivations c1 @ [d]\<rparr>"
    by (auto simp: derive_def result_iffs Let_def d_def r_def)
  have dist: "distinct (map ev_event_id (rt_generations r))" "distinct (map ev_event_id (rt_usages r))"
    using assms(2) by (auto simp: r_def event_check_def wf_context_def event_ids_def intro: distinct_map_filter)
  have "check_derivation r d = Inr ()"
    using snapshot_result [OF check] unfolding check_result_def
    by (auto simp: thenE_Inr_iff eachE_Inr_iff r_def event_check_def)
  then have "edge_ok c d"
    using check_derivation_iff [OF dist, of d] snapshot_result [OF check] declared_event_checked
    by (fastforce simp: edge_ok_def r_def event_check_def declared_result_def)
  with reserve_frame [OF res] c' show ?thesis by (force simp: d_def)
qed

lemma edge_ok_mono:
  "edge_ok c d \<Longrightarrow> set (cx_generations c) \<subseteq> set (cx_generations c') \<Longrightarrow> set (cx_usages c) \<subseteq> set (cx_usages c')
     \<Longrightarrow> edge_ok c' d"
  unfolding edge_ok_def by blast

lemma wf_extend:
  assumes "wf_context P c" "cx_execution c' = cx_execution c"
    and "cx_outputs c' = cx_outputs c @ bs" "cx_generations c' = cx_generations c @ gs"
    and "cx_usages c' = cx_usages c @ us" "cx_derivations c' = cx_derivations c @ ds"
    and "distinct (map rb_label (cx_outputs c @ bs))" "list_all declared_result_binding bs"
    and "\<forall>b \<in> set bs. rb_production b = New \<longrightarrow> rb_entity_id b \<in> set (map ev_entity_id gs)"
    and "distinct (event_ids c')" "distinct (map ev_entity_id (cx_generations c @ gs))"
    and "\<forall>e \<in> set (gs @ us). event_ok P e" "\<forall>d \<in> set ds. edge_ok c d"
  shows "wf_context P c'"
proof -
  have "edge_ok c' d" if "edge_ok c d" for d
    using edge_ok_mono [OF that, of c'] assms(4,5) by simp
  then show ?thesis using assms unfolding wf_context_def by (simp add: ball_Un)
qed

lemma step_wf: "context_step P c c' \<Longrightarrow> wf_context P c \<Longrightarrow> wf_context P c'"
proof (erule context_stepE)
  fix event_id r label role happened_at
  assume wf: "wf_context P c" and g: "generate_record P event_id c r label role happened_at = Inr c'"
    and fresh: "event_id \<notin> set (event_ids c)"
  from generate_record_ok [OF g] obtain identity b e n where
    "b = \<lparr>rb_label = label, rb_entity_id = identity, rb_role = role, rb_production = New\<rparr>"
    "e = \<lparr>ev_event_id = event_id, ev_entity_id = identity, ev_happened_at = happened_at\<rparr>"
    "declared_result_binding b" "label \<notin> set (map rb_label (cx_outputs c))" "event_ok P e"
    "identity \<notin> set (map ev_entity_id (cx_generations c))"
    "c' = c\<lparr>cx_control_bytes := n, cx_records := cx_records c @ [r], cx_outputs := cx_outputs c @ [b],
            cx_generations := cx_generations c @ [e]\<rparr>" by blast
  then show "wf_context P c'"
    using wf fresh by (intro wf_extend [where bs = "[b]" and gs = "[e]" and us = "[]" and ds = "[]", OF wf])
      (auto simp: wf_context_def event_ids_def)
next
  fix entity_id label role
  assume wf: "wf_context P c" and a: "adopt P c entity_id label role = Inr c'"
  from adopt_ok [OF a] obtain b n where
    "b = \<lparr>rb_label = label, rb_entity_id = entity_id, rb_role = role, rb_production = Adopted\<rparr>"
    "declared_result_binding b" "label \<notin> set (map rb_label (cx_outputs c))"
    "c' = c\<lparr>cx_control_bytes := n, cx_outputs := cx_outputs c @ [b]\<rparr>" by blast
  then show "wf_context P c'"
    using wf by (intro wf_extend [where bs = "[b]" and gs = "[]" and us = "[]" and ds = "[]", OF wf])
      (auto simp: wf_context_def event_ids_def)
next
  fix event_id entity_id happened_at
  assume wf: "wf_context P c" and u: "use_entity P event_id c entity_id happened_at = Inr c'"
    and fresh: "event_id \<notin> set (event_ids c)"
  from use_entity_ok [OF u] obtain e n where
    "e = \<lparr>ev_event_id = event_id, ev_entity_id = entity_id, ev_happened_at = happened_at\<rparr>" "event_ok P e"
    "c' = c\<lparr>cx_control_bytes := n, cx_usages := cx_usages c @ [e]\<rparr>" by blast
  then show "wf_context P c'"
    using wf fresh by (intro wf_extend [where bs = "[]" and gs = "[]" and us = "[e]" and ds = "[]", OF wf])
      (auto simp: wf_context_def event_ids_def)
next
  fix g u ge ue
  assume wf: "wf_context P c" and d: "derive P c g u ge ue = Inr c'"
  from derive_ok [OF d wf] obtain d n where
    "edge_ok c d" "c' = c\<lparr>cx_control_bytes := n, cx_derivations := cx_derivations c @ [d]\<rparr>" by blast
  then show "wf_context P c'"
    using wf by (intro wf_extend [where bs = "[]" and gs = "[]" and us = "[]" and ds = "[d]", OF wf])
      (auto simp: wf_context_def event_ids_def)
qed

lemma new_wf:
  "context_new P session_open execution records = Inr c \<Longrightarrow> is_identifier (ex_execution_id execution) \<Longrightarrow> wf_context P c"
  by (auto simp: context_new_def bindE_Inr_iff wf_context_def event_ids_def)

lemma reachable_wf: "reachable P c \<Longrightarrow> wf_context P c"
proof -
  assume "reachable P c"
  then obtain c0 where "wf_context P c0" "(context_step P)\<^sup>*\<^sup>* c0 c"
    unfolding reachable_def using new_wf by blast
  from this(2,1) show ?thesis by (induction rule: rtranclp_induct) (auto intro: step_wf)
qed


text \<open>For the examples: an encoder that gives every value one byte, so that sizes are literals.\<close>

definition counting_platform :: platform where
  "counting_platform = reference_platform\<lparr>canonical := \<lambda>j. Inr [0]\<rparr>"

lemmas evaluate_context = snapshot_size_def encode_record_def record_value_def convert_record_def
  canonical_value_bytes_def counting_platform_def require_active_def new_binding_def reserve_def
  event_check_def outputs_outcome_def empty_outcome_def generated_identity_def declared_result_def
  declared_outcome_def declared_result_binding_def declared_event_def is_identifier_def opt_all_def
  check_result_def check_outcome_def check_distinct_def check_binding_def event_instant_def
  batch_rows_def batch_bytes_def control_reserve_def Let_def

definition sample_execution :: execution where
  "sample_execution = \<lparr>ex_execution_id = ''x'', ex_request_id = ''q'', ex_capture_origin = None\<rparr>"

definition sample_context :: op_context where
  "sample_context = \<lparr>cx_session_open = True, cx_execution = sample_execution, cx_records = [],
     cx_outputs = [], cx_generations = [], cx_usages = [], cx_derivations = [], cx_active = True,
     cx_control_bytes = 0\<rparr>"

definition sample_generated :: "op_context result" where
  "sample_generated = generate counting_platform ''m'' ''g1'' sample_context (InlineValue (JInt 1)) ''out''
     Derived Artifact (Some ''e1'') None"

definition sample_conflict :: "op_context result" where
  "sample_conflict = bindE sample_generated (\<lambda>c. adopt counting_platform c ''e1'' ''again'' Derived)"

lemmas evaluate_sample = sample_generated_def generate_def generate_record_def adopt_def
  sample_context_def sample_execution_def evaluate_context


lemma sample_conflict_ok: "\<exists>c. sample_conflict = Inr c"
  by (simp add: sample_conflict_def evaluate_sample)

lemma sample_start: "context_new counting_platform True sample_execution [] = Inr sample_context"
  by (simp add: context_new_def sample_context_def)

lemma sample_generated_reachable: "sample_generated = Inr c \<Longrightarrow> reachable counting_platform c"
proof -
  assume "sample_generated = Inr c"
  then have "context_step counting_platform sample_context c"
    unfolding sample_generated_def generate_def
    by (rule context_step.generates) (simp add: event_ids_def sample_context_def)
  moreover have "is_identifier (ex_execution_id sample_execution)" by (simp add: is_identifier_def sample_execution_def)
  ultimately show ?thesis unfolding reachable_def using sample_start by blast
qed

lemma sample_conflict_reachable: "sample_conflict = Inr c \<Longrightarrow> reachable counting_platform c"
proof -
  assume "sample_conflict = Inr c"
  then obtain c1 where c1: "sample_generated = Inr c1" "adopt counting_platform c1 ''e1'' ''again'' Derived = Inr c"
    unfolding sample_conflict_def bindE_Inr_iff by blast
  then have "context_step counting_platform c1 c" by (blast intro: context_step.adopts)
  with sample_generated_reachable [OF c1(1)] show ?thesis
    unfolding reachable_def by (meson rtranclp.rtrancl_into_rtrancl)
qed




lemma failure_admitted:
  assumes "reachable P c" "st \<noteq> Success" "text \<noteq> []" "result_id \<noteq> []"
  shows "is_ok (record_value P (ResultRecord (context_result c (failure_outcome c st text) result_id))) \<longleftrightarrow>
     (\<forall>b \<in> set (cx_outputs c). rb_production b = Adopted \<longrightarrow>
        rb_entity_id b \<notin> set (map ev_entity_id (cx_generations c)))"
proof -
  have wf: "wf_context P c" by (rule reachable_wf [OF assms(1)])
  have oc: "check_outcome (failure_outcome c st text) = Inr ()"
    using wf assms(2) by (simp add: check_outcome_def failure_outcome_def check_distinct_def wf_context_def)
  have "is_ok (convert_record P (ResultRecord (context_result c (failure_outcome c st text) result_id))) \<longleftrightarrow>
     (\<forall>b \<in> set (cx_outputs c). rb_production b = Adopted \<longrightarrow>
        rb_entity_id b \<notin> set (map ev_entity_id (cx_generations c)))"
    by (rule context_result_admitted [OF wf assms(4) _ oc])
      (use assms(3) in \<open>simp_all add: failure_outcome_def opt_all_def is_identifier_def Suc_le_eq\<close>)
  moreover have "is_ok (record_value P r) = is_ok (convert_record P r)" for r
    by (cases "convert_record P r") (simp_all add: record_value_def)
  ultimately show ?thesis by simp
qed

text \<open>
  C19. The failure record of a reachable context is admitted exactly when no adopted output names
  an entity the attempt also generated.
\<close>

theorem failure_admitted_iff:
  assumes "reachable P c" "st \<noteq> Success" "text \<noteq> []" "result_id \<noteq> []"
  shows "is_ok (record_value P (ResultRecord (context_result c (failure_outcome c st text) result_id))) \<longleftrightarrow>
     (\<forall>b \<in> set (cx_outputs c). rb_production b = Adopted \<longrightarrow>
        rb_entity_id b \<notin> set (map ev_entity_id (cx_generations c)))"
  by (rule failure_admitted [OF assms])

theorem failure_admitted_iff_witness:
  "\<exists>c. sample_conflict = Inr c \<and> \<not> is_ok (record_value counting_platform
     (ResultRecord (context_result c (failure_outcome c Failed ''ValueError: x'') ''x:result'')))"
proof -
  obtain c where c: "sample_conflict = Inr c" using sample_conflict_ok by blast
  have "case sample_conflict of Inl e \<Rightarrow> False
     | Inr c \<Rightarrow> list_ex (\<lambda>b. rb_production b = Adopted \<and> rb_entity_id b \<in> set (map ev_entity_id (cx_generations c))) (cx_outputs c)"
    by (simp add: sample_conflict_def evaluate_sample)
  then have "\<not> (\<forall>b \<in> set (cx_outputs c). rb_production b = Adopted \<longrightarrow>
        rb_entity_id b \<notin> set (map ev_entity_id (cx_generations c)))"
    unfolding c by (auto simp: list_ex_iff)
  then show ?thesis
    using failure_admitted_iff [OF sample_conflict_reachable [OF c], of Failed "''ValueError: x''" "''x:result''"] c
    by blast
qed




section \<open>Budgets\<close>





end
