(* ===== verification/Recovery.thy ===== *)
theory Recovery
  imports Core_Wire
begin

text \<open>
  The closed recovery documents of src/src/docspec/domain/core_recovery.py. The documents
  themselves are built in the theory of the operations. The conversion of a mapping to a Core
  record (\<open>msgspec.convert\<close>) is the parameter \<open>conv\<close>: a record, or \<open>None\<close> where it raises.
\<close>

definition checkpoint_fields :: "string list" where
  "checkpoint_fields = [''format'', ''version'', ''execution_id'', ''partial_result_id'',
     ''record_keys'', ''roots'', ''state'', ''selection'']"

definition publication_fields :: "string list" where
  "publication_fields = [''format'', ''version'', ''unit_id'', ''executions'', ''records'', ''roots'']"

definition compact_fields :: "string list" where
  "compact_fields = filter (\<lambda>f. f \<noteq> ''records'') publication_fields @ [''record_keys'']"

text \<open>\<open>record_value\<close> of a supplied mapping.\<close>

definition admit_mapping :: "platform \<Rightarrow> (json \<Rightarrow> core_record option) \<Rightarrow> json \<Rightarrow> core_record result" where
  "admit_mapping P conv value =
     (case conv value of None \<Rightarrow> Inl (IntegrityError ''invalid Core record'')
      | Some r \<Rightarrow> thenE (check_record P r) (Inr r))"

definition valid_key :: "json \<Rightarrow> bool" where
  "valid_key key = (case key of
     JArr [JStr kind, JStr identity] \<Rightarrow> kind \<in> set (map fst record_id_fields) \<and> identity \<noteq> []
   | _ \<Rightarrow> False)"

definition check_keys :: "json \<Rightarrow> string \<Rightarrow> unit result" where
  "check_keys keys field =
     (case keys of
        JArr ks \<Rightarrow> refuse (\<not> list_all valid_key ks) (IntegrityError (''recovery document has invalid '' @ field))
      | _ \<Rightarrow> Inl (IntegrityError (''recovery document has invalid '' @ field)))"

definition check_checkpoint :: "object \<Rightarrow> string \<Rightarrow> unit result" where
  "check_checkpoint doc execution_id =
     thenE (refuse (dict_get doc ''execution_id'' \<noteq> JStr execution_id)
              (IntegrityError ''checkpoint identifies another execution''))
    (bindE (require_text (dict_get doc ''partial_result_id'') ''checkpoint result identity'') (\<lambda>_.
    (thenE (check_keys (dict_get doc ''roots'') ''roots'')
           (check_keys (dict_get doc ''record_keys'') ''record_keys''))))"

definition check_publication ::
    "platform \<Rightarrow> (json \<Rightarrow> core_record option) \<Rightarrow> bool \<Rightarrow> object \<Rightarrow> string \<Rightarrow> unit result" where
  "check_publication P conv compact doc execution_id =
     bindE (require_text (dict_get doc ''unit_id'') ''publication unit identity'') (\<lambda>_.
     thenE (case dict_get doc ''executions'' of
              JArr xs \<Rightarrow> refuse (JStr execution_id \<notin> set xs)
                (IntegrityError ''publication journal does not identify its execution'')
            | _ \<Rightarrow> Inl (IntegrityError ''publication journal does not identify its execution''))
    (thenE (if compact then Inr ()
            else case dict_get doc ''records'' of
              JArr records \<Rightarrow> eachE (\<lambda>r. bindE (admit_mapping P conv r) (\<lambda>_. Inr ())) records
            | _ \<Rightarrow> Inl (IntegrityError ''publication journal requires Core records''))
    (thenE (check_keys (dict_get doc ''roots'') ''roots'')
           (if compact then check_keys (dict_get doc ''record_keys'') ''record_keys'' else Inr ()))))"

definition is_compact :: "json \<Rightarrow> string \<Rightarrow> bool" where
  "is_compact value kind = (case value of
     JObj doc \<Rightarrow> kind = ''publication'' \<and> dict_get doc ''version'' = JInt 2 | _ \<Rightarrow> False)"

definition document_fields :: "bool \<Rightarrow> string \<Rightarrow> string list option" where
  "document_fields compact kind =
     (if compact then Some compact_fields
      else if kind = ''checkpoint'' then Some checkpoint_fields
      else if kind = ''publication'' then Some publication_fields else None)"

definition recovery_document ::
    "platform \<Rightarrow> (json \<Rightarrow> core_record option) \<Rightarrow> json \<Rightarrow> string \<Rightarrow> string \<Rightarrow> json result" where
  "recovery_document P conv value kind execution_id =
     (let compact = is_compact value kind;
          refusal = Inl (IntegrityError (''invalid operation '' @ kind @ '' document'')) in
      case (document_fields compact kind, value) of
        (Some expected, JObj doc) \<Rightarrow>
          (if set (map fst doc) \<noteq> set expected
              \<or> dict_get doc ''format'' \<noteq> JStr (''docspec-operation-'' @ kind)
              \<or> dict_get doc ''version'' \<noteq> JInt (if compact then 2 else 1)
           then refusal
           else thenE (if kind = ''checkpoint'' then check_checkpoint doc execution_id
                       else check_publication P conv compact doc execution_id)
                  (Inr value))
      | _ \<Rightarrow> refusal)"

section \<open>What an accepted document holds\<close>

lemma check_keys_ok:
  "check_keys keys field = Inr () \<longleftrightarrow> (\<exists>ks. keys = JArr ks \<and> list_all valid_key ks)"
  by (cases keys) (auto simp: check_keys_def refuse_Inr_iff)

lemma valid_key_record: "identity \<noteq> [] \<Longrightarrow> kind \<in> set (map fst record_id_fields) \<Longrightarrow>
    valid_key (JArr [JStr kind, JStr identity])"
  by (simp add: valid_key_def)

text \<open>The key of an admitted record is one the recovery check accepts.\<close>

definition key_json :: "record_key \<Rightarrow> json" where
  "key_json key = JArr [JStr (fst key), JStr (snd key)]"

lemma declared_key_valid: "declared r \<Longrightarrow> valid_key (key_json (record_key_of r))"
  by (cases r)
    (auto simp: key_json_def valid_key_def record_id_fields_def is_identifier_def declared_result_def)

end
