(* ===== verification/Graphs.thy ===== *)
theory Graphs
  imports Prelude
begin

text \<open>
  The deterministic operation order of src/src/docspec/domain/graphs.py. The sorter of the
  standard library hands out, round by round, the nodes whose prerequisites are all done; the
  code sorts each round. A round that can hand out nothing while nodes remain is the cycle its
  \<open>prepare\<close> refuses: the lemmas show that this happens exactly for a cyclic graph, and that
  a returned order lists every operation once, after its prerequisites.
\<close>

type_synonym dependencies = "(string \<times> string list) list"

definition unknown_parents :: "dependencies \<Rightarrow> string list" where
  "unknown_parents deps =
     filter (\<lambda>p. p \<notin> set (map fst deps)) (concat (map snd deps))"

text \<open>One round: the pending nodes whose parents are done, in ascending order.\<close>

definition ready_nodes :: "dependencies \<Rightarrow> string list \<Rightarrow> string list" where
  "ready_nodes deps done_nodes =
     sort (map fst (filter (\<lambda>(n, parents). n \<notin> set done_nodes \<and> set parents \<subseteq> set done_nodes) deps))"

text \<open>
  The loop \<open>while graph.is_active()\<close>. Every round with ready nodes finishes at least one, so
  as many rounds as there are nodes are enough; \<open>None\<close> is the cycle error.
\<close>

fun order_rounds :: "nat \<Rightarrow> dependencies \<Rightarrow> string list \<Rightarrow> string list option" where
  "order_rounds 0 deps result =
     (if set (map fst deps) \<subseteq> set result then Some result else None)"
| "order_rounds (Suc fuel) deps result =
     (if set (map fst deps) \<subseteq> set result then Some result
      else let ready = ready_nodes deps result in
        if ready = [] then None else order_rounds fuel deps (result @ ready))"

definition operation_order :: "dependencies \<Rightarrow> string \<Rightarrow> string list result" where
  "operation_order deps label =
     (if unknown_parents deps \<noteq> []
      then Inl (ValueError (label @ '' include unknown operations''))
      else case order_rounds (length deps) deps [] of
             None \<Rightarrow> Inl (ValueError (label @ '' must form an acyclic graph''))
           | Some order \<Rightarrow> Inr order)"

section \<open>The edges and the specification\<close>

definition parent_edges :: "dependencies \<Rightarrow> (string \<times> string) set" where
  "parent_edges deps = {(p, n). \<exists>parents. (n, parents) \<in> set deps \<and> p \<in> set parents}"

text \<open>Every listed node is a node, listed once, with its parents before it.\<close>

definition edges_respected :: "dependencies \<Rightarrow> string list \<Rightarrow> bool" where
  "edges_respected deps order \<longleftrightarrow> distinct order \<and> set order \<subseteq> set (map fst deps) \<and>
     (\<forall>i < length order. \<forall>parents. (order ! i, parents) \<in> set deps \<longrightarrow> set parents \<subseteq> set (take i order))"

lemma ready_nodes_iff:
  "n \<in> set (ready_nodes deps r) \<longleftrightarrow>
     (\<exists>parents. (n, parents) \<in> set deps \<and> n \<notin> set r \<and> set parents \<subseteq> set r)"
  by (force simp: ready_nodes_def)

lemma ready_nodes_distinct: "distinct (map fst deps) \<Longrightarrow> distinct (ready_nodes deps r)"
  unfolding ready_nodes_def distinct_sort by (rule distinct_map_filter)

lemma edges_respected_Nil [simp]: "edges_respected deps []"
  by (simp add: edges_respected_def)

lemma respects_round:
  assumes d: "distinct (map fst deps)" and r: "edges_respected deps r"
  shows "edges_respected deps (r @ ready_nodes deps r)"
proof -
  let ?new = "ready_nodes deps r"
  have unique: "ps = qs" if "(n, ps) \<in> set deps" "(n, qs) \<in> set deps" for n ps qs
    by (rule eq_key_imp_eq_value [OF d that])
  have old: "\<And>i parents. i < length r \<Longrightarrow> (r ! i, parents) \<in> set deps \<Longrightarrow> set parents \<subseteq> set (take i r)"
    using r unfolding edges_respected_def by blast
  have pre: "set parents \<subseteq> set (take i (r @ ?new))"
    if i: "i < length (r @ ?new)" and mem: "((r @ ?new) ! i, parents) \<in> set deps" for i parents
  proof (cases "i < length r")
    case True
    then show ?thesis using old [of i parents] mem by (simp add: nth_append)
  next
    case False
    have at: "(r @ ?new) ! i = ?new ! (i - length r)" using False by (simp add: nth_append)
    have "?new ! (i - length r) \<in> set ?new" using i False by (intro nth_mem) auto
    then obtain qs where q: "(?new ! (i - length r), qs) \<in> set deps" "set qs \<subseteq> set r"
      unfolding ready_nodes_iff by blast
    then have "parents = qs" using unique mem at by metis
    moreover have "set r \<subseteq> set (take i (r @ ?new))" using False by simp
    ultimately show ?thesis using q(2) by blast
  qed
  have "distinct r" using r by (simp add: edges_respected_def)
  moreover have "set r \<inter> set ?new = {}" by (auto simp: ready_nodes_iff)
  ultimately have "distinct (r @ ?new)" using ready_nodes_distinct [OF d] by simp
  moreover have "set ?new \<subseteq> set (map fst deps)" by (force simp: ready_nodes_iff)
  then have "set (r @ ?new) \<subseteq> set (map fst deps)"
    using r unfolding edges_respected_def by simp
  ultimately show ?thesis unfolding edges_respected_def using pre by blast
qed

lemma order_rounds_sound:
  "order_rounds fuel deps r = Some order \<Longrightarrow> distinct (map fst deps) \<Longrightarrow> edges_respected deps r
     \<Longrightarrow> edges_respected deps order \<and> set (map fst deps) \<subseteq> set order"
proof (induction fuel arbitrary: r)
  case (Suc fuel)
  then show ?case
    using respects_round [of deps r] by (auto simp: Let_def split: if_splits)
qed (auto split: if_splits)

text \<open>Enough rounds: each one adds a node, and there are no more nodes than entries.\<close>

lemma pending_decreases:
  assumes "ready_nodes deps r \<noteq> []"
  shows "card (set (map fst deps) - set (r @ ready_nodes deps r)) < card (set (map fst deps) - set r)"
proof -
  obtain n where n: "n \<in> set (ready_nodes deps r)" using assms by (meson last_in_set)
  then have "n \<in> set (map fst deps) - set r" by (force simp: ready_nodes_iff)
  moreover have "n \<notin> set (map fst deps) - set (r @ ready_nodes deps r)" using n by simp
  ultimately show ?thesis by (intro psubset_card_mono) auto
qed

lemma order_rounds_stuck:
  "card (set (map fst deps) - set r) \<le> fuel \<Longrightarrow> order_rounds fuel deps r = None \<Longrightarrow>
     \<exists>done_nodes. ready_nodes deps done_nodes = [] \<and> \<not> set (map fst deps) \<subseteq> set done_nodes"
proof (induction fuel arbitrary: r)
  case 0
  then have "set (map fst deps) - set r = {}" by simp
  then show ?case using 0 by simp
next
  case (Suc fuel)
  show ?case
  proof (cases "ready_nodes deps r = []")
    case True
    then show ?thesis using Suc.prems(2) by (auto split: if_splits)
  next
    case False
    then have "order_rounds fuel deps (r @ ready_nodes deps r) = None"
      using Suc.prems(2) by (auto simp: Let_def split: if_splits)
    moreover have "card (set (map fst deps) - set (r @ ready_nodes deps r)) \<le> fuel"
      using pending_decreases [OF False] Suc.prems(1) by linarith
    ultimately show ?thesis by (intro Suc.IH)
  qed
qed

lemma edges_known:
  "unknown_parents deps = [] \<Longrightarrow> (p, n) \<in> parent_edges deps \<Longrightarrow> p \<in> set (map fst deps) \<and> n \<in> set (map fst deps)"
  by (force simp: unknown_parents_def parent_edges_def filter_empty_conv)

text \<open>A stuck round means that every pending node has a pending parent: a cycle.\<close>

lemma stuck_cyclic:
  assumes known: "unknown_parents deps = []" and stuck: "ready_nodes deps r = []"
    and pending: "\<not> set (map fst deps) \<subseteq> set r"
  shows "\<not> acyclic (parent_edges deps)"
proof
  assume acyc: "acyclic (parent_edges deps)"
  have "parent_edges deps \<subseteq> set (map fst deps) \<times> set (map fst deps)"
    using edges_known [OF known] by auto
  then have "finite (parent_edges deps)" by (rule finite_subset) simp
  then have wf: "wf (parent_edges deps)" using acyc by (rule finite_acyclic_wf)
  obtain n where n: "n \<in> set (map fst deps) - set r" using pending by auto
  obtain m where m: "m \<in> set (map fst deps) - set r"
    and least: "\<And>p. (p, m) \<in> parent_edges deps \<Longrightarrow> p \<notin> set (map fst deps) - set r"
    using wfE_min [OF wf n] by blast
  obtain parents where mem: "(m, parents) \<in> set deps" using m by auto
  have "p \<in> set r" if "p \<in> set parents" for p
  proof -
    have "(p, m) \<in> parent_edges deps" using that mem by (auto simp: parent_edges_def)
    then show ?thesis using least edges_known [OF known] by blast
  qed
  then have "m \<in> set (ready_nodes deps r)" using mem m by (auto simp: ready_nodes_iff)
  then show False using stuck by simp
qed

text \<open>An order that respects the edges excludes cycles: positions decrease along them.\<close>

lemma respects_acyclic:
  assumes known: "unknown_parents deps = []"
    and r: "edges_respected deps order" "set (map fst deps) \<subseteq> set order"
  shows "acyclic (parent_edges deps)"
proof -
  define pos where "pos x = length (takeWhile (\<lambda>y. y \<noteq> x) order)" for x
  have pos: "pos (order ! i) \<le> i" if i: "i < length order" for i
  proof (rule ccontr)
    assume "\<not> pos (order ! i) \<le> i"
    then have lt: "i < length (takeWhile (\<lambda>y. y \<noteq> order ! i) order)" by (simp add: pos_def)
    then have "takeWhile (\<lambda>y. y \<noteq> order ! i) order ! i = order ! i" by (rule takeWhile_nth)
    then have "order ! i \<in> set (takeWhile (\<lambda>y. y \<noteq> order ! i) order)" using lt nth_mem by metis
    then show False by (auto dest: set_takeWhileD)
  qed
  have "pos p < pos n" if e: "(p, n) \<in> parent_edges deps" for p n
  proof -
    from e obtain parents where mem: "(n, parents) \<in> set deps" "p \<in> set parents"
      by (auto simp: parent_edges_def)
    then have "n \<in> set order" using r(2) by force
    then have "takeWhile (\<lambda>y. y \<noteq> n) order \<noteq> order" by (auto simp: takeWhile_eq_all_conv)
    then have i: "pos n < length order"
      unfolding pos_def using length_takeWhile_le [of "\<lambda>y. y \<noteq> n" order]
      by (metis le_neq_implies_less takeWhile_eq_take take_all_iff order.refl)
    then have at: "order ! pos n = n"
      unfolding pos_def using nth_length_takeWhile [of "\<lambda>y. y \<noteq> n" order] by simp
    have "set parents \<subseteq> set (take (pos n) order)"
      using r(1) mem i at unfolding edges_respected_def by metis
    then have "p \<in> set (take (pos n) order)" using mem by blast
    then obtain j where j: "j < pos n" "p = order ! j" "j < length order"
      using i by (auto simp: in_set_conv_nth)
    then show ?thesis using pos [OF j(3)] by simp
  qed
  then have "parent_edges deps \<subseteq> measure pos" by auto
  then have "wf (parent_edges deps)" by (rule wf_subset [OF wf_measure])
  then show ?thesis by (rule wf_acyclic)
qed

lemma operation_order_enough:
  "order_rounds (length deps) deps [] = None \<Longrightarrow>
     \<exists>r. ready_nodes deps r = [] \<and> \<not> set (map fst deps) \<subseteq> set r"
proof (rule order_rounds_stuck)
  show "card (set (map fst deps) - set []) \<le> length deps"
    using card_length [of "map fst deps"] by simp
qed

lemma operation_order_exists:
  assumes "distinct (map fst deps)"
  shows "(\<exists>order. operation_order deps label = Inr order) \<longleftrightarrow>
     unknown_parents deps = [] \<and> acyclic (parent_edges deps)"
proof (cases "unknown_parents deps = []")
  case known: True
  show ?thesis
  proof (cases "order_rounds (length deps) deps []")
    case None
    then have "\<not> acyclic (parent_edges deps)"
      using operation_order_enough stuck_cyclic [OF known] by blast
    with None known show ?thesis by (simp add: operation_order_def)
  next
    case (Some order)
    then have "acyclic (parent_edges deps)"
      using order_rounds_sound [OF Some assms edges_respected_Nil] respects_acyclic [OF known] by blast
    with Some known show ?thesis by (simp add: operation_order_def)
  qed
qed (simp add: operation_order_def)

text \<open>C7. The order exists exactly for an acyclic graph over known operations.\<close>

theorem operation_order_total:
  assumes "distinct (map fst deps)"
  shows "(\<exists>order. operation_order deps label = Inr order) \<longleftrightarrow>
     unknown_parents deps = [] \<and> acyclic (parent_edges deps)"
  by (rule operation_order_exists [OF assms])

theorem operation_order_total_witness:
  "distinct (map fst [(''b'', [''a'']), (''a'', []), (''c'', [''a'', ''b''])]) \<and>
   unknown_parents [(''b'', [''a'']), (''a'', []), (''c'', [''a'', ''b''])] = [] \<and>
   acyclic (parent_edges [(''b'', [''a'']), (''a'', []), (''c'', [''a'', ''b''])])"
proof -
  let ?d = "[(''b'', [''a'']), (''a'', []), (''c'', [''a'', ''b''])]"
  have d: "distinct (map fst ?d)" by simp
  have "operation_order ?d ''operation dependencies'' = Inr [''a'', ''b'', ''c'']" by code_simp
  then show ?thesis using operation_order_total [OF d, of "''operation dependencies''"] d by blast
qed

lemma operation_order_sound:
  assumes "distinct (map fst deps)" "operation_order deps label = Inr order"
  shows "distinct order \<and> set order = set (map fst deps) \<and>
     (\<forall>i < length order. \<forall>parents. (order ! i, parents) \<in> set deps \<longrightarrow> set parents \<subseteq> set (take i order))"
proof -
  have "order_rounds (length deps) deps [] = Some order"
    using assms(2) by (auto simp: operation_order_def split: if_splits option.splits)
  from order_rounds_sound [OF this assms(1)] show ?thesis unfolding edges_respected_def by auto
qed

text \<open>A returned order lists every operation once and after all of its prerequisites.\<close>

theorem operation_order_respects:
  assumes "distinct (map fst deps)" "operation_order deps label = Inr order"
  shows "distinct order \<and> set order = set (map fst deps) \<and>
     (\<forall>i < length order. \<forall>parents. (order ! i, parents) \<in> set deps \<longrightarrow> set parents \<subseteq> set (take i order))"
  by (rule operation_order_sound [OF assms])

theorem operation_order_respects_witness:
  "set [''x'', ''y''] = set (map fst [(''y'', [''x'']), (''x'', [])])"
proof -
  have "distinct (map fst [(''y'', [''x'']), (''x'', [])])"
    "operation_order [(''y'', [''x'']), (''x'', [])] ''operation dependencies'' = Inr [''x'', ''y'']"
    by (simp, code_simp)
  from operation_order_respects [OF this] show ?thesis by blast
qed

end
