(* ===== verification/Publication.thy ===== *)
theory Publication
  imports Operation_Context Recovery Graphs
begin

text \<open>
  The publication plan of \<^theory_text>\<open>CoreOperations.publish\<close> and the checkpoint document of
  \<open>_save_checkpoint\<close> in src/src/docspec/application/core_execution.py: the graph of prepared
  operations, its order, the merge of their records, and the journal that recovery reads back.
  The writes to the session and the ledger around them are not modelled.
\<close>

section \<open>The graph of prepared operations\<close>

datatype prepared_op = PreparedOp
  (po_execution: execution) (po_result: result_record) (po_records: "core_record list")
  (po_upstream: "prepared_op list")

definition po_identity :: "prepared_op \<Rightarrow> string" where
  "po_identity item = ex_execution_id (po_execution item)"

type_synonym op_table = "(string \<times> prepared_op) list"


lemma pending_weight:
  "pending \<noteq> [] \<Longrightarrow> sum_list (map f pending) = sum_list (map f (butlast pending)) + (f (last pending) :: nat)"
  by (cases pending rule: rev_cases) auto

lemma upstream_weight: "sum_list (map (\<lambda>p. Suc (size p)) (po_upstream item)) < Suc (size item)"
proof -
  have "sum_list (map (\<lambda>p. Suc (size p)) us) \<le> size_list size us" for us :: "prepared_op list"
    by (induction us) auto
  moreover have "size_list size (po_upstream item) < size item" by (cases item) simp
  ultimately show ?thesis by (meson le_less_trans less_SucI)
qed

text \<open>The loop \<open>while pending\<close>: the last pending operation is taken, its upstream appended.\<close>

function collect :: "op_table \<Rightarrow> prepared_op list \<Rightarrow> op_table result" where
  "collect operations pending =
     (if pending = [] then Inr operations
      else let item = last pending; identity = po_identity item in
        case map_of operations identity of
          Some known \<Rightarrow>
            if known \<noteq> item
            then Inl (IntegrityError ''publication repeats a conflicting operation attempt'')
            else collect operations (butlast pending)
        | None \<Rightarrow>
            if batch_rows < length operations + 1
            then Inl (LimitExceededError ''operation publication graph exceeds 2048 attempts'')
            else collect (operations @ [(identity, item)]) (butlast pending @ po_upstream item))"
  by pat_completeness auto

termination
  by (relation "measure (\<lambda>(operations, pending). sum_list (map (\<lambda>p. Suc (size p)) pending))")
    (simp_all add: pending_weight upstream_weight)

declare collect.simps [simp del]

definition upstream_table :: "op_table \<Rightarrow> dependencies" where
  "upstream_table operations = map (\<lambda>(i, item). (i, map po_identity (po_upstream item))) operations"

section \<open>The merge of records\<close>

definition merge_record ::
    "platform \<Rightarrow> (record_key \<times> json) list \<Rightarrow> core_record \<Rightarrow> (record_key \<times> json) list result" where
  "merge_record P unique r =
     bindE (record_value P r) (\<lambda>v.
     case map_of unique (record_key_of r) of
       None \<Rightarrow> Inr (dict_set unique (record_key_of r) v)
     | Some old \<Rightarrow>
         bindE (canonical_value_bytes P old) (\<lambda>a.
         bindE (canonical_value_bytes P v) (\<lambda>b.
           if a \<noteq> b then Inl (IntegrityError ''operation graph contains conflicting immutable records'')
           else Inr (dict_set unique (record_key_of r) v))))"

definition item_records :: "prepared_op \<Rightarrow> core_record list" where
  "item_records item = po_records item @ [ResultRecord (po_result item)]"

text \<open>\<open>value["selection_id"]\<close> of the unique selection records, and the journal roots.\<close>

definition selection_roots :: "(record_key \<times> json) list \<Rightarrow> json list" where
  "selection_roots unique =
     map (\<lambda>(key, v). JArr [JStr ''selection'', JStr (snd key)])
       (filter (\<lambda>(key, v). fst key = ''selection'') unique)"

definition journal_roots :: "prepared_op list \<Rightarrow> (record_key \<times> json) list \<Rightarrow> json list" where
  "journal_roots prepared unique =
     map (\<lambda>item. JArr [JStr ''result'', JStr (rt_result_id (po_result item))]) prepared @ selection_roots unique"

definition publication_journal :: "string \<Rightarrow> string list \<Rightarrow> json list \<Rightarrow> json list \<Rightarrow> json" where
  "publication_journal unit_id executions keys roots = JObj
     [(''format'', JStr ''docspec-operation-publication''), (''version'', JInt 2),
      (''unit_id'', JStr unit_id), (''executions'', JArr (map JStr executions)),
      (''record_keys'', JArr keys), (''roots'', JArr roots)]"

record publication_plan =
  pp_executions :: "string list"
  pp_records :: "(record_key \<times> json) list"
  pp_journal :: json

definition plan_publication :: "platform \<Rightarrow> prepared_op list \<Rightarrow> publication_plan option result" where
  "plan_publication P prepared_ops =
     (if batch_rows < length prepared_ops
      then Inl (LimitExceededError ''control unit exceeds 2048 rows'')
      else if prepared_ops = [] then Inr None
      else bindE (collect [] prepared_ops) (\<lambda>operations.
      bindE (operation_order (upstream_table operations) ''operation dependencies'') (\<lambda>executions.
      let prepared = map (\<lambda>i. the (map_of operations i)) executions in
      bindE (foldE (merge_record P) [] (concat (map item_records prepared))) (\<lambda>unique.
      bindE (canonical_value_bytes P (JArr (map JStr (sort executions)))) (\<lambda>b.
      let unit_id = ''operations:'' @ sha256_digest P b in
        Inr (Some \<lparr>pp_executions = executions, pp_records = unique,
          pp_journal = publication_journal unit_id executions (map (key_json \<circ> fst) unique)
             (journal_roots prepared unique)\<rparr>))))))"

text \<open>\<open>dict.fromkeys\<close>, then the document \<open>_save_checkpoint\<close> retains.\<close>

definition dict_keys :: "'a list \<Rightarrow> 'a list" where
  "dict_keys xs = rev (remdups (rev xs))"

definition data_kinds :: "string list" where
  "data_kinds = [''entity'', ''state'', ''state_representation'', ''selected_value'']"

definition checkpoint_document ::
    "platform \<Rightarrow> op_context \<Rightarrow> string \<Rightarrow> json \<Rightarrow> json \<Rightarrow> json result" where
  "checkpoint_document P c identity saved selection =
     (let partial = context_result c \<lparr>oc_status = Incomplete, oc_value = None, oc_outputs = cx_outputs c,
                                      oc_error = None\<rparr> (identity @ '':result'') in
      bindE (snapshot_size P (ResultRecord partial)) (\<lambda>_.
      bindE (mapE (record_value P) (cx_records c)) (\<lambda>_.
      let keys = map record_key_of (cx_records c);
          roots = dict_keys ((''request'', ex_request_id (cx_execution c))
                    # filter (\<lambda>key. fst key \<in> set data_kinds) keys) in
        Inr (JObj [(''format'', JStr ''docspec-operation-checkpoint''), (''version'', JInt 1),
          (''execution_id'', JStr (ex_execution_id (cx_execution c))),
          (''partial_result_id'', JStr (identity @ '':result'')),
          (''record_keys'', JArr (map key_json keys)), (''roots'', JArr (map key_json roots)),
          (''state'', saved), (''selection'', selection)]))))"

section \<open>The table is closed and its graph is acyclic\<close>











definition sample_operation_node :: "string \<Rightarrow> prepared_op list \<Rightarrow> prepared_op" where
  "sample_operation_node i us = PreparedOp (sample_execution\<lparr>ex_execution_id := i\<rparr>)
     (context_result (sample_context\<lparr>cx_execution := sample_execution\<lparr>ex_execution_id := i\<rparr>\<rparr>) empty_outcome (i @ '':result'')) [] us"



section \<open>The merge keeps every record\<close>

definition merged :: "(record_key \<times> json) list \<Rightarrow> bool" where
  "merged unique \<longleftrightarrow> distinct (map fst unique) \<and>
     (\<forall>e \<in> set unique. \<exists>r. declared r \<and> fst e = record_key_of r \<and> snd e = plain_record r)"

lemma record_value_ok: "record_value P r = Inr v \<Longrightarrow> declared r \<and> v = plain_record r"
  by (auto simp: record_value_def convert_record_def bindE_Inr_iff thenE_Inr_iff split: if_splits)

lemma set_dict_set: "e \<in> set (dict_set d k v) \<Longrightarrow> e = (k, v) \<or> e \<in> set d"
  by (induction d k v rule: dict_set.induct) (auto split: if_splits)

lemma merge_record_ok:
  assumes "canonical_documented P" "merge_record P u r = Inr u'" "merged u"
  shows "merged u' \<and> u' = dict_set u (record_key_of r) (plain_record r) \<and>
     (\<forall>old. map_of u (record_key_of r) = Some old \<longrightarrow> key_sorted old = key_sorted (plain_record r))"
proof -
  obtain v where v: "record_value P r = Inr v"
    using assms(2) by (auto simp: merge_record_def bindE_Inr_iff)
  note rv = record_value_ok [OF v]
  have u': "u' = dict_set u (record_key_of r) (plain_record r)"
    using assms(2) v rv by (auto simp: merge_record_def bindE_Inr_iff split: option.splits if_splits)
  have "key_sorted old = key_sorted (plain_record r)" if old: "map_of u (record_key_of r) = Some old" for old
  proof -
    obtain a where "canonical P old = Inr a" "canonical P (plain_record r) = Inr a"
      using assms(2) v rv old by (auto simp: merge_record_def canonical_value_bytes_def bindE_Inr_iff split: if_splits)
    then show ?thesis using assms(1) unfolding canonical_documented_def by blast
  qed
  moreover have "merged u'"
    using assms(3) rv distinct_dict_set [of u "record_key_of r" "plain_record r"] set_dict_set
    unfolding merged_def u' by fastforce
  ultimately show ?thesis using u' by blast
qed

lemma merge_all:
  assumes doc: "canonical_documented P"
  shows "foldE (merge_record P) u rs = Inr u' \<Longrightarrow> merged u \<Longrightarrow>
     merged u' \<and> (\<forall>k v. map_of u k = Some v \<longrightarrow> (\<exists>w. map_of u' k = Some w \<and> key_sorted w = key_sorted v)) \<and>
     (\<forall>r \<in> set rs. declared r \<and> (\<exists>w. map_of u' (record_key_of r) = Some w \<and> key_sorted w = key_sorted (plain_record r)))"
proof (induction rs arbitrary: u)
  case (Cons r rs)
  then obtain u1 where u1: "merge_record P u r = Inr u1" "foldE (merge_record P) u1 rs = Inr u'"
    by (auto simp: bindE_Inr_iff)
  note step = merge_record_ok [OF doc u1(1) Cons.prems(2)]
  have IH: "merged u' \<and> (\<forall>k v. map_of u1 k = Some v \<longrightarrow> (\<exists>w. map_of u' k = Some w \<and> key_sorted w = key_sorted v)) \<and>
     (\<forall>r \<in> set rs. declared r \<and> (\<exists>w. map_of u' (record_key_of r) = Some w \<and> key_sorted w = key_sorted (plain_record r)))"
    using Cons.IH [OF u1(2)] step by blast
  have "declared r" using u1(1) record_value_ok by (auto simp: merge_record_def bindE_Inr_iff)
  moreover have m1: "map_of u1 = (map_of u)(record_key_of r \<mapsto> plain_record r)" using step by simp
  then have "map_of u1 (record_key_of r) = Some (plain_record r)" by simp
  then have "\<exists>w. map_of u' (record_key_of r) = Some w \<and> key_sorted w = key_sorted (plain_record r)"
    using IH by blast
  moreover have "\<exists>w. map_of u' k = Some w \<and> key_sorted w = key_sorted v" if "map_of u k = Some v" for k v
  proof (cases "k = record_key_of r")
    case True
    then have "key_sorted v = key_sorted (plain_record r)" using step that by blast
    then show ?thesis using calculation(2) True by simp
  next
    case False
    then have "map_of u1 k = Some v" using m1 that by simp
    then show ?thesis using IH by blast
  qed
  ultimately show ?case using IH by simp
qed simp

lemma plan_parts:
  assumes "plan_publication P ops = Inr (Some plan)"
  shows "\<exists>operations prepared unit_hex. collect [] ops = Inr operations \<and>
     operation_order (upstream_table operations) ''operation dependencies'' = Inr (pp_executions plan) \<and>
     prepared = map (\<lambda>i. the (map_of operations i)) (pp_executions plan) \<and>
     foldE (merge_record P) [] (concat (map item_records prepared)) = Inr (pp_records plan) \<and>
     pp_journal plan = publication_journal (''operations:'' @ sha256_digest P unit_hex) (pp_executions plan)
       (map (key_json \<circ> fst) (pp_records plan)) (journal_roots prepared (pp_records plan))"
  using assms unfolding plan_publication_def
  by (auto simp: bindE_Inr_iff Let_def split: if_splits)


lemma strip_operations: "strip (''operations:'' @ s) \<noteq> []"
  by (simp add: strip_eq_Nil_iff char_isspace_def Let_def)

text \<open>
  C22. The journal a publication writes is one that recovery accepts, for every execution it lists.
\<close>

theorem journal_recoverable:
  assumes "canonical_documented P" "plan_publication P ops = Inr (Some plan)" "i \<in> set (pp_executions plan)"
  shows "recovery_document P conv (pp_journal plan) ''publication'' i = Inr (pp_journal plan)"
proof -
  obtain operations prepared unit_hex where
    prep: "prepared = map (\<lambda>i. the (map_of operations i)) (pp_executions plan)"
    and fold: "foldE (merge_record P) [] (concat (map item_records prepared)) = Inr (pp_records plan)"
    and journal: "pp_journal plan = publication_journal (''operations:'' @ sha256_digest P unit_hex) (pp_executions plan)
       (map (key_json \<circ> fst) (pp_records plan)) (journal_roots prepared (pp_records plan))"
    using plan_parts [OF assms(2)] by blast
  have "merged []" by (simp add: merged_def)
  from merge_all [OF assms(1) fold this] have m: "merged (pp_records plan)"
    and dr: "\<And>r. r \<in> set (concat (map item_records prepared)) \<Longrightarrow> declared r" by blast+
  have key: "valid_key (key_json (fst e))" if e: "e \<in> set (pp_records plan)" for e
  proof -
    obtain r where "declared r" "fst e = record_key_of r" using m e unfolding merged_def by blast
    then show ?thesis using declared_key_valid by simp
  qed
  then have keys: "list_all valid_key (map (key_json \<circ> fst) (pp_records plan))" by (simp add: list_all_iff)
  have "valid_key (JArr [JStr ''result'', JStr (rt_result_id (po_result item))])" if "item \<in> set prepared" for item
  proof -
    have "ResultRecord (po_result item) \<in> set (concat (map item_records prepared))"
      using that by (auto simp: item_records_def)
    from declared_key_valid [OF dr [OF this]] show ?thesis by (simp add: key_json_def)
  qed
  moreover have "valid_key (JArr [JStr ''selection'', JStr (snd (fst e))])"
    if "e \<in> set (pp_records plan)" "fst (fst e) = ''selection''" for e
    using key [OF that(1)] that(2) by (simp add: key_json_def)
  ultimately have roots: "list_all valid_key (journal_roots prepared (pp_records plan))"
    by (auto simp: journal_roots_def selection_roots_def list_all_iff)
  have "require_text (JStr (''operations:'' @ x)) label = Inr (''operations:'' @ x)" for x label
    using strip_operations [of x] by (simp add: require_text_def)
  then show ?thesis using keys roots assms(3)
    by (auto simp: journal publication_journal_def recovery_document_def is_compact_def document_fields_def
        compact_fields_def publication_fields_def dict_get_def check_publication_def check_keys_def Let_def)
qed

definition sample_nodes :: "prepared_op list" where
  "sample_nodes = [sample_operation_node ''a'' []]"

lemma sample_plan:
  "\<exists>plan. plan_publication reference_platform sample_nodes = Inr (Some plan) \<and> pp_executions plan = [''a'']"
proof -
  have coll: "collect [] sample_nodes = Inr [(''a'', sample_operation_node ''a'' [])]"
    by (simp add: sample_nodes_def collect.simps sample_operation_node_def po_identity_def batch_rows_def Let_def)
  have ord: "operation_order (upstream_table [(''a'', sample_operation_node ''a'' [])]) ''operation dependencies'' = Inr [''a'']"
    by (simp add: upstream_table_def sample_operation_node_def operation_order_def unknown_parents_def ready_nodes_def Let_def)
  have "\<exists>u. foldE (merge_record reference_platform) [] (item_records (sample_operation_node ''a'' [])) = Inr u"
    by (simp add: item_records_def sample_operation_node_def merge_record_def record_value_def convert_record_def
        context_result_def sample_context_def empty_outcome_def declared_result_def declared_outcome_def
        check_result_def check_outcome_def check_distinct_def is_identifier_def opt_all_def)
  with coll ord show ?thesis
    by (auto simp: plan_publication_def batch_rows_def Let_def canonical_value_bytes_def simp del: emit.simps key_sorted.simps
        simp: sample_nodes_def [abs_def])
qed


theorem journal_recoverable_witness:
  "\<exists>plan. plan_publication reference_platform sample_nodes = Inr (Some plan) \<and>
     recovery_document reference_platform (\<lambda>_. None) (pp_journal plan) ''publication'' ''a'' = Inr (pp_journal plan)"
proof -
  obtain plan where plan: "plan_publication reference_platform sample_nodes = Inr (Some plan)"
    "pp_executions plan = [''a'']"
    using sample_plan by blast
  with journal_recoverable [OF reference_canonical_documented plan(1), of "''a''"] show ?thesis by auto
qed

lemma dict_keys_set [simp]: "set (dict_keys xs) = set xs"
  by (simp add: dict_keys_def)

lemma strip_result: "strip (s @ '':result'') \<noteq> []"
  by (simp add: strip_eq_Nil_iff char_isspace_def Let_def)

text \<open>
  The checkpoint document an attempt saves is one that resumption accepts for that attempt and
  for no other.
\<close>

theorem checkpoint_recoverable:
  assumes "checkpoint_document P c identity saved selection = Inr doc" "ex_request_id (cx_execution c) \<noteq> []"
  shows "recovery_document P conv doc ''checkpoint'' i =
     (if i = ex_execution_id (cx_execution c) then Inr doc
      else Inl (IntegrityError ''checkpoint identifies another execution''))"
proof -
  define keys where "keys = map record_key_of (cx_records c)"
  define roots where "roots = dict_keys ((''request'', ex_request_id (cx_execution c))
      # filter (\<lambda>key. fst key \<in> set data_kinds) keys)"
  obtain vs where vs: "mapE (record_value P) (cx_records c) = Inr vs"
    and doc: "doc = JObj [(''format'', JStr ''docspec-operation-checkpoint''), (''version'', JInt 1),
          (''execution_id'', JStr (ex_execution_id (cx_execution c))),
          (''partial_result_id'', JStr (identity @ '':result'')),
          (''record_keys'', JArr (map key_json keys)), (''roots'', JArr (map key_json roots)),
          (''state'', saved), (''selection'', selection)]"
    using assms(1) by (auto simp: checkpoint_document_def bindE_Inr_iff Let_def keys_def roots_def)
  have "\<forall>r \<in> set (cx_records c). declared r"
    using mapE_nthD [OF vs] record_value_ok by (metis in_set_conv_nth)
  then have k: "\<forall>key \<in> set keys. valid_key (key_json key)"
    using declared_key_valid by (auto simp: keys_def)
  have "valid_key (key_json (''request'', ex_request_id (cx_execution c)))"
    using assms(2) by (simp add: key_json_def valid_key_def record_id_fields_def)
  then have r: "\<forall>key \<in> set roots. valid_key (key_json key)" using k by (auto simp: roots_def)
  have "require_text (JStr (identity @ '':result'')) label = Inr (identity @ '':result'')" for label
    using strip_result [of identity] by (simp add: require_text_def)
  then show ?thesis using k r
    by (auto simp: doc recovery_document_def is_compact_def document_fields_def checkpoint_fields_def
        dict_get_def check_checkpoint_def check_keys_def list_all_iff Let_def)
qed

theorem checkpoint_recoverable_witness:
  "\<exists>doc. checkpoint_document counting_platform sample_context ''ck'' (JInt 3) JNull = Inr doc \<and>
     recovery_document counting_platform (\<lambda>_. None) doc ''checkpoint'' ''x'' = Inr doc"
proof -
  have "\<exists>doc. checkpoint_document counting_platform sample_context ''ck'' (JInt 3) JNull = Inr doc"
    by (simp add: checkpoint_document_def context_result_def sample_context_def sample_execution_def evaluate_context)
  then obtain doc where doc: "checkpoint_document counting_platform sample_context ''ck'' (JInt 3) JNull = Inr doc"
    by blast
  have "ex_request_id (cx_execution sample_context) \<noteq> []" "ex_execution_id (cx_execution sample_context) = ''x''"
    by (simp_all add: sample_context_def sample_execution_def)
  with checkpoint_recoverable [OF doc, of "\<lambda>_. None" "''x''"] doc show ?thesis by auto
qed

end
