(* ===== verification/Retention.thy ===== *)
theory Retention
  imports Operation_Context "HOL-Library.Product_Lexorder"
begin

text \<open>
  The retention check of src/src/docspec/application/core_publication.py, the class
  \<open>_PublicationCheck\<close>: from the roots of a batch it computes the closure of records a publication
  must retain, whole or as descriptions only, with the links between them and the versions it relies on.
  The ledger, the bulk layers and the state owner are ports; what they answer while the content guard
  is held is the record \<open>retained_store\<close>.
\<close>

definition opt_any :: "('a \<Rightarrow> bool) \<Rightarrow> 'a option \<Rightarrow> bool" where
  "opt_any p x = (case x of None \<Rightarrow> False | Some y \<Rightarrow> p y)"

lemma opt_any_iff [simp]: "opt_any p x \<longleftrightarrow> (\<exists>y. x = Some y \<and> p y)"
  by (simp add: opt_any_def split: option.splits)

section \<open>Ports\<close>

record metadata_link =
  ml_owner :: record_key
  ml_relation :: string
  ml_label :: string
  ml_target :: record_key

record stored_record =
  so_value :: "core_record option"
  so_retained :: bool
  so_available :: bool
  so_evidence_version :: int
  so_row_digest :: "string option"

text \<open>Where a bulk member was found: its layer, the size of its bytes and their hash.\<close>

record member_location =
  mw_layer :: string
  mw_size :: nat
  mw_hex :: string

text \<open>
  A membership as the state owner compares it: listed rows, or a reference to the rows of a layer.
\<close>

datatype membership_rows = ListedRows "membership list" | LayerRows string

record state_owner =
  ow_check :: "state_representation \<Rightarrow> bool \<Rightarrow> membership_rows result"
  ow_same :: "membership_rows \<Rightarrow> membership_rows \<Rightarrow> bool result"

record retained_store =
  rs_rows :: "record_key \<Rightarrow> stored_record option"
  rs_links :: "record_key \<Rightarrow> metadata_link list"
  rs_locate :: "string \<Rightarrow> member_location option"
  rs_payload :: "string \<Rightarrow> (core_record \<times> bytes) option"
  rs_minted :: "string list"
  rs_states :: "state_owner option"

record metadata_batch =
  mt_unit_id :: string
  mt_records :: "core_record list"
  mt_retained :: "record_key list"
  mt_links :: "metadata_link list"
  mt_expected_versions :: "(record_key \<times> int) list"
  mt_members :: "(core_record \<times> string) list"
  mt_identity_mark :: "int option"

section \<open>The state of a check\<close>

record publication_check =
  pc_values :: "(record_key \<times> core_record) list"
  pc_stored :: "(record_key \<times> stored_record) list"
  pc_members :: "(record_key \<times> core_record \<times> member_location) list"
  pc_metadata_bytes :: nat
  pc_loaded :: "record_key set"
  pc_state_links_loaded :: "record_key set"
  pc_identity_read :: bool
  pc_incoming :: "record_key set"
  pc_roots :: "record_key set"
  pc_links :: "metadata_link set"
  pc_required :: "record_key set"
  pc_full :: "record_key set"

text \<open>Equality of plain values: two dicts are equal whatever the order of their keys.\<close>

definition same_record :: "core_record \<Rightarrow> core_record \<Rightarrow> bool" where
  "same_record a b \<longleftrightarrow> key_sorted (plain_record a) = key_sorted (plain_record b)"

definition conflict_error :: error where
  "conflict_error = IntegrityError ''publication conflicts with an immutable retained record''"

definition closure_limit_error :: error where
  "closure_limit_error = LimitExceededError ''publication metadata closure exceeds the 8 MiB limit''"

text \<open>
  \<open>_cache\<close>. Where the key is cached already the callers have found the values equal, so storing the
  value again changes nothing. The representations of a state are the cached records of that kind,
  in the order in which they were first cached.
\<close>

definition cache_record :: "record_key \<Rightarrow> core_record \<Rightarrow> bytes \<Rightarrow> publication_check \<Rightarrow> publication_check result" where
  "cache_record key value payload c =
     (if map_of (pc_values c) key \<noteq> None then Inr c
      else let size = pc_metadata_bytes c + length payload in
        thenE (refuse (batch_bytes < size) closure_limit_error)
          (Inr (c\<lparr>pc_metadata_bytes := size, pc_values := pc_values c @ [(key, value)]\<rparr>)))"

definition representations_of :: "publication_check \<Rightarrow> string \<Rightarrow> (record_key \<times> state_representation) list" where
  "representations_of c state_id = List.map_filter (\<lambda>(key, value). case value of
     RepresentationRecord r \<Rightarrow> if sr_state_id r = state_id then Some (key, r) else None
   | _ \<Rightarrow> None) (pc_values c)"

text \<open>\<open>__init__\<close>.\<close>

definition check_incoming :: "platform \<Rightarrow> publication_check \<Rightarrow> core_record \<Rightarrow> publication_check result" where
  "check_incoming P c r =
     bindE (encode_record P r) (\<lambda>payload.
     case map_of (pc_values c) (record_key_of r) of
       Some old \<Rightarrow>
         if \<not> same_record old r then Inl (IntegrityError ''publication repeats a conflicting record identity'')
         else cache_record (record_key_of r) r payload c
     | None \<Rightarrow> cache_record (record_key_of r) r payload c)"

definition publication_check_new :: "platform \<Rightarrow> metadata_batch \<Rightarrow> publication_check result" where
  "publication_check_new P batch =
     bindE (foldE (check_incoming P) \<lparr>pc_values = [], pc_stored = [], pc_members = [], pc_metadata_bytes = 0,
         pc_loaded = {}, pc_state_links_loaded = {}, pc_identity_read = False, pc_incoming = {}, pc_roots = {},
         pc_links = {}, pc_required = {}, pc_full = {}\<rparr> (mt_records batch))
       (\<lambda>c. Inr (c\<lparr>pc_incoming := set (map fst (pc_values c)), pc_roots := set (mt_retained batch)\<rparr>))"

section \<open>Loading\<close>

definition key_forms :: "record_key \<Rightarrow> record_key list" where
  "key_forms key = (if fst key \<in> {''data'', ''entity'', ''state''}
     then [(''entity'', snd key), (''state'', snd key)] else [key])"

definition load_row :: "platform \<Rightarrow> retained_store \<Rightarrow> bool \<Rightarrow> publication_check \<Rightarrow> record_key \<Rightarrow> publication_check result" where
  "load_row P S include_values c key = (case rs_rows S key of
     None \<Rightarrow> Inr c
   | Some stored \<Rightarrow>
       let row = (if include_values then stored else stored\<lparr>so_value := None\<rparr>);
           c = c\<lparr>pc_stored := dict_set (pc_stored c) key row\<rparr> in
       (case so_value row of
          None \<Rightarrow>
            (case map_of (pc_values c) key of
               None \<Rightarrow> Inr c
             | Some value \<Rightarrow>
                 bindE (canonical_value_bytes P (plain_record value)) (\<lambda>payload.
                 thenE (refuse (so_row_digest row \<noteq> Some (sha256_digest P payload)) conflict_error) (Inr c)))
        | Some value \<Rightarrow>
            bindE (record_value P value) (\<lambda>plain.
            thenE (refuse (opt_any (\<lambda>old. \<not> same_record old value) (map_of (pc_values c) key)) conflict_error)
            (if map_of (pc_values c) key = None
             then bindE (canonical_value_bytes P plain) (\<lambda>payload. cache_record key value payload c)
             else cache_record key value [] c))))"

text \<open>\<open>_removed\<close>, \<open>_same_digest\<close> and \<open>_collision\<close>.\<close>

definition removed_row :: "stored_record \<Rightarrow> bool" where
  "removed_row row \<longleftrightarrow> \<not> so_available row \<and> so_value row = None \<and> so_retained row"

definition same_digest :: "stored_record option \<Rightarrow> member_location \<Rightarrow> unit result" where
  "same_digest row location = refuse (opt_any (\<lambda>r. so_row_digest r \<noteq> Some (''sha256:'' @ mw_hex location)) row) conflict_error"

definition collision :: "string \<Rightarrow> string \<Rightarrow> member_location \<Rightarrow> unit result" where
  "collision kind digest location =
     thenE (refuse (kind = ''state'') (IntegrityError ''data identity is ambiguous between an entity and a state''))
       (refuse (digest \<noteq> ''sha256:'' @ mw_hex location) conflict_error)"

text \<open>\<open>bulk_member_records\<close> for one located member, and \<open>_member_row\<close>.\<close>

definition member_record :: "platform \<Rightarrow> retained_store \<Rightarrow> string \<Rightarrow> (core_record \<times> bytes) option result" where
  "member_record P S identity = (case rs_payload S identity of
     None \<Rightarrow> Inr None
   | Some (record, payload) \<Rightarrow>
       bindE (encode_record P record) (\<lambda>admitted.
       thenE (refuse (admitted \<noteq> payload) (IntegrityError ''Core record is not canonical JSON''))
      (thenE (refuse (\<not> (case record of EntityRecord e \<Rightarrow> en_entity_id e = identity \<and> en_entity_type e = Occurrence | _ \<Rightarrow> False))
         (IntegrityError ''bulk member row differs from its occurrence identity''))
         (Inr (Some (record, payload))))))"

definition pinned_row :: "platform \<Rightarrow> core_record \<Rightarrow> bytes \<Rightarrow> stored_record option \<Rightarrow> stored_record" where
  "pinned_row P record payload row =
     \<lparr>so_value = Some record, so_retained = True, so_available = True,
      so_evidence_version = (case row of None \<Rightarrow> 0 | Some r \<Rightarrow> so_evidence_version r),
      so_row_digest = Some (sha256_digest P payload)\<rparr>"

definition pin_member ::
    "platform \<Rightarrow> retained_store \<Rightarrow> publication_check \<Rightarrow> string \<times> member_location \<Rightarrow> publication_check result" where
  "pin_member P S c m = (case m of (identity, location) \<Rightarrow>
     bindE (member_record P S identity) (\<lambda>found. case found of
       None \<Rightarrow> Inr c
     | Some (record, payload) \<Rightarrow>
         let key = (''entity'', identity);
             c = c\<lparr>pc_stored := dict_set (pc_stored c) key (pinned_row P record payload (map_of (pc_stored c) key))\<rparr> in
         bindE (cache_record key record payload c) (\<lambda>c.
           Inr (c\<lparr>pc_members := dict_set (pc_members c) key (record, location)\<rparr>))))"

text \<open>The identities a load looks for in the bulk layers: referenced, restorable and chosen ones.\<close>

definition names_data :: "record_key list \<Rightarrow> record_key set \<Rightarrow> string \<Rightarrow> bool" where
  "names_data keys missing identity \<longleftrightarrow> (\<exists>key \<in> set keys. fst key \<in> {''data'', ''entity''} \<and> snd key = identity) \<and>
     (''entity'', identity) \<in> missing"

definition referenced_identities :: "publication_check \<Rightarrow> record_key list \<Rightarrow> record_key set \<Rightarrow> string list" where
  "referenced_identities c keys missing = filter (\<lambda>identity. names_data keys missing identity \<and>
     (\<forall>form \<in> {''entity'', ''state''}. map_of (pc_values c) (form, identity) = None \<and> map_of (pc_stored c) (form, identity) = None))
     (remdups (map snd keys))"

definition restorable_identities :: "publication_check \<Rightarrow> record_key list \<Rightarrow> record_key set \<Rightarrow> string list" where
  "restorable_identities c keys missing = filter (\<lambda>identity. names_data keys missing identity \<and>
     (''entity'', identity) \<notin> pc_incoming c \<and>
     opt_any removed_row (map_of (pc_stored c) (''entity'', identity))) (remdups (map snd keys))"

definition chosen_keys :: "retained_store \<Rightarrow> publication_check \<Rightarrow> record_key list \<Rightarrow> record_key list" where
  "chosen_keys S c missing = filter (\<lambda>key. key \<in> pc_incoming c \<and> fst key \<in> {''entity'', ''state''} \<and>
     map_of (pc_stored c) key = None \<and> snd key \<notin> set (rs_minted S)) missing"

definition check_chosen :: "platform \<Rightarrow> retained_store \<Rightarrow> publication_check \<Rightarrow> record_key \<Rightarrow> unit result" where
  "check_chosen P S c key = (case rs_locate S (snd key) of
     None \<Rightarrow> Inr ()
   | Some location \<Rightarrow>
       bindE (canonical_value_bytes P (plain_record (the (map_of (pc_values c) key)))) (\<lambda>payload.
         collision (fst key) (sha256_digest P payload) location))"

text \<open>The part of \<open>_load\<close> before it follows the links of states.\<close>

definition load_rows :: "platform \<Rightarrow> retained_store \<Rightarrow> publication_check \<Rightarrow> record_key list \<Rightarrow> publication_check result" where
  "load_rows P S c keys =
     (let wanted = remdups (concat (map key_forms keys));
          missing = sort (filter (\<lambda>key. key \<notin> pc_loaded c) wanted) in
      if missing = [] then Inr c
      else
        bindE (foldE (load_row P S False) c (filter (\<lambda>key. key \<in> pc_incoming c) missing)) (\<lambda>c.
        bindE (foldE (load_row P S True) c (filter (\<lambda>key. key \<notin> pc_incoming c) missing)) (\<lambda>c.
        let c = c\<lparr>pc_loaded := pc_loaded c \<union> set missing\<rparr>;
            referenced = referenced_identities c keys (set missing);
            restorable = restorable_identities c keys (set missing);
            chosen = chosen_keys S c missing;
            c = c\<lparr>pc_identity_read := pc_identity_read c \<or> referenced \<noteq> [] \<or> restorable \<noteq> [] \<or> chosen \<noteq> []\<rparr>;
            pinned = List.map_filter (\<lambda>identity. map_option (Pair identity) (rs_locate S identity)) (referenced @ restorable) in
        thenE (refuse (batch_bytes < pc_metadata_bytes c + sum_list (map (\<lambda>(_, location). mw_size location) pinned))
          closure_limit_error)
       (thenE (eachE (check_chosen P S c) chosen)
       (thenE (eachE (\<lambda>identity. case rs_locate S identity of
            None \<Rightarrow> Inr ()
          | Some location \<Rightarrow> same_digest (map_of (pc_stored c) (''entity'', identity)) location) restorable)
         (foldE (pin_member P S) c pinned))))))"

text \<open>
  \<open>_load\<close>. It calls itself on the representations that the links of newly seen states name; those name
  no state themselves, so two rounds do it (\<open>links_documented\<close>).
\<close>

primrec load_keys :: "nat \<Rightarrow> platform \<Rightarrow> retained_store \<Rightarrow> publication_check \<Rightarrow> record_key list \<Rightarrow> publication_check result" where
  "load_keys 0 P S c keys = Inl NoReturn"
| "load_keys (Suc n) P S c keys =
     bindE (load_rows P S c keys) (\<lambda>c.
     let states = filter (\<lambda>key. fst key = ''state'' \<and> map_of (pc_values c) key \<noteq> None \<and> key \<notin> pc_state_links_loaded c)
           (sort (remdups (concat (map key_forms keys)))) in
     if states = [] then Inr c
     else
       let targets = map ml_target (filter (\<lambda>link. ml_relation link = ''representation'') (concat (map (rs_links S) states)));
           c = c\<lparr>pc_state_links_loaded := pc_state_links_loaded c \<union> set states\<rparr> in
       if targets = [] then Inr c else load_keys n P S c targets)"

section \<open>Requirements\<close>

text \<open>\<open>_key\<close>.\<close>

definition resolve_key :: "publication_check \<Rightarrow> record_key \<Rightarrow> record_key result" where
  "resolve_key c key =
     (if fst key = ''data'' then
        (case filter (\<lambda>candidate. map_of (pc_values c) candidate \<noteq> None) [(''entity'', snd key), (''state'', snd key)] of
           [found] \<Rightarrow> Inr found
         | _ \<Rightarrow> Inl (IntegrityError ''output identity must resolve to exactly one entity or state''))
      else if map_of (pc_values c) key = None
      then Inl (IntegrityError (''publication lacks required '' @ fst key @ '' record: '' @ snd key))
      else Inr key)"

text \<open>\<open>_state\<close>.\<close>

definition is_stored :: "publication_check \<Rightarrow> record_key \<Rightarrow> bool" where
  "is_stored c key \<longleftrightarrow> map_of (pc_stored c) key \<noteq> None"

definition stored_with :: "(stored_record \<Rightarrow> bool) \<Rightarrow> publication_check \<Rightarrow> record_key \<Rightarrow> bool" where
  "stored_with Q c key \<longleftrightarrow> opt_any Q (map_of (pc_stored c) key)"

definition membership_of ::
    "retained_store \<Rightarrow> publication_check \<Rightarrow> record_key \<times> state_representation \<Rightarrow> (record_key \<times> membership_rows) result" where
  "membership_of S c choice = (case choice of (key, value) \<Rightarrow>
     (case sr_membership value of
        Inl rows \<Rightarrow> Inr (key, ListedRows (sort_key mb_member_key rows))
      | Inr _ \<Rightarrow>
          (case rs_states S of
             None \<Rightarrow> Inl (IntegrityError ''external state membership requires state-storage admission'')
           | Some owner \<Rightarrow>
               bindE (ow_check owner value (stored_with so_available c key)) (\<lambda>rows. Inr (key, rows)))))"

definition check_agreement ::
    "retained_store \<Rightarrow> publication_check \<Rightarrow> record_key \<times> membership_rows \<Rightarrow> record_key \<times> membership_rows \<Rightarrow> unit result" where
  "check_agreement S c baseline other =
     (if fst other = fst baseline \<or> (is_stored c (fst other) \<and> is_stored c (fst baseline)) then Inr ()
      else bindE (case rs_states S of
               None \<Rightarrow> Inr (snd baseline = snd other)
             | Some owner \<Rightarrow> ow_same owner (snd baseline) (snd other)) (\<lambda>same.
        refuse (\<not> same) (IntegrityError ''state representations disagree about the immutable membership'')))"

definition eligible_representations ::
    "publication_check \<Rightarrow> (record_key \<times> state_representation) list \<Rightarrow> record_key list" where
  "eligible_representations c choices =
     (let incoming = filter (\<lambda>key. key \<in> pc_incoming c) (map fst choices) in
      sort (if incoming \<noteq> [] then incoming else filter (stored_with so_available c) (map fst choices)))"

definition state_requirement :: "retained_store \<Rightarrow> publication_check \<Rightarrow> string \<Rightarrow> (string \<times> record_key \<times> bool) list result" where
  "state_requirement S c identity =
     (let choices = representations_of c identity;
          comparable = filter (\<lambda>(key, value). key \<in> pc_incoming c \<or> stored_with so_available c key \<or>
            isl (sr_membership value)) choices in
      thenE (refuse (choices = []) (IntegrityError ''complete state retention requires its membership representation''))
     (thenE (refuse ((\<exists>key \<in> set (map fst choices). is_stored c key) \<and> filter (is_stored c) (map fst comparable) = [])
        (IntegrityError ''state membership restoration requires a previously admitted representation''))
     (bindE (mapE (membership_of S c) comparable) (\<lambda>memberships.
      thenE (if memberships = [] then Inr ()
             else eachE (check_agreement S c (case filter (\<lambda>m. is_stored c (fst m)) memberships of
                  m # _ \<Rightarrow> m | [] \<Rightarrow> hd memberships)) memberships)
     (case eligible_representations c choices of
        [] \<Rightarrow> Inl (IntegrityError ''state has no available complete representation'')
      | key # _ \<Rightarrow> Inr [(''representation'', key, True)])))))"

text \<open>\<open>_requirements\<close>: a label, the key of the target and whether it is required in full.\<close>

definition input_target :: "input_binding \<Rightarrow> record_key" where
  "input_target binding = (case binding of
     WholeInput _ identity \<Rightarrow> (''entity'', identity)
   | StateInput _ identity \<Rightarrow> (''state'', identity)
   | SelectedInput _ identity \<Rightarrow> (''selected_value'', identity))"

definition selected_output ::
    "(string \<times> string) list \<Rightarrow> string \<Rightarrow> (string \<times> record_key \<times> bool) result" where
  "selected_output outputs label = (case map_of outputs label of
     None \<Rightarrow> Inl (IntegrityError ''association selects an output absent from the chosen result'')
   | Some identity \<Rightarrow> Inr (''selected_output:'' @ label, (''data'', identity), True))"

definition selection_requirements ::
    "retained_store \<Rightarrow> metadata_batch \<Rightarrow> publication_check \<Rightarrow> record_key \<Rightarrow> selection \<Rightarrow> (string \<times> record_key \<times> bool) list result" where
  "selection_requirements S batch c key value =
     (let selected_key = (''result'', sl_selected_result_id value) in
      bindE (resolve_key c selected_key) (\<lambda>k. case map_of (pc_values c) k of
        Some (ResultRecord selected) \<Rightarrow>
          thenE (refuse (selected_key \<notin> pc_roots c \<and> \<not> stored_with so_retained c selected_key)
            (IntegrityError ''association requires an already retained result or a result published in this unit''))
         (let existing = stored_with so_retained c key in
          thenE (refuse (\<not> existing \<and> selected_key \<notin> pc_roots c \<and> selected_key \<notin> set (map fst (mt_expected_versions batch)))
            (IntegrityError ''reuse publication requires the checked result evidence version''))
         (bindE (mapE (selected_output (rev (map (\<lambda>output. (rb_label output, rb_entity_id output)) (oc_outputs (rt_outcome selected)))))
              (sl_output_labels value)) (\<lambda>outputs.
          Inr ([(''request'', (''request'', sl_request_id value), True),
                (''selected_result'', selected_key, False)] @
               (if existing then map (\<lambda>link. (''comparison_evidence'', ml_target link, True))
                  (filter (\<lambda>link. ml_label link = ''comparison_evidence'' \<and> ml_relation link = ''requires'') (rs_links S key))
                else []) @ outputs))))
      | _ \<Rightarrow> Inl (IllTyped ''a result key holds another record'')))"

definition requirements ::
    "retained_store \<Rightarrow> metadata_batch \<Rightarrow> publication_check \<Rightarrow> record_key \<Rightarrow> bool \<Rightarrow> (string \<times> record_key \<times> bool) list result" where
  "requirements S batch c key whole = (case map_of (pc_values c) key of
     None \<Rightarrow> Inl (KeyError (snd key))
   | Some value \<Rightarrow> (case value of
       ResultRecord r \<Rightarrow>
         thenE (refuse (oc_status (rt_outcome r) \<noteq> Success) (IntegrityError ''unsuccessful result cannot be successfully retained''))
           (Inr ((''execution'', (''execution'', rt_execution_id r), whole) #
              (if whole then map (\<lambda>output. (''output:'' @ rb_label output, (''data'', rb_entity_id output), True))
                 (oc_outputs (rt_outcome r)) else [])))
     | ExecutionRecord r \<Rightarrow> Inr [(''request'', (''request'', ex_request_id r), whole)]
     | RequestRecord r \<Rightarrow>
         Inr ((''definition'', (''operation_definition'', rq_definition_id r), False) #
           (if whole then map (\<lambda>binding. (''input:'' @ binding_label binding, input_target binding, True)) (rq_inputs r) else []))
     | SelectionRecord r \<Rightarrow> selection_requirements S batch c key r
     | StateRecord r \<Rightarrow> if whole then state_requirement S c (snd key) else Inr []
     | RepresentationRecord r \<Rightarrow>
         Inr (if whole then
             (''state'', (''state'', sr_state_id r), True) #
             (case sr_revision_id r of None \<Rightarrow> [] | Some revision \<Rightarrow> [(''revision'', (''revision'', revision), True)]) @
             (case sr_membership r of
                Inl rows \<Rightarrow> map (\<lambda>m. (''member:'' @ mb_member_key m, (''entity'', mb_occurrence_id m), True)) rows
              | Inr _ \<Rightarrow> [])
           else [])
     | SelectedValueRecord r \<Rightarrow>
         Inr (if whole then
             (case sv_value r of
                FromParent \<Rightarrow> [(''recovery_parent'', (case sv_definition r of StateMembers _ \<Rightarrow> ''state'' | _ \<Rightarrow> ''entity'',
                    or_parent_entity_id (sv_origin r)), True)]
              | _ \<Rightarrow> []) @
             (case sv_definition r of
                StateMembers m \<Rightarrow> (case sm_sort_rule m of
                   Some rule \<Rightarrow> if rule \<noteq> [] then [(''sort_rule'', (''operation_definition'', rule), False)] else []
                 | None \<Rightarrow> [])
              | _ \<Rightarrow> [])
           else [])
     | RevisionRecord r \<Rightarrow>
         Inr ((''base_description'', (''state'', rv_base_state_id r), False) #
           map (\<lambda>edit. (''value_edit_execution'', (''execution'', ve_execution_id edit), False)) (rv_value_edits r))
     | _ \<Rightarrow> Inr []))"

section \<open>The closure\<close>

type_synonym pending_keys = "(record_key \<times> bool) list"
type_synonym closure_edge = "record_key \<times> string \<times> record_key \<times> bool"

definition selected_results :: "publication_check \<Rightarrow> pending_keys \<Rightarrow> record_key list" where
  "selected_results c pending = List.map_filter (\<lambda>(key, whole). case map_of (pc_values c) key of
     Some (SelectionRecord r) \<Rightarrow> Some (''result'', sl_selected_result_id r) | _ \<Rightarrow> None) pending"

definition expand_key ::
    "retained_store \<Rightarrow> metadata_batch \<Rightarrow> publication_check \<times> closure_edge list \<Rightarrow> record_key \<times> bool
       \<Rightarrow> (publication_check \<times> closure_edge list) result" where
  "expand_key S batch state item = (case (state, item) of ((c, edges), (raw_key, whole)) \<Rightarrow>
     bindE (resolve_key c raw_key) (\<lambda>key.
     if key \<in> pc_full c \<or> (key \<in> pc_required c \<and> \<not> whole) then Inr (c, edges)
     else
       let c = c\<lparr>pc_required := insert key (pc_required c),
                 pc_full := (if whole then insert key (pc_full c) else pc_full c)\<rparr> in
       bindE (requirements S batch c key whole) (\<lambda>needed.
         Inr (c, edges @ map (\<lambda>(label, target, target_full). (key, label, target, target_full)) needed))))"

definition link_relation :: "string \<Rightarrow> bool \<Rightarrow> string" where
  "link_relation label target_full =
     (if label = ''representation'' then ''representation'' else if target_full then ''requires'' else ''describes'')"

definition follow_edge ::
    "publication_check \<times> pending_keys \<Rightarrow> closure_edge \<Rightarrow> (publication_check \<times> pending_keys) result" where
  "follow_edge state edge = (case (state, edge) of ((c, pending), (key, label, raw_target, target_full)) \<Rightarrow>
     bindE (resolve_key c raw_target) (\<lambda>target.
       Inr (c\<lparr>pc_links := insert \<lparr>ml_owner = key, ml_relation = link_relation label target_full, ml_label = label,
                ml_target = target\<rparr> (pc_links c)\<rparr>, pending @ [(target, target_full)])))"

text \<open>One round of the loop in \<open>publish\<close>.\<close>

definition load_depth :: nat where "load_depth = 2"

definition closure_round ::
    "platform \<Rightarrow> retained_store \<Rightarrow> metadata_batch \<Rightarrow> publication_check \<Rightarrow> pending_keys
       \<Rightarrow> (publication_check \<times> pending_keys) result" where
  "closure_round P S batch c pending =
     bindE (load_keys load_depth P S c (map fst pending)) (\<lambda>c.
     bindE (mapE (\<lambda>(key, whole). bindE (resolve_key c key) (\<lambda>key. Inr (key, whole))) pending) (\<lambda>pending.
     bindE (load_keys load_depth P S c (selected_results c pending)) (\<lambda>c.
     bindE (foldE (expand_key S batch) (c, []) pending) (\<lambda>(c, edges).
     bindE (load_keys load_depth P S c (map (\<lambda>(key, label, target, target_full). target) edges)) (\<lambda>c.
       foldE follow_edge (c, []) edges)))))"

primrec closure_loop ::
    "nat \<Rightarrow> platform \<Rightarrow> retained_store \<Rightarrow> metadata_batch \<Rightarrow> publication_check \<Rightarrow> pending_keys \<Rightarrow> publication_check result" where
  "closure_loop 0 P S batch c pending = (if pending = [] then Inr c else Inl NoReturn)"
| "closure_loop (Suc n) P S batch c pending =
     (if pending = [] then Inr c
      else bindE (closure_round P S batch c pending) (\<lambda>(c, pending). closure_loop n P S batch c pending))"

definition closure_fuel :: nat where "closure_fuel = 2 * batch_bytes + 1"

definition retention_closure ::
    "platform \<Rightarrow> retained_store \<Rightarrow> metadata_batch \<Rightarrow> publication_check result" where
  "retention_closure P S batch =
     bindE (publication_check_new P batch) (\<lambda>c.
       closure_loop closure_fuel P S batch c (map (\<lambda>key. (key, True)) (mt_retained batch)))"

end
