(* ===== verification/Retention_Closure.thy ===== *)
theory Retention_Closure
  imports Retention Reference_Codec
begin

text \<open>
  The closure that the retention check computes: it ends, because every value it caches is counted in a
  budget of bytes, and what it returns is closed under the obligations of its records and holds
  nothing that no root leads to.
\<close>

section \<open>What loading preserves\<close>

text \<open>Loading only adds values, each with a payload that is counted.\<close>

definition more_values ::
    "(record_key \<times> core_record) list \<Rightarrow> nat \<Rightarrow> (record_key \<times> core_record) list \<Rightarrow> nat \<Rightarrow> bool" where
  "more_values vs n vs' n' \<longleftrightarrow> (\<exists>ext. vs' = vs @ ext \<and> n + length ext \<le> n') \<and> (n \<le> batch_bytes \<longrightarrow> n' \<le> batch_bytes) \<and>
     (distinct (map fst vs) \<longrightarrow> distinct (map fst vs')) \<and>
     ((\<forall>kv \<in> set vs. fst (fst kv) \<noteq> ''data'') \<longrightarrow> (\<forall>kv \<in> set vs'. fst (fst kv) \<noteq> ''data''))"

definition extends :: "publication_check \<Rightarrow> publication_check \<Rightarrow> bool" where
  "extends c c' \<longleftrightarrow> more_values (pc_values c) (pc_metadata_bytes c) (pc_values c') (pc_metadata_bytes c') \<and>
     pc_incoming c' = pc_incoming c \<and> pc_roots c' = pc_roots c \<and> pc_links c' = pc_links c \<and>
     pc_required c' = pc_required c \<and> pc_full c' = pc_full c"

lemma more_values_refl [simp]: "more_values vs n vs n"
  by (simp add: more_values_def)

lemma more_values_trans: "more_values a i b j \<Longrightarrow> more_values b j c k \<Longrightarrow> more_values a i c k"
proof -
  assume steps: "more_values a i b j" "more_values b j c k"
  then obtain x y where "b = a @ x" "i + length x \<le> j" "c = b @ y" "j + length y \<le> k"
    unfolding more_values_def by blast
  then have "c = a @ (x @ y)" "i + length (x @ y) \<le> k" by simp_all
  then show ?thesis using steps unfolding more_values_def by blast
qed

lemma extends_refl [intro, simp]: "extends c c"
  by (simp add: extends_def)

lemma extends_trans [trans]: "extends c d \<Longrightarrow> extends d e \<Longrightarrow> extends c e"
  using more_values_trans by (simp add: extends_def) blast

lemma extends_update [simp]:
  "extends c (d\<lparr>pc_stored := x\<rparr>) = extends c d" "extends c (d\<lparr>pc_loaded := l\<rparr>) = extends c d"
  "extends c (d\<lparr>pc_members := m\<rparr>) = extends c d" "extends c (d\<lparr>pc_identity_read := b\<rparr>) = extends c d"
  "extends c (d\<lparr>pc_state_links_loaded := l\<rparr>) = extends c d"
  "extends (c\<lparr>pc_stored := x\<rparr>) d = extends c d" "extends (c\<lparr>pc_loaded := l\<rparr>) d = extends c d"
  "extends (c\<lparr>pc_members := m\<rparr>) d = extends c d" "extends (c\<lparr>pc_identity_read := b\<rparr>) d = extends c d"
  "extends (c\<lparr>pc_state_links_loaded := l\<rparr>) d = extends c d"
  by (simp_all add: extends_def)

lemma extends_values: "extends c c' \<Longrightarrow> map_of (pc_values c) k = Some v \<Longrightarrow> map_of (pc_values c') k = Some v"
  by (auto simp: extends_def more_values_def map_add_def)

lemma extends_parts:
  "extends c c' \<Longrightarrow> pc_incoming c' = pc_incoming c \<and> pc_roots c' = pc_roots c \<and> pc_links c' = pc_links c \<and>
     pc_required c' = pc_required c \<and> pc_full c' = pc_full c"
  by (simp add: extends_def)

lemma foldE_extends:
  "foldE f c xs = Inr c' \<Longrightarrow> (\<And>c x c'. x \<in> set xs \<Longrightarrow> f c x = Inr c' \<Longrightarrow> extends c c') \<Longrightarrow> extends c c'"
proof (induction xs arbitrary: c)
  case (Cons x xs)
  then obtain d where "f c x = Inr d" "foldE f d xs = Inr c'" by (auto simp: bindE_Inr_iff)
  from Cons.prems(2) [OF _ this(1)] have "extends c d" by simp
  also have "extends d c'" by (rule Cons.IH [OF \<open>foldE f d xs = Inr c'\<close>]) (rule Cons.prems(2), simp_all)
  finally show ?case .
qed simp

lemma cache_extends:
  assumes "cache_record key value payload c = Inr c'" "payload \<noteq> [] \<or> map_of (pc_values c) key \<noteq> None" "fst key \<noteq> ''data''"
  shows "extends c c'"
proof (cases "map_of (pc_values c) key = None")
  case True
  then have new: "key \<notin> set (map fst (pc_values c))" by (simp add: map_of_eq_None_iff)
  have c': "c' = c\<lparr>pc_metadata_bytes := pc_metadata_bytes c + length payload, pc_values := pc_values c @ [(key, value)]\<rparr>"
    "pc_metadata_bytes c + length payload \<le> batch_bytes"
    using assms(1) True by (auto simp: cache_record_def thenE_Inr_iff refuse_Inr_iff Let_def)
  have "1 \<le> length payload" using assms(2) True by (cases payload) auto
  then have "more_values (pc_values c) (pc_metadata_bytes c) (pc_values c @ [(key, value)]) (pc_metadata_bytes c + length payload)"
    using new c'(2) assms(3) by (auto simp: more_values_def)
  then show ?thesis unfolding extends_def c'(1) by simp
qed (use assms in \<open>simp add: cache_record_def\<close>)

lemma cached: "cache_record key value payload c = Inr c' \<Longrightarrow> map_of (pc_values c') key \<noteq> None"
  by (auto simp: cache_record_def thenE_Inr_iff Let_def map_add_def split: if_splits option.splits)

text \<open>The canonical encoder spells every value with at least one byte.\<close>

definition spelled :: "platform \<Rightarrow> bool" where
  "spelled P \<longleftrightarrow> (\<forall>j. canonical P j \<noteq> Inr [])"

lemma encoded_nonempty: "spelled P \<Longrightarrow> encode_record P r = Inr b \<Longrightarrow> b \<noteq> []"
  using encode_record_admits [of P r b] by (auto simp: spelled_def)

lemma load_row_extends: "spelled P \<Longrightarrow> fst key \<noteq> ''data'' \<Longrightarrow> load_row P S include_values c key = Inr c' \<Longrightarrow> extends c c'"
  by (auto simp: load_row_def Let_def bindE_Inr_iff thenE_Inr_iff canonical_value_bytes_def spelled_def
      split: option.splits if_splits dest!: cache_extends)

lemma pin_member_extends: "spelled P \<Longrightarrow> pin_member P S c m = Inr c' \<Longrightarrow> extends c c'"
  by (auto simp: pin_member_def member_record_def Let_def bindE_Inr_iff thenE_Inr_iff refuse_Inr_iff
      split: prod.splits option.splits dest!: cache_extends encoded_nonempty)

lemma load_rows_extends:
  assumes "spelled P" "load_rows P S c keys = Inr c'"
  shows "extends c c'"
proof (cases "filter (\<lambda>key. key \<notin> pc_loaded c) (remdups (concat (map key_forms keys))) = []")
  case True
  then show ?thesis using assms(2) by (simp add: load_rows_def)
next
  case False
  define missing where "missing = sort (filter (\<lambda>key. key \<notin> pc_loaded c) (remdups (concat (map key_forms keys))))"
  have "missing \<noteq> []" using False unfolding missing_def by (metis set_empty set_sort)
  with assms(2) obtain d e l b pinned where
    d: "foldE (load_row P S False) c (filter (\<lambda>key. key \<in> pc_incoming c) missing) = Inr d" and
    e: "foldE (load_row P S True) d (filter (\<lambda>key. key \<notin> pc_incoming d) missing) = Inr e" and
    pinned: "foldE (pin_member P S) (e\<lparr>pc_loaded := l, pc_identity_read := b\<rparr>) pinned = Inr c'"
    unfolding load_rows_def Let_def missing_def [symmetric] by (auto simp: bindE_Inr_iff thenE_Inr_iff)
  have kinds: "fst key \<noteq> ''data''" if "key \<in> set missing" for key
    using that by (auto simp: missing_def key_forms_def split: if_splits)
  have row: "extends b b'" if "key \<in> set missing" "load_row P S v b key = Inr b'" for v b b' key
    using load_row_extends [OF assms(1) kinds [OF that(1)] that(2)] .
  have "extends c d" by (rule foldE_extends [OF d], rule row) auto
  also have "extends d e" by (rule foldE_extends [OF e], rule row) auto
  also have "extends (e\<lparr>pc_loaded := l, pc_identity_read := b\<rparr>) c'"
    by (rule foldE_extends [OF pinned]) (rule pin_member_extends [OF assms(1)])
  then have "extends e c'" by simp
  finally show ?thesis .
qed

lemma load_keys_extends: "spelled P \<Longrightarrow> load_keys n P S c keys = Inr c' \<Longrightarrow> extends c c'"
proof (induction n arbitrary: c keys)
  case (Suc n)
  then obtain d where d: "load_rows P S c keys = Inr d" by (auto simp: bindE_Inr_iff)
  have first: "extends c d" using load_rows_extends [OF Suc.prems(1) d] .
  have "extends d c'" if "load_keys n P S (d\<lparr>pc_state_links_loaded := l\<rparr>) targets = Inr c'" for l targets
    using Suc.IH [OF Suc.prems(1) that] by simp
  then have "extends d c'" using Suc.prems(2) d by (auto simp: Let_def split: if_splits)
  with first show ?case by (rule extends_trans)
qed simp

text \<open>What the check knows is bounded by the bytes it has counted.\<close>

definition within_budget :: "publication_check \<Rightarrow> bool" where
  "within_budget c \<longleftrightarrow> length (pc_values c) \<le> pc_metadata_bytes c \<and> pc_metadata_bytes c \<le> batch_bytes \<and>
     distinct (map fst (pc_values c)) \<and> (\<forall>kv \<in> set (pc_values c). fst (fst kv) \<noteq> ''data'')"

lemma within_budget_extends: "within_budget c \<Longrightarrow> extends c c' \<Longrightarrow> within_budget c'"
  by (auto simp: within_budget_def extends_def more_values_def)

lemma check_new:
  assumes "spelled P" "publication_check_new P batch = Inr c"
  shows "within_budget c \<and> pc_required c = {} \<and> pc_full c = {} \<and> pc_links c = {} \<and> pc_roots c = set (mt_retained batch) \<and>
    pc_incoming c = fst ` set (pc_values c)"
proof -
  let ?c = "\<lparr>pc_values = [], pc_stored = [], pc_members = [], pc_metadata_bytes = 0,
         pc_loaded = {}, pc_state_links_loaded = {}, pc_identity_read = False, pc_incoming = {}, pc_roots = {},
         pc_links = {}, pc_required = {}, pc_full = {}\<rparr>"
  from assms(2) obtain d where d: "foldE (check_incoming P) ?c (mt_records batch) = Inr d"
    "c = d\<lparr>pc_incoming := set (map fst (pc_values d)), pc_roots := set (mt_retained batch)\<rparr>"
    by (auto simp: publication_check_new_def bindE_Inr_iff)
  have "fst (record_key_of r) \<noteq> ''data''" for r by (cases r) simp_all
  then have "extends ?c d"
    by (intro foldE_extends [OF d(1)])
      (auto simp: check_incoming_def bindE_Inr_iff split: option.splits if_splits
        dest!: encoded_nonempty [OF assms(1)] intro: cache_extends)
  then show ?thesis using d(2) by (auto simp: extends_def more_values_def within_budget_def)
qed

section \<open>What a closure must hold\<close>

text \<open>
  The records a record stands on, and whether each is needed in full or only as a description. A
  whole result keeps its execution and its outputs, a whole request its inputs, an association the
  request, the chosen result as a description and the outputs it selects; and so on down to members.
\<close>

definition obligations ::
    "(record_key \<Rightarrow> core_record option) \<Rightarrow> core_record \<Rightarrow> bool \<Rightarrow> (record_key \<times> bool) set" where
  "obligations vals v whole = (case v of
     ResultRecord r \<Rightarrow>
       insert ((''execution'', rt_execution_id r), whole)
         (if whole then (\<lambda>output. ((''data'', rb_entity_id output), True)) ` set (oc_outputs (rt_outcome r)) else {})
   | ExecutionRecord r \<Rightarrow> {((''request'', ex_request_id r), whole)}
   | RequestRecord r \<Rightarrow>
       insert ((''operation_definition'', rq_definition_id r), False)
         (if whole then (\<lambda>binding. (input_target binding, True)) ` set (rq_inputs r) else {})
   | SelectionRecord r \<Rightarrow>
       {((''request'', sl_request_id r), True), ((''result'', sl_selected_result_id r), False)} \<union>
       {((''data'', identity), True) | identity label chosen. label \<in> set (sl_output_labels r) \<and>
          vals (''result'', sl_selected_result_id r) = Some (ResultRecord chosen) \<and>
          map_of (rev (map (\<lambda>output. (rb_label output, rb_entity_id output)) (oc_outputs (rt_outcome chosen)))) label = Some identity}
   | RepresentationRecord r \<Rightarrow>
       (if whole then insert ((''state'', sr_state_id r), True)
          ((\<lambda>revision. ((''revision'', revision), True)) ` set_option (sr_revision_id r) \<union>
           (case sr_membership r of
              Inl rows \<Rightarrow> (\<lambda>m. ((''entity'', mb_occurrence_id m), True)) ` set rows
            | Inr _ \<Rightarrow> {}))
        else {})
   | SelectedValueRecord r \<Rightarrow>
       (if whole \<and> sv_value r = FromParent
        then {((case sv_definition r of StateMembers _ \<Rightarrow> ''state'' | _ \<Rightarrow> ''entity'', or_parent_entity_id (sv_origin r)), True)}
        else {})
   | RevisionRecord r \<Rightarrow>
       insert ((''state'', rv_base_state_id r), False)
         ((\<lambda>edit. ((''execution'', ve_execution_id edit), False)) ` set (rv_value_edits r))
   | _ \<Rightarrow> {})"

definition target_forms :: "record_key \<Rightarrow> record_key set" where
  "target_forms key = (if fst key = ''data'' then {(''entity'', snd key), (''state'', snd key)} else {key})"

text \<open>A target is met by a required record, in full where that is asked for, or by a key still to visit.\<close>

definition meets :: "publication_check \<Rightarrow> pending_keys \<Rightarrow> record_key \<Rightarrow> bool \<Rightarrow> bool" where
  "meets c pending key whole \<longleftrightarrow> (key \<in> pc_required c \<and> (whole \<longrightarrow> key \<in> pc_full c)) \<or>
     (\<exists>w. (key, w) \<in> set pending \<and> (whole \<longrightarrow> w))"

definition linked :: "publication_check \<Rightarrow> record_key \<Rightarrow> record_key \<Rightarrow> bool \<Rightarrow> bool" where
  "linked c owner target whole \<longleftrightarrow> (\<exists>link \<in> pc_links c. ml_owner link = owner \<and> ml_target link = target \<and>
     (whole \<longrightarrow> ml_relation link \<noteq> ''describes''))"

definition discharged :: "publication_check \<Rightarrow> pending_keys \<Rightarrow> record_key \<Rightarrow> record_key \<times> bool \<Rightarrow> bool" where
  "discharged c pending owner ob \<longleftrightarrow> (\<exists>key \<in> target_forms (fst ob). map_of (pc_values c) key \<noteq> None \<and>
     meets c pending key (snd ob) \<and> linked c owner key (snd ob))"

definition represented :: "publication_check \<Rightarrow> pending_keys \<Rightarrow> record_key \<Rightarrow> bool" where
  "represented c pending owner \<longleftrightarrow> (\<exists>key r. map_of (pc_values c) key = Some (RepresentationRecord r) \<and>
     sr_state_id r = snd owner \<and> meets c pending key True \<and> linked c owner key True)"

text \<open>The obligations of one required record.\<close>

definition settled :: "publication_check \<Rightarrow> pending_keys \<Rightarrow> record_key \<Rightarrow> bool" where
  "settled c pending key \<longleftrightarrow> (\<exists>v. map_of (pc_values c) key = Some v \<and>
     (\<forall>ob \<in> obligations (map_of (pc_values c)) v (key \<in> pc_full c). discharged c pending key ob) \<and>
     (\<forall>r. v = StateRecord r \<longrightarrow> key \<in> pc_full c \<longrightarrow> represented c pending key) \<and>
     (\<forall>r. v = ResultRecord r \<longrightarrow> oc_status (rt_outcome r) = Success) \<and>
     (\<forall>r. v = SelectionRecord r \<longrightarrow> (\<exists>chosen. map_of (pc_values c) (''result'', sl_selected_result_id r) = Some (ResultRecord chosen))))"

text \<open>Nothing is kept without a reason: the links lead from a root to every key.\<close>

definition link_steps :: "publication_check \<Rightarrow> (record_key \<times> record_key) set" where
  "link_steps c = (\<lambda>link. (ml_owner link, ml_target link)) ` pc_links c"

definition justified :: "publication_check \<Rightarrow> record_key \<Rightarrow> bool" where
  "justified c key \<longleftrightarrow> (\<exists>root \<in> pc_roots c. \<exists>form \<in> target_forms root. (form, key) \<in> (link_steps c)\<^sup>*)"

definition closing :: "publication_check \<Rightarrow> pending_keys \<Rightarrow> bool" where
  "closing c pending \<longleftrightarrow> pc_full c \<subseteq> pc_required c \<and> (\<forall>key \<in> pc_required c. settled c pending key) \<and>
     (\<forall>key \<in> pc_required c. justified c key) \<and>
     (\<forall>(key, whole) \<in> set pending. \<forall>form \<in> target_forms key. justified c form) \<and>
     (\<forall>root \<in> pc_roots c. (root, True) \<in> set pending \<or>
       (\<exists>form \<in> target_forms root. map_of (pc_values c) form \<noteq> None \<and> meets c pending form True)) \<and>
     (\<forall>link \<in> pc_links c. ml_owner link \<in> pc_required c)"

section \<open>The steps of a round\<close>

lemma resolved: "resolve_key c key = Inr k \<Longrightarrow> k \<in> target_forms key \<and> map_of (pc_values c) k \<noteq> None"
  by (auto simp: resolve_key_def target_forms_def split: if_splits)

lemma resolve_same: "pc_values c' = pc_values c \<Longrightarrow> resolve_key c' key = resolve_key c key"
  by (simp add: resolve_key_def)

lemma resolved_again: "resolve_key c key = Inr k \<Longrightarrow> fst k \<noteq> ''data'' \<and> resolve_key c' k = (if map_of (pc_values c') k = None
    then Inl (IntegrityError (''publication lacks required '' @ fst k @ '' record: '' @ snd k)) else Inr k)"
  by (auto simp: resolve_key_def split: if_splits)

lemma resolved_form: "resolve_key c key = Inr k \<Longrightarrow> target_forms k = {k}"
  using resolved_again [of c key k c] by (simp add: target_forms_def)

text \<open>The requirements read the values and the rows only.\<close>

lemma stored_same [simp]:
  "stored_with Q (c\<lparr>pc_full := F\<rparr>) = stored_with Q c" "stored_with Q (c\<lparr>pc_required := R\<rparr>) = stored_with Q c"
  "is_stored (c\<lparr>pc_full := F\<rparr>) = is_stored c" "is_stored (c\<lparr>pc_required := R\<rparr>) = is_stored c"
  by (auto simp: stored_with_def is_stored_def fun_eq_iff)

lemma requirements_same:
  "requirements S batch (c\<lparr>pc_required := R, pc_full := F\<rparr>) key whole = requirements S batch c key whole"
proof -
  let ?c = "c\<lparr>pc_required := R, pc_full := F\<rparr>"
  have parts: "pc_values ?c = pc_values c" "pc_roots ?c = pc_roots c" "pc_incoming ?c = pc_incoming c"
    "stored_with Q ?c = stored_with Q c" "is_stored ?c = is_stored c" for Q by simp_all
  have "membership_of S ?c = membership_of S c" "check_agreement S ?c = check_agreement S c"
    "eligible_representations ?c = eligible_representations c" "representations_of ?c = representations_of c"
    unfolding membership_of_def check_agreement_def eligible_representations_def representations_of_def parts
    by (rule refl)+
  note parts = parts this
  have "state_requirement S ?c = state_requirement S c" "resolve_key ?c = resolve_key c"
    unfolding state_requirement_def resolve_key_def parts by (rule refl)+
  note parts = parts this
  have "selection_requirements S batch ?c = selection_requirements S batch c"
    unfolding selection_requirements_def parts by (rule refl)
  note parts = parts this
  show ?thesis unfolding requirements_def parts by (rule refl)
qed

lemma represented_by:
  assumes "distinct (map fst (pc_values c))" "(key, r) \<in> set (representations_of c identity)"
  shows "map_of (pc_values c) key = Some (RepresentationRecord r) \<and> sr_state_id r = identity"
proof -
  from assms(2) have "(key, RepresentationRecord r) \<in> set (pc_values c) \<and> sr_state_id r = identity"
    by (auto simp: representations_of_def List.map_filter_def split: core_record.splits if_splits)
  then show ?thesis using assms(1) by (simp add: map_of_is_SomeI)
qed

lemma state_requirement_represented:
  assumes "distinct (map fst (pc_values c))" "state_requirement S c identity = Inr needed"
  shows "\<exists>key r. needed = [(''representation'', key, True)] \<and> map_of (pc_values c) key = Some (RepresentationRecord r) \<and> sr_state_id r = identity"
proof -
  from assms(2) have "(case eligible_representations c (representations_of c identity) of
      [] \<Rightarrow> Inl (IntegrityError ''state has no available complete representation'')
    | key # _ \<Rightarrow> Inr [(''representation'', key, True)]) = Inr needed"
    unfolding state_requirement_def Let_def thenE_Inr_iff bindE_Inr_iff by blast
  then obtain key rest where e: "eligible_representations c (representations_of c identity) = key # rest"
    "needed = [(''representation'', key, True)]"
    by (cases "eligible_representations c (representations_of c identity)") auto
  then have "key \<in> set (eligible_representations c (representations_of c identity))" by simp
  then have "key \<in> fst ` set (representations_of c identity)"
    by (auto simp: eligible_representations_def Let_def split: if_splits)
  then obtain r where "(key, r) \<in> set (representations_of c identity)" by auto
  with represented_by [OF assms(1)] e(2) show ?thesis by blast
qed

lemma selected_output_iff:
  "selected_output outputs label = Inr x \<longleftrightarrow>
     (\<exists>identity. map_of outputs label = Some identity \<and> x = (''selected_output:'' @ label, (''data'', identity), True))"
  by (auto simp: selected_output_def split: option.splits)

lemma mapE_members: "mapE f xs = Inr ys \<Longrightarrow> x \<in> set xs \<Longrightarrow> \<exists>y \<in> set ys. f x = Inr y"
  by (induction xs arbitrary: ys) (auto simp: bindE_Inr_iff)

lemma selection_requirements_parts:
  assumes "selection_requirements S batch c key r = Inr needed"
  obtains chosen outs extra where "map_of (pc_values c) (''result'', sl_selected_result_id r) = Some (ResultRecord chosen)"
    "mapE (selected_output (rev (map (\<lambda>output. (rb_label output, rb_entity_id output)) (oc_outputs (rt_outcome chosen)))))
        (sl_output_labels r) = Inr outs"
    "needed = [(''request'', (''request'', sl_request_id r), True), (''selected_result'', (''result'', sl_selected_result_id r), False)] @
       extra @ outs" "\<forall>x \<in> set extra. snd (snd x)"
proof -
  let ?k = "(''result'', sl_selected_result_id r)"
  from assms obtain v where k: "resolve_key c ?k = Inr ?k" "map_of (pc_values c) ?k = Some v"
    unfolding selection_requirements_def Let_def bindE_Inr_iff by (auto simp: resolve_key_def split: if_splits)
  show thesis
  proof (cases v)
    case (ResultRecord chosen)
    let ?outputs = "mapE (selected_output (rev (map (\<lambda>output. (rb_label output, rb_entity_id output)) (oc_outputs (rt_outcome chosen)))))
        (sl_output_labels r)"
    from assms [unfolded selection_requirements_def Let_def k bindE_simps option.case ResultRecord core_record.case]
    have "\<exists>outs extra. ?outputs = Inr outs \<and>
        needed = [(''request'', (''request'', sl_request_id r), True), (''selected_result'', ?k, False)] @ extra @ outs \<and>
        (\<forall>x \<in> set extra. snd (snd x))"
      unfolding thenE_Inr_iff bindE_Inr_iff
      by (elim exE conjE, rename_tac outs) (rule_tac x = outs in exI, rule_tac x = "if stored_with so_retained c key
        then map (\<lambda>link. (''comparison_evidence'', ml_target link, True))
          (filter (\<lambda>link. ml_label link = ''comparison_evidence'' \<and> ml_relation link = ''requires'') (rs_links S key)) else []" in exI, auto)
    then obtain outs extra where parts: "?outputs = Inr outs"
      "needed = [(''request'', (''request'', sl_request_id r), True), (''selected_result'', ?k, False)] @ extra @ outs"
      "\<forall>x \<in> set extra. snd (snd x)" by blast
    show thesis by (rule that [OF _ parts]) (use k(2) ResultRecord in simp)
  qed (use assms k in \<open>simp_all add: selection_requirements_def\<close>)
qed

lemma selection_requirements_cover:
  assumes "selection_requirements S batch c key r = Inr needed" "ob \<in> obligations (map_of (pc_values c)) (SelectionRecord r) whole"
  shows "ob \<in> snd ` set needed"
proof -
  obtain chosen outs extra where found: "map_of (pc_values c) (''result'', sl_selected_result_id r) = Some (ResultRecord chosen)"
    "mapE (selected_output (rev (map (\<lambda>output. (rb_label output, rb_entity_id output)) (oc_outputs (rt_outcome chosen)))))
        (sl_output_labels r) = Inr outs"
    "needed = [(''request'', (''request'', sl_request_id r), True), (''selected_result'', (''result'', sl_selected_result_id r), False)] @
       extra @ outs"
    using selection_requirements_parts [OF assms(1)] .
  have parts: "set outs \<subseteq> set needed" "(''request'', (''request'', sl_request_id r), True) \<in> set needed"
    "(''selected_result'', (''result'', sl_selected_result_id r), False) \<in> set needed" using found(3) by auto
  note parts = found(1,2) parts
  from assms(2) consider "ob = ((''request'', sl_request_id r), True)" | "ob = ((''result'', sl_selected_result_id r), False)"
    | identity label where "ob = ((''data'', identity), True)" "label \<in> set (sl_output_labels r)"
      "map_of (rev (map (\<lambda>output. (rb_label output, rb_entity_id output)) (oc_outputs (rt_outcome chosen)))) label = Some identity"
    using parts(1) by (auto simp: obligations_def)
  then show ?thesis
  proof cases
    case 1
    then show ?thesis using rev_image_eqI [OF parts(4), of ob snd] by simp
  next
    case 2
    then show ?thesis using rev_image_eqI [OF parts(5), of ob snd] by simp
  next
    case 3
    obtain x where x: "x \<in> set outs" "snd x = ob" using mapE_members [OF parts(2) 3(2)] 3 by (auto simp: selected_output_iff)
    then have "x \<in> set needed" using parts(3) by blast
    then show ?thesis using x(2) by (auto intro: rev_image_eqI)
  qed
qed

text \<open>What the requirements of a key say of its record.\<close>

definition covered :: "publication_check \<Rightarrow> record_key \<Rightarrow> bool \<Rightarrow> core_record \<Rightarrow> (string \<times> record_key \<times> bool) list \<Rightarrow> bool" where
  "covered c key whole v needed \<longleftrightarrow>
     obligations (map_of (pc_values c)) v whole \<subseteq> snd ` set needed \<and>
     (\<forall>r. v = StateRecord r \<longrightarrow> whole \<longrightarrow> (\<exists>k rep. (''representation'', k, True) \<in> set needed \<and>
       map_of (pc_values c) k = Some (RepresentationRecord rep) \<and> sr_state_id rep = snd key)) \<and>
     (\<forall>r. v = ResultRecord r \<longrightarrow> oc_status (rt_outcome r) = Success) \<and>
     (\<forall>r. v = SelectionRecord r \<longrightarrow> (\<exists>chosen. map_of (pc_values c) (''result'', sl_selected_result_id r) = Some (ResultRecord chosen)))"

lemma requirements_cover:
  assumes "distinct (map fst (pc_values c))" "requirements S batch c key whole = Inr needed"
  shows "\<exists>v. map_of (pc_values c) key = Some v \<and> covered c key whole v needed"
proof -
  from assms(2) obtain v where v: "map_of (pc_values c) key = Some v"
    by (cases "map_of (pc_values c) key") (simp_all add: requirements_def)
  note run = assms(2) [unfolded requirements_def v option.case]
  have "covered c key whole v needed"
  proof (cases v)
    case (SelectionRecord r)
    from run SelectionRecord have run: "selection_requirements S batch c key r = Inr needed" by simp
    obtain chosen where chosen: "map_of (pc_values c) (''result'', sl_selected_result_id r) = Some (ResultRecord chosen)"
      using selection_requirements_parts [OF run] by blast
    show ?thesis unfolding covered_def SelectionRecord
      by (intro conjI subsetI selection_requirements_cover [OF run]) (use chosen in simp_all)
  next
    case (StateRecord r)
    then show ?thesis using run state_requirement_represented [OF assms(1)]
      by (fastforce simp: covered_def obligations_def)
  next
    case (ResultRecord r)
    then show ?thesis using run by (auto simp: covered_def obligations_def image_image thenE_Inr_iff refuse_Inr_iff)
  next
    case (ExecutionRecord r)
    then show ?thesis using run by (auto simp: covered_def obligations_def image_image)
  next
    case (RequestRecord r)
    then show ?thesis using run by (auto simp: covered_def obligations_def image_image)
  next
    case (RepresentationRecord r)
    then show ?thesis using run by (auto simp: covered_def obligations_def image_image split: option.splits sum.splits)
  next
    case (SelectedValueRecord r)
    then show ?thesis using run by (auto simp: covered_def obligations_def split: if_splits)
  next
    case (RevisionRecord r)
    then show ?thesis using run by (auto simp: covered_def obligations_def image_image)
  qed (simp_all add: covered_def obligations_def)
  with v show ?thesis by blast
qed

section \<open>Progress keeps what is settled\<close>

definition grows :: "publication_check \<Rightarrow> pending_keys \<Rightarrow> publication_check \<Rightarrow> pending_keys \<Rightarrow> bool" where
  "grows c p c' p' \<longleftrightarrow> (\<forall>k v. map_of (pc_values c) k = Some v \<longrightarrow> map_of (pc_values c') k = Some v) \<and>
     pc_required c \<subseteq> pc_required c' \<and> pc_full c \<subseteq> pc_full c' \<and> pc_links c \<subseteq> pc_links c' \<and> pc_roots c' = pc_roots c \<and>
     (\<forall>(k, w) \<in> set p. map_of (pc_values c) k \<noteq> None \<longrightarrow> meets c' p' k w)"

lemma grows_value: "grows c p c' p' \<Longrightarrow> map_of (pc_values c) k = Some v \<Longrightarrow> map_of (pc_values c') k = Some v"
  unfolding grows_def by blast

lemma grows_meets:
  assumes "grows c p c' p'" "meets c p k w" "map_of (pc_values c) k \<noteq> None"
  shows "meets c' p' k w"
proof (cases "k \<in> pc_required c \<and> (w \<longrightarrow> k \<in> pc_full c)")
  case True
  then show ?thesis using assms(1) by (auto simp: grows_def meets_def)
next
  case False
  then obtain w' where "(k, w') \<in> set p" "w \<longrightarrow> w'" using assms(2) by (auto simp: meets_def)
  then have "meets c' p' k w'" using assms(1,3) unfolding grows_def by blast
  then show ?thesis using \<open>w \<longrightarrow> w'\<close> by (auto simp: meets_def)
qed

lemma grows_linked: "grows c p c' p' \<Longrightarrow> linked c owner k w \<Longrightarrow> linked c' owner k w"
  by (auto simp: grows_def linked_def)

lemma grows_known: "grows c p c' p' \<Longrightarrow> map_of (pc_values c) k \<noteq> None \<Longrightarrow> map_of (pc_values c') k \<noteq> None"
  using grows_value [of c p c' p' k] by (metis not_None_eq)

lemma grows_discharged:
  assumes "grows c p c' p'" "discharged c p owner ob"
  shows "discharged c' p' owner ob"
proof -
  from assms(2) obtain key where key: "key \<in> target_forms (fst ob)" "map_of (pc_values c) key \<noteq> None"
    "meets c p key (snd ob)" "linked c owner key (snd ob)" unfolding discharged_def by blast
  show ?thesis unfolding discharged_def
    using key(1) grows_known [OF assms(1) key(2)] grows_meets [OF assms(1) key(3,2)] grows_linked [OF assms(1) key(4)] by blast
qed

lemma grows_represented:
  assumes "grows c p c' p'" "represented c p owner"
  shows "represented c' p' owner"
proof -
  from assms(2) obtain key r where key: "map_of (pc_values c) key = Some (RepresentationRecord r)" "sr_state_id r = snd owner"
    "meets c p key True" "linked c owner key True" unfolding represented_def by blast
  have "meets c' p' key True" by (rule grows_meets [OF assms(1) key(3)]) (simp add: key(1))
  then show ?thesis unfolding represented_def
    using key(2) grows_value [OF assms(1) key(1)] grows_linked [OF assms(1) key(4)] by blast
qed

lemma grows_justified:
  assumes "grows c p c' p'" "justified c key"
  shows "justified c' key"
proof -
  have "link_steps c \<subseteq> link_steps c'" using assms(1) by (auto simp: grows_def link_steps_def)
  then have "(link_steps c)\<^sup>* \<subseteq> (link_steps c')\<^sup>*" by (rule rtrancl_mono)
  moreover have "pc_roots c' = pc_roots c" using assms(1) by (simp add: grows_def)
  ultimately show ?thesis using assms(2) unfolding justified_def by blast
qed

lemma justified_step: "justified c owner \<Longrightarrow> linked c owner key w \<Longrightarrow> justified c key"
proof -
  assume "justified c owner" "linked c owner key w"
  moreover from this have "(owner, key) \<in> link_steps c" by (force simp: linked_def link_steps_def)
  ultimately show ?thesis unfolding justified_def by (meson rtrancl_into_rtrancl)
qed

text \<open>The obligations of a record do not change once the result an association chooses is known.\<close>

lemma obligations_stable:
  assumes "grows c p c' p'"
    "\<forall>r. v = SelectionRecord r \<longrightarrow> (\<exists>chosen. map_of (pc_values c) (''result'', sl_selected_result_id r) = Some (ResultRecord chosen))"
  shows "obligations (map_of (pc_values c')) v whole = obligations (map_of (pc_values c)) v whole"
proof (cases v)
  case (SelectionRecord r)
  with assms(2) obtain chosen where "map_of (pc_values c) (''result'', sl_selected_result_id r) = Some (ResultRecord chosen)" by blast
  moreover from this have "map_of (pc_values c') (''result'', sl_selected_result_id r) = Some (ResultRecord chosen)"
    by (rule grows_value [OF assms(1)])
  ultimately show ?thesis using SelectionRecord by (simp add: obligations_def)
qed (simp_all add: obligations_def)

lemma grows_settled:
  assumes "grows c p c' p'" "settled c p key" "key \<in> pc_full c' \<longleftrightarrow> key \<in> pc_full c"
  shows "settled c' p' key"
proof -
  from assms(2) obtain v where v: "map_of (pc_values c) key = Some v"
    "\<forall>ob \<in> obligations (map_of (pc_values c)) v (key \<in> pc_full c). discharged c p key ob"
    "\<forall>r. v = StateRecord r \<longrightarrow> key \<in> pc_full c \<longrightarrow> represented c p key"
    "\<forall>r. v = ResultRecord r \<longrightarrow> oc_status (rt_outcome r) = Success"
    "\<forall>r. v = SelectionRecord r \<longrightarrow> (\<exists>chosen. map_of (pc_values c) (''result'', sl_selected_result_id r) = Some (ResultRecord chosen))"
    unfolding settled_def by blast
  note mono = grows_value [OF assms(1)]
  have "\<forall>ob \<in> obligations (map_of (pc_values c')) v (key \<in> pc_full c'). discharged c' p' key ob"
    unfolding assms(3) obligations_stable [OF assms(1) v(5)] using v(2) grows_discharged [OF assms(1)] by blast
  moreover have "\<forall>r. v = StateRecord r \<longrightarrow> key \<in> pc_full c' \<longrightarrow> represented c' p' key"
    using v(3) assms(3) grows_represented [OF assms(1)] by blast
  moreover have "\<forall>r. v = SelectionRecord r \<longrightarrow> (\<exists>chosen. map_of (pc_values c') (''result'', sl_selected_result_id r) = Some (ResultRecord chosen))"
    using v(5) mono by blast
  ultimately show ?thesis unfolding settled_def using mono [OF v(1)] v(4) by blast
qed

section \<open>The two folds of a round\<close>

definition required_after :: "publication_check \<Rightarrow> pending_keys \<Rightarrow> record_key set" where
  "required_after c visited = pc_required c \<union> fst ` set visited"

definition full_after :: "publication_check \<Rightarrow> pending_keys \<Rightarrow> record_key set" where
  "full_after c visited = pc_full c \<union> {k. (k, True) \<in> set visited}"

definition state_after :: "publication_check \<Rightarrow> pending_keys \<Rightarrow> publication_check" where
  "state_after c visited = c\<lparr>pc_required := required_after c visited, pc_full := full_after c visited\<rparr>"

definition expanded_at ::
    "retained_store \<Rightarrow> metadata_batch \<Rightarrow> publication_check \<Rightarrow> record_key set \<Rightarrow> closure_edge list \<Rightarrow> record_key \<Rightarrow> bool" where
  "expanded_at S batch c F edges k \<longleftrightarrow> (k \<in> pc_required c \<and> (k \<in> F \<longrightarrow> k \<in> pc_full c)) \<or>
     (\<exists>needed. requirements S batch c k (k \<in> F) = Inr needed \<and> Pair k ` set needed \<subseteq> set edges)"

definition expanded ::
    "retained_store \<Rightarrow> metadata_batch \<Rightarrow> publication_check \<Rightarrow> pending_keys \<Rightarrow> closure_edge list \<Rightarrow> bool" where
  "expanded S batch c visited edges \<longleftrightarrow>
     (\<forall>k \<in> required_after c visited. expanded_at S batch c (full_after c visited) edges k) \<and>
     fst ` set edges \<subseteq> required_after c visited \<and>
     (edges \<noteq> [] \<longrightarrow> pc_required c \<noteq> required_after c visited \<or> pc_full c \<noteq> full_after c visited)"

lemma after_snoc:
  "required_after c (visited @ [(k, w)]) = insert k (required_after c visited)"
  "full_after c (visited @ [(k, w)]) = (if w then insert k (full_after c visited) else full_after c visited)"
  by (auto simp: required_after_def full_after_def)

lemma after_start: "required_after c [] = pc_required c" "full_after c [] = pc_full c" "state_after c [] = c"
  by (simp_all add: required_after_def full_after_def state_after_def)

lemma after_grows: "pc_required c \<subseteq> required_after c visited" "pc_full c \<subseteq> full_after c visited"
  by (auto simp: required_after_def full_after_def)

lemma full_within: "pc_full c \<subseteq> pc_required c \<Longrightarrow> full_after c visited \<subseteq> required_after c visited"
  by (force simp: required_after_def full_after_def)

lemma expand_step:
  assumes "expanded S batch c visited edges" "pc_full c \<subseteq> pc_required c" "resolve_key c k = Inr k"
    "expand_key S batch (state_after c visited, edges) (k, w) = Inr (c'', edges')"
  shows "c'' = state_after c (visited @ [(k, w)]) \<and> expanded S batch c (visited @ [(k, w)]) edges'"
proof -
  let ?R = "required_after c visited" and ?F = "full_after c visited"
  have res: "resolve_key (state_after c visited) k = Inr k"
    using assms(3) resolve_same [of "state_after c visited" c k] by (simp add: state_after_def)
  show ?thesis
  proof (cases "k \<in> ?F \<or> (k \<in> ?R \<and> \<not> w)")
    case True
    then have same: "c'' = state_after c visited" "edges' = edges"
      using assms(4) res by (auto simp: expand_key_def state_after_def)
    have "insert k ?R = ?R" "(if w then insert k ?F else ?F) = ?F"
      using True full_within [OF assms(2), of visited] by auto
    then have "required_after c (visited @ [(k, w)]) = ?R" "full_after c (visited @ [(k, w)]) = ?F"
      by (simp_all only: after_snoc)
    then show ?thesis using assms(1) same unfolding expanded_def state_after_def by presburger
  next
    case False
    define F where "F = (if w then insert k ?F else ?F)"
    let ?c = "c\<lparr>pc_required := insert k ?R, pc_full := F\<rparr>"
    have upd: "state_after c visited\<lparr>pc_required := insert k ?R, pc_full := F\<rparr> = ?c" by (simp add: state_after_def)
    have expand: "expand_key S batch (state_after c visited, edges) (k, w) =
        bindE (requirements S batch ?c k w) (\<lambda>needed. Inr (?c, edges @ map (Pair k) needed))"
      using False res upd by (cases w) (auto simp: expand_key_def state_after_def F_def Let_def split_def)
    then obtain needed where needed: "requirements S batch ?c k w = Inr needed" "c'' = ?c" "edges' = edges @ map (Pair k) needed"
      using assms(4) unfolding expand bindE_Inr_iff by auto
    have needed_c: "requirements S batch c k w = Inr needed" using needed(1) unfolding requirements_same .
    have kF: "(k \<in> F) = w" using False by (auto simp: F_def)
    have at: "expanded_at S batch c F edges' x" if x: "x \<in> insert k ?R" for x
    proof (cases "x = k")
      case True
      then show ?thesis using needed_c kF needed(3) by (auto simp: expanded_at_def)
    next
      case False
      then have "expanded_at S batch c ?F edges x" using x assms(1) by (simp add: expanded_def)
      moreover have "(x \<in> F) = (x \<in> ?F)" using False by (simp add: F_def)
      ultimately show ?thesis using needed(3) unfolding expanded_at_def by auto
    qed
    have owners: "fst ` set edges' \<subseteq> insert k ?R"
      using assms(1) needed(3) by (auto simp: expanded_def)
    have new: "pc_required c \<noteq> insert k ?R \<or> pc_full c \<noteq> F"
      using False after_grows [of c visited] by (auto simp: F_def)
    have after: "required_after c (visited @ [(k, w)]) = insert k ?R" "full_after c (visited @ [(k, w)]) = F"
      by (simp_all only: after_snoc F_def)
    show ?thesis unfolding expanded_def after state_after_def using needed(2) at owners new by blast
  qed
qed

lemma expand_fold:
  assumes "foldE (expand_key S batch) (state_after c visited, edges') pending = Inr (c'', edges'')" "expanded S batch c visited edges'"
    "pc_full c \<subseteq> pc_required c" "\<forall>(k, w) \<in> set pending. resolve_key c k = Inr k"
  shows "c'' = state_after c (visited @ pending) \<and> expanded S batch c (visited @ pending) edges''"
  using assms
proof (induction pending arbitrary: edges' visited)
  case (Cons x pending)
  obtain k w where x: "x = (k, w)" by fastforce
  from Cons.prems(1) obtain d e where d: "expand_key S batch (state_after c visited, edges') (k, w) = Inr (d, e)"
    "foldE (expand_key S batch) (d, e) pending = Inr (c'', edges'')" by (auto simp: x bindE_Inr_iff)
  have step: "d = state_after c (visited @ [(k, w)])" "expanded S batch c (visited @ [(k, w)]) e"
    using expand_step [OF Cons.prems(2,3) _ d(1)] Cons.prems(4) x by auto
  from Cons.IH [OF d(2) [unfolded step(1)] step(2) Cons.prems(3)] show ?case using Cons.prems(4) x by simp
qed simp

lemma expanded_start: "pc_full c \<subseteq> pc_required c \<Longrightarrow> expanded S batch c [] []"
  by (simp add: expanded_def expanded_at_def after_start)

definition followed ::
    "publication_check \<Rightarrow> pending_keys \<Rightarrow> closure_edge list \<Rightarrow> publication_check \<Rightarrow> pending_keys \<Rightarrow> bool" where
  "followed c start edges c' pending \<longleftrightarrow> (\<exists>L. c' = c\<lparr>pc_links := L\<rparr> \<and> pc_links c \<subseteq> L \<and>
     (\<forall>link \<in> L. link \<in> pc_links c \<or> ml_owner link \<in> fst ` set edges)) \<and> set start \<subseteq> set pending \<and>
     (\<forall>(k, label, t, f) \<in> set edges. \<exists>k'. resolve_key c t = Inr k' \<and> (k', f) \<in> set pending \<and> linked c' k k' f) \<and>
     (\<forall>(k', f) \<in> set pending. (k', f) \<in> set start \<or> (\<exists>k \<in> fst ` set edges. \<exists>t. resolve_key c t = Inr k' \<and> linked c' k k' False)) \<and>
     (edges = [] \<longrightarrow> pending = start)"

lemma follow_fold:
  assumes "foldE follow_edge (c, start) edges = Inr (c', pending)"
  shows "followed c start edges c' pending"
  using assms
proof (induction edges arbitrary: c start)
  case Nil
  then show ?case by (auto simp: followed_def intro: exI [of _ "pc_links c"])
next
  case (Cons edge edges)
  obtain k label t f where edge: "edge = (k, label, t, f)" by (cases edge) auto
  from Cons.prems obtain target where target: "resolve_key c t = Inr target"
    by (auto simp: edge follow_edge_def bindE_Inr_iff)
  define link where "link = \<lparr>ml_owner = k, ml_relation = link_relation label f, ml_label = label, ml_target = target\<rparr>"
  define d where "d = c\<lparr>pc_links := insert link (pc_links c)\<rparr>"
  have "follow_edge (c, start) edge = Inr (d, start @ [(target, f)])"
    using target by (simp add: edge follow_edge_def d_def link_def)
  then have "foldE follow_edge (d, start @ [(target, f)]) edges = Inr (c', pending)"
    using Cons.prems by simp
  from Cons.IH [OF this] have rest: "followed d (start @ [(target, f)]) edges c' pending" .
  then obtain L where L: "c' = d\<lparr>pc_links := L\<rparr>" "insert link (pc_links c) \<subseteq> L"
    "\<forall>l \<in> L. l \<in> insert link (pc_links c) \<or> ml_owner l \<in> fst ` set edges"
    unfolding followed_def by (auto simp: d_def)
  have same: "resolve_key d = resolve_key c" by (simp add: fun_eq_iff d_def resolve_key_def)
  have here: "linked c' k target w" if "w \<longrightarrow> f" for w
    using L(1,2) that by (auto simp: linked_def link_def link_relation_def intro!: bexI [of _ link] split: if_splits)
  have links: "\<exists>L. c' = c\<lparr>pc_links := L\<rparr> \<and> pc_links c \<subseteq> L \<and> (\<forall>l \<in> L. l \<in> pc_links c \<or> ml_owner l \<in> fst ` set (edge # edges))"
    using L by (intro exI [of _ L]) (auto simp: d_def link_def edge)
  have sub: "set (start @ [(target, f)]) \<subseteq> set pending"
    and old: "\<forall>(k, label, t, f) \<in> set edges. \<exists>k'. resolve_key c t = Inr k' \<and> (k', f) \<in> set pending \<and> linked c' k k' f"
    and came: "\<forall>(k', g) \<in> set pending. (k', g) \<in> set (start @ [(target, f)]) \<or>
      (\<exists>k \<in> fst ` set edges. \<exists>t. resolve_key c t = Inr k' \<and> linked c' k k' False)"
    using rest unfolding followed_def same by blast+
  have "\<forall>(k, label, t, f) \<in> set (edge # edges). \<exists>k'. resolve_key c t = Inr k' \<and> (k', f) \<in> set pending \<and> linked c' k k' f"
    using old target here [of f] sub by (simp add: edge del: split_paired_Ex split_paired_All)
  moreover have "\<forall>(k', g) \<in> set pending. (k', g) \<in> set start \<or>
      (\<exists>k \<in> fst ` set (edge # edges). \<exists>t. resolve_key c t = Inr k' \<and> linked c' k k' False)"
    using came target here [of False] by (fastforce simp: edge)
  ultimately show ?case unfolding followed_def using links sub by simp
qed

section \<open>A round\<close>

lemma known_kind: "within_budget c \<Longrightarrow> map_of (pc_values c) k \<noteq> None \<Longrightarrow> fst k \<noteq> ''data''"
  by (fastforce simp: within_budget_def dest: map_of_SomeD)

lemma known_resolves: "within_budget c \<Longrightarrow> map_of (pc_values c) k \<noteq> None \<Longrightarrow> resolve_key c k = Inr k"
  using known_kind [of c k] by (simp add: resolve_key_def)

text \<open>Loading and resolving the visited keys.\<close>

definition resolves :: "publication_check \<Rightarrow> pending_keys \<Rightarrow> pending_keys \<Rightarrow> bool" where
  "resolves c pending pending' \<longleftrightarrow> (\<forall>(k, w) \<in> set pending. \<exists>k'. resolve_key c k = Inr k' \<and> (k', w) \<in> set pending') \<and>
     (\<forall>(k', w) \<in> set pending'. \<exists>k. resolve_key c k = Inr k' \<and> (k, w) \<in> set pending)"

lemma resolves_all:
  "mapE (\<lambda>(key, whole). bindE (resolve_key c key) (\<lambda>key. Inr (key, whole))) pending = Inr pending' \<Longrightarrow> resolves c pending pending'"
proof (induction pending arbitrary: pending')
  case (Cons x pending)
  obtain k w where x: "x = (k, w)" by fastforce
  from Cons.prems obtain k' rest where step: "resolve_key c k = Inr k'" "pending' = (k', w) # rest"
    "mapE (\<lambda>(key, whole). bindE (resolve_key c key) (\<lambda>key. Inr (key, whole))) pending = Inr rest"
    by (auto simp: x bindE_Inr_iff)
  from Cons.IH [OF step(3)] step(1,2) show ?case
    unfolding resolves_def x by (fastforce simp del: split_paired_Ex split_paired_All)
qed (simp add: resolves_def)

lemma resolving_keeps:
  assumes "closing c pending" "extends c c1" "resolves c1 pending pending'" "extends c1 c2" "within_budget c"
  shows "grows c pending c2 pending' \<and> closing c2 pending' \<and> (\<forall>(k, w) \<in> set pending'. resolve_key c2 k = Inr k)"
proof -
  have ext: "extends c c2" using assms(2,4) by (rule extends_trans)
  have b1: "within_budget c1" "within_budget c2" using within_budget_extends [OF assms(5)] assms(2) ext by auto
  note parts = extends_parts [OF ext]
  have growth: "grows c pending c2 pending'"
    unfolding grows_def
  proof (intro conjI allI impI ballI)
    fix x assume "x \<in> set pending"
    moreover obtain k w where x: "x = (k, w)" by fastforce
    ultimately obtain k' where k': "resolve_key c1 k = Inr k'" "(k', w) \<in> set pending'"
      using assms(3) unfolding resolves_def by blast
    have "meets c2 pending' k w" if known: "map_of (pc_values c) k \<noteq> None"
    proof -
      have "map_of (pc_values c1) k \<noteq> None" using known extends_values [OF assms(2)] by (metis not_None_eq)
      then have "k' = k" using known_resolves [OF b1(1)] k'(1) by simp
      then show ?thesis using k'(2) by (auto simp: meets_def)
    qed
    then show "case x of (k, w) \<Rightarrow> map_of (pc_values c) k \<noteq> None \<longrightarrow> meets c2 pending' k w" by (simp add: x)
  qed (use parts extends_values [OF ext] in auto)
  have again: "resolve_key c2 k' = Inr k' \<and> target_forms k' = {k'} \<and> (\<exists>k. k' \<in> target_forms k \<and> (k, w) \<in> set pending)"
    if k': "(k', w) \<in> set pending'" for k' w
  proof -
    obtain k where k: "resolve_key c1 k = Inr k'" "(k, w) \<in> set pending" using assms(3) k' unfolding resolves_def by blast
    have "map_of (pc_values c2) k' \<noteq> None" using resolved [OF k(1)] extends_values [OF assms(4)] by (metis not_None_eq)
    then show ?thesis using known_resolves [OF b1(2)] resolved_form [OF k(1)] resolved [OF k(1)] k(2) by blast
  qed
  have "closing c2 pending'" unfolding closing_def
  proof (intro conjI ballI)
    fix key assume "key \<in> pc_required c2"
    then have key: "key \<in> pc_required c" using parts by simp
    then have "settled c pending key" "justified c key" using assms(1) by (auto simp: closing_def)
    then show "settled c2 pending' key" "justified c2 key"
      using grows_settled [OF growth] grows_justified [OF growth] parts by auto
  next
    fix x assume x: "x \<in> set pending'"
    obtain k' w where k': "x = (k', w)" by fastforce
    with again [of k' w] x obtain k where k: "k' \<in> target_forms k" "(k, w) \<in> set pending" "target_forms k' = {k'}" by blast
    then have "justified c k'" using assms(1) unfolding closing_def by blast
    then show "case x of (key, whole) \<Rightarrow> \<forall>form \<in> target_forms key. justified c2 form"
      using grows_justified [OF growth] k(3) k' by simp
  next
    fix root assume "root \<in> pc_roots c2"
    then have "root \<in> pc_roots c" using parts by simp
    then consider "(root, True) \<in> set pending"
      | form where "form \<in> target_forms root" "map_of (pc_values c) form \<noteq> None" "meets c pending form True"
      using assms(1) unfolding closing_def by blast
    then show "(root, True) \<in> set pending' \<or>
      (\<exists>form \<in> target_forms root. map_of (pc_values c2) form \<noteq> None \<and> meets c2 pending' form True)"
    proof cases
      case 1
      then obtain k' where k': "resolve_key c1 root = Inr k'" "(k', True) \<in> set pending'" using assms(3) unfolding resolves_def by blast
      have "k' \<in> target_forms root" "map_of (pc_values c1) k' \<noteq> None" using resolved [OF k'(1)] by auto
      then have "map_of (pc_values c2) k' \<noteq> None" using extends_values [OF assms(4)] by (metis not_None_eq)
      moreover have "meets c2 pending' k' True" using k'(2) by (auto simp: meets_def)
      ultimately show ?thesis using \<open>k' \<in> target_forms root\<close> by blast
    next
      case 2
      then show ?thesis using grows_meets [OF growth 2(3,2)] grows_known [OF growth 2(2)] by blast
    qed
  qed (use assms(1) parts in \<open>auto simp: closing_def\<close>)
  then show ?thesis using growth again by blast
qed

text \<open>Expanding the resolved keys, loading their targets and following the edges.\<close>

lemma round_keeps:
  assumes c: "closing c pending" "within_budget c" "\<forall>(k, w) \<in> set pending. resolve_key c k = Inr k"
    and ex: "expanded S batch c pending edges" and loaded: "extends (state_after c pending) c4"
    and follow: "followed c4 [] edges c5 pending'"
  shows "closing c5 pending'"
proof -
  define R where "R = required_after c pending"
  define F where "F = full_after c pending"
  obtain L where L: "c5 = c4\<lparr>pc_links := L\<rparr>" "pc_links c4 \<subseteq> L" "\<forall>l \<in> L. l \<in> pc_links c4 \<or> ml_owner l \<in> fst ` set edges"
    using follow unfolding followed_def by blast
  have values5: "pc_values c5 = pc_values c4" using L(1) by simp
  have parts: "pc_required c5 = R" "pc_full c5 = F" "pc_roots c5 = pc_roots c" "pc_links c5 = L" "pc_links c4 = pc_links c"
    using extends_parts [OF loaded] L(1) by (simp_all add: state_after_def R_def F_def)
  have values_c: "pc_values (state_after c pending) = pc_values c" by (simp add: state_after_def)
  have mono: "map_of (pc_values c) k = Some v \<Longrightarrow> map_of (pc_values c5) k = Some v" for k v
    using extends_values [OF loaded, unfolded values_c] values5 by simp
  have b4: "within_budget c4" using within_budget_extends [OF _ loaded] c(2) by (simp add: within_budget_def state_after_def)
  have visited: "k \<in> R \<and> (w \<longrightarrow> k \<in> F)" if "(k, w) \<in> set pending" for k w
    using that by (force simp: R_def F_def required_after_def full_after_def)
  have growth: "grows c pending c5 pending'" unfolding grows_def
  proof (intro conjI)
    show "\<forall>(k, w) \<in> set pending. map_of (pc_values c) k \<noteq> None \<longrightarrow> meets c5 pending' k w"
      using visited parts by (auto simp: meets_def)
  qed (use mono parts after_grows [of c pending] L(2) in \<open>auto simp: R_def F_def\<close>)
  have edge_met: "\<exists>k'. resolve_key c4 t = Inr k' \<and> k' \<in> target_forms t \<and> map_of (pc_values c5) k' \<noteq> None \<and>
      meets c5 pending' k' f \<and> linked c5 k k' f" if edge: "(k, label, t, f) \<in> set edges" for k label t f
  proof -
    obtain k' where k': "resolve_key c4 t = Inr k'" "(k', f) \<in> set pending'" "linked c5 k k' f"
      using follow edge unfolding followed_def by blast
    then show ?thesis using resolved [OF k'(1)] values5 by (auto simp: meets_def)
  qed
  have settled5: "settled c5 pending' k" if k: "k \<in> R" for k
  proof -
    have "expanded_at S batch c F edges k" using ex k by (simp add: expanded_def R_def F_def)
    then consider "k \<in> pc_required c" "k \<in> F \<longrightarrow> k \<in> pc_full c"
      | needed where "requirements S batch c k (k \<in> F) = Inr needed" "Pair k ` set needed \<subseteq> set edges"
      unfolding expanded_at_def by blast
    then show ?thesis
    proof cases
      case 1
      then have "settled c pending k" using c(1) unfolding closing_def by blast
      moreover have "k \<in> pc_full c5 \<longleftrightarrow> k \<in> pc_full c" using 1(2) parts after_grows(2) [of c pending] by (auto simp: F_def)
      ultimately show ?thesis by (rule grows_settled [OF growth])
    next
      case 2
      have "distinct (map fst (pc_values c))" using c(2) by (simp add: within_budget_def)
      from requirements_cover [OF this 2(1)] obtain v where v: "map_of (pc_values c) k = Some v" "covered c k (k \<in> F) v needed"
        by blast
      have obs: "obligations (map_of (pc_values c5)) v (k \<in> F) = obligations (map_of (pc_values c)) v (k \<in> F)"
        by (rule obligations_stable [OF growth]) (use v(2) in \<open>simp add: covered_def\<close>)
      have "discharged c5 pending' k ob" if "ob \<in> obligations (map_of (pc_values c5)) v (k \<in> F)" for ob
      proof -
        have "ob \<in> snd ` set needed" using v(2) that obs unfolding covered_def by blast
        then obtain label where "(label, ob) \<in> set needed" by auto
        then have "(k, label, fst ob, snd ob) \<in> set edges" using 2(2) by force
        from edge_met [OF this] show ?thesis unfolding discharged_def by blast
      qed
      moreover have "represented c5 pending' k" if state: "v = StateRecord r" "k \<in> F" for r
      proof -
        obtain kr rep where rep: "(''representation'', kr, True) \<in> set needed"
          "map_of (pc_values c) kr = Some (RepresentationRecord rep)" "sr_state_id rep = snd k"
          using v(2) state unfolding covered_def by blast
        then have "(k, ''representation'', kr, True) \<in> set edges" using 2(2) by force
        from edge_met [OF this] obtain k' where k': "resolve_key c4 kr = Inr k'" "meets c5 pending' k' True" "linked c5 k k' True"
          by blast
        have known: "map_of (pc_values c5) kr = Some (RepresentationRecord rep)" using mono rep(2) by blast
        then have "resolve_key c4 kr = Inr kr" using known_resolves [OF b4] values5 by simp
        then have "k' = kr" using k'(1) by simp
        then show ?thesis unfolding represented_def using k' known rep(3) by blast
      qed
      moreover have "\<forall>r. v = SelectionRecord r \<longrightarrow>
          (\<exists>chosen. map_of (pc_values c5) (''result'', sl_selected_result_id r) = Some (ResultRecord chosen))"
        using v(2) mono unfolding covered_def by blast
      ultimately show ?thesis unfolding settled_def parts using mono [OF v(1)] v(2) unfolding covered_def by blast
    qed
  qed
  have owners: "ml_owner l \<in> R" if "l \<in> L" for l
    using L(3) parts(5) that c(1) ex after_grows(1) [of c pending] by (fastforce simp: closing_def expanded_def R_def)
  have just: "justified c5 k" if "k \<in> R" for k
  proof -
    from that consider "k \<in> pc_required c" | w where "(k, w) \<in> set pending" by (auto simp: R_def required_after_def)
    then have "justified c k"
    proof cases
      case 2
      then have "target_forms k = {k}" using c(3) resolved_form [of c k k] by auto
      then show ?thesis using 2 c(1) unfolding closing_def by blast
    qed (use c(1) in \<open>auto simp: closing_def\<close>)
    then show ?thesis by (rule grows_justified [OF growth])
  qed
  show ?thesis unfolding closing_def parts
  proof (intro conjI ballI)
    show "F \<subseteq> R" using full_within c(1) by (simp add: closing_def R_def F_def)
  next
    fix x assume x: "x \<in> set pending'"
    obtain k' f where k': "x = (k', f)" by fastforce
    then obtain k t where "k \<in> fst ` set edges" "resolve_key c4 t = Inr k'" "linked c5 k k' False"
      using follow x unfolding followed_def list.set by blast
    moreover from this have "k \<in> R" using ex by (auto simp: expanded_def R_def)
    ultimately have "target_forms k' = {k'}" "justified c5 k'"
      using resolved_form just justified_step by blast+
    then show "case x of (key, whole) \<Rightarrow> \<forall>form \<in> target_forms key. justified c5 form" by (simp add: k')
  next
    fix root assume "root \<in> pc_roots c"
    then consider "(root, True) \<in> set pending"
      | form where "form \<in> target_forms root" "map_of (pc_values c) form \<noteq> None" "meets c pending form True"
      using c(1) unfolding closing_def by blast
    then have "\<exists>form \<in> target_forms root. map_of (pc_values c5) form \<noteq> None \<and> meets c5 pending' form True"
    proof cases
      case 1
      then have "resolve_key c root = Inr root" using c(3) by auto
      then have "root \<in> target_forms root" "map_of (pc_values c) root \<noteq> None" using resolved by blast+
      moreover have "meets c5 pending' root True" using visited [OF 1] parts by (simp add: meets_def)
      ultimately show ?thesis using grows_known [OF growth] by blast
    next
      case 2
      then show ?thesis using grows_meets [OF growth 2(3,2)] grows_known [OF growth 2(2)] by blast
    qed
    then show "(root, True) \<in> set pending' \<or>
      (\<exists>form \<in> target_forms root. map_of (pc_values c5) form \<noteq> None \<and> meets c5 pending' form True)" by blast
  qed (use settled5 just owners in auto)
qed

text \<open>How far the closure is: every round that leaves work has visited something new.\<close>

definition visits :: "publication_check \<Rightarrow> nat" where
  "visits c = card (pc_required c) + card (pc_full c)"

lemma visits_bound: "within_budget c \<Longrightarrow> closing c pending \<Longrightarrow> visits c \<le> 2 * batch_bytes"
proof -
  assume c: "within_budget c" "closing c pending"
  have "pc_required c \<subseteq> fst ` set (pc_values c)"
    using c(2) by (fastforce simp: closing_def settled_def dest: map_of_SomeD intro: rev_image_eqI)
  then have "card (pc_required c) \<le> card (fst ` set (pc_values c))" by (intro card_mono) auto
  also have "\<dots> \<le> length (pc_values c)" by (metis card_length length_map set_map)
  also have "\<dots> \<le> batch_bytes" using c(1) by (simp add: within_budget_def)
  finally have r: "card (pc_required c) \<le> batch_bytes" .
  have "finite (pc_required c)" using \<open>pc_required c \<subseteq> fst ` set (pc_values c)\<close> finite_subset by blast
  then have "card (pc_full c) \<le> card (pc_required c)" using c(2) by (intro card_mono) (auto simp: closing_def)
  with r show ?thesis by (simp add: visits_def)
qed

lemma closure_round_keeps:
  assumes "spelled P" "closing c pending" "within_budget c" "closure_round P S batch c pending = Inr (c', pending')"
  shows "closing c' pending' \<and> within_budget c' \<and> pc_roots c' = pc_roots c \<and> pc_incoming c' = pc_incoming c \<and>
    (pending' \<noteq> [] \<longrightarrow> visits c < visits c')"
proof -
  from assms(4) obtain c1 visited c2 c3 edges c4 where
    c1: "load_keys load_depth P S c (map fst pending) = Inr c1" and
    visited: "mapE (\<lambda>(key, whole). bindE (resolve_key c1 key) (\<lambda>key. Inr (key, whole))) pending = Inr visited" and
    c2: "load_keys load_depth P S c1 (selected_results c1 visited) = Inr c2" and
    c3: "foldE (expand_key S batch) (c2, []) visited = Inr (c3, edges)" and
    c4: "load_keys load_depth P S c3 (map (\<lambda>(key, label, target, target_full). target) edges) = Inr c4" and
    c5: "foldE follow_edge (c4, []) edges = Inr (c', pending')"
    unfolding closure_round_def bindE_Inr_iff split_paired_Ex prod.case by blast
  note ext = load_keys_extends [OF assms(1)]
  from resolving_keeps [OF assms(2) ext [OF c1] resolves_all [OF visited] ext [OF c2] assms(3)]
  have first: "closing c2 visited" "\<forall>(k, w) \<in> set visited. resolve_key c2 k = Inr k" by auto
  have e2: "extends c c2" using extends_trans [OF ext [OF c1] ext [OF c2]] .
  have b2: "within_budget c2" using within_budget_extends [OF assms(3) e2] .
  have sub: "pc_full c2 \<subseteq> pc_required c2" using first(1) by (simp add: closing_def)
  have "foldE (expand_key S batch) (state_after c2 [], []) visited = Inr (c3, edges)" using c3 by (simp add: after_start)
  from expand_fold [OF this expanded_start [OF sub] sub first(2)]
  have ex: "c3 = state_after c2 visited" "expanded S batch c2 visited edges" by auto
  have e4: "extends (state_after c2 visited) c4" using ext [OF c4] ex(1) by simp
  have follow: "followed c4 [] edges c' pending'" using follow_fold [OF c5] .
  have closing5: "closing c' pending'" by (rule round_keeps [OF first(1) b2 first(2) ex(2) e4 follow])
  obtain L where L: "c' = c4\<lparr>pc_links := L\<rparr>" using follow unfolding followed_def by blast
  have bound: "within_budget c'" using within_budget_extends [OF _ e4] b2 L by (simp add: within_budget_def state_after_def)
  have parts: "pc_required c' = required_after c2 visited" "pc_full c' = full_after c2 visited"
    "pc_roots c' = pc_roots c" "pc_incoming c' = pc_incoming c"
    using extends_parts [OF e4] extends_parts [OF e2] L by (simp_all add: state_after_def)
  have old: "pc_required c2 = pc_required c" "pc_full c2 = pc_full c" using extends_parts [OF e2] by simp_all
  have "visits c < visits c'" if "pending' \<noteq> []"
  proof -
    have "edges \<noteq> []" using that follow unfolding followed_def by blast
    then have "pc_required c2 \<noteq> pc_required c' \<or> pc_full c2 \<noteq> pc_full c'" using ex(2) parts unfolding expanded_def by simp
    then have strict: "pc_required c \<subset> pc_required c' \<or> pc_full c \<subset> pc_full c'"
      and sub: "pc_required c \<subseteq> pc_required c'" "pc_full c \<subseteq> pc_full c'"
      using after_grows [of c2 visited] parts(1,2) old by auto
    have "pc_required c' \<subseteq> fst ` set (pc_values c')"
      using closing5 by (fastforce simp: closing_def settled_def dest: map_of_SomeD intro: rev_image_eqI)
    then have fin1: "finite (pc_required c')" by (rule finite_subset) simp
    have "pc_full c' \<subseteq> pc_required c'" using closing5 by (simp add: closing_def)
    note fin = fin1 finite_subset [OF this fin1]
    from strict show ?thesis
    proof
      assume "pc_required c \<subset> pc_required c'"
      then show ?thesis using psubset_card_mono [OF fin(1)] card_mono [OF fin(2) sub(2)] by (simp add: visits_def add_less_le_mono)
    next
      assume "pc_full c \<subset> pc_full c'"
      then show ?thesis using psubset_card_mono [OF fin(2)] card_mono [OF fin(1) sub(1)] by (simp add: visits_def add_le_less_mono)
    qed
  qed
  then show ?thesis using closing5 bound parts by blast
qed

lemma closure_loop_closing:
  assumes "spelled P" "closure_loop n P S batch c pending = Inr c'" "closing c pending" "within_budget c"
  shows "closing c' [] \<and> within_budget c' \<and> pc_roots c' = pc_roots c \<and> pc_incoming c' = pc_incoming c"
  using assms(2-4)
proof (induction n arbitrary: c pending)
  case 0
  then show ?case by (auto split: if_splits)
next
  case (Suc n)
  show ?case
  proof (cases "pending = []")
    case False
    then obtain d p where d: "closure_round P S batch c pending = Inr (d, p)" "closure_loop n P S batch d p = Inr c'"
      using Suc.prems(1) by (auto simp: bindE_Inr_iff)
    have keeps: "closing d p" "within_budget d" "pc_roots d = pc_roots c" "pc_incoming d = pc_incoming c"
      using closure_round_keeps [OF assms(1) Suc.prems(2,3) d(1)] by auto
    from Suc.IH [OF d(2) keeps(1,2)] keeps(3,4) show ?thesis by simp
  qed (use Suc.prems in simp)
qed

text \<open>The rounds are fewer than the fuel.\<close>

lemma closure_loop_enough:
  assumes "spelled P" "closing c pending" "within_budget c" "2 * batch_bytes < visits c + n"
    "closure_loop n P S batch c pending = Inl NoReturn"
  shows "\<exists>d p. closure_round P S batch d p = Inl NoReturn"
  using assms(2-5)
proof (induction n arbitrary: c pending)
  case 0
  then show ?case using visits_bound by fastforce
next
  case (Suc n)
  then have work: "pending \<noteq> []" by (auto split: if_splits)
  show ?case
  proof (cases "closure_round P S batch c pending")
    case (Inl e)
    then have "closure_round P S batch c pending = Inl NoReturn" using Suc.prems(4) work by simp
    then show ?thesis by blast
  next
    case (Inr x)
    obtain d p where x: "x = (d, p)" by fastforce
    have loop: "closure_loop n P S batch d p = Inl NoReturn" using Suc.prems(4) work Inr x by simp
    have keeps: "closing d p" "within_budget d" "p \<noteq> [] \<longrightarrow> visits c < visits d"
      using closure_round_keeps [OF assms(1) Suc.prems(1,2) Inr [unfolded x]] by auto
    have "p \<noteq> []" using loop by (cases n) (auto split: if_splits)
    then show ?thesis using Suc.IH [OF keeps(1,2) _ loop] keeps(3) Suc.prems(3) by simp
  qed
qed

section \<open>The closure of a batch\<close>

lemma closing_start:
  assumes "spelled P" "publication_check_new P batch = Inr c"
  shows "closing c (map (\<lambda>key. (key, True)) (mt_retained batch)) \<and> within_budget c"
proof -
  have c: "within_budget c" "pc_required c = {}" "pc_full c = {}" "pc_links c = {}" "pc_roots c = set (mt_retained batch)"
    using check_new [OF assms] by auto
  have "justified c form" if "root \<in> pc_roots c" "form \<in> target_forms root" for root form
    using that unfolding justified_def by blast
  then show ?thesis using c by (auto simp: closing_def)
qed

lemma retention_closure_closing:
  assumes "spelled P" "retention_closure P S batch = Inr c"
  shows "closing c [] \<and> within_budget c \<and> pc_roots c = set (mt_retained batch)"
proof -
  from assms(2) obtain d where d: "publication_check_new P batch = Inr d"
    "closure_loop closure_fuel P S batch d (map (\<lambda>key. (key, True)) (mt_retained batch)) = Inr c"
    by (auto simp: retention_closure_def bindE_Inr_iff)
  have start: "closing d (map (\<lambda>key. (key, True)) (mt_retained batch))" "within_budget d"
    using closing_start [OF assms(1) d(1)] by auto
  show ?thesis using closure_loop_closing [OF assms(1) d(2) start] check_new [OF assms(1) d(1)] by simp
qed

text \<open>
  C2. The retention check computes a closure: every root is retained in full; a retained record is
  known and is settled, which means that each record it stands on (the execution, request, definition,
  inputs and outputs of a result, the members of a representation, and so on) is retained too, in full
  where that is owed, with a link that says so, that a state kept in full has a representation, and that
  no failed result is kept; and every retained record is reached from a root by the links.
\<close>

theorem retention_closed:
  assumes "spelled P" "retention_closure P S batch = Inr c"
  shows "(\<forall>root \<in> set (mt_retained batch). \<exists>form \<in> target_forms root. form \<in> pc_full c) \<and> pc_full c \<subseteq> pc_required c \<and>
    (\<forall>key \<in> pc_required c. settled c [] key) \<and>
    (\<forall>key \<in> pc_required c. \<exists>root \<in> set (mt_retained batch). \<exists>form \<in> target_forms root. (form, key) \<in> (link_steps c)\<^sup>*)"
proof -
  have c: "closing c []" "pc_roots c = set (mt_retained batch)" using retention_closure_closing [OF assms] by auto
  have "form \<in> pc_full c" if "meets c [] form True" for form using that by (simp add: meets_def)
  then show ?thesis using c unfolding closing_def justified_def by fastforce
qed

section \<open>The check returns\<close>

definition returns :: "'a result \<Rightarrow> bool" where
  "returns x \<longleftrightarrow> x \<noteq> Inl NoReturn"

named_theorems returning

lemma returns_simps [simp]: "returns (Inr x)" "returns (Inl e) = (e \<noteq> NoReturn)" "returns (refuse b e) = (\<not> b \<or> e \<noteq> NoReturn)"
  by (simp_all add: returns_def refuse_def)

lemma returns_bindE [intro!]: "returns m \<Longrightarrow> (\<And>x. returns (f x)) \<Longrightarrow> returns (bindE m f)"
  by (cases m) (auto simp: returns_def)

lemma returns_thenE [intro!]: "returns m \<Longrightarrow> returns n \<Longrightarrow> returns (thenE m n)"
  by (cases m) (auto simp: returns_def)

lemma returns_mapE [intro!]: "(\<And>x. x \<in> set xs \<Longrightarrow> returns (f x)) \<Longrightarrow> returns (mapE f xs)"
  by (induction xs) auto

lemma returns_eachE [intro!]: "(\<And>x. x \<in> set xs \<Longrightarrow> returns (f x)) \<Longrightarrow> returns (eachE f xs)"
  by (induction xs) auto

lemma returns_foldE [intro!]: "(\<And>c x. x \<in> set xs \<Longrightarrow> returns (f c x)) \<Longrightarrow> returns (foldE f c xs)"
  by (induction xs arbitrary: c) auto

lemma returns_if [intro!]: "(b \<Longrightarrow> returns x) \<Longrightarrow> (\<not> b \<Longrightarrow> returns y) \<Longrightarrow> returns (if b then x else y)"
  by simp

text \<open>No answer of the encoder or of the state owner is a call that hangs.\<close>

definition ports_return :: "platform \<Rightarrow> retained_store \<Rightarrow> bool" where
  "ports_return P S \<longleftrightarrow> (\<forall>j. returns (canonical P j)) \<and>
     (\<forall>owner. rs_states S = Some owner \<longrightarrow> (\<forall>r b. returns (ow_check owner r b)) \<and> (\<forall>x y. returns (ow_same owner x y)))"

text \<open>The representation links of a state name representations, not data.\<close>

definition links_documented :: "retained_store \<Rightarrow> bool" where
  "links_documented S \<longleftrightarrow> (\<forall>key. \<forall>link \<in> set (rs_links S key). ml_relation link = ''representation'' \<longrightarrow>
     fst (ml_target link) \<notin> {''data'', ''entity'', ''state''})"

lemma returns_selectors [intro!]:
  "returns (check_distinct xs l)" "returns (pointer_tokens j)" "returns (check_member_selector m)" "returns (check_selector sel)"
  "returns (check_origin origin)"
proof -
  show distinct: "returns (check_distinct xs l)" for xs :: "'x list" and l by (simp add: check_distinct_def)
  show tokens: "returns (pointer_tokens j)" for j
    by (auto simp: pointer_tokens_def Let_def split: json.splits)
  show member: "returns (check_member_selector m)" for m
    by (cases m) (auto intro!: distinct tokens)
  show "returns (check_selector sel)" for sel by (cases sel) (auto intro!: member distinct split: option.splits)
  show "returns (check_origin origin)" by (simp add: check_origin_def)
qed

lemma returns_patch [intro!]: "returns (validate_patch j)"
  by (auto simp: validate_patch_def validate_operation_def Let_def split: json.splits)

lemma returns_fields_value [intro!]: "returns (validate_fields_value fs v)"
  by (auto simp: validate_fields_value_def Let_def split: json.splits)

lemma returns_results [intro!]: "returns (check_result P r)"
  by (auto simp: check_result_def check_outcome_def check_binding_def check_derivation_def event_instant_def Let_def split: option.splits)

lemma returns_check_record [intro!]: "returns (check_record P r)"
  by (cases r) (auto simp: check_revision_def check_selected_value_def check_request_def
    split: sum.splits option.splits selector.splits member_selector.splits selected_source.splits value_ref.splits)

lemma returns_record [intro!]:
  "ports_return P S \<Longrightarrow> returns (record_value P r)" "ports_return P S \<Longrightarrow> returns (encode_record P r)"
  "ports_return P S \<Longrightarrow> returns (canonical_value_bytes P v)"
proof -
  assume P: "ports_return P S"
  then show bytes: "returns (canonical_value_bytes P v)" for v by (simp add: canonical_value_bytes_def ports_return_def)
  show plain: "returns (record_value P r)" by (auto simp: record_value_def convert_record_def)
  show "returns (encode_record P r)"
    unfolding encode_record_def using plain bytes by (auto split: sum.splits)
qed

lemma returns_cache [intro!]: "returns (cache_record key value payload c)"
  by (auto simp: cache_record_def closure_limit_error_def Let_def)

lemma returns_row [intro!]: "ports_return P S \<Longrightarrow> returns (load_row P S include_values c key)"
  unfolding load_row_def Let_def by (auto simp: conflict_error_def split: option.splits)

lemma returns_pin [intro!]: "ports_return P S \<Longrightarrow> returns (pin_member P S c m)"
  unfolding pin_member_def member_record_def Let_def by (auto split: prod.splits option.splits)

lemma returns_chosen [intro!]:
  "ports_return P S \<Longrightarrow> returns (check_chosen P S c key)" "returns (same_digest row location)"
  by (auto simp: check_chosen_def collision_def same_digest_def conflict_error_def split: option.splits)

lemma returns_load_rows [intro!]: "ports_return P S \<Longrightarrow> returns (load_rows P S c keys)"
  unfolding load_rows_def Let_def by (auto simp: closure_limit_error_def split: option.splits)

lemma no_states: "\<forall>key \<in> set keys. fst key \<notin> {''data'', ''entity'', ''state''} \<Longrightarrow>
    filter (\<lambda>key. fst key = ''state'' \<and> Q key) (sort (remdups (concat (map key_forms keys)))) = []"
  by (auto simp: filter_empty_conv key_forms_def split: if_splits)

lemma returns_load_keys [intro!]:
  assumes "ports_return P S" "links_documented S"
  shows "returns (load_keys load_depth P S c keys)"
proof -
  have last: "returns (load_keys (Suc 0) P S c targets)"
    if "\<forall>key \<in> set targets. fst key \<notin> {''data'', ''entity'', ''state''}" for c targets
    unfolding load_keys.simps Let_def no_states [OF that] using assms(1) by auto
  have targets: "\<forall>key \<in> set (map ml_target (filter (\<lambda>link. ml_relation link = ''representation'') (concat (map (rs_links S) states)))).
      fst key \<notin> {''data'', ''entity'', ''state''}" for states
    using assms(2) by (auto simp: links_documented_def)
  show ?thesis unfolding load_depth_def numeral_2_eq_2 load_keys.simps(2) [of "Suc 0"] Let_def
    using last [OF targets] assms(1) by auto
qed

lemma returns_resolve [intro!]: "returns (resolve_key c key)"
  by (auto simp: resolve_key_def split: list.splits)

lemma returns_membership [intro!]: "ports_return P S \<Longrightarrow> returns (membership_of S c choice)"
  by (auto simp: membership_of_def ports_return_def split: sum.splits option.splits prod.splits)

lemma returns_agreement [intro!]: "ports_return P S \<Longrightarrow> returns (check_agreement S c m n)"
  by (auto simp: check_agreement_def ports_return_def split: option.splits)

lemma returns_state [intro!]: "ports_return P S \<Longrightarrow> returns (state_requirement S c identity)"
  unfolding state_requirement_def Let_def by (auto split: list.splits)

lemma returns_selection [intro!]: "returns (selection_requirements S batch c key r)"
  unfolding selection_requirements_def selected_output_def Let_def by (auto split: option.splits core_record.splits)

lemma returns_requirements [intro!]: "ports_return P S \<Longrightarrow> returns (requirements S batch c key whole)"
  unfolding requirements_def by (auto split: option.splits core_record.splits)

lemma returns_round [intro!]:
  "ports_return P S \<Longrightarrow> links_documented S \<Longrightarrow> returns (closure_round P S batch c pending)"
  unfolding closure_round_def expand_key_def follow_edge_def Let_def by (auto split: prod.splits)

text \<open>
  C8. The retention check ends on every batch: each of its rounds visits a record, or a description
  as a whole record, for the first time, and the records it can visit are bounded by the 8 MiB of
  metadata it may load. So \<open>closure_fuel\<close> rounds are enough, whatever the ledger holds, and the
  check either refuses the batch or returns a closure.
\<close>

theorem retention_returns:
  assumes "spelled P" "ports_return P S" "links_documented S"
  shows "retention_closure P S batch \<noteq> Inl NoReturn"
proof
  assume stuck: "retention_closure P S batch = Inl NoReturn"
  have "returns (publication_check_new P batch)"
    unfolding publication_check_new_def check_incoming_def using assms(2) by (auto split: option.splits)
  then obtain c where c: "publication_check_new P batch = Inr c"
    using stuck by (cases "publication_check_new P batch") (auto simp: retention_closure_def returns_def)
  with stuck have loop: "closure_loop closure_fuel P S batch c (map (\<lambda>key. (key, True)) (mt_retained batch)) = Inl NoReturn"
    by (simp add: retention_closure_def)
  have start: "closing c (map (\<lambda>key. (key, True)) (mt_retained batch))" "within_budget c"
    using closing_start [OF assms(1) c] by auto
  have "2 * batch_bytes < visits c + closure_fuel" by (simp add: closure_fuel_def)
  then obtain d p where "closure_round P S batch d p = Inl NoReturn"
    using closure_loop_enough [OF assms(1) start _ loop] by blast
  then show False using returns_round [OF assms(2,3), of batch d p] by (simp add: returns_def)
qed

section \<open>A concrete batch\<close>

text \<open>A request with its definition, published whole to an empty ledger.\<close>

lemma emit_nonempty: "emit j \<noteq> []"
proof (cases j)
  case (JInt i)
  then show ?thesis by (simp add: str_of_int_def) (metis digits_of_nat.simps append_is_Nil_conv list.distinct(1))
qed (simp_all)

lemma reference_spelled [simp]: "spelled reference_platform"
  by (simp add: spelled_def ascii_bytes_def emit_nonempty)

definition empty_store :: retained_store where
  "empty_store = \<lparr>rs_rows = \<lambda>_. None, rs_links = \<lambda>_. [], rs_locate = \<lambda>_. None, rs_payload = \<lambda>_. None,
     rs_minted = [], rs_states = None\<rparr>"

definition sample_operation_record :: core_record where
  "sample_operation_record = DefinitionRecord \<lparr>od_definition_id = ''d'', od_implementation_id = ''i'', od_implementation_version = ''1'',
     od_operation_kind = Transformation, od_configuration = [], od_resources = []\<rparr>"

definition sample_request_record :: core_record where
  "sample_request_record = RequestRecord \<lparr>rq_request_id = ''q'', rq_definition_id = ''d'', rq_inputs = [], rq_dependencies = []\<rparr>"

definition sample_batch :: metadata_batch where
  "sample_batch = \<lparr>mt_unit_id = ''unit'', mt_records = [sample_operation_record, sample_request_record],
     mt_retained = [(''request'', ''q'')], mt_links = [], mt_expected_versions = [], mt_members = [], mt_identity_mark = None\<rparr>"

lemma empty_store_ports [simp]: "ports_return reference_platform empty_store" "links_documented empty_store"
  by (simp_all add: ports_return_def links_documented_def empty_store_def)

lemma sample_size: "encode_record reference_platform sample_operation_record = Inr b \<Longrightarrow> length b < 1000"
  "encode_record reference_platform sample_request_record = Inr b \<Longrightarrow> length b < 1000"
  by (simp_all add: sample_operation_record_def sample_request_record_def encode_record_def record_value_def convert_record_def
     canonical_value_bytes_def is_identifier_def check_distinct_def check_request_def record_head_def, auto simp: ascii_bytes_def str_of_int_def digits_of_nat.simps [of "Suc 0"])

lemma sample_admitted: "\<exists>b. encode_record reference_platform sample_operation_record = Inr b"
  "\<exists>b. encode_record reference_platform sample_request_record = Inr b"
  by (simp_all add: sample_operation_record_def sample_request_record_def encode_record_def record_value_def convert_record_def
     canonical_value_bytes_def is_identifier_def check_distinct_def check_request_def record_head_def)

lemma sample_new: "\<exists>n < 2000. publication_check_new reference_platform sample_batch = Inr
   \<lparr>pc_values = [((''operation_definition'', ''d''), sample_operation_record), ((''request'', ''q''), sample_request_record)],
    pc_stored = [], pc_members = [], pc_metadata_bytes = n,
         pc_loaded = {}, pc_state_links_loaded = {}, pc_identity_read = False,
         pc_incoming = {(''operation_definition'', ''d''), (''request'', ''q'')}, pc_roots = {(''request'', ''q'')},
         pc_links = {}, pc_required = {}, pc_full = {}\<rparr>"
proof -
  obtain a b where ab: "encode_record reference_platform sample_operation_record = Inr a" "length a < 1000"
    "encode_record reference_platform sample_request_record = Inr b" "length b < 1000"
    using sample_admitted sample_size by blast
  have keys: "record_key_of sample_operation_record = (''operation_definition'', ''d'')" "record_key_of sample_request_record = (''request'', ''q'')"
    by (simp_all add: sample_operation_record_def sample_request_record_def)
  show ?thesis using ab by (intro exI [of _ "length a + length b"]) (simp add: publication_check_new_def check_incoming_def sample_batch_def keys cache_record_def batch_bytes_def Let_def)
qed

lemma sample_closure: "\<exists>c. retention_closure reference_platform empty_store sample_batch = Inr c \<and> 
   pc_required c = {(''operation_definition'', ''d''), (''request'', ''q'')}"
proof -
  obtain n where small: "n < 2000" and n: "publication_check_new reference_platform sample_batch = Inr
   \<lparr>pc_values = [((''operation_definition'', ''d''), sample_operation_record), ((''request'', ''q''), sample_request_record)],
    pc_stored = [], pc_members = [], pc_metadata_bytes = n,
         pc_loaded = {}, pc_state_links_loaded = {}, pc_identity_read = False,
         pc_incoming = {(''operation_definition'', ''d''), (''request'', ''q'')}, pc_roots = {(''request'', ''q'')},
         pc_links = {}, pc_required = {}, pc_full = {}\<rparr>" using sample_new by blast
  obtain k where fuel: "closure_fuel = Suc (Suc (Suc k))"
  proof
    show "closure_fuel = Suc (Suc (Suc 16777214))" by (simp add: closure_fuel_def batch_bytes_def)
  qed
  show ?thesis 
    unfolding retention_closure_def n bindE_simps fuel using small
    by (simp add: sample_batch_def closure_round_def load_depth_def numeral_2_eq_2 load_rows_def empty_store_def key_forms_def Let_def
   load_row_def referenced_identities_def restorable_identities_def chosen_keys_def names_data_def resolve_key_def
   selected_results_def expand_key_def requirements_def follow_edge_def link_relation_def List.map_filter_def
   sample_operation_record_def sample_request_record_def refuse_def batch_bytes_def linorder_not_less [symmetric])
qed

theorem retention_closed_witness:
  "\<exists>c. retention_closure reference_platform empty_store sample_batch = Inr c \<and>
     pc_required c = {(''operation_definition'', ''d''), (''request'', ''q'')} \<and> pc_full c \<subseteq> pc_required c \<and>
     (\<forall>key \<in> pc_required c. settled c [] key)"
proof -
  obtain c where c: "retention_closure reference_platform empty_store sample_batch = Inr c"
    "pc_required c = {(''operation_definition'', ''d''), (''request'', ''q'')}" using sample_closure by blast
  note closed = retention_closed [OF reference_spelled c(1)]
  show ?thesis using closed [THEN conjunct2, THEN conjunct1] closed [THEN conjunct2, THEN conjunct2, THEN conjunct1] c by blast
qed

theorem retention_returns_witness:
  "spelled reference_platform \<and> ports_return reference_platform empty_store \<and> links_documented empty_store \<and>
     retention_closure reference_platform empty_store sample_batch \<noteq> Inl NoReturn"
  using retention_returns [of reference_platform empty_store sample_batch] by simp

end
