(* ===== verification/Wire_Records.thy ===== *)
theory Wire_Records
  imports Core_Admission
begin

text \<open>
  The interface the stored records of the program share: a dataclass whose \<open>__post_init__\<close> checks
  and normalises it, \<open>to_dict\<close>, and \<open>from_dict\<close>, which refuses any other field set and constructs.
  A value read from a field whose JSON type is not the annotated one is \<^theory_text>\<open>IllTyped\<close>: the
  program mostly refuses it in \<open>require_text\<close> or a comparison, without a check of its own.

  The references of src/src/docspec/domain/references.py are the first records of this kind.
\<close>

section \<open>The interface\<close>

text \<open>\<open>ok\<close> are the values construction lets through, with parts that are such values themselves.\<close>

locale wire =
  fixes ok :: "'a \<Rightarrow> bool"
    and to_json :: "'a \<Rightarrow> json"
    and from_json :: "json \<Rightarrow> 'a result"
  assumes from_to: "ok r \<Longrightarrow> from_json (to_json r) = Inr r"
    and from_ok: "from_json v = Inr r \<Longrightarrow> ok r"
begin

lemma round_trip: "from_json v = Inr r \<Longrightarrow> from_json (to_json r) = Inr r"
  using from_to from_ok by blast

lemma to_json_inject: "ok r \<Longrightarrow> ok q \<Longrightarrow> to_json r = to_json q \<longleftrightarrow> r = q"
  using from_to by (metis Inr_inject)

lemma from_to_list: "\<forall>r \<in> set rs. ok r \<Longrightarrow> mapE from_json (map to_json rs) = Inr rs"
  by (rule mapE_id) (simp add: from_to)

lemma from_list_ok: "mapE from_json vs = Inr rs \<Longrightarrow> r \<in> set rs \<Longrightarrow> ok r"
  unfolding mapE_Inr_iff list_all2_conv_all_nth using from_ok by (metis in_set_conv_nth)

end

text \<open>The usual case: reading is construction from the fields, and construction is stable.\<close>

lemma wireI:
  fixes construct :: "'a \<Rightarrow> 'a result"
  assumes "\<And>r. ok r \<Longrightarrow> construct r = Inr r" "\<And>r. ok r \<Longrightarrow> from_json (to_json r) = construct r"
    "\<And>v r. from_json v = Inr r \<Longrightarrow> ok r"
  shows "wire ok to_json from_json"
  by unfold_locales (use assms in auto)

section \<open>Shared checks and readers\<close>

definition check_texts :: "(string \<times> string) list \<Rightarrow> unit result" where
  "check_texts labelled = eachE (\<lambda>(label, value). bindE (require_text (JStr value) label) (\<lambda>_. Inr ())) labelled"

definition check_digest :: "string \<Rightarrow> string \<Rightarrow> unit result" where
  "check_digest value label = bindE (require_sha256 (JStr value) label) (\<lambda>_. Inr ())"

definition when_given :: "('a \<Rightarrow> unit result) \<Rightarrow> 'a option \<Rightarrow> unit result" where
  "when_given f x = (case x of None \<Rightarrow> Inr () | Some v \<Rightarrow> f v)"

definition closed_shape :: "json \<Rightarrow> string list \<Rightarrow> string \<Rightarrow> object result" where
  "closed_shape value expected label =
     (case value of
        JObj kvs \<Rightarrow> if set (map fst kvs) \<noteq> set expected
                    then Inl (ValueError (label @ '' has an invalid closed shape'')) else Inr kvs
      | _ \<Rightarrow> Inl (IllTyped label))"

definition get_text :: "object \<Rightarrow> string \<Rightarrow> string result" where
  "get_text kvs k = (case dict_get kvs k of JStr s \<Rightarrow> Inr s | _ \<Rightarrow> Inl (IllTyped k))"

definition get_int :: "object \<Rightarrow> string \<Rightarrow> int result" where
  "get_int kvs k = (case dict_get kvs k of JInt i \<Rightarrow> Inr i | _ \<Rightarrow> Inl (IllTyped k))"

definition get_opt_text :: "object \<Rightarrow> string \<Rightarrow> string option result" where
  "get_opt_text kvs k = (case dict_get kvs k of JNull \<Rightarrow> Inr None | JStr s \<Rightarrow> Inr (Some s) | _ \<Rightarrow> Inl (IllTyped k))"

definition get_opt_int :: "object \<Rightarrow> string \<Rightarrow> int option result" where
  "get_opt_int kvs k = (case dict_get kvs k of JNull \<Rightarrow> Inr None | JInt i \<Rightarrow> Inr (Some i) | _ \<Rightarrow> Inl (IllTyped k))"

definition get_list :: "object \<Rightarrow> string \<Rightarrow> json list result" where
  "get_list kvs k = (case dict_get kvs k of JArr xs \<Rightarrow> Inr xs | _ \<Rightarrow> Inl (IllTyped k))"

definition as_text :: "json \<Rightarrow> string result" where
  "as_text v = (case v of JStr s \<Rightarrow> Inr s | _ \<Rightarrow> Inl (IllTyped []))"

definition opt_text :: "string option \<Rightarrow> json" where
  "opt_text x = (case x of None \<Rightarrow> JNull | Some s \<Rightarrow> JStr s)"

definition opt_int :: "int option \<Rightarrow> json" where
  "opt_int x = (case x of None \<Rightarrow> JNull | Some i \<Rightarrow> JInt i)"

text \<open>\<open>thaw_json(freeze_json(value))\<close> inside or outside \<open>trusted_json_input\<close>.\<close>

definition stored :: "bool \<Rightarrow> string \<Rightarrow> json \<Rightarrow> json result" where
  "stored trusted label value = bindE (freeze_json trusted label value) (\<lambda>f. Inr (thaw_json f))"

lemma stored_eq [simp]: "stored trusted label j = Inr (if trusted then j else key_sorted j)"
proof -
  obtain f where "freeze_json trusted label j = Inr f" using freeze_json_total by blast
  then show ?thesis using freeze_json_cases by (simp add: stored_def)
qed

named_theorems wire_simps \<open>what readers do on a written record\<close>

lemma get_simps [wire_simps]:
  "get_text kvs k = (case dict_get kvs k of JStr s \<Rightarrow> Inr s | _ \<Rightarrow> Inl (IllTyped k))"
  "get_int kvs k = (case dict_get kvs k of JInt i \<Rightarrow> Inr i | _ \<Rightarrow> Inl (IllTyped k))"
  "get_opt_text kvs k = (case dict_get kvs k of JNull \<Rightarrow> Inr None | JStr s \<Rightarrow> Inr (Some s) | _ \<Rightarrow> Inl (IllTyped k))"
  "get_opt_int kvs k = (case dict_get kvs k of JNull \<Rightarrow> Inr None | JInt i \<Rightarrow> Inr (Some i) | _ \<Rightarrow> Inl (IllTyped k))"
  "get_list kvs k = (case dict_get kvs k of JArr xs \<Rightarrow> Inr xs | _ \<Rightarrow> Inl (IllTyped k))"
  by (simp_all add: get_text_def get_int_def get_opt_text_def get_opt_int_def get_list_def)

lemma closed_shape_obj [wire_simps]:
  "closed_shape (JObj kvs) expected label =
     (if set (map fst kvs) \<noteq> set expected
      then Inl (ValueError (label @ '' has an invalid closed shape'')) else Inr kvs)"
  by (simp add: closed_shape_def)

lemma dict_get_simps [wire_simps]:
  "dict_get ((k', v) # kvs) k = (if k' = k then v else dict_get kvs k)"
  by (simp add: dict_get_def)

lemma opt_text_case [wire_simps]:
  "(case opt_text x of JNull \<Rightarrow> Inr None | JStr s \<Rightarrow> Inr (Some s) | _ \<Rightarrow> Inl e) = Inr x"
  by (cases x) (simp_all add: opt_text_def)

lemma opt_int_case [wire_simps]:
  "(case opt_int x of JNull \<Rightarrow> Inr None | JInt s \<Rightarrow> Inr (Some s) | _ \<Rightarrow> Inl e) = Inr x"
  by (cases x) (simp_all add: opt_int_def)

lemma texts_list [wire_simps]: "mapE as_text (map JStr xs) = Inr xs"
  by (rule mapE_id) (simp add: as_text_def)

lemma check_texts_iff: "check_texts xs = Inr () \<longleftrightarrow> (\<forall>x \<in> set xs. strip (snd x) \<noteq> [])"
  by (auto simp: check_texts_def eachE_Inr_iff bindE_Inr_iff require_text_ok_iff split: prod.splits)

lemma check_digest_iff: "check_digest d l = Inr () \<longleftrightarrow> is_sha256 d"
  by (auto simp: check_digest_def bindE_Inr_iff require_sha256_ok_iff)

section \<open>References\<close>

record blob_ref =
  br_locator :: string
  br_digest :: string
  br_byte_size :: int
  br_media_type :: string

definition blob_ref_make :: "blob_ref \<Rightarrow> blob_ref result" where
  "blob_ref_make r =
     thenE (check_texts [(''blob locator'', br_locator r)])
    (thenE (check_digest (br_digest r) ''blob digest'')
    (thenE (check_texts [(''blob media_type'', br_media_type r)])
    (thenE (refuse (br_byte_size r < 0) (ValueError ''blob byte_size must be non-negative'')) (Inr r))))"

definition blob_ref_json :: "blob_ref \<Rightarrow> json" where
  "blob_ref_json r = JObj [(''locator'', JStr (br_locator r)), (''digest'', JStr (br_digest r)),
     (''byteSize'', JInt (br_byte_size r)), (''mediaType'', JStr (br_media_type r))]"

definition blob_ref_from :: "json \<Rightarrow> blob_ref result" where
  "blob_ref_from value =
     bindE (closed_shape value [''locator'', ''digest'', ''byteSize'', ''mediaType''] ''blob reference'') (\<lambda>kvs.
     bindE (get_text kvs ''locator'') (\<lambda>locator. bindE (get_text kvs ''digest'') (\<lambda>digest.
     bindE (get_int kvs ''byteSize'') (\<lambda>byte_size. bindE (get_text kvs ''mediaType'') (\<lambda>media_type.
       blob_ref_make \<lparr>br_locator = locator, br_digest = digest, br_byte_size = byte_size,
                      br_media_type = media_type\<rparr>)))))"

definition blob_ref_ok :: "blob_ref \<Rightarrow> bool" where
  "blob_ref_ok r \<longleftrightarrow> blob_ref_make r = Inr r"

lemma blob_ref_make_ok: "blob_ref_make r = Inr r' \<longleftrightarrow> r' = r \<and> blob_ref_ok r"
  by (auto simp: blob_ref_ok_def blob_ref_make_def thenE_Inr_iff)

lemma blob_ref_read: "blob_ref_from (blob_ref_json r) = blob_ref_make r"
  by (cases r) (simp add: blob_ref_from_def blob_ref_json_def wire_simps)

lemma blob_ref_from_ok: "blob_ref_from v = Inr r \<Longrightarrow> blob_ref_ok r"
  by (auto simp: blob_ref_from_def bindE_Inr_iff blob_ref_make_ok)

interpretation blob: wire blob_ref_ok blob_ref_json blob_ref_from
  by (rule wireI [where construct = blob_ref_make])
    (simp_all add: blob_ref_ok_def blob_ref_read blob_ref_from_ok [unfolded blob_ref_ok_def])

record layer_ref =
  lr_layer_id :: string
  lr_layer_kind :: string
  lr_schema_id :: string
  lr_profile_id :: string
  lr_state_ref :: string
  lr_digest :: string
  lr_record_count :: int

definition layer_ref_make :: "layer_ref \<Rightarrow> layer_ref result" where
  "layer_ref_make r =
     thenE (check_texts [(''layer_id'', lr_layer_id r), (''layer_kind'', lr_layer_kind r),
       (''schema_id'', lr_schema_id r), (''profile_id'', lr_profile_id r), (''state_ref'', lr_state_ref r)])
    (thenE (check_digest (lr_digest r) ''layer digest'')
    (thenE (refuse (lr_record_count r < 0) (ValueError ''layer record_count must be non-negative'')) (Inr r)))"

definition layer_ref_json :: "layer_ref \<Rightarrow> json" where
  "layer_ref_json r = JObj [(''layerId'', JStr (lr_layer_id r)), (''layerKind'', JStr (lr_layer_kind r)),
     (''schemaId'', JStr (lr_schema_id r)), (''profileId'', JStr (lr_profile_id r)),
     (''stateRef'', JStr (lr_state_ref r)), (''digest'', JStr (lr_digest r)),
     (''recordCount'', JInt (lr_record_count r))]"

definition layer_ref_from :: "json \<Rightarrow> layer_ref result" where
  "layer_ref_from value =
     bindE (closed_shape value [''layerId'', ''layerKind'', ''schemaId'', ''profileId'', ''stateRef'',
       ''digest'', ''recordCount''] ''layer reference'') (\<lambda>kvs.
     bindE (get_text kvs ''layerId'') (\<lambda>layer_id. bindE (get_text kvs ''layerKind'') (\<lambda>layer_kind.
     bindE (get_text kvs ''schemaId'') (\<lambda>schema_id. bindE (get_text kvs ''profileId'') (\<lambda>profile_id.
     bindE (get_text kvs ''stateRef'') (\<lambda>state_ref. bindE (get_text kvs ''digest'') (\<lambda>digest.
     bindE (get_int kvs ''recordCount'') (\<lambda>record_count.
       layer_ref_make \<lparr>lr_layer_id = layer_id, lr_layer_kind = layer_kind, lr_schema_id = schema_id,
         lr_profile_id = profile_id, lr_state_ref = state_ref, lr_digest = digest,
         lr_record_count = record_count\<rparr>))))))))"

definition layer_ref_ok :: "layer_ref \<Rightarrow> bool" where
  "layer_ref_ok r \<longleftrightarrow> layer_ref_make r = Inr r"

lemma layer_ref_make_ok: "layer_ref_make r = Inr r' \<longleftrightarrow> r' = r \<and> layer_ref_ok r"
  by (auto simp: layer_ref_ok_def layer_ref_make_def thenE_Inr_iff)

lemma layer_ref_read: "layer_ref_from (layer_ref_json r) = layer_ref_make r"
  by (cases r) (simp add: layer_ref_from_def layer_ref_json_def wire_simps)

lemma layer_ref_from_ok: "layer_ref_from v = Inr r \<Longrightarrow> layer_ref_ok r"
  by (auto simp: layer_ref_from_def bindE_Inr_iff layer_ref_make_ok)

interpretation layer: wire layer_ref_ok layer_ref_json layer_ref_from
  by (rule wireI [where construct = layer_ref_make])
    (simp_all add: layer_ref_ok_def layer_ref_read layer_ref_from_ok [unfolded layer_ref_ok_def])

record source_catalog_ref =
  sc_catalog_id :: string
  sc_locator :: string
  sc_digest :: string

definition source_catalog_ref_make :: "source_catalog_ref \<Rightarrow> source_catalog_ref result" where
  "source_catalog_ref_make r =
     thenE (check_texts [(''catalog_id'', sc_catalog_id r), (''catalog locator'', sc_locator r)])
    (thenE (check_digest (sc_digest r) ''catalog digest'') (Inr r))"

definition source_catalog_ref_json :: "source_catalog_ref \<Rightarrow> json" where
  "source_catalog_ref_json r = JObj [(''catalogId'', JStr (sc_catalog_id r)),
     (''locator'', JStr (sc_locator r)), (''digest'', JStr (sc_digest r))]"

definition source_catalog_ref_from :: "json \<Rightarrow> source_catalog_ref result" where
  "source_catalog_ref_from value =
     bindE (closed_shape value [''catalogId'', ''locator'', ''digest''] ''source catalog reference'') (\<lambda>kvs.
     bindE (get_text kvs ''catalogId'') (\<lambda>catalog_id. bindE (get_text kvs ''locator'') (\<lambda>locator.
     bindE (get_text kvs ''digest'') (\<lambda>digest.
       source_catalog_ref_make \<lparr>sc_catalog_id = catalog_id, sc_locator = locator, sc_digest = digest\<rparr>))))"

definition source_catalog_ref_ok :: "source_catalog_ref \<Rightarrow> bool" where
  "source_catalog_ref_ok r \<longleftrightarrow> source_catalog_ref_make r = Inr r"

lemma source_catalog_ref_make_ok: "source_catalog_ref_make r = Inr r' \<longleftrightarrow> r' = r \<and> source_catalog_ref_ok r"
  by (auto simp: source_catalog_ref_ok_def source_catalog_ref_make_def thenE_Inr_iff)

lemma source_catalog_ref_read: "source_catalog_ref_from (source_catalog_ref_json r) = source_catalog_ref_make r"
  by (cases r) (simp add: source_catalog_ref_from_def source_catalog_ref_json_def wire_simps)

lemma source_catalog_ref_from_ok: "source_catalog_ref_from v = Inr r \<Longrightarrow> source_catalog_ref_ok r"
  by (auto simp: source_catalog_ref_from_def bindE_Inr_iff source_catalog_ref_make_ok)

interpretation catalog_ref: wire source_catalog_ref_ok source_catalog_ref_json source_catalog_ref_from
  by (rule wireI [where construct = source_catalog_ref_make])
    (simp_all add: source_catalog_ref_ok_def source_catalog_ref_read source_catalog_ref_from_ok [unfolded source_catalog_ref_ok_def])

end
