(* ===== verification/Retained_Publication.thy ===== *)
theory Retained_Publication
  imports Retention_Closure Core_Encoding Wire_Records
begin

text \<open>
  What src/src/docspec/application/core_publication.py does with the closure: the invariants across
  its records, the evidence behind new associations, the versions the commit must find unchanged, the
  readiness of the retained bytes, and the attempts of a session to commit. The blob store, the
  evaluator of selected values, the assessment of dependencies and the commit of the ledger are ports.
\<close>

section \<open>Invariants across the records\<close>

definition value_at :: "publication_check \<Rightarrow> record_key \<Rightarrow> core_record result" where
  "value_at c key = (case map_of (pc_values c) key of None \<Rightarrow> Inl (KeyError (snd key)) | Some value \<Rightarrow> Inr value)"

definition wrong_kind :: error where
  "wrong_kind = IllTyped ''a key holds a record of another kind''"

text \<open>A plain value is read as the record its key names.\<close>

definition entity_at :: "publication_check \<Rightarrow> string \<Rightarrow> entity result" where
  "entity_at c identity = bindE (value_at c (''entity'', identity))
     (\<lambda>value. case value of EntityRecord r \<Rightarrow> Inr r | _ \<Rightarrow> Inl wrong_kind)"

definition request_at :: "publication_check \<Rightarrow> string \<Rightarrow> request result" where
  "request_at c identity = bindE (value_at c (''request'', identity))
     (\<lambda>value. case value of RequestRecord r \<Rightarrow> Inr r | _ \<Rightarrow> Inl wrong_kind)"

definition operation_at :: "publication_check \<Rightarrow> string \<Rightarrow> operation_definition result" where
  "operation_at c identity = bindE (value_at c (''operation_definition'', identity))
     (\<lambda>value. case value of DefinitionRecord r \<Rightarrow> Inr r | _ \<Rightarrow> Inl wrong_kind)"

definition execution_at :: "publication_check \<Rightarrow> string \<Rightarrow> execution result" where
  "execution_at c identity = bindE (value_at c (''execution'', identity))
     (\<lambda>value. case value of ExecutionRecord r \<Rightarrow> Inr r | _ \<Rightarrow> Inl wrong_kind)"

definition result_at :: "publication_check \<Rightarrow> string \<Rightarrow> result_record result" where
  "result_at c identity = bindE (value_at c (''result'', identity))
     (\<lambda>value. case value of ResultRecord r \<Rightarrow> Inr r | _ \<Rightarrow> Inl wrong_kind)"

definition selection_at :: "publication_check \<Rightarrow> string \<Rightarrow> selection result" where
  "selection_at c identity = bindE (value_at c (''selection'', identity))
     (\<lambda>value. case value of SelectionRecord r \<Rightarrow> Inr r | _ \<Rightarrow> Inl wrong_kind)"

definition revision_at :: "publication_check \<Rightarrow> string \<Rightarrow> revision result" where
  "revision_at c identity = bindE (value_at c (''revision'', identity))
     (\<lambda>value. case value of RevisionRecord r \<Rightarrow> Inr r | _ \<Rightarrow> Inl wrong_kind)"

text \<open>\<open>_validate\<close>. The order of a Python set is arbitrary; here it is the order of the keys, which decides
  only the refusal that is raised first.\<close>

definition check_execution :: "publication_check \<Rightarrow> execution \<Rightarrow> unit result" where
  "check_execution c value =
     bindE (request_at c (ex_request_id value)) (\<lambda>request.
     bindE (operation_at c (rq_definition_id request)) (\<lambda>operation.
       refuse (od_operation_kind operation = Capture \<and> ex_capture_origin value = None)
         (IntegrityError ''retained capture result requires its originating occurrence'')))"

definition check_member :: "publication_check \<Rightarrow> membership \<Rightarrow> unit result" where
  "check_member c member =
     bindE (entity_at c (mb_occurrence_id member)) (\<lambda>entity.
       refuse (en_entity_type entity \<noteq> Occurrence)
         (IntegrityError ''state membership must identify an occurrence entity''))"

definition check_revision_result :: "publication_check \<Rightarrow> state_representation \<Rightarrow> string \<Rightarrow> unit result" where
  "check_revision_result c value revision_id =
     bindE (revision_at c revision_id) (\<lambda>revision.
       refuse (rv_result_state_id revision \<noteq> sr_state_id value)
         (IntegrityError ''state representation names another revision result''))"

definition check_required :: "publication_check \<Rightarrow> record_key \<Rightarrow> unit result" where
  "check_required c key =
     bindE (value_at c key) (\<lambda>value. case value of
       ExecutionRecord value \<Rightarrow> check_execution c value
     | RepresentationRecord value \<Rightarrow>
         thenE (case sr_membership value of Inl rows \<Rightarrow> eachE (check_member c) rows | Inr _ \<Rightarrow> Inr ())
           (case sr_revision_id value of None \<Rightarrow> Inr () | Some revision \<Rightarrow> check_revision_result c value revision)
     | _ \<Rightarrow> Inr ())"

definition known_identities :: "publication_check \<Rightarrow> string \<Rightarrow> string set" where
  "known_identities c kind = snd ` set (filter (\<lambda>key. fst key = kind) (map fst (pc_values c)))"

definition validate_closure :: "publication_check \<Rightarrow> unit result" where
  "validate_closure c =
     thenE (refuse (known_identities c ''entity'' \<inter> known_identities c ''state'' \<noteq> {})
        (IntegrityError ''data identity is ambiguous between an entity and a state''))
       (eachE (check_required c) (sorted_list_of_set (pc_required c)))"

section \<open>Evidence of associations\<close>

record assessment =
  as_definition :: operation_definition
  as_dependencies :: "(string \<times> selector \<times> comparison_evidence) list"
  as_digest :: "string option"
  as_adequate :: bool
  as_versions :: "(record_key \<times> int) list"
  as_supports :: "record_key list"

record dependency_owner =
  dn_assess :: "publication_check \<Rightarrow> request \<Rightarrow> operation_definition \<Rightarrow> assessment result"
  dn_assess_result :: "publication_check \<Rightarrow> string \<Rightarrow> assessment result"

text \<open>\<open>corresponds\<close> of application/core_dependencies.py.\<close>

definition corresponds :: "platform \<Rightarrow> assessment \<Rightarrow> assessment \<Rightarrow> bool result" where
  "corresponds P requested retained =
     (if as_adequate requested \<and> as_adequate retained \<and> as_digest requested \<noteq> None \<and> as_digest requested = as_digest retained
      then bindE (correspondence_bytes P (as_definition requested) (as_dependencies requested)) (\<lambda>wanted.
           bindE (correspondence_bytes P (as_definition retained) (as_dependencies retained)) (\<lambda>held.
             Inr (wanted = held)))
      else Inr False)"

text \<open>\<open>dict.update\<close> and \<open>setdefault\<close> on the versions.\<close>

definition update_versions :: "(record_key \<times> int) list \<Rightarrow> (record_key \<times> int) list \<Rightarrow> (record_key \<times> int) list" where
  "update_versions versions newer = foldl (\<lambda>vs (key, version). dict_set vs key version) versions newer"

definition default_version :: "(record_key \<times> int) list \<Rightarrow> record_key \<times> int \<Rightarrow> (record_key \<times> int) list" where
  "default_version versions kv = (if map_of versions (fst kv) = None then versions @ [kv] else versions)"

text \<open>
  \<open>_validate_selections\<close>: for each association that is new, the execution of the chosen result, and, unless
  the result answers this very request in this unit, the correspondence of the two assessments.
\<close>

definition check_evidence ::
    "platform \<Rightarrow> dependency_owner \<Rightarrow> metadata_batch \<Rightarrow> publication_check \<Rightarrow> selection \<Rightarrow> (assessment \<times> assessment) result" where
  "check_evidence P D batch c value =
     (let original_key = (''result'', sl_selected_result_id value) in
      thenE (refuse (\<not> stored_with (\<lambda>row. map_of (rev (mt_expected_versions batch)) original_key = Some (so_evidence_version row)) c original_key)
        (StaleBaseError ''selected result dependency evidence changed''))
     (bindE (request_at c (sl_request_id value)) (\<lambda>requested.
      bindE (operation_at c (rq_definition_id requested)) (\<lambda>operation.
      bindE (dn_assess D c requested operation) (\<lambda>current.
      bindE (dn_assess_result D c (sl_selected_result_id value)) (\<lambda>prior.
      bindE (corresponds P current prior) (\<lambda>same.
      thenE (refuse (\<not> same) (IntegrityError ''selected result does not correspond to the adequately described request''))
        (Inr (current, prior)))))))))"

type_synonym selection_evidence = "publication_check \<times> (record_key \<times> int) list \<times> record_key list"

definition validate_selection ::
    "platform \<Rightarrow> dependency_owner \<Rightarrow> metadata_batch \<Rightarrow> selection_evidence \<Rightarrow> record_key \<Rightarrow> selection_evidence result" where
  "validate_selection P D batch st key = (case st of (c, versions, supports) \<Rightarrow>
     bindE (selection_at c (snd key)) (\<lambda>value.
     bindE (result_at c (sl_selected_result_id value)) (\<lambda>chosen.
     bindE (execution_at c (rt_execution_id chosen)) (\<lambda>execution.
       if (''result'', sl_selected_result_id value) \<in> pc_roots c \<and> ex_request_id execution = sl_request_id value
       then Inr (c, versions, supports)
       else bindE (check_evidence P D batch c value) (\<lambda>(current, prior).
         Inr (c\<lparr>pc_links := pc_links c \<union> (\<lambda>support. \<lparr>ml_owner = key, ml_relation = ''requires'',
                  ml_label = ''comparison_evidence'', ml_target = support\<rparr>) ` set (as_supports prior)\<rparr>,
              update_versions (update_versions versions (as_versions current)) (as_versions prior),
              supports @ as_supports prior))))))"

definition new_selections :: "publication_check \<Rightarrow> record_key list" where
  "new_selections c = filter (\<lambda>key. fst key = ''selection'' \<and> \<not> stored_with so_retained c key)
     (sorted_list_of_set (pc_required c))"

definition validate_selections ::
    "platform \<Rightarrow> dependency_owner \<Rightarrow> retained_store \<Rightarrow> metadata_batch \<Rightarrow> publication_check
       \<Rightarrow> (publication_check \<times> (record_key \<times> int) list) result" where
  "validate_selections P D S batch c =
     (if new_selections c = [] then Inr (c, [])
      else bindE (foldE (validate_selection P D batch) (c, [], []) (new_selections c)) (\<lambda>(c, versions, supports).
        bindE (load_keys load_depth P S c supports) (\<lambda>c.
          Inr (c\<lparr>pc_required := pc_required c \<union> set supports, pc_full := pc_full c \<union> set supports\<rparr>, versions))))"

section \<open>Content\<close>

text \<open>
  The blob store and the evaluator of selected values. A session marks under each blob reference the
  codecs it has found ready.
\<close>

record content_owner =
  cn_stat :: "blob_ref \<Rightarrow> unit result"
  cn_ensure_ready :: "blob_ref \<Rightarrow> unit result"
  cn_read :: "blob_ref \<Rightarrow> bytes result"
  cn_check_selection :: "(publication_check \<Rightarrow> selected_value \<Rightarrow> bool \<Rightarrow> unit result) option"

type_synonym ready_marks = "(blob_ref \<times> content_codec) set"

definition content_reference :: "content_ref \<Rightarrow> blob_ref" where
  "content_reference content = \<lparr>br_locator = cr_locator content, br_digest = cr_digest content,
     br_byte_size = cr_byte_size content, br_media_type = cr_media_type content\<rparr>"

definition read_content :: "platform \<Rightarrow> content_owner \<Rightarrow> content_ref \<Rightarrow> json result" where
  "read_content P B content =
     thenE (refuse (cr_codec content \<noteq> JsonV1) (IntegrityError ''JSON reading requires the JSON value codec''))
    (bindE (blob_ref_make (content_reference content)) (\<lambda>reference.
     bindE (cn_read B reference) (\<lambda>data. decode_canonical_json_value P data ''retained JSON value'')))"

text \<open>\<open>check_content\<close>. The marks are part of the session, so they are returned with a failure as well.\<close>

definition check_content ::
    "platform \<Rightarrow> content_owner \<Rightarrow> bool \<Rightarrow> (json \<Rightarrow> unit result) option \<Rightarrow> ready_marks \<Rightarrow> content_ref \<Rightarrow> ready_marks \<times> unit result" where
  "check_content P B retained validator ready content =
     (case blob_ref_make (content_reference content) of Inl e \<Rightarrow> (ready, Inl e) | Inr reference \<Rightarrow>
      if (reference, cr_codec content) \<in> ready \<and> Option.is_none validator then (ready, Inr ())
      else case (if retained then cn_stat B reference
                 else if (reference, BytesV1) \<notin> ready then cn_ensure_ready B reference else Inr ()) of
        Inl e \<Rightarrow> (ready, Inl e)
      | Inr _ \<Rightarrow>
          let ready = insert (reference, BytesV1) ready in
          case (if cr_codec content = JsonV1 \<and> (\<not> retained \<or> \<not> Option.is_none validator)
                then bindE (read_content P B content) (\<lambda>decoded. case validator of None \<Rightarrow> Inr () | Some check \<Rightarrow> check decoded)
                else Inr ()) of
            Inl e \<Rightarrow> (ready, Inl e)
          | Inr _ \<Rightarrow> (insert (reference, cr_codec content) ready, Inr ()))"

text \<open>\<open>_content\<close> for one key of the closure.\<close>

definition content_of :: "core_record \<Rightarrow> content_ref option" where
  "content_of value = (case value of
     EntityRecord r \<Rightarrow> (case en_value r of ContentRef content \<Rightarrow> Some content | _ \<Rightarrow> None)
   | SelectedValueRecord r \<Rightarrow> (case sv_value r of Retained (ContentRef content) \<Rightarrow> Some content | _ \<Rightarrow> None)
   | RevisionRecord r \<Rightarrow> (case rv_edits r of Inr content \<Rightarrow> Some content | _ \<Rightarrow> None)
   | _ \<Rightarrow> None)"

definition selects_members :: "selector \<Rightarrow> bool" where
  "selects_members sel = (case sel of StateMembers _ \<Rightarrow> True | _ \<Rightarrow> False)"

definition kept_before :: "publication_check \<Rightarrow> record_key \<Rightarrow> bool" where
  "kept_before c key \<longleftrightarrow> stored_with (\<lambda>row. so_retained row \<and> so_available row) c key"

definition evaluate_selection :: "content_owner \<Rightarrow> publication_check \<Rightarrow> record_key \<Rightarrow> core_record \<Rightarrow> unit result" where
  "evaluate_selection B c key value = (case value of
     SelectedValueRecord r \<Rightarrow>
       (case cn_check_selection B of
          None \<Rightarrow> refuse (selects_members (sv_definition r) \<or> sv_value r = FromParent)
            (IntegrityError ''selected members and parent recovery require the selected-value evaluator'')
        | Some check \<Rightarrow> check c r (kept_before c key))
   | _ \<Rightarrow> Inr ())"

definition fields_validator :: "core_record \<Rightarrow> bool \<Rightarrow> (json \<Rightarrow> unit result) option" where
  "fields_validator value retained = (case value of
     SelectedValueRecord r \<Rightarrow>
       (case sv_definition r of
          ValueSelector (JsonFields selectors _) \<Rightarrow> if retained then None else Some (validate_fields_value selectors)
        | _ \<Rightarrow> None)
   | _ \<Rightarrow> None)"

definition check_key_content ::
    "platform \<Rightarrow> content_owner \<Rightarrow> publication_check \<Rightarrow> ready_marks \<Rightarrow> record_key \<Rightarrow> ready_marks \<times> unit result" where
  "check_key_content P B c ready key = (case value_at c key of
     Inl e \<Rightarrow> (ready, Inl e)
   | Inr value \<Rightarrow>
       (case evaluate_selection B c key value of
          Inl e \<Rightarrow> (ready, Inl e)
        | Inr _ \<Rightarrow>
            (case content_of value of
               None \<Rightarrow> (ready, Inr ())
             | Some content \<Rightarrow>
                 check_content P B (kept_before c key) (fields_validator value (kept_before c key)) ready content)))"

primrec check_contents ::
    "platform \<Rightarrow> content_owner \<Rightarrow> publication_check \<Rightarrow> ready_marks \<Rightarrow> record_key list \<Rightarrow> ready_marks \<times> unit result" where
  "check_contents P B c ready [] = (ready, Inr ())"
| "check_contents P B c ready (key # keys) = (case check_key_content P B c ready key of
     (ready, Inl e) \<Rightarrow> (ready, Inl e)
   | (ready, Inr _) \<Rightarrow> check_contents P B c ready keys)"

section \<open>The prepared batch\<close>

text \<open>The versions the commit must find: the caller's, those of the evidence, and those this check read.\<close>

definition existing_keys :: "publication_check \<Rightarrow> record_key list" where
  "existing_keys c = sorted_list_of_set (pc_required c - pc_incoming c)"

definition guard_existing ::
    "publication_check \<Rightarrow> (record_key \<times> int) list \<Rightarrow> record_key \<Rightarrow> (record_key \<times> int) list result" where
  "guard_existing c versions key = (case map_of (pc_stored c) key of
     Some row \<Rightarrow>
       thenE (refuse (\<not> so_retained row) (IntegrityError ''required existing data or descriptions were not retained''))
         (Inr (if map_of (pc_members c) key = None then default_version versions (key, so_evidence_version row) else versions))
   | None \<Rightarrow> Inl (IntegrityError ''required existing data or descriptions were not retained''))"

definition expected_versions ::
    "metadata_batch \<Rightarrow> publication_check \<Rightarrow> (record_key \<times> int) list \<Rightarrow> (record_key \<times> int) list result" where
  "expected_versions batch c selection_versions =
     foldE (guard_existing c) (foldl default_version (update_versions [] (mt_expected_versions batch)) selection_versions)
       (existing_keys c)"

text \<open>Records a computation of this session produced must still be the ones it vouched for.\<close>

definition witness_links ::
    "platform \<Rightarrow> publication_check \<Rightarrow> (record_key \<times> bytes \<times> metadata_link) list \<Rightarrow> metadata_link set result" where
  "witness_links P c computed = foldE (\<lambda>links (key, payload, link).
     if key \<in> pc_required c \<and> key \<in> pc_incoming c
     then bindE (value_at c key) (\<lambda>value. bindE (canonical_value_bytes P (plain_record value)) (\<lambda>current.
            thenE (refuse (current \<noteq> payload) (IntegrityError ''computed record differs from its publication witness''))
              (Inr (insert link links))))
     else Inr links) (pc_links c) computed"

definition link_order :: "metadata_link \<Rightarrow> record_key \<times> string \<times> string \<times> record_key" where
  "link_order link = (ml_owner link, ml_relation link, ml_label link, ml_target link)"

definition sorted_links :: "metadata_link set \<Rightarrow> metadata_link list" where
  "sorted_links links = map (\<lambda>(owner, relation, label, target).
     \<lparr>ml_owner = owner, ml_relation = relation, ml_label = label, ml_target = target\<rparr>) (sorted_list_of_set (link_order ` links))"

definition prepare_batch ::
    "platform \<Rightarrow> (record_key \<times> bytes \<times> metadata_link) list \<Rightarrow> metadata_batch \<Rightarrow> publication_check \<Rightarrow> (record_key \<times> int) list
       \<Rightarrow> metadata_batch result" where
  "prepare_batch P computed batch c selection_versions =
     bindE (expected_versions batch c selection_versions) (\<lambda>versions.
     bindE (witness_links P c computed) (\<lambda>links.
       Inr (batch\<lparr>mt_retained := sorted_list_of_set (pc_required c), mt_links := sorted_links links,
                  mt_expected_versions := sort versions\<rparr>)))"

text \<open>\<open>_origin_members\<close>: the bulk parents that new direct selections name.\<close>

definition origin_parents :: "retained_store \<Rightarrow> publication_check \<Rightarrow> string list \<times> bool" where
  "origin_parents S c =
     (let named = List.map_filter (\<lambda>(key, value). case value of
            SelectedValueRecord r \<Rightarrow>
              if key \<in> pc_incoming c \<and> \<not> selects_members (sv_definition r) then Some (or_parent_entity_id (sv_origin r)) else None
          | _ \<Rightarrow> None) (pc_values c);
          unknown = filter (\<lambda>identity. identity \<notin> known_identities c ''entity'' \<union> known_identities c ''state'') (remdups named) in
      (filter (\<lambda>identity. rs_rows S (''entity'', identity) = None \<and> rs_rows S (''state'', identity) = None) unknown, unknown \<noteq> []))"

definition origin_members ::
    "platform \<Rightarrow> retained_store \<Rightarrow> string list \<Rightarrow> (record_key \<times> core_record \<times> member_location) list result" where
  "origin_members P S parents = foldE (\<lambda>members identity.
     case rs_locate S identity of
       None \<Rightarrow> Inr members
     | Some location \<Rightarrow> bindE (member_record P S identity) (\<lambda>found. case found of
         None \<Rightarrow> Inr members
       | Some (record, payload) \<Rightarrow> Inr (members @ [((''entity'', identity), record, location)]))) [] parents"

definition brings_bulk_state :: "publication_check \<Rightarrow> bool" where
  "brings_bulk_state c \<longleftrightarrow> (\<exists>(key, value) \<in> set (pc_values c). key \<in> pc_required c \<and> key \<in> pc_incoming c \<and>
     (case value of RepresentationRecord r \<Rightarrow> \<not> isl (sr_membership r) | _ \<Rightarrow> False))"

definition with_members ::
    "platform \<Rightarrow> retained_store \<Rightarrow> int option \<Rightarrow> publication_check \<Rightarrow> metadata_batch \<Rightarrow> metadata_batch result" where
  "with_members P S mark c prepared =
     (let (parents, parents_read) = origin_parents S c;
          pinned = filter (\<lambda>(key, _). key \<in> pc_required c) (pc_members c) in
      bindE (origin_members P S parents) (\<lambda>origins.
      let members = foldl (\<lambda>kept (key, member). dict_set kept key member) pinned origins;
          sent = (if pc_identity_read c \<or> parents_read \<or> members \<noteq> [] \<or> brings_bulk_state c then mark else None) in
      Inr (prepared\<lparr>mt_members := map (\<lambda>(key, record, location). (record, mw_layer location)) (sort_key fst members),
                    mt_identity_mark := sent\<rparr>)))"

section \<open>The check of one attempt\<close>

text \<open>The ledger as one attempt sees it, and the computed records and content marks of the session.\<close>

record ledger_view =
  lv_mark :: int
  lv_store :: retained_store
  lv_committed :: "string \<Rightarrow> bool"
  lv_commit :: "metadata_batch \<Rightarrow> bool result"

record publication_ports =
  pp_content :: content_owner
  pp_dependencies :: dependency_owner

type_synonym computed_records = "(record_key \<times> bytes \<times> metadata_link) list"

text \<open>\<open>publish\<close> of the check: the closure with its evidence, and the prepared batch.\<close>

definition prepare_publication ::
    "platform \<Rightarrow> publication_ports \<Rightarrow> ledger_view \<Rightarrow> computed_records \<Rightarrow> metadata_batch \<Rightarrow> (publication_check \<times> metadata_batch) result" where
  "prepare_publication P E L computed batch =
     bindE (retention_closure P (lv_store L) batch) (\<lambda>c.
     thenE (validate_closure c)
    (bindE (if lv_committed L (mt_unit_id batch) then Inr (c, [])
            else validate_selections P (pp_dependencies E) (lv_store L) batch c) (\<lambda>(c, selection_versions).
     bindE (prepare_batch P computed batch c selection_versions) (\<lambda>prepared.
       Inr (c, prepared)))))"

record attempt =
  at_ready :: ready_marks
  at_check :: "publication_check option"
  at_sent :: "metadata_batch option"
  at_answer :: "bool result"

definition check_publish ::
    "platform \<Rightarrow> publication_ports \<Rightarrow> ledger_view \<Rightarrow> computed_records \<Rightarrow> ready_marks \<Rightarrow> metadata_batch \<Rightarrow> attempt" where
  "check_publish P E L computed ready batch =
     (case prepare_publication P E L computed batch of
        Inl e \<Rightarrow> \<lparr>at_ready = ready, at_check = None, at_sent = None, at_answer = Inl e\<rparr>
      | Inr (c, prepared) \<Rightarrow>
          if lv_committed L (mt_unit_id batch)
          then \<lparr>at_ready = ready, at_check = Some c, at_sent = Some prepared, at_answer = lv_commit L prepared\<rparr>
          else case check_contents P (pp_content E) c ready (sorted_list_of_set (pc_full c)) of
            (ready, Inl e) \<Rightarrow> \<lparr>at_ready = ready, at_check = Some c, at_sent = None, at_answer = Inl e\<rparr>
          | (ready, Inr _) \<Rightarrow>
              (case with_members P (lv_store L) (Some (lv_mark L)) c prepared of
                 Inl e \<Rightarrow> \<lparr>at_ready = ready, at_check = Some c, at_sent = None, at_answer = Inl e\<rparr>
               | Inr sent \<Rightarrow> \<lparr>at_ready = ready, at_check = Some c, at_sent = Some sent, at_answer = lv_commit L sent\<rparr>))"

section \<open>A session\<close>

text \<open>
  The fields of \<open>Publication\<close> that \<open>publish\<close> changes, but for its caches of bulk members. The mark the session
  has seen and the identities it minted decide which identities later checks search for.
\<close>

record session =
  se_active :: bool
  se_ready :: ready_marks
  se_minted :: "string list"
  se_identity_seen :: "int option"
  se_computed :: computed_records

definition identity_attempts :: nat where "identity_attempts = 5"

definition data_identities :: "core_record list \<Rightarrow> string list" where
  "data_identities records = map (\<lambda>r. snd (record_key_of r))
     (filter (\<lambda>r. fst (record_key_of r) \<in> {''entity'', ''state''}) records)"

definition forget_minted :: "metadata_batch \<Rightarrow> session \<Rightarrow> session" where
  "forget_minted batch s =
     s\<lparr>se_minted := filter (\<lambda>identity. identity \<notin> set (data_identities (mt_records batch))) (se_minted s)\<rparr>"

definition minted_view :: "session \<Rightarrow> ledger_view \<Rightarrow> ledger_view" where
  "minted_view s L = L\<lparr>lv_store := (lv_store L)\<lparr>rs_minted := se_minted s\<rparr>\<rparr>"

definition batch_shape :: "metadata_batch \<Rightarrow> unit result" where
  "batch_shape batch =
     thenE (refuse (mt_links batch \<noteq> []) (IntegrityError ''the publisher owns retention relationship construction''))
       (refuse (batch_rows < length (mt_records batch))
         (LimitExceededError ''publication requires a bounded collection of at most 2048 records''))"

text \<open>\<open>retention_scope\<close>, which is \<open>publish(validate_only=True)\<close> of the check: the same closure, and everything in
  it still available.\<close>

definition retention_scope ::
    "platform \<Rightarrow> publication_ports \<Rightarrow> ledger_view \<Rightarrow> session \<Rightarrow> metadata_batch \<Rightarrow> session \<times> (record_key list \<times> record_key list) result" where
  "retention_scope P E L s batch =
     (case thenE (refuse (\<not> se_active s) (StateTransitionError ''publication session is closed''))
          (thenE (batch_shape batch)
          (bindE (retention_closure P (lv_store (minted_view s L)) batch) (\<lambda>c.
           thenE (validate_closure c)
          (bindE (prepare_batch P (se_computed s) batch c []) (\<lambda>_.
           thenE (refuse (\<exists>key \<in> pc_required c - pc_incoming c. \<not> stored_with so_available c key)
             (IntegrityError ''checkpoint requires data that is no longer available''))
             (Inr c)))))) of
        Inl e \<Rightarrow> (s, Inl e)
      | Inr c \<Rightarrow>
          (case check_contents P (pp_content E) c (se_ready s) (sorted_list_of_set (pc_full c)) of
             (ready, Inl e) \<Rightarrow> (s\<lparr>se_ready := ready\<rparr>, Inl e)
           | (ready, Inr _) \<Rightarrow>
               (s\<lparr>se_ready := ready\<rparr>, Inr (sorted_list_of_set (pc_required c), sorted_list_of_set (pc_full c)))))"

text \<open>
  The attempts: each reads the mark and the ledger afresh, runs the caller's own identity check and then its own; an
  \<open>IdentitiesChangedError\<close> starts the next one while one is left. \<open>views i\<close> is the ledger of attempt \<open>i\<close>.
\<close>

primrec publish_attempts ::
    "nat \<Rightarrow> nat \<Rightarrow> platform \<Rightarrow> publication_ports \<Rightarrow> (nat \<Rightarrow> ledger_view) \<Rightarrow> (nat \<Rightarrow> unit result) \<Rightarrow> session
       \<Rightarrow> metadata_batch \<Rightarrow> session \<times> nat \<times> attempt" where
  "publish_attempts 0 i P E views checks s batch =
     (s, i, \<lparr>at_ready = se_ready s, at_check = None, at_sent = None, at_answer = Inl NoReturn\<rparr>)"
| "publish_attempts (Suc n) i P E views checks s batch =
     (let L = minted_view s (views i);
          s = s\<lparr>se_identity_seen := Some (lv_mark L)\<rparr>;
          a = (case checks i of
            Inl e \<Rightarrow> \<lparr>at_ready = se_ready s, at_check = None, at_sent = None, at_answer = Inl e\<rparr>
          | Inr _ \<Rightarrow> check_publish P E L (se_computed s) (se_ready s) batch);
          s = s\<lparr>se_ready := at_ready a\<rparr> in
      case (checks i, at_answer a, n) of
        (Inr _, Inl (IdentitiesChangedError _), Suc _) \<Rightarrow> publish_attempts n (Suc i) P E views checks s batch
      | _ \<Rightarrow> (s, i, a))"

definition published_session :: "metadata_batch \<Rightarrow> ledger_view \<Rightarrow> attempt \<Rightarrow> session \<Rightarrow> session" where
  "published_session batch L a s = (case (at_answer a, at_check a, at_sent a) of
     (Inr committed, Some c, Some sent) \<Rightarrow>
       s\<lparr>se_identity_seen := (if committed \<and> \<not> lv_committed L (mt_unit_id batch) \<and> mt_identity_mark sent \<noteq> None
              \<and> se_identity_seen s = Some (lv_mark L) then Some (lv_mark L + 1) else se_identity_seen s),
         se_computed := filter (\<lambda>(key, _). \<not> (key \<in> pc_incoming c \<and> key \<in> pc_required c)) (se_computed s)\<rparr>
   | _ \<Rightarrow> forget_minted batch s)"

definition publish ::
    "platform \<Rightarrow> publication_ports \<Rightarrow> (nat \<Rightarrow> ledger_view) \<Rightarrow> (nat \<Rightarrow> unit result) \<Rightarrow> session \<Rightarrow> metadata_batch
       \<Rightarrow> session \<times> metadata_batch option \<times> bool result" where
  "publish P E views checks s batch =
     (case thenE (refuse (\<not> se_active s) (StateTransitionError ''publication session is closed'')) (batch_shape batch) of
        Inl e \<Rightarrow> (s, None, Inl e)
      | Inr _ \<Rightarrow>
          (case publish_attempts identity_attempts 0 P E views checks s batch of
             (s, i, a) \<Rightarrow> (published_session batch (views i) a s, at_sent a, at_answer a)))"

end
