(* ===== verification/Publication_Checks.thy ===== *)
theory Publication_Checks
  imports Retained_Publication
begin

text \<open>
  What a publication has checked when it commits: the versions it guards, the records and the content it
  relies on, and the reading of the ledger its identity mark stands for.
\<close>

section \<open>What a prepared publication guards\<close>

lemma update_versions_keys [simp]: "distinct (map fst vs) \<Longrightarrow> distinct (map fst (update_versions vs us))"
proof (induction us arbitrary: vs)
  case (Cons u us)
  from Cons.IH [OF distinct_dict_set [OF Cons.prems, of "fst u" "snd u"]] show ?case by (cases u) (simp add: update_versions_def)
qed (simp add: update_versions_def)

lemma update_versions_source:
  "kv \<in> set (update_versions vs us) \<Longrightarrow> kv \<in> set vs \<or> kv \<in> set us"
proof (induction us arbitrary: vs)
  case (Cons u us)
  then have "kv \<in> set (dict_set vs (fst u) (snd u)) \<or> kv \<in> set us"
    by (cases u) (auto simp: update_versions_def)
  moreover have "kv \<in> set vs \<or> kv = u" if "kv \<in> set (dict_set vs (fst u) (snd u))"
    using that by (induction vs) (auto split: if_splits)
  ultimately show ?case by auto
qed (simp add: update_versions_def)

lemma default_version_keeps:
  "map_of vs k = Some v \<Longrightarrow> map_of (default_version vs kv) k = Some v"
  by (auto simp: default_version_def map_add_def)

lemma default_version_distinct [simp]: "distinct (map fst vs) \<Longrightarrow> distinct (map fst (default_version vs kv))"
  by (auto simp: default_version_def map_of_eq_None_iff)

lemma default_versions_distinct [simp]: "distinct (map fst vs) \<Longrightarrow> distinct (map fst (foldl default_version vs us))"
  by (induction us arbitrary: vs) auto

lemma default_versions_source: "kv \<in> set (foldl default_version vs us) \<Longrightarrow> kv \<in> set vs \<or> kv \<in> set us"
proof (induction us arbitrary: vs)
  case (Cons u us)
  then have "kv \<in> set (default_version vs u) \<or> kv \<in> set us" by simp
  then show ?case by (auto simp: default_version_def split: if_splits)
qed simp

text \<open>A version in the guard is the caller's, one the evidence of an association was assessed at, or the one read.\<close>

definition guarded :: "publication_check \<Rightarrow> (record_key \<times> int) set \<Rightarrow> (record_key \<times> int) list \<Rightarrow> record_key \<Rightarrow> bool" where
  "guarded c given versions key \<longleftrightarrow> (\<exists>row. map_of (pc_stored c) key = Some row \<and> so_retained row \<and>
     (map_of (pc_members c) key = None \<longrightarrow>
       (\<exists>v. map_of versions key = Some v \<and> ((key, v) \<in> given \<or> v = so_evidence_version row))))"

lemma guard_fold:
  assumes "foldE (guard_existing c) vs keys = Inr vs'" "distinct (map fst vs)"
    "\<forall>kv \<in> set vs. kv \<in> given \<or> (\<exists>row. map_of (pc_stored c) (fst kv) = Some row \<and> snd kv = so_evidence_version row)"
  shows "distinct (map fst vs') \<and> (\<forall>k v. map_of vs k = Some v \<longrightarrow> map_of vs' k = Some v) \<and>
    (\<forall>key \<in> set keys. guarded c given vs' key)"
  using assms
proof (induction keys arbitrary: vs)
  case (Cons key keys)
  then obtain us where us: "guard_existing c vs key = Inr us" "foldE (guard_existing c) us keys = Inr vs'"
    by (auto simp: bindE_Inr_iff)
  from us(1) obtain row where row: "map_of (pc_stored c) key = Some row" "so_retained row"
    "us = (if map_of (pc_members c) key = None then default_version vs (key, so_evidence_version row) else vs)"
    by (auto simp: guard_existing_def thenE_Inr_iff refuse_Inr_iff split: option.splits if_splits)
  have us_ok: "distinct (map fst us)"
    "\<forall>kv \<in> set us. kv \<in> given \<or> (\<exists>row. map_of (pc_stored c) (fst kv) = Some row \<and> snd kv = so_evidence_version row)"
    using row Cons.prems(2,3) by (auto simp: default_version_def)
  note rest = Cons.IH [OF us(2) us_ok]
  have kept: "map_of us k = Some v" if "map_of vs k = Some v" for k v
    using that row(3) default_version_keeps by simp
  have "\<exists>v. map_of vs' key = Some v \<and> ((key, v) \<in> given \<or> v = so_evidence_version row)"
    if "map_of (pc_members c) key = None"
  proof -
    have "map_of us key \<noteq> None" using that row(3) by (simp add: default_version_def map_add_def)
    then obtain v where v: "map_of us key = Some v" by blast
    then have "(key, v) \<in> set us" by (rule map_of_SomeD)
    then have "(key, v) \<in> given \<or> v = so_evidence_version row" using us_ok(2) row(1) by fastforce
    then show ?thesis using rest v by blast
  qed
  then have "guarded c given vs' key" using row(1,2) by (simp add: guarded_def)
  then show ?case using rest kept unfolding list.set(2) by blast
qed simp

lemma expected_guard:
  assumes "expected_versions batch c sv = Inr versions"
  shows "distinct (map fst versions) \<and>
    (\<forall>key. key \<in> set (existing_keys c) \<longrightarrow> guarded c (set (mt_expected_versions batch) \<union> set sv) versions key) \<and>
    (\<forall>k v. map_of (foldl default_version (update_versions [] (mt_expected_versions batch)) sv) k = Some v \<longrightarrow> map_of versions k = Some v)"
proof -
  have "kv \<in> set (mt_expected_versions batch) \<union> set sv"
    if "kv \<in> set (foldl default_version (update_versions [] (mt_expected_versions batch)) sv)" for kv
    using default_versions_source [OF that] update_versions_source [of kv "[]"] by auto
  then have "\<forall>kv \<in> set (foldl default_version (update_versions [] (mt_expected_versions batch)) sv).
      kv \<in> set (mt_expected_versions batch) \<union> set sv \<or>
      (\<exists>row. map_of (pc_stored c) (fst kv) = Some row \<and> snd kv = so_evidence_version row)" by blast
  from guard_fold [OF assms [unfolded expected_versions_def] _ this] show ?thesis by (simp del: split_paired_All)
qed

text \<open>The evidence of associations adds links and supports; it takes nothing away.\<close>

definition more_links :: "publication_check \<Rightarrow> publication_check \<Rightarrow> bool" where
  "more_links c c' \<longleftrightarrow> c' = c\<lparr>pc_links := pc_links c'\<rparr> \<and> pc_links c \<subseteq> pc_links c'"

lemma more_links_intros [intro, simp]: "more_links c c" "pc_links c \<subseteq> links \<Longrightarrow> more_links c (c\<lparr>pc_links := links\<rparr>)"
  by (simp_all add: more_links_def)

lemma more_links_trans: "more_links c d \<Longrightarrow> more_links d e \<Longrightarrow> more_links c e"
  unfolding more_links_def
  by (metis (no_types, lifting) publication_check.update_convs(10) publication_check.surjective subset_trans)

lemma validate_selection_parts:
  "validate_selection P D batch (c, versions, supports) key = Inr (c', versions', supports') \<Longrightarrow> more_links c c'"
  unfolding validate_selection_def
  by (auto simp: bindE_Inr_iff split: if_split_asm)

lemma selections_fold:
  "foldE (validate_selection P D batch) (c, versions, supports) keys = Inr (c', versions', supports') \<Longrightarrow> more_links c c'"
proof (induction keys arbitrary: c versions supports)
  case (Cons key keys)
  then obtain d vs ss where step: "validate_selection P D batch (c, versions, supports) key = Inr (d, vs, ss)"
    "foldE (validate_selection P D batch) (d, vs, ss) keys = Inr (c', versions', supports')"
    by (auto simp: bindE_Inr_iff)
  show ?case using more_links_trans [OF validate_selection_parts [OF step(1)] Cons.IH [OF step(2)]] .
qed simp

lemma validate_selections_parts:
  assumes "spelled P" "validate_selections P D S batch c = Inr (c', evidence)"
  shows "\<exists>supports. pc_required c' = pc_required c \<union> set supports \<and> pc_full c' = pc_full c \<union> set supports \<and>
    pc_incoming c' = pc_incoming c \<and> pc_links c \<subseteq> pc_links c' \<and> (within_budget c \<longrightarrow> within_budget c') \<and>
    (new_selections c = [] \<longrightarrow> c' = c \<and> evidence = [])"
proof (cases "new_selections c = []")
  case True
  then have "pc_required c' = pc_required c \<union> set []" "c' = c" "evidence = []" using assms(2) by (simp_all add: validate_selections_def)
  then show ?thesis using True by (intro exI [of _ "[]"]) simp
next
  case False
  with assms(2) obtain d supports e where
    d: "foldE (validate_selection P D batch) (c, [], []) (new_selections c) = Inr (d, evidence, supports)" and
    e: "load_keys load_depth P S d supports = Inr e" and
    c': "c' = e\<lparr>pc_required := pc_required e \<union> set supports, pc_full := pc_full e \<union> set supports\<rparr>"
    by (auto simp: validate_selections_def bindE_Inr_iff)
  obtain links where links: "d = c\<lparr>pc_links := links\<rparr>" "pc_links c \<subseteq> links"
    using selections_fold [OF d] unfolding more_links_def by blast
  have ext: "extends d e" by (rule load_keys_extends [OF assms(1) e])
  have "within_budget d" if "within_budget c" using that links(1) by (simp add: within_budget_def)
  then have "within_budget c'" if "within_budget c" using that within_budget_extends [OF _ ext] c' by (simp add: within_budget_def)
  then show ?thesis using extends_parts [OF ext] links c' False by (intro exI [of _ supports]) simp
qed

lemma closure_finite: "closing c [] \<Longrightarrow> finite (pc_required c)"
proof -
  assume "closing c []"
  then have "pc_required c \<subseteq> fst ` set (pc_values c)"
    by (fastforce simp: closing_def settled_def dest: map_of_SomeD intro: rev_image_eqI)
  then show ?thesis by (rule finite_subset) simp
qed

text \<open>
  C6. What a unit commits is what its check established: the retained keys are the closure and the
  supports of its evidence, and every record among them that the unit does not bring is in the ledger
  as retained, and is committed only against a version of it: the caller's, the one the evidence of an
  association was assessed at, or the one this check read. A bulk member the unit pins needs none.
\<close>

theorem publication_guarded:
  assumes "spelled P" "prepare_publication P E L computed batch = Inr (c, prepared)" "\<not> lv_committed L (mt_unit_id batch)"
  shows "\<exists>closure evidence. retention_closure P (lv_store L) batch = Inr closure \<and> validate_closure closure = Inr () \<and>
    validate_selections P (pp_dependencies E) (lv_store L) batch closure = Inr (c, evidence) \<and>
    set (mt_retained prepared) = pc_required c \<and> pc_required closure \<subseteq> pc_required c \<and>
    distinct (map fst (mt_expected_versions prepared)) \<and>
    (\<forall>key \<in> pc_required c - pc_incoming c.
       guarded c (set (mt_expected_versions batch) \<union> set evidence) (mt_expected_versions prepared) key)"
proof -
  from assms(2,3) obtain closure evidence where steps:
    "retention_closure P (lv_store L) batch = Inr closure" "validate_closure closure = Inr ()"
    "validate_selections P (pp_dependencies E) (lv_store L) batch closure = Inr (c, evidence)"
    "prepare_batch P computed batch c evidence = Inr prepared"
    unfolding prepare_publication_def by (auto simp: bindE_Inr_iff thenE_Inr_iff)
  then obtain versions links where versions: "expected_versions batch c evidence = Inr versions"
    and prepared: "mt_retained prepared = sorted_list_of_set (pc_required c)" "mt_expected_versions prepared = sort versions"
    by (auto simp: prepare_batch_def bindE_Inr_iff)
  have closed: "closing closure []" using retention_closure_closing [OF assms(1) steps(1)] by simp
  from validate_selections_parts [OF assms(1) steps(3)] obtain supports where
    parts: "pc_required c = pc_required closure \<union> set supports" by blast
  have fin: "finite (pc_required c)" using closure_finite [OF closed] parts by simp
  note guard = expected_guard [OF versions]
  have sorted: "distinct (map fst (sort versions))" using guard
    by (metis distinct_map distinct_sort set_sort)
  then have "map_of (sort versions) = map_of versions" using guard
    by (intro map_of_eqI) (auto simp: map_of_eq_None_iff sorted)
  then have same: "guarded c given (mt_expected_versions prepared) key = guarded c given versions key" for given key
    by (simp only: guarded_def prepared(2))
  have "guarded c (set (mt_expected_versions batch) \<union> set evidence) (mt_expected_versions prepared) key"
    if "key \<in> pc_required c - pc_incoming c" for key
  proof -
    have "key \<in> set (existing_keys c)" using that fin by (simp add: existing_keys_def)
    then show ?thesis using guard unfolding same by blast
  qed
  then show ?thesis using steps(1-3) sorted prepared parts fin by auto
qed

section \<open>Every record the check reads is there\<close>

text \<open>The ledger answers a key with the record of that key.\<close>

definition store_keyed :: "retained_store \<Rightarrow> bool" where
  "store_keyed S \<longleftrightarrow> (\<forall>key row value. rs_rows S key = Some row \<longrightarrow> so_value row = Some value \<longrightarrow> record_key_of value = key)"

definition keyed :: "publication_check \<Rightarrow> bool" where
  "keyed c \<longleftrightarrow> (\<forall>(key, value) \<in> set (pc_values c). record_key_of value = key)"

lemma keyed_update [simp]:
  "keyed (c\<lparr>pc_stored := x\<rparr>) = keyed c" "keyed (c\<lparr>pc_loaded := l\<rparr>) = keyed c" "keyed (c\<lparr>pc_members := m\<rparr>) = keyed c"
  "keyed (c\<lparr>pc_identity_read := b\<rparr>) = keyed c" "keyed (c\<lparr>pc_state_links_loaded := l\<rparr>) = keyed c"
  "keyed (c\<lparr>pc_links := L\<rparr>) = keyed c" "keyed (c\<lparr>pc_required := R\<rparr>) = keyed c" "keyed (c\<lparr>pc_full := F\<rparr>) = keyed c"
  by (simp_all add: keyed_def)

lemma keyed_cache:
  "cache_record key value payload c = Inr c' \<Longrightarrow> keyed c \<Longrightarrow> record_key_of value = key \<Longrightarrow> keyed c'"
  by (auto simp: cache_record_def keyed_def thenE_Inr_iff Let_def split: if_splits)

lemma keyed_row: "load_row P S v c key = Inr c' \<Longrightarrow> store_keyed S \<Longrightarrow> keyed c \<Longrightarrow> keyed c'"
proof (cases "rs_rows S key")
  case (Some stored)
  assume run: "load_row P S v c key = Inr c'" "store_keyed S" "keyed c"
  have key_of: "record_key_of x = key" if "so_value (if v then stored else stored\<lparr>so_value := None\<rparr>) = Some x" for x
    using run(2) Some that by (cases v; cases key) (auto simp: store_keyed_def)
  show ?thesis
  proof (cases "so_value (if v then stored else stored\<lparr>so_value := None\<rparr>)")
    case None
    then show ?thesis using run(1,3) Some
      by (auto simp: load_row_def Let_def bindE_Inr_iff thenE_Inr_iff split: option.splits)
  next
    case (Some x)
    note found = \<open>rs_rows S key = Some stored\<close> Some
    from run(1) obtain payload d where "cache_record key x payload d = Inr c'" "keyed d"
      using run(3) unfolding load_row_def found(1) option.case Let_def
      by (auto simp: found(2) bindE_Inr_iff thenE_Inr_iff split: if_splits)
    then show ?thesis using keyed_cache key_of [OF Some] by blast
  qed
qed (simp add: load_row_def)

lemma keyed_pin: "pin_member P S c m = Inr c' \<Longrightarrow> keyed c \<Longrightarrow> keyed c'"
  by (auto simp: pin_member_def member_record_def Let_def bindE_Inr_iff thenE_Inr_iff refuse_Inr_iff
      split: prod.splits option.splits core_record.splits dest!: keyed_cache)

lemma keyed_rows:
  assumes "load_rows P S c keys = Inr c'" "store_keyed S" "keyed c"
  shows "keyed c'"
proof (cases "filter (\<lambda>key. key \<notin> pc_loaded c) (remdups (concat (map key_forms keys))) = []")
  case True
  then show ?thesis using assms by (simp add: load_rows_def)
next
  case False
  define missing where "missing = sort (filter (\<lambda>key. key \<notin> pc_loaded c) (remdups (concat (map key_forms keys))))"
  have "missing \<noteq> []" using False unfolding missing_def by (metis set_empty set_sort)
  with assms(1) obtain d e l b pinned where
    d: "foldE (load_row P S False) c (filter (\<lambda>key. key \<in> pc_incoming c) missing) = Inr d" and
    e: "foldE (load_row P S True) d (filter (\<lambda>key. key \<notin> pc_incoming d) missing) = Inr e" and
    pinned: "foldE (pin_member P S) (e\<lparr>pc_loaded := l, pc_identity_read := b\<rparr>) pinned = Inr c'"
    unfolding load_rows_def Let_def missing_def [symmetric] by (auto simp: bindE_Inr_iff thenE_Inr_iff)
  have "keyed d" by (rule foldE_invariant [OF d, where P = keyed]) (use assms keyed_row in auto)
  then have "keyed e" using foldE_invariant [OF e, where P = keyed] assms(2) keyed_row by blast
  then have "keyed (e\<lparr>pc_loaded := l, pc_identity_read := b\<rparr>)" by simp
  then show ?thesis using foldE_invariant [OF pinned, where P = keyed] keyed_pin by blast
qed

lemma keyed_load: "load_keys n P S c keys = Inr c' \<Longrightarrow> store_keyed S \<Longrightarrow> keyed c \<Longrightarrow> keyed c'"
proof (induction n arbitrary: c keys)
  case (Suc n)
  then obtain d where "load_rows P S c keys = Inr d" by (auto simp: bindE_Inr_iff)
  moreover from keyed_rows [OF this Suc.prems(2,3)] have "keyed d" .
  then have "keyed c'" if "load_keys n P S (d\<lparr>pc_state_links_loaded := l\<rparr>) targets = Inr c'" for l targets
    using Suc.IH [OF that Suc.prems(2)] by simp
  ultimately show ?case using Suc.prems(1) \<open>keyed d\<close> by (auto simp: Let_def split: if_splits)
qed simp

text \<open>A representation is never kept as a description only.\<close>

definition whole_representations :: "publication_check \<Rightarrow> bool" where
  "whole_representations c \<longleftrightarrow> (\<forall>key \<in> pc_required c. fst key = ''state_representation'' \<longrightarrow> key \<in> pc_full c)"

definition whole_targets :: "(record_key \<times> bool) set \<Rightarrow> bool" where
  "whole_targets targets \<longleftrightarrow> (\<forall>(key, whole) \<in> targets. fst key = ''state_representation'' \<longrightarrow> whole)"

lemma whole_targetsI: "\<forall>x \<in> T. snd x \<Longrightarrow> whole_targets T"
  by (simp add: whole_targets_def case_prod_beta)

lemma selection_whole: "selection_requirements S batch c key r = Inr needed \<Longrightarrow> whole_targets (snd ` set needed)"
proof -
  assume run: "selection_requirements S batch c key r = Inr needed"
  have "snd (snd x)" if "mapE (selected_output outputs) labels = Inr outs" "x \<in> set outs" for outputs labels outs x
    using that by (induction labels arbitrary: outs) (auto simp: bindE_Inr_iff selected_output_iff)
  note outputs_whole = this
  obtain chosen outs extra where "map_of (pc_values c) (''result'', sl_selected_result_id r) = Some (ResultRecord chosen)"
    and parts: "mapE (selected_output (rev (map (\<lambda>output. (rb_label output, rb_entity_id output)) (oc_outputs (rt_outcome chosen)))))
        (sl_output_labels r) = Inr outs"
    "needed = [(''request'', (''request'', sl_request_id r), True), (''selected_result'', (''result'', sl_selected_result_id r), False)] @
       extra @ outs" "\<forall>x \<in> set extra. snd (snd x)"
    by (rule selection_requirements_parts [OF run])
  have "\<forall>x \<in> snd ` (set extra \<union> set outs). snd x" using outputs_whole [OF parts(1)] parts(3) by auto
  then have "whole_targets (snd ` (set extra \<union> set outs))" by (rule whole_targetsI)
  then show ?thesis unfolding parts(2) by (simp add: whole_targets_def image_Un)
qed

lemma requirements_whole:
  assumes "distinct (map fst (pc_values c))" and run: "requirements S batch c key whole = Inr needed"
  shows "whole_targets (snd ` set needed)"
proof -
  obtain v where v: "map_of (pc_values c) key = Some v"
    using run by (cases "map_of (pc_values c) key") (simp_all add: requirements_def)
  note run = run [unfolded requirements_def v option.case]
  show ?thesis
  proof (cases v)
    case (SelectionRecord r)
    then show ?thesis using run selection_whole by simp
  next
    case (StateRecord r)
    then show ?thesis using run state_requirement_represented [OF assms(1), of S "snd key" needed]
      by (auto simp: whole_targets_def split: if_splits)
  next
    case (ResultRecord r)
    then show ?thesis using run by (auto simp: whole_targets_def thenE_Inr_iff)
  next
    case (RequestRecord r)
    then show ?thesis using run by (auto simp: whole_targets_def)
  next
    case (RepresentationRecord r)
    then show ?thesis using run by (auto simp: whole_targets_def split: option.splits sum.splits)
  next
    case (SelectedValueRecord r)
    then show ?thesis using run by (auto simp: whole_targets_def split: if_splits option.splits selector.splits selected_source.splits)
  next
    case (RevisionRecord r)
    then show ?thesis using run by (auto simp: whole_targets_def)
  qed (use run in \<open>auto simp: whole_targets_def\<close>)
qed

definition orderly :: "publication_check \<Rightarrow> bool" where
  "orderly c \<longleftrightarrow> keyed c \<and> within_budget c \<and> whole_representations c"

lemma orderly_load:
  assumes "spelled P" "store_keyed S" "load_keys n P S c keys = Inr c'" "orderly c"
  shows "orderly c'"
proof -
  have ext: "extends c c'" by (rule load_keys_extends [OF assms(1,3)])
  have "whole_representations c'" using assms(4) extends_parts [OF ext] by (simp add: orderly_def whole_representations_def)
  then show ?thesis using assms keyed_load [OF assms(3,2)] within_budget_extends [OF _ ext] by (simp add: orderly_def)
qed

text \<open>The edges of a round ask for representations in full.\<close>

lemma orderly_expand:
  assumes "expand_key S batch (c, edges) (key, whole) = Inr (c', edges')" "orderly c"
    "fst key = ''state_representation'' \<longrightarrow> whole" "whole_targets (snd ` snd ` set edges)"
  shows "orderly c' \<and> whole_targets (snd ` snd ` set edges')"
proof -
  from assms(1) obtain k where k: "resolve_key c key = Inr k" by (auto simp: expand_key_def bindE_Inr_iff)
  then have rep: "fst k = ''state_representation'' \<longrightarrow> whole" using assms(3)
    by (auto simp: resolve_key_def split: if_splits)
  show ?thesis
  proof (cases "k \<in> pc_full c \<or> (k \<in> pc_required c \<and> \<not> whole)")
    case True
    then show ?thesis using assms(1,2,4) k by (simp add: expand_key_def)
  next
    case False
    let ?c = "c\<lparr>pc_required := insert k (pc_required c), pc_full := (if whole then insert k (pc_full c) else pc_full c)\<rparr>"
    from False assms(1) k obtain needed where needed: "requirements S batch ?c k whole = Inr needed"
      "c' = ?c" "edges' = edges @ map (\<lambda>(label, target, target_full). (k, label, target, target_full)) needed"
      by (auto simp: expand_key_def Let_def bindE_Inr_iff)
    have "distinct (map fst (pc_values ?c))" using assms(2) by (simp add: orderly_def within_budget_def)
    from requirements_whole [OF this needed(1)] have "whole_targets (snd ` set needed)" .
    then have "whole_targets (snd ` snd ` set edges')" using assms(4) unfolding needed(3) by (fastforce simp: whole_targets_def)
    moreover have "orderly ?c" using assms(2) rep by (simp add: orderly_def within_budget_def whole_representations_def)
    ultimately show ?thesis using needed(2) by blast
  qed
qed

lemma orderly_expand_fold:
  assumes "foldE (expand_key S batch) (c, edges) items = Inr (c', edges')" "orderly c" "whole_targets (set items)"
    "whole_targets (snd ` snd ` set edges)"
  shows "orderly c' \<and> whole_targets (snd ` snd ` set edges')"
  using assms
proof (induction items arbitrary: c edges)
  case (Cons item items)
  obtain key whole where item: "item = (key, whole)" by fastforce
  from Cons.prems(1) obtain d e where step: "expand_key S batch (c, edges) (key, whole) = Inr (d, e)"
    "foldE (expand_key S batch) (d, e) items = Inr (c', edges')"
    using item by (auto simp: bindE_Inr_iff)
  have "fst key = ''state_representation'' \<longrightarrow> whole" using Cons.prems(3) item by (simp add: whole_targets_def)
  from orderly_expand [OF step(1) Cons.prems(2) this Cons.prems(4)] have "orderly d" "whole_targets (snd ` snd ` set e)" by simp_all
  moreover have "whole_targets (set items)" using Cons.prems(3) by (simp add: whole_targets_def)
  ultimately show ?case using Cons.IH [OF step(2)] by blast
qed simp

lemma orderly_follow_fold:
  assumes "foldE follow_edge (c, start) edges = Inr (c', pending)" "orderly c" "whole_targets (snd ` snd ` set edges)"
    "whole_targets (set start)"
  shows "orderly c' \<and> whole_targets (set pending)"
  using assms
proof (induction edges arbitrary: c start)
  case (Cons edge edges)
  obtain key label target whole where edge: "edge = (key, label, target, whole)" by (metis prod.exhaust)
  from Cons.prems(1) obtain st where st: "follow_edge (c, start) edge = Inr st" "foldE follow_edge st edges = Inr (c', pending)"
    by (auto simp: bindE_Inr_iff)
  from st(1) edge obtain k where k: "resolve_key c target = Inr k" and
    "st = (c\<lparr>pc_links := insert \<lparr>ml_owner = key, ml_relation = link_relation label whole, ml_label = label,
                ml_target = k\<rparr> (pc_links c)\<rparr>, start @ [(k, whole)])"
    by (auto simp: follow_edge_def bindE_Inr_iff)
  with st(2) have
    rest: "foldE follow_edge (c\<lparr>pc_links := insert \<lparr>ml_owner = key, ml_relation = link_relation label whole, ml_label = label,
                ml_target = k\<rparr> (pc_links c)\<rparr>, start @ [(k, whole)]) edges = Inr (c', pending)"
    by simp
  have "fst k = ''state_representation'' \<longrightarrow> whole" using k Cons.prems(3) edge
    by (auto simp: resolve_key_def whole_targets_def split: if_splits)
  then have "whole_targets (set (start @ [(k, whole)]))" using Cons.prems(4) by (auto simp: whole_targets_def)
  moreover have "whole_targets (snd ` snd ` set edges)" using Cons.prems(3) by (simp add: whole_targets_def)
  moreover have "orderly (c\<lparr>pc_links := l\<rparr>)" for l using Cons.prems(2) by (simp add: orderly_def within_budget_def whole_representations_def)
  ultimately show ?case using Cons.IH [OF rest] by blast
qed simp

lemma orderly_round:
  assumes "spelled P" "store_keyed S" "closure_round P S batch c pending = Inr (c', pending')" "orderly c" "whole_targets (set pending)"
  shows "orderly c' \<and> whole_targets (set pending')"
proof -
  from assms(3) obtain c1 visited c2 c3 edges c4 where
    c1: "load_keys load_depth P S c (map fst pending) = Inr c1" and
    visited: "mapE (\<lambda>(key, whole). bindE (resolve_key c1 key) (\<lambda>key. Inr (key, whole))) pending = Inr visited" and
    c2: "load_keys load_depth P S c1 (selected_results c1 visited) = Inr c2" and
    c3: "foldE (expand_key S batch) (c2, []) visited = Inr (c3, edges)" and
    c4: "load_keys load_depth P S c3 (map (\<lambda>(key, label, target, target_full). target) edges) = Inr c4" and
    c5: "foldE follow_edge (c4, []) edges = Inr (c', pending')"
    unfolding closure_round_def bindE_Inr_iff split_paired_Ex prod.case by blast
  note load = orderly_load [OF assms(1,2)]
  have "whole_targets (set visited)" using visited assms(5)
  proof (induction pending arbitrary: visited)
    case (Cons x pending)
    obtain key whole where x: "x = (key, whole)" by fastforce
    from Cons.prems(1) x obtain k rest where "resolve_key c1 key = Inr k" "visited = (k, whole) # rest"
      "mapE (\<lambda>(key, whole). bindE (resolve_key c1 key) (\<lambda>key. Inr (key, whole))) pending = Inr rest"
      by (auto simp: bindE_Inr_iff)
    then show ?case using Cons.IH Cons.prems(2) x by (auto simp: whole_targets_def resolve_key_def split: if_splits)
  qed simp
  moreover have "whole_targets (snd ` snd ` set [])" by (simp add: whole_targets_def)
  ultimately have ex: "orderly c3" "whole_targets (snd ` snd ` set edges)"
    using orderly_expand_fold [OF c3 load [OF c2 load [OF c1 assms(4)]]] by blast+
  have "whole_targets (set [])" by (simp add: whole_targets_def)
  then show ?thesis using orderly_follow_fold [OF c5 load [OF c4 ex(1)] ex(2)] by blast
qed

lemma orderly_loop:
  assumes "spelled P" "store_keyed S" "closure_loop n P S batch c pending = Inr c'" "orderly c" "whole_targets (set pending)"
  shows "orderly c'"
  using assms(3-5)
proof (induction n arbitrary: c pending)
  case (Suc n)
  show ?case
  proof (cases "pending = []")
    case False
    then obtain d p where step: "closure_round P S batch c pending = Inr (d, p)" "closure_loop n P S batch d p = Inr c'"
      using Suc.prems(1) by (auto simp: bindE_Inr_iff)
    from orderly_round [OF assms(1,2) step(1) Suc.prems(2,3)] have "orderly d" "whole_targets (set p)" by simp_all
    from Suc.IH [OF step(2) this] show ?thesis .
  qed (use Suc.prems in simp)
qed (auto split: if_splits)

lemma keyed_incoming: "check_incoming P c r = Inr c' \<Longrightarrow> keyed c \<Longrightarrow> keyed c'"
  by (auto simp: check_incoming_def bindE_Inr_iff split: option.splits if_splits intro: keyed_cache)

lemma closure_orderly:
  assumes "spelled P" "store_keyed S" "retention_closure P S batch = Inr c"
  shows "orderly c"
proof -
  from assms(3) obtain d where d: "publication_check_new P batch = Inr d"
    "closure_loop closure_fuel P S batch d (map (\<lambda>key. (key, True)) (mt_retained batch)) = Inr c"
    by (auto simp: retention_closure_def bindE_Inr_iff)
  from d(1) obtain start e where e: "foldE (check_incoming P) start (mt_records batch) = Inr e" "pc_values start = []"
    "d = e\<lparr>pc_incoming := set (map fst (pc_values e)), pc_roots := set (mt_retained batch)\<rparr>"
    by (auto simp: publication_check_new_def bindE_Inr_iff)
  have "keyed start" using e(2) by (simp add: keyed_def)
  then have "keyed e" by (rule foldE_invariant [where P = keyed, OF e(1)]) (blast intro: keyed_incoming)
  then have "keyed d" unfolding e(3) by (simp add: keyed_def)
  moreover have "whole_representations d" using check_new [OF assms(1) d(1)] by (simp add: whole_representations_def)
  ultimately have "orderly d" using check_new [OF assms(1) d(1)] by (simp add: orderly_def)
  then show ?thesis by (rule orderly_loop [OF assms(1,2) d(2)]) (auto simp: whole_targets_def)
qed

text \<open>In an orderly closure the record under a key is one of the kind the key names.\<close>

lemma value_at_known: "map_of (pc_values c) key = Some value \<Longrightarrow> value_at c key = Inr value"
  by (simp add: value_at_def)

lemma kind_at:
  assumes "keyed c" "map_of (pc_values c) (kind, identity) = Some value"
  shows "record_key_of value = (kind, identity)"
  using assms map_of_SomeD by (fastforce simp: keyed_def)

lemma found_at:
  assumes "keyed c" "map_of (pc_values c) (kind, identity) \<noteq> None"
  shows "kind = ''entity'' \<Longrightarrow> \<exists>r. entity_at c identity = Inr r"
    "kind = ''request'' \<Longrightarrow> \<exists>r. request_at c identity = Inr r \<and> map_of (pc_values c) (kind, identity) = Some (RequestRecord r)"
    "kind = ''operation_definition'' \<Longrightarrow> \<exists>r. operation_at c identity = Inr r"
    "kind = ''revision'' \<Longrightarrow> \<exists>r. revision_at c identity = Inr r"
proof -
  obtain value' where v: "map_of (pc_values c) (kind, identity) = Some value'" using assms(2) by blast
  have key: "record_key_of value' = (kind, identity)" by (rule kind_at [OF assms(1) v])
  show "kind = ''entity'' \<Longrightarrow> \<exists>r. entity_at c identity = Inr r"
    "kind = ''request'' \<Longrightarrow> \<exists>r. request_at c identity = Inr r \<and> map_of (pc_values c) (kind, identity) = Some (RequestRecord r)"
    "kind = ''operation_definition'' \<Longrightarrow> \<exists>r. operation_at c identity = Inr r"
    "kind = ''revision'' \<Longrightarrow> \<exists>r. revision_at c identity = Inr r"
    using v key by (cases value'; simp add: entity_at_def request_at_def operation_at_def revision_at_def value_at_def)+
qed

lemma settled_known:
  assumes "settled c [] key" "map_of (pc_values c) key = Some value"
    "(target, whole) \<in> obligations (map_of (pc_values c)) value (key \<in> pc_full c)" "fst target \<noteq> ''data''"
  shows "map_of (pc_values c) target \<noteq> None \<and> target \<in> pc_required c \<and> (whole \<longrightarrow> target \<in> pc_full c)"
  using assms by (fastforce simp: settled_def discharged_def target_forms_def meets_def)

definition refusal :: "unit result \<Rightarrow> bool" where
  "refusal x \<longleftrightarrow> (\<forall>e. x = Inl e \<longrightarrow> (\<exists>m. e = IntegrityError m))"

lemma refusal_intros [intro!, simp]: "refusal (Inr u)" "refusal (Inl (IntegrityError m))" "refusal (refuse b (IntegrityError m))"
  "refusal m1 \<Longrightarrow> refusal m2 \<Longrightarrow> refusal (thenE m1 m2)"
  by (auto simp: refusal_def refuse_def thenE_def bindE_Inl_iff)

lemma refusal_each: "(\<And>x. x \<in> set xs \<Longrightarrow> refusal (f x)) \<Longrightarrow> refusal (eachE f xs)"
  by (induction xs) auto

lemma check_required_refusal:
  assumes "keyed c" "whole_representations c" "settled c [] key" "key \<in> pc_required c"
    "\<forall>k \<in> pc_required c. settled c [] k"
  shows "refusal (check_required c key)"
proof -
  obtain v where v: "map_of (pc_values c) key = Some v" using assms(3) by (auto simp: settled_def)
  note known = settled_known [OF assms(3) v]
  show ?thesis
  proof (cases v)
    case (ExecutionRecord r)
    have "((''request'', ex_request_id r), key \<in> pc_full c) \<in> obligations (map_of (pc_values c)) v (key \<in> pc_full c)"
      by (simp add: obligations_def ExecutionRecord)
    from known [OF this] have q: "map_of (pc_values c) (''request'', ex_request_id r) \<noteq> None" "(''request'', ex_request_id r) \<in> pc_required c"
      by simp_all
    from found_at(2) [OF assms(1) q(1)] obtain request where request: "request_at c (ex_request_id r) = Inr request"
      "map_of (pc_values c) (''request'', ex_request_id r) = Some (RequestRecord request)" by blast
    have "((''operation_definition'', rq_definition_id request), False) \<in>
        obligations (map_of (pc_values c)) (RequestRecord request) ((''request'', ex_request_id r) \<in> pc_full c)"
      by (simp add: obligations_def)
    from settled_known [OF bspec [OF assms(5) q(2)] request(2) this] found_at(3) [OF assms(1)]
    obtain operation where "operation_at c (rq_definition_id request) = Inr operation" by force
    then show ?thesis using v ExecutionRecord request by (simp add: check_required_def value_at_def check_execution_def)
  next
    case (RepresentationRecord r)
    have "fst key = ''state_representation''" using kind_at [OF assms(1), of "fst key" "snd key" v] v RepresentationRecord by (cases key) simp
    then have whole: "key \<in> pc_full c" using assms(2,4) by (simp add: whole_representations_def)
    have "refusal (check_member c m)" if "sr_membership r = Inl rows" "m \<in> set rows" for rows m
    proof -
      have "((''entity'', mb_occurrence_id m), True) \<in> obligations (map_of (pc_values c)) v (key \<in> pc_full c)"
        using that whole by (simp add: obligations_def RepresentationRecord)
      from known [OF this] found_at(1) [OF assms(1)] obtain e where "entity_at c (mb_occurrence_id m) = Inr e" by force
      then show ?thesis by (simp add: check_member_def)
    qed
    moreover have "refusal (check_revision_result c r revision)" if "sr_revision_id r = Some revision" for revision
    proof -
      have "((''revision'', revision), True) \<in> obligations (map_of (pc_values c)) v (key \<in> pc_full c)"
        using that whole by (simp add: obligations_def RepresentationRecord)
      from known [OF this] found_at(4) [OF assms(1)] obtain e where "revision_at c revision = Inr e" by force
      then show ?thesis by (simp add: check_revision_result_def)
    qed
    ultimately show ?thesis using v RepresentationRecord
      by (auto simp: check_required_def value_at_def split: sum.splits option.splits intro!: refusal_each)
  qed (use v in \<open>simp_all add: check_required_def value_at_def\<close>)
qed

text \<open>
  C10. The invariants across the closure are decided, never missed by a lookup: each record
  \<open>_validate\<close> follows (the request and the definition of an execution, the members and the revision of a
  representation) is in the closure under its kind, so the check accepts or refuses with an integrity
  error, and cannot end in a \<open>KeyError\<close>. A representation in particular is always kept whole, which is
  what makes its revision and members present.
\<close>

theorem validation_decides:
  assumes "spelled P" "store_keyed S" "retention_closure P S batch = Inr c"
  shows "validate_closure c = Inr () \<or> (\<exists>m. validate_closure c = Inl (IntegrityError m))"
proof -
  have c: "keyed c" "whole_representations c" using closure_orderly [OF assms] by (simp_all add: orderly_def)
  have closed: "closing c []" using retention_closure_closing [OF assms(1,3)] by simp
  then have settled: "\<forall>k \<in> pc_required c. settled c [] k" by (simp add: closing_def)
  have "refusal (check_required c key)" if "key \<in> set (sorted_list_of_set (pc_required c))" for key
    using that check_required_refusal [OF c] settled closure_finite [OF closed] by simp
  then have "refusal (validate_closure c)" unfolding validate_closure_def by (intro refusal_intros refusal_each) auto
  then show ?thesis by (cases "validate_closure c") (auto simp: refusal_def)
qed

section \<open>Ready content\<close>

text \<open>A mark is honest: the store answers for the bytes, and bytes marked as JSON decode, unless a retained
  and available record of the closure carries them as JSON already.\<close>

definition decodes :: "platform \<Rightarrow> content_owner \<Rightarrow> blob_ref \<Rightarrow> bool" where
  "decodes P B reference \<longleftrightarrow> (\<exists>data j. cn_read B reference = Inr data \<and>
     decode_canonical_json_value P data ''retained JSON value'' = Inr j)"

definition carried_before :: "publication_check \<Rightarrow> blob_ref \<Rightarrow> bool" where
  "carried_before c reference \<longleftrightarrow> (\<exists>key \<in> pc_full c. kept_before c key \<and> (\<exists>value content.
     value_at c key = Inr value \<and> content_of value = Some content \<and> cr_codec content = JsonV1 \<and>
     content_reference content = reference))"

definition honest_marks :: "platform \<Rightarrow> content_owner \<Rightarrow> (blob_ref \<Rightarrow> bool) \<Rightarrow> ready_marks \<Rightarrow> bool" where
  "honest_marks P B trusted ready \<longleftrightarrow> (\<forall>(reference, codec) \<in> ready.
     (cn_stat B reference = Inr () \<or> cn_ensure_ready B reference = Inr ()) \<and>
     (codec = JsonV1 \<longrightarrow> decodes P B reference \<or> trusted reference))"

lemma reference_made: "blob_ref_make r = Inr r' \<Longrightarrow> r' = r"
  by (simp add: blob_ref_make_ok)

lemma read_content_decodes:
  "read_content P B content = Inr j \<Longrightarrow> decodes P B (content_reference content)"
  by (auto simp: read_content_def decodes_def thenE_Inr_iff bindE_Inr_iff dest!: reference_made)

lemma check_content_marks:
  assumes "check_content P B retained validator ready content = (ready', answer)" "honest_marks P B trusted ready"
    "retained \<longrightarrow> cr_codec content = JsonV1 \<longrightarrow> trusted (content_reference content)"
  shows "honest_marks P B trusted ready' \<and> ready \<subseteq> ready' \<and>
    (answer = Inr () \<longrightarrow> (content_reference content, cr_codec content) \<in> ready' \<and>
      (\<forall>check. validator = Some check \<longrightarrow> cr_codec content = JsonV1 \<longrightarrow> (\<exists>j. read_content P B content = Inr j \<and> check j = Inr ())))"
proof (cases "blob_ref_make (content_reference content)")
  case (Inl e)
  then show ?thesis using assms by (auto simp: check_content_def)
next
  case (Inr reference)
  have reference: "reference = content_reference content" using reference_made [OF Inr] .
  show ?thesis
  proof (cases "(reference, cr_codec content) \<in> ready \<and> Option.is_none validator")
    case True
    then show ?thesis using assms Inr reference by (auto simp: check_content_def Option.is_none_def)
  next
    case False
    note run = assms(1) [unfolded check_content_def Inr sum.case if_not_P [OF False]]
    define found where "found = (if retained then cn_stat B reference
      else if (reference, BytesV1) \<notin> ready then cn_ensure_ready B reference else Inr ())"
    show ?thesis
    proof (cases found)
      case (Inl e)
      then show ?thesis using run assms(2) unfolding found_def by auto
    next
      case (Inr u)
      define read where "read = (if cr_codec content = JsonV1 \<and> (\<not> retained \<or> \<not> Option.is_none validator)
        then bindE (read_content P B content) (\<lambda>decoded. case validator of None \<Rightarrow> Inr () | Some check \<Rightarrow> check decoded) else Inr ())"
      have marked: "(ready', answer) = (case read of Inl e \<Rightarrow> (insert (reference, BytesV1) ready, Inl e)
        | Inr _ \<Rightarrow> (insert (reference, cr_codec content) (insert (reference, BytesV1) ready), Inr ()))"
        using run Inr unfolding found_def read_def Let_def by simp
      have "cn_stat B reference = Inr () \<or> cn_ensure_ready B reference = Inr ()"
        using Inr assms(2) by (auto simp: found_def honest_marks_def split: if_splits)
      then have bytes: "honest_marks P B trusted (insert (reference, BytesV1) ready)"
        and answered: "cn_stat B reference = Inr () \<or> cn_ensure_ready B reference = Inr ()"
        using assms(2) by (auto simp: honest_marks_def)
      show ?thesis
      proof (cases read)
        case (Inl e)
        then show ?thesis using marked bytes by auto
      next
        case (Inr u)
        have json: "decodes P B reference \<or> trusted reference" if "cr_codec content = JsonV1"
        proof (cases retained)
          case True
          then show ?thesis using assms(3) that reference by simp
        next
          case False
          with Inr that obtain j where "read_content P B content = Inr j" by (auto simp: read_def bindE_Inr_iff)
          then show ?thesis using read_content_decodes reference by blast
        qed
        have "\<exists>j. read_content P B content = Inr j \<and> check j = Inr ()" if "validator = Some check" "cr_codec content = JsonV1" for check
          using Inr that by (auto simp: read_def bindE_Inr_iff Option.is_none_def)
        moreover have "honest_marks P B trusted ready'" using marked Inr bytes answered json by (auto simp: honest_marks_def)
        ultimately show ?thesis using marked Inr reference by auto
      qed
    qed
  qed
qed

text \<open>What the check of a key has established when it passes.\<close>

definition content_checked :: "platform \<Rightarrow> content_owner \<Rightarrow> publication_check \<Rightarrow> ready_marks \<Rightarrow> record_key \<Rightarrow> bool" where
  "content_checked P B c ready key \<longleftrightarrow> (\<exists>value. value_at c key = Inr value \<and> evaluate_selection B c key value = Inr () \<and>
     (\<forall>content. content_of value = Some content \<longrightarrow> (content_reference content, cr_codec content) \<in> ready \<and>
       (\<forall>check. fields_validator value (kept_before c key) = Some check \<longrightarrow> cr_codec content = JsonV1 \<longrightarrow>
          (\<exists>j. read_content P B content = Inr j \<and> check j = Inr ()))))"

lemma check_key_content_marks:
  assumes "check_key_content P B c ready key = (ready', answer)" "honest_marks P B (carried_before c) ready" "key \<in> pc_full c"
  shows "honest_marks P B (carried_before c) ready' \<and> ready \<subseteq> ready' \<and> (answer = Inr () \<longrightarrow> content_checked P B c ready' key)"
proof (cases "value_at c key")
  case (Inr v)
  note found = Inr
  show ?thesis
  proof (cases "evaluate_selection B c key v")
    case (Inr u)
    show ?thesis
    proof (cases "content_of v")
      case None
      then show ?thesis using assms found Inr by (auto simp: check_key_content_def content_checked_def)
    next
      case (Some content)
      have run: "check_content P B (kept_before c key) (fields_validator v (kept_before c key)) ready content = (ready', answer)"
        using assms(1) found Inr Some by (simp add: check_key_content_def)
      have "kept_before c key \<longrightarrow> cr_codec content = JsonV1 \<longrightarrow> carried_before c (content_reference content)"
        using found Some assms(3) by (auto simp: carried_before_def)
      from check_content_marks [OF run assms(2) this] show ?thesis using found Inr Some by (auto simp: content_checked_def)
    qed
  qed (use assms found in \<open>auto simp: check_key_content_def\<close>)
qed (use assms in \<open>auto simp: check_key_content_def\<close>)

lemma content_checked_mono: "content_checked P B c ready key \<Longrightarrow> ready \<subseteq> ready' \<Longrightarrow> content_checked P B c ready' key"
  unfolding content_checked_def by blast

lemma check_contents_marks:
  assumes "check_contents P B c ready keys = (ready', answer)" "honest_marks P B (carried_before c) ready" "set keys \<subseteq> pc_full c"
  shows "honest_marks P B (carried_before c) ready' \<and> ready \<subseteq> ready' \<and>
    (answer = Inr () \<longrightarrow> (\<forall>key \<in> set keys. content_checked P B c ready' key))"
  using assms
proof (induction keys arbitrary: ready)
  case (Cons key keys)
  obtain mid first where first: "check_key_content P B c ready key = (mid, first)" by fastforce
  have key: "honest_marks P B (carried_before c) mid" "ready \<subseteq> mid" "first = Inr () \<Longrightarrow> content_checked P B c mid key"
    using check_key_content_marks [OF first Cons.prems(2)] Cons.prems(3) by auto
  show ?case
  proof (cases first)
    case (Inl e)
    then show ?thesis using Cons.prems(1) first key by auto
  next
    case (Inr u)
    then have "check_contents P B c mid keys = (ready', answer)" using Cons.prems(1) first by simp
    from Cons.IH [OF this key(1)] Cons.prems(3) show ?thesis using key Inr content_checked_mono by fastforce
  qed
qed auto

text \<open>
  C9. Content is ready before anything is committed: when a unit that is not in the ledger yet is sent,
  every record kept in full has been evaluated where it is a selected value, and the blob and codec of
  its content are marked ready; marks stay honest (the store answered for the bytes, and bytes marked
  as JSON were decoded in this session or are carried as JSON by a record the ledger keeps); and the JSON
  of a new selection of fields was read and has the shape its selectors define.
\<close>

theorem sent_content_ready:
  assumes "spelled P" "check_publish P E L computed ready batch = a" "at_sent a = Some sent" "\<not> lv_committed L (mt_unit_id batch)"
    "\<forall>trusted. honest_marks P (pp_content E) trusted ready"
  shows "\<exists>c. at_check a = Some c \<and> honest_marks P (pp_content E) (carried_before c) (at_ready a) \<and>
    (\<forall>key \<in> pc_full c. content_checked P (pp_content E) c (at_ready a) key)"
proof (cases "prepare_publication P E L computed batch")
  case (Inl e)
  then show ?thesis using assms(2,3) by (auto simp: check_publish_def)
next
  case (Inr x)
  obtain c prepared where x: "x = (c, prepared)" by fastforce
  obtain marks answer where marks: "check_contents P (pp_content E) c ready (sorted_list_of_set (pc_full c)) = (marks, answer)" by fastforce
  have "answer = Inr ()" "at_ready a = marks" "at_check a = Some c"
    using assms(2-4) Inr x marks by (auto simp: check_publish_def split: sum.splits)
  moreover obtain closure evidence where closure: "retention_closure P (lv_store L) batch = Inr closure"
    "validate_selections P (pp_dependencies E) (lv_store L) batch closure = Inr (c, evidence)"
    using publication_guarded [OF assms(1) Inr [unfolded x] assms(4)] by blast
  then have "finite (pc_full c)"
  proof -
    have closed: "closing closure []" using retention_closure_closing [OF assms(1) closure(1)] by simp
    then have "finite (pc_full closure)" using closure_finite finite_subset by (auto simp: closing_def)
    then show ?thesis using validate_selections_parts [OF assms(1) closure(2)] by auto
  qed
  ultimately show ?thesis using check_contents_marks [OF marks] assms(5) by auto
qed

section \<open>The attempts of a session\<close>

text \<open>What an attempt sends, and when another one follows.\<close>

definition overtaken ::
    "platform \<Rightarrow> publication_ports \<Rightarrow> ledger_view \<Rightarrow> session \<Rightarrow> metadata_batch \<Rightarrow> bool" where
  "overtaken P E L s batch \<longleftrightarrow> (\<exists>ready m. at_answer (check_publish P E (minted_view s L) (se_computed s) ready batch)
     = Inl (IdentitiesChangedError m))"

definition sent_from ::
    "platform \<Rightarrow> publication_ports \<Rightarrow> ledger_view \<Rightarrow> session \<Rightarrow> metadata_batch \<Rightarrow> metadata_batch \<Rightarrow> bool result \<Rightarrow> bool" where
  "sent_from P E L s batch sent answer \<longleftrightarrow> answer = lv_commit L sent \<and>
     (\<exists>c prepared. prepare_publication P E (minted_view s L) (se_computed s) batch = Inr (c, prepared) \<and>
       (if lv_committed L (mt_unit_id batch) then sent = prepared
        else mt_identity_mark sent \<in> {None, Some (lv_mark L)} \<and>
          sent = prepared\<lparr>mt_members := mt_members sent, mt_identity_mark := mt_identity_mark sent\<rparr>))"

lemma check_publish_sends:
  assumes "at_sent (check_publish P E (minted_view s L) computed ready batch) = Some sent" "computed = se_computed s"
  shows "sent_from P E L s batch sent (at_answer (check_publish P E (minted_view s L) computed ready batch))"
proof (cases "prepare_publication P E (minted_view s L) computed batch")
  case (Inr x)
  obtain c prepared where x: "x = (c, prepared)" by fastforce
  note view = minted_view_def
  have same: "lv_committed (minted_view s L) = lv_committed L" "lv_commit (minted_view s L) = lv_commit L"
    "lv_mark (minted_view s L) = lv_mark L" by (simp_all add: minted_view_def)
  show ?thesis
  proof (cases "lv_committed L (mt_unit_id batch)")
    case True
    then show ?thesis using assms Inr x same by (auto simp: check_publish_def sent_from_def)
  next
    case False
    obtain marks answer where marks: "check_contents P (pp_content E) c ready (sorted_list_of_set (pc_full c)) = (marks, answer)" by fastforce
    have "answer = Inr ()" "with_members P (lv_store (minted_view s L)) (Some (lv_mark L)) c prepared = Inr sent"
      using assms(1) Inr x marks same False by (auto simp: check_publish_def split: sum.splits)
    moreover from this(2) have "mt_identity_mark sent \<in> {None, Some (lv_mark L)}"
      "sent = prepared\<lparr>mt_members := mt_members sent, mt_identity_mark := mt_identity_mark sent\<rparr>"
      by (auto simp: with_members_def Let_def bindE_Inr_iff split: prod.splits if_splits)
    ultimately show ?thesis using assms(2) Inr x marks same False by (auto simp: check_publish_def sent_from_def)
  qed
qed (use assms in \<open>simp add: check_publish_def\<close>)

lemma minted_same [simp]: "minted_view (s\<lparr>se_identity_seen := m\<rparr>) L = minted_view s L" "minted_view (s\<lparr>se_ready := r\<rparr>) L = minted_view s L"
  by (simp_all add: minted_view_def)

lemma sent_from_same [simp]:
  "sent_from P E L (s\<lparr>se_identity_seen := m\<rparr>) batch = sent_from P E L s batch" "sent_from P E L (s\<lparr>se_ready := r\<rparr>) batch = sent_from P E L s batch"
  "overtaken P E L (s\<lparr>se_identity_seen := m\<rparr>) batch = overtaken P E L s batch" "overtaken P E L (s\<lparr>se_ready := r\<rparr>) batch = overtaken P E L s batch"
  by (auto simp: sent_from_def overtaken_def fun_eq_iff)

lemma attempts_result:
  assumes "publish_attempts n i P E views checks s batch = (s', k, a)"
  shows "i \<le> k \<and> (n \<noteq> 0 \<longrightarrow> k < i + n) \<and> (\<forall>j. i \<le> j \<longrightarrow> j < k \<longrightarrow> checks j = Inr () \<and> overtaken P E (views j) s batch) \<and>
    (\<forall>sent. at_sent a = Some sent \<longrightarrow> checks k = Inr () \<and> sent_from P E (views k) s batch sent (at_answer a)) \<and>
    se_minted s' = se_minted s \<and> se_computed s' = se_computed s \<and> se_ready s' = at_ready a \<and>
    (n \<noteq> 0 \<longrightarrow> se_identity_seen s' = Some (lv_mark (views k)))"
  using assms
proof (induction n arbitrary: i s)
  case 0
  then show ?case by auto
next
  case (Suc n)
  let ?s = "s\<lparr>se_identity_seen := Some (lv_mark (views i))\<rparr>"
  define b where "b = (case checks i of
      Inl e \<Rightarrow> \<lparr>at_ready = se_ready s, at_check = None, at_sent = None, at_answer = Inl e\<rparr>
    | Inr _ \<Rightarrow> check_publish P E (minted_view s (views i)) (se_computed s) (se_ready s) batch)"
  have mark: "lv_mark (minted_view s (views i)) = lv_mark (views i)" by (simp add: minted_view_def)
  have parts: "se_ready ?s = se_ready s" "se_computed ?s = se_computed s" by simp_all
  have run: "(case (checks i, at_answer b, n) of
      (Inr _, Inl (IdentitiesChangedError _), Suc _) \<Rightarrow>
        publish_attempts n (Suc i) P E views checks (?s\<lparr>se_ready := at_ready b\<rparr>) batch
    | _ \<Rightarrow> (?s\<lparr>se_ready := at_ready b\<rparr>, i, b)) = (s', k, a)"
    using Suc.prems unfolding publish_attempts.simps(2) Let_def mark parts b_def [symmetric] .
  show ?case
  proof (cases "checks i = Inr () \<and> (\<exists>m. at_answer b = Inl (IdentitiesChangedError m)) \<and> n \<noteq> 0")
    case True
    then obtain m n' where again: "checks i = Inr ()" "at_answer b = Inl (IdentitiesChangedError m)" "n = Suc n'"
      by (metis not0_implies_Suc)
    then have rest: "publish_attempts n (Suc i) P E views checks (?s\<lparr>se_ready := at_ready b\<rparr>) batch = (s', k, a)"
      using run by simp
    have "overtaken P E (views i) s batch" using again by (auto simp: overtaken_def b_def)
    moreover have "j = i \<or> Suc i \<le> j" if "i \<le> j" for j using that by auto
    ultimately show ?thesis using Suc.IH [OF rest] again by (auto simp: Suc_le_eq)
  next
    case False
    have stop: "s' = ?s\<lparr>se_ready := at_ready b\<rparr> \<and> k = i \<and> a = b"
    proof (cases "at_answer b")
      case (Inl e)
      then show ?thesis using run False by (cases e; cases "checks i"; cases n) auto
    next
      case (Inr ok)
      then show ?thesis using run by (cases "checks i"; cases n) auto
    qed
    have "checks i = Inr () \<and> sent_from P E (views i) s batch sent (at_answer b)" if "at_sent b = Some sent" for sent
    proof (cases "checks i")
      case (Inl e)
      then show ?thesis using that by (simp add: b_def)
    next
      case (Inr u)
      then show ?thesis using that check_publish_sends [of P E s "views i" "se_computed s" "se_ready s" batch sent] by (simp add: b_def)
    qed
    then show ?thesis using stop by auto
  qed
qed

text \<open>
  C5. A session commits only what one attempt checked against one reading of the ledger: whatever it sends,
  at most the fifth attempt sends it, each earlier one having been overtaken by another commit of
  identities; the caller's identity check passed in that attempt; the batch is the one prepared from that
  reading, and where it carries an identity mark the mark is the one read with it. After a refusal the
  session no longer takes the refused identities for its own.
\<close>

theorem publish_commits_checked:
  assumes "publish P E views checks s batch = (s', sent, answer)"
  shows "(\<forall>b. sent = Some b \<longrightarrow> (\<exists>k < 5. (\<forall>j < k. overtaken P E (views j) s batch) \<and> checks k = Inr () \<and>
      sent_from P E (views k) s batch b answer)) \<and>
    (\<forall>e. answer = Inl e \<longrightarrow> se_active s \<longrightarrow> batch_shape batch = Inr () \<longrightarrow>
      set (se_minted s') = set (se_minted s) - set (data_identities (mt_records batch)))"
proof (cases "thenE (refuse (\<not> se_active s) (StateTransitionError ''publication session is closed'')) (batch_shape batch)")
  case (Inl e)
  then show ?thesis using assms by (auto simp: publish_def)
next
  case (Inr u)
  obtain t k a where attempts: "publish_attempts identity_attempts 0 P E views checks s batch = (t, k, a)" by (metis prod.exhaust)
  have out: "sent = at_sent a" "answer = at_answer a" "s' = published_session batch (views k) a t"
    using assms Inr attempts by (auto simp: publish_def)
  from attempts_result [OF attempts] have k: "k < 5" "\<forall>j < k. checks j = Inr () \<and> overtaken P E (views j) s batch"
    "\<forall>sent. at_sent a = Some sent \<longrightarrow> checks k = Inr () \<and> sent_from P E (views k) s batch sent (at_answer a)"
    "se_minted t = se_minted s" by (auto simp: identity_attempts_def)
  have "s' = forget_minted batch t" if "answer = Inl e" for e using that out by (simp add: published_session_def)
  then show ?thesis using k out(1,2) by (auto simp: forget_minted_def)
qed

section \<open>A unit over a ledger that holds its definition\<close>

definition held_operation :: stored_record where
  "held_operation = \<lparr>so_value = Some sample_operation_record, so_retained = True, so_available = True,
     so_evidence_version = 7, so_row_digest = None\<rparr>"

definition held_store :: retained_store where
  "held_store = empty_store\<lparr>rs_rows := [(''operation_definition'', ''d'') \<mapsto> held_operation]\<rparr>"

definition held_batch :: metadata_batch where
  "held_batch = sample_batch\<lparr>mt_records := [sample_request_record]\<rparr>"

abbreviation request_key :: record_key where "request_key \<equiv> (''request'', ''q'')"
abbreviation operation_key :: record_key where "operation_key \<equiv> (''operation_definition'', ''d'')"

definition held_link :: metadata_link where
  "held_link = \<lparr>ml_owner = request_key, ml_relation = ''describes'', ml_label = ''definition'', ml_target = operation_key\<rparr>"

definition held_check :: "nat \<Rightarrow> record_key set \<Rightarrow> publication_check" where
  "held_check n l = \<lparr>pc_values = [(request_key, sample_request_record), (operation_key, sample_operation_record)],
     pc_stored = [(operation_key, held_operation)], pc_members = [], pc_metadata_bytes = n, pc_loaded = l,
     pc_state_links_loaded = {}, pc_identity_read = False, pc_incoming = {request_key}, pc_roots = {request_key},
     pc_links = {held_link}, pc_required = {request_key, operation_key}, pc_full = {request_key}\<rparr>"

lemma sample_keys [simp]: "record_key_of sample_operation_record = operation_key" "record_key_of sample_request_record = request_key"
  by (simp_all add: sample_operation_record_def sample_request_record_def)

lemma held_new: "\<exists>n < 1000. publication_check_new reference_platform held_batch = Inr
   \<lparr>pc_values = [(request_key, sample_request_record)], pc_stored = [], pc_members = [], pc_metadata_bytes = n,
    pc_loaded = {}, pc_state_links_loaded = {}, pc_identity_read = False, pc_incoming = {request_key}, pc_roots = {request_key},
    pc_links = {}, pc_required = {}, pc_full = {}\<rparr>"
proof -
  obtain b where b: "encode_record reference_platform sample_request_record = Inr b" "length b < 1000"
    using sample_admitted sample_size by blast
  show ?thesis using b
    by (intro exI [of _ "length b"])
      (simp add: publication_check_new_def check_incoming_def held_batch_def sample_batch_def cache_record_def batch_bytes_def Let_def)
qed

lemma operation_bytes: "\<exists>v b. record_value reference_platform sample_operation_record = Inr v \<and>
    canonical_value_bytes reference_platform v = Inr b \<and> length b < 1000"
proof -
  obtain b where b: "encode_record reference_platform sample_operation_record = Inr b" "length b < 1000"
    using sample_admitted sample_size by blast
  then obtain v where v: "record_value reference_platform sample_operation_record = Inr v"
    "(case canonical_value_bytes reference_platform v of Inl e \<Rightarrow> Inl (IntegrityError ''Core record is outside its JSON codec'')
      | Inr b \<Rightarrow> Inr b) = Inr b"
    by (auto simp: encode_record_def bindE_Inr_iff)
  then have "canonical_value_bytes reference_platform v = Inr b"
    by (cases "canonical_value_bytes reference_platform v") simp_all
  with v(1) b(2) show ?thesis by blast
qed

lemma held_closure: "\<exists>n l. retention_closure reference_platform held_store held_batch = Inr (held_check n l)"
proof -
  obtain n where small: "n < 1000" and n: "publication_check_new reference_platform held_batch = Inr
   \<lparr>pc_values = [(request_key, sample_request_record)], pc_stored = [], pc_members = [], pc_metadata_bytes = n,
    pc_loaded = {}, pc_state_links_loaded = {}, pc_identity_read = False, pc_incoming = {request_key}, pc_roots = {request_key},
    pc_links = {}, pc_required = {}, pc_full = {}\<rparr>" using held_new by blast
  obtain v b where b: "record_value reference_platform sample_operation_record = Inr v"
    "canonical_value_bytes reference_platform v = Inr b" "length b < 1000" using operation_bytes by blast
  obtain k where fuel: "closure_fuel = Suc (Suc (Suc k))"
  proof
    show "closure_fuel = Suc (Suc (Suc 16777214))" by (simp add: closure_fuel_def batch_bytes_def)
  qed
  have req: "requirements S batch c request_key True = Inr [(''definition'', operation_key, False)]"
    if "map_of (pc_values c) request_key = Some sample_request_record" for S batch c
    using that by (simp add: requirements_def sample_request_record_def)
  have op: "requirements S batch c operation_key w = Inr []"
    if "map_of (pc_values c) operation_key = Some sample_operation_record" for S batch c w
    using that by (simp add: requirements_def sample_operation_record_def)
  have sel: "selected_results c [(request_key, w)] = []" if "map_of (pc_values c) request_key = Some sample_request_record" for c w
    using that by (simp add: selected_results_def sample_request_record_def List.map_filter_def)
  have sel': "selected_results c [(operation_key, w)] = []" if "map_of (pc_values c) operation_key = Some sample_operation_record" for c w
    using that by (simp add: selected_results_def sample_operation_record_def List.map_filter_def)
  show ?thesis
    unfolding retention_closure_def n bindE_simps fuel using small b
    by (simp add: held_batch_def sample_batch_def closure_round_def load_depth_def numeral_2_eq_2 load_rows_def held_store_def empty_store_def key_forms_def Let_def
     load_row_def referenced_identities_def restorable_identities_def chosen_keys_def names_data_def resolve_key_def req op sel sel'
     expand_key_def follow_edge_def link_relation_def List.map_filter_def cache_record_def held_operation_def
     refuse_def batch_bytes_def linorder_not_less [symmetric] held_check_def held_link_def, blast)
qed

definition held_view :: ledger_view where
  "held_view = \<lparr>lv_mark = 3, lv_store = held_store, lv_committed = \<lambda>_. False, lv_commit = \<lambda>_. Inr True\<rparr>"

definition no_ports :: publication_ports where
  "no_ports = \<lparr>pp_content = \<lparr>cn_stat = \<lambda>_. Inr (), cn_ensure_ready = \<lambda>_. Inr (), cn_read = \<lambda>_. Inr [], cn_check_selection = None\<rparr>,
     pp_dependencies = \<lparr>dn_assess = \<lambda>_ _ _. Inl NoReturn, dn_assess_result = \<lambda>_ _. Inl NoReturn\<rparr>\<rparr>"

definition held_prepared :: metadata_batch where
  "held_prepared = held_batch\<lparr>mt_retained := [operation_key, request_key], mt_links := [held_link],
     mt_expected_versions := [(operation_key, 7)]\<rparr>"

lemma held_valid: "validate_closure (held_check n l) = Inr ()"
  by (simp add: validate_closure_def known_identities_def held_check_def eachE_Inr_iff check_required_def value_at_def
      sample_request_record_def sample_operation_record_def thenE_Inr_iff)

lemma held_selections: "validate_selections P D S batch (held_check n l) = Inr (held_check n l, [])"
  by (simp add: validate_selections_def new_selections_def held_check_def filter_empty_conv)

lemma held_batch_prepared: "prepare_batch P [] held_batch (held_check n l) [] = Inr held_prepared"
proof -
  have "existing_keys (held_check n l) = [operation_key]" by (simp add: existing_keys_def held_check_def)
  moreover have "sorted_list_of_set {request_key, operation_key} = [operation_key, request_key]" by simp
  moreover have "sorted_links {held_link} = [held_link]" by (simp add: sorted_links_def link_order_def held_link_def)
  ultimately show ?thesis
    by (simp add: prepare_batch_def expected_versions_def update_versions_def held_batch_def sample_batch_def guard_existing_def
        held_check_def held_operation_def default_version_def witness_links_def held_prepared_def)
qed

lemma held_publication: "\<exists>n l. prepare_publication reference_platform no_ports held_view [] held_batch = Inr (held_check n l, held_prepared)"
proof -
  obtain n l where "retention_closure reference_platform held_store held_batch = Inr (held_check n l)" using held_closure by blast
  then have "prepare_publication reference_platform no_ports held_view [] held_batch = Inr (held_check n l, held_prepared)"
    by (simp add: prepare_publication_def held_view_def held_valid held_selections held_batch_prepared)
  then show ?thesis by blast
qed

lemma held_keyed [simp]: "store_keyed held_store" "store_keyed empty_store"
  by (auto simp: store_keyed_def held_store_def empty_store_def held_operation_def)

lemma held_full: "pc_full (held_check n l) = {request_key}"
  by (simp add: held_check_def)

lemma held_sent:
  "\<exists>n l. check_publish reference_platform no_ports held_view [] {} held_batch =
     \<lparr>at_ready = {}, at_check = Some (held_check n l), at_sent = Some held_prepared, at_answer = Inr True\<rparr>"
proof -
  obtain n l where prepared: "prepare_publication reference_platform no_ports held_view [] held_batch = Inr (held_check n l, held_prepared)"
    using held_publication by blast
  have "check_contents P B (held_check n l) {} [request_key] = ({}, Inr ())" for P B
    by (simp add: check_key_content_def value_at_def held_check_def evaluate_selection_def content_of_def sample_request_record_def)
  moreover have "with_members P S mark (held_check n l) held_prepared = Inr held_prepared" for P S mark
    by (simp add: with_members_def origin_parents_def origin_members_def held_check_def List.map_filter_def sample_request_record_def
        sample_operation_record_def brings_bulk_state_def held_prepared_def held_batch_def sample_batch_def)
  ultimately show ?thesis
    by (intro exI [of _ n] exI [of _ l])
      (simp add: check_publish_def prepared held_full, simp add: held_view_def)
qed

theorem validation_decides_witness:
  "\<exists>c. retention_closure reference_platform held_store held_batch = Inr c \<and>
     (validate_closure c = Inr () \<or> (\<exists>m. validate_closure c = Inl (IntegrityError m)))"
proof -
  obtain n l where "retention_closure reference_platform held_store held_batch = Inr (held_check n l)" using held_closure by blast
  with validation_decides [OF reference_spelled held_keyed(1) this] show ?thesis by blast
qed

theorem publication_guarded_witness:
  "\<exists>c prepared. prepare_publication reference_platform no_ports held_view [] held_batch = Inr (c, prepared) \<and>
     operation_key \<in> pc_required c - pc_incoming c \<and> guarded c {} (mt_expected_versions prepared) operation_key"
proof -
  obtain n l where run: "prepare_publication reference_platform no_ports held_view [] held_batch = Inr (held_check n l, held_prepared)"
    using held_publication by blast
  have "\<not> lv_committed held_view (mt_unit_id held_batch)" by (simp add: held_view_def)
  from publication_guarded [OF reference_spelled run this] obtain closure evidence where
    c: "retention_closure reference_platform (lv_store held_view) held_batch = Inr closure"
    "validate_selections reference_platform (pp_dependencies no_ports) (lv_store held_view) held_batch closure = Inr (held_check n l, evidence)"
    "\<forall>key \<in> pc_required (held_check n l) - pc_incoming (held_check n l).
       guarded (held_check n l) (set (mt_expected_versions held_batch) \<union> set evidence) (mt_expected_versions held_prepared) key" by blast
  obtain m k where "closure = held_check m k" using c(1) held_closure by (auto simp: held_view_def)
  then have "evidence = []" using c(2) by (simp add: held_selections)
  then show ?thesis using run c(3) by (intro exI [of _ "held_check n l"] exI [of _ held_prepared])
    (simp add: held_batch_def sample_batch_def held_check_def)
qed

theorem sent_content_ready_witness:
  "\<exists>a c. check_publish reference_platform no_ports held_view [] {} held_batch = a \<and> at_sent a = Some held_prepared \<and>
     at_check a = Some c \<and> request_key \<in> pc_full c \<and> content_checked reference_platform (pp_content no_ports) c (at_ready a) request_key"
proof -
  obtain n l where run: "check_publish reference_platform no_ports held_view [] {} held_batch =
     \<lparr>at_ready = {}, at_check = Some (held_check n l), at_sent = Some held_prepared, at_answer = Inr True\<rparr>" (is "_ = ?a")
    using held_sent by blast
  have "at_sent ?a = Some held_prepared" "\<not> lv_committed held_view (mt_unit_id held_batch)"
    "\<forall>trusted. honest_marks reference_platform (pp_content no_ports) trusted {}"
    by (simp_all add: held_view_def honest_marks_def)
  from sent_content_ready [OF reference_spelled run this]
  have "\<forall>key \<in> pc_full (held_check n l). content_checked reference_platform (pp_content no_ports) (held_check n l) (at_ready ?a) key" by simp
  then have "content_checked reference_platform (pp_content no_ports) (held_check n l) (at_ready ?a) request_key"
    by (simp add: held_check_def)
  then show ?thesis using run by (intro exI [of _ ?a] exI [of _ "held_check n l"]) (simp add: held_check_def)
qed

definition held_session :: session where
  "held_session = \<lparr>se_active = True, se_ready = {}, se_minted = [], se_identity_seen = None, se_computed = []\<rparr>"

theorem publish_commits_checked_witness:
  "\<exists>s'. publish reference_platform no_ports (\<lambda>_. held_view) (\<lambda>_. Inr ()) held_session held_batch = (s', Some held_prepared, Inr True) \<and>
     (\<exists>k < (5::nat). sent_from reference_platform no_ports held_view held_session held_batch held_prepared (Inr True))"
proof -
  have view: "minted_view s held_view = held_view" if "se_minted s = []" for s
    using that by (simp add: minted_view_def held_view_def held_store_def empty_store_def)
  obtain n l where run: "check_publish reference_platform no_ports held_view [] {} held_batch =
     \<lparr>at_ready = {}, at_check = Some (held_check n l), at_sent = Some held_prepared, at_answer = Inr True\<rparr>"
    using held_sent by blast
  have shape: "batch_shape held_batch = Inr ()" by (simp add: batch_shape_def held_batch_def sample_batch_def batch_rows_def)
  obtain m where m: "identity_attempts = Suc m"
  proof
    show "identity_attempts = Suc 4" by (simp add: identity_attempts_def)
  qed
  have "\<exists>s'. publish reference_platform no_ports (\<lambda>_. held_view) (\<lambda>_. Inr ()) held_session held_batch = (s', Some held_prepared, Inr True)"
    by (simp add: publish_def shape m held_session_def view run Let_def)
  then obtain s' where s': "publish reference_platform no_ports (\<lambda>_. held_view) (\<lambda>_. Inr ()) held_session held_batch =
      (s', Some held_prepared, Inr True)" by blast
  from publish_commits_checked [OF s'] s' show ?thesis by blast
qed

end
