(* ===== verification/Patch_Laws.thy ===== *)
theory Patch_Laws
  imports Reference_Codec
begin

text \<open>
  The laws of ordered JSON Patch edits (src/src/docspec/domain/json_values.py) that a caller of
  \<^theory_text>\<open>apply_patch\<close> relies on: what a later lookup finds, what an edit leaves alone, what
  undoes it, and when a \<open>test\<close> passes.
\<close>

lemma pointer_value_found:
  "pointer_tokens p = Inr ts \<Longrightarrow> pointer_value j p = Inr (Some v) \<longleftrightarrow> json_lookup (Some j) ts = Inr v"
  by (cases "json_lookup (Some j) ts") (simp_all add: pointer_value_def)

lemma apply_write:
  assumes "dict_get operation ''op'' \<in> {JStr ''add'', JStr ''replace''}"
    and "pointer_tokens (dict_get operation ''path'') = Inr ts"
  shows "apply_operation P document operation =
     json_write document ts (dict_get operation ''value'') (dict_get operation ''op'' \<noteq> JStr ''replace'')"
  using assms by (auto simp: apply_operation_def Let_def)

text \<open>The address \<open>-\<close> names the end of an array, so an addition there has another address.\<close>

definition appends :: "string list \<Rightarrow> bool" where
  "appends ts = (ts \<noteq> [] \<and> last ts = ''-'')"

text \<open>C32. After an addition or a replacement the pointer finds exactly the written value.\<close>

theorem patch_write_read:
  assumes "dict_get operation ''op'' \<in> {JStr ''add'', JStr ''replace''}"
    and "pointer_tokens (dict_get operation ''path'') = Inr ts" "\<not> appends ts"
    and "apply_operation P (Some d) operation = Inr (Some d')"
  shows "pointer_value d' (dict_get operation ''path'') = Inr (Some (dict_get operation ''value''))"
proof -
  have w: "json_write (Some d) ts (dict_get operation ''value'') (dict_get operation ''op'' \<noteq> JStr ''replace'')
      = Inr (Some d')"
    using apply_write [OF assms(1,2)] assms(4) by simp
  have "json_lookup (Some d') ts = Inr (dict_get operation ''value'')"
  proof (cases ts rule: rev_cases)
    case Nil
    then show ?thesis using w by (auto simp: json_write_def split: if_splits)
  next
    case (snoc us t)
    then show ?thesis using write_then_lookup [of d us t] w assms(3) by (auto simp: appends_def)
  qed
  then show ?thesis using pointer_value_found [OF assms(2)] by simp
qed

definition sample_document :: json where
  "sample_document = JObj [(''a'', JArr [JInt 1, JInt 2]), (''b'', JNull)]"

definition sample_add :: object where
  "sample_add = [(''op'', JStr ''add''), (''path'', JStr ''/a/1''), (''value'', JStr ''new'')]"

lemma sample_tokens: "pointer_tokens (dict_get sample_add ''path'') = Inr [''a'', ''1'']"
  by code_simp

lemma sample_added:
  "apply_operation P (Some sample_document) sample_add =
     Inr (Some (JObj [(''a'', JArr [JInt 1, JStr ''new'', JInt 2]), (''b'', JNull)]))"
proof -
  have i: "array_index ''1'' (Suc (Suc 0)) True = Inr 1" by code_simp
  have "dict_get sample_add ''op'' \<in> {JStr ''add'', JStr ''replace''}"
    by (simp add: sample_add_def dict_get_def)
  then have "apply_operation P (Some sample_document) sample_add =
      json_write (Some sample_document) [''a'', ''1''] (dict_get sample_add ''value'') (dict_get sample_add ''op'' \<noteq> JStr ''replace'')"
    by (rule apply_write [OF _ sample_tokens])
  then show ?thesis using i
    by (simp add: sample_add_def sample_document_def dict_get_def json_write_def child_key_def)
qed

theorem patch_write_read_witness:
  "pointer_value (JObj [(''a'', JArr [JInt 1, JStr ''new'', JInt 2]), (''b'', JNull)]) (JStr ''/a/1'')
     = Inr (Some (JStr ''new''))"
proof -
  have "dict_get sample_add ''op'' \<in> {JStr ''add'', JStr ''replace''}" "\<not> appends [''a'', ''1'']"
    by (simp_all add: sample_add_def dict_get_def appends_def)
  from patch_write_read [OF this(1) sample_tokens this(2) sample_added]
  show ?thesis by (simp add: sample_add_def dict_get_def)
qed

text \<open>
  An addition is undone by a removal at the same address, unless it replaced a member the
  object already had.
\<close>

theorem patch_add_remove:
  assumes "dict_get addition ''op'' = JStr ''add''" "dict_get removal ''op'' = JStr ''remove''"
    and "dict_get removal ''path'' = dict_get addition ''path''"
    and "pointer_tokens (dict_get addition ''path'') = Inr (us @ [t])" "t \<noteq> ''-''"
    and "\<And>kvs. json_lookup (Some d) us = Inr (JObj kvs) \<Longrightarrow> t \<notin> set (map fst kvs)"
    and "apply_operation P (Some d) addition = Inr document"
  shows "apply_operation P document removal = Inr (Some d)"
proof -
  have w: "json_write (Some d) (us @ [t]) (dict_get addition ''value'') True = Inr document"
    using apply_write [of addition] assms(1,4,7) by simp
  then obtain d' where d': "document = Some d'" using write_then_lookup [OF w] assms(5) by auto
  have "json_remove (Some d') (us @ [t]) = Inr (Some d)"
    using write_then_remove [of d us t _ d'] w d' assms(5,6) by blast
  then show ?thesis using assms(2,3,4) d' by (simp add: apply_operation_def Let_def)
qed

theorem patch_add_remove_witness:
  "apply_operation reference_platform (Some (JObj [(''a'', JArr [JInt 1, JStr ''new'', JInt 2]), (''b'', JNull)]))
     [(''op'', JStr ''remove''), (''path'', JStr ''/a/1'')] = Inr (Some sample_document)"
proof (rule patch_add_remove [of sample_add _ "[''a'']" "''1''"])
  fix kvs assume "json_lookup (Some sample_document) [''a''] = Inr (JObj kvs)"
  then show "''1'' \<notin> set (map fst kvs)"
    by (simp add: sample_document_def child_key_def dict_get_def)
next
  show "apply_operation reference_platform (Some sample_document) sample_add =
      Inr (Some (JObj [(''a'', JArr [JInt 1, JStr ''new'', JInt 2]), (''b'', JNull)]))"
    by (rule sample_added)
qed (use sample_tokens in \<open>simp_all add: sample_add_def dict_get_def\<close>)

text \<open>
  A replacement changes nothing outside the replaced value: an address that branches off before
  its end resolves as before.
\<close>

theorem patch_replace_frame:
  assumes "dict_get operation ''op'' = JStr ''replace''"
    and "pointer_tokens (dict_get operation ''path'') = Inr (c @ a # as)"
    and "pointer_tokens other = Inr (c @ b # bs)" "a \<noteq> b"
    and "apply_operation P (Some d) operation = Inr (Some d')"
    and "pointer_value d other = Inr (Some v)"
  shows "pointer_value d' other = Inr (Some v)"
proof -
  have w: "json_write (Some d) (c @ a # as) (dict_get operation ''value'') False = Inr (Some d')"
    using apply_write [of operation] assms(1,2,5) by simp
  have "json_lookup (Some d) (c @ b # bs) = Inr v" using pointer_value_found [OF assms(3)] assms(6) by simp
  from replace_frame [OF w this assms(4)] show ?thesis using pointer_value_found [OF assms(3)] by simp
qed

definition sample_replace :: object where
  "sample_replace = [(''op'', JStr ''replace''), (''path'', JStr ''/b''), (''value'', JInt 5)]"

theorem patch_replace_frame_witness:
  "pointer_value (JObj [(''a'', JArr [JInt 1, JInt 2]), (''b'', JInt 5)]) (JStr ''/a/1'') = Inr (Some (JInt 2))"
proof -
  have t: "pointer_tokens (dict_get sample_replace ''path'') = Inr ([] @ ''b'' # [])"
    "pointer_tokens (JStr ''/a/1'') = Inr ([] @ ''a'' # [''1''])" by code_simp+
  have v: "pointer_value sample_document (JStr ''/a/1'') = Inr (Some (JInt 2))" by code_simp
  have op: "dict_get sample_replace ''op'' = JStr ''replace''" by (simp add: sample_replace_def dict_get_def)
  then have "apply_operation reference_platform (Some sample_document) sample_replace =
      json_write (Some sample_document) ([] @ ''b'' # []) (dict_get sample_replace ''value'') (dict_get sample_replace ''op'' \<noteq> JStr ''replace'')"
    by (intro apply_write [OF _ t(1)]) simp
  then have "apply_operation reference_platform (Some sample_document) sample_replace =
      Inr (Some (JObj [(''a'', JArr [JInt 1, JInt 2]), (''b'', JInt 5)]))"
    by (simp add: sample_replace_def sample_document_def dict_get_def json_write_def child_key_def)
  from patch_replace_frame [OF op t _ this v] show ?thesis by simp
qed

text \<open>
  A \<open>test\<close> never changes the document, and passes exactly when the address resolves to a value
  equal to the expected one up to key order.
\<close>

theorem patch_test_exact:
  assumes "canonical_documented P" "dict_get operation ''op'' = JStr ''test''"
    and "pointer_tokens (dict_get operation ''path'') = Inr ts"
    and "json_lookup (Some d) ts = Inr found" "canonical P found = Inr x"
    and "canonical P (dict_get operation ''value'') = Inr y"
  shows "apply_operation P (Some d) operation =
     (if key_sorted found = key_sorted (dict_get operation ''value'') then Inr (Some d)
      else Inl (IntegrityError ''JSON Patch test failed''))"
proof -
  have "x = y \<longleftrightarrow> key_sorted found = key_sorted (dict_get operation ''value'')"
    using assms(1,5,6) unfolding canonical_documented_def by (metis Inr_inject)
  then show ?thesis using assms(2-6)
    by (simp add: apply_operation_def Let_def canonical_value_bytes_def)
qed

theorem patch_test_exact_witness:
  "apply_operation reference_platform (Some sample_document)
     [(''op'', JStr ''test''), (''path'', JStr ''/b''), (''value'', JInt 0)]
   = Inl (IntegrityError ''JSON Patch test failed'')"
proof -
  let ?op = "[(''op'', JStr ''test''), (''path'', JStr ''/b''), (''value'', JInt 0)]"
  have "dict_get ?op ''op'' = JStr ''test''" "pointer_tokens (dict_get ?op ''path'') = Inr [''b'']"
    "json_lookup (Some sample_document) [''b''] = Inr JNull" by code_simp+
  from patch_test_exact [OF reference_canonical_documented this reference_canonical reference_canonical]
  show ?thesis by (simp add: dict_get_def)
qed

end
