(* ===== verification/Unicode_Text.thy ===== *)
theory Unicode_Text
  imports Identity
begin

text \<open>
  Text as Python holds it, a sequence of code points, for the segmentation theories: the UTF-8
  codec, \<^theory_text>\<open>str.isspace\<close>, and \<open>decode_utf8\<close> and \<open>utf8_byte_offsets\<close> of
  src/src/docspec/processing/artifacts.py. The lemmas show that the codec is a bijection between
  scalar texts and valid byte strings, and that the offsets are the strictly increasing byte
  positions of the characters.
\<close>

type_synonym utext = "nat list"

text \<open>A Unicode scalar value: a code point that is not a surrogate.\<close>

definition is_scalar :: "nat \<Rightarrow> bool" where
  "is_scalar c = (c < 0xD800 \<or> (0xE000 \<le> c \<and> c < 0x110000))"

definition scalar_text :: "utext \<Rightarrow> bool" where
  "scalar_text t = list_all is_scalar t"

definition isspace :: "nat \<Rightarrow> bool" where
  "isspace c = (9 \<le> c \<and> c \<le> 13 \<or> 28 \<le> c \<and> c \<le> 32 \<or> c = 0x85 \<or> c = 0xA0 \<or> c = 0x1680
     \<or> (0x2000 \<le> c \<and> c \<le> 0x200A) \<or> c = 0x2028 \<or> c = 0x2029 \<or> c = 0x202F \<or> c = 0x205F \<or> c = 0x3000)"

definition text_of :: "string \<Rightarrow> utext" where
  "text_of s = map of_char s"

section \<open>UTF-8\<close>

definition utf8_char :: "nat \<Rightarrow> bytes" where
  "utf8_char c =
     (if c < 0x80 then [of_nat c]
      else if c < 0x800 then [of_nat (0xC0 + c div 64), of_nat (0x80 + c mod 64)]
      else if c < 0x10000 then
        [of_nat (0xE0 + c div 4096), of_nat (0x80 + c div 64 mod 64), of_nat (0x80 + c mod 64)]
      else [of_nat (0xF0 + c div 262144), of_nat (0x80 + c div 4096 mod 64),
            of_nat (0x80 + c div 64 mod 64), of_nat (0x80 + c mod 64)])"

definition utf8_encode :: "utext \<Rightarrow> bytes" where
  "utf8_encode t = concat (map utf8_char t)"

text \<open>A continuation byte's six bits.\<close>

definition continuation :: "byte \<Rightarrow> nat option" where
  "continuation b = (if 0x80 \<le> unat b \<and> unat b < 0xC0 then Some (unat b - 0x80) else None)"

text \<open>
  The first character of a byte string and the rest. Shortest forms only, no surrogates,
  nothing above 0x10FFFF, as the standard decoder has it.
\<close>

fun utf8_step :: "bytes \<Rightarrow> (nat \<times> bytes) option" where
  "utf8_step [] = None"
| "utf8_step (b # bs) =
     (let n = unat b in
      if n < 0x80 then Some (n, bs)
      else if 0xC0 \<le> n \<and> n < 0xE0 then
        (case bs of x # r \<Rightarrow>
           (case continuation x of Some i \<Rightarrow>
              let c = (n - 0xC0) * 64 + i in if 0x80 \<le> c then Some (c, r) else None
            | None \<Rightarrow> None)
         | _ \<Rightarrow> None)
      else if 0xE0 \<le> n \<and> n < 0xF0 then
        (case bs of x # y # r \<Rightarrow>
           (case (continuation x, continuation y) of (Some i, Some j) \<Rightarrow>
              let c = (n - 0xE0) * 4096 + i * 64 + j in
                if 0x800 \<le> c \<and> is_scalar c then Some (c, r) else None
            | _ \<Rightarrow> None)
         | _ \<Rightarrow> None)
      else if 0xF0 \<le> n \<and> n < 0xF8 then
        (case bs of x # y # z # r \<Rightarrow>
           (case (continuation x, continuation y, continuation z) of (Some i, Some j, Some k) \<Rightarrow>
              let c = (n - 0xF0) * 262144 + i * 4096 + j * 64 + k in
                if 0x10000 \<le> c \<and> is_scalar c then Some (c, r) else None
            | _ \<Rightarrow> None)
         | _ \<Rightarrow> None)
      else None)"

lemma utf8_step_shorter: "utf8_step bs = Some (c, r) \<Longrightarrow> length r < length bs"
  by (cases bs) (auto simp: Let_def split: if_splits list.splits option.splits)

function utf8_decode :: "bytes \<Rightarrow> utext option" where
  "utf8_decode bs =
     (if bs = [] then Some []
      else case utf8_step bs of None \<Rightarrow> None
           | Some (c, r) \<Rightarrow> map_option (Cons c) (utf8_decode r))"
  by pat_completeness auto
termination
  by (relation "measure length") (auto dest: utf8_step_shorter)

declare utf8_decode.simps [simp del]

definition decode_utf8 :: "bytes \<Rightarrow> string \<Rightarrow> utext result" where
  "decode_utf8 content label =
     (case utf8_decode content of
        None \<Rightarrow> Inl (IntegrityError (label @ '' is not valid UTF-8''))
      | Some t \<Rightarrow> Inr t)"

fun offsets_from :: "nat \<Rightarrow> utext \<Rightarrow> nat list" where
  "offsets_from acc [] = []"
| "offsets_from acc (c # t) = (acc + length (utf8_char c)) # offsets_from (acc + length (utf8_char c)) t"

definition utf8_byte_offsets :: "utext \<Rightarrow> nat list" where
  "utf8_byte_offsets t = 0 # offsets_from 0 t"

section \<open>The codec\<close>

lemma unat_byte: "n < 256 \<Longrightarrow> unat (of_nat n :: byte) = n"
  by (simp add: unat_of_nat)

lemma continuation_of: "n < 64 \<Longrightarrow> continuation (of_nat (0x80 + n)) = Some n"
  by (simp add: continuation_def unat_byte del: of_nat_add)

lemma utf8_step_char:
  assumes "is_scalar c"
  shows "utf8_step (utf8_char c @ r) = Some (c, r)"
proof -
  have c: "c < 0x110000" using assms by (auto simp: is_scalar_def)
  consider "c < 0x80" | "0x80 \<le> c" "c < 0x800" | "0x800 \<le> c" "c < 0x10000" | "0x10000 \<le> c"
    by linarith
  then show ?thesis
  proof cases
    case 1
    then show ?thesis by (simp add: utf8_char_def unat_byte)
  next
    case 2
    have d: "c div 64 < 32" using 2 by (simp add: div_less_iff_less_mult)
    have n: "unat (of_nat (0xC0 + c div 64) :: byte) = 0xC0 + c div 64" using d by (intro unat_byte) simp
    have "c div 64 * 64 + c mod 64 = c" by simp
    then show ?thesis using 2 n d continuation_of [of "c mod 64"]
      by (simp add: utf8_char_def Let_def del: of_nat_add)
  next
    case 3
    have d: "c div 4096 < 16" using 3 by (simp add: div_less_iff_less_mult)
    have n: "unat (of_nat (0xE0 + c div 4096) :: byte) = 0xE0 + c div 4096" using d by (intro unat_byte) simp
    have "c div 4096 = c div 64 div 64" by (simp add: div_mult2_eq [of c 64 64, symmetric, simplified])
    then have "c div 4096 * 4096 + c div 64 mod 64 * 64 + c mod 64 = c"
      using div_mult_mod_eq [of "c div 64" 64] div_mult_mod_eq [of c 64] by linarith
    then show ?thesis using 3 n d assms continuation_of [of "c mod 64"] continuation_of [of "c div 64 mod 64"]
      by (simp add: utf8_char_def Let_def del: of_nat_add)
  next
    case 4
    have d: "c div 262144 < 5" using c by (simp add: div_less_iff_less_mult)
    have n: "unat (of_nat (0xF0 + c div 262144) :: byte) = 0xF0 + c div 262144" using d by (intro unat_byte) simp
    have "c div 4096 = c div 64 div 64" "c div 262144 = c div 4096 div 64"
      by (simp_all add: div_mult2_eq [of c 64 64, symmetric, simplified] div_mult2_eq [of c 4096 64, symmetric, simplified])
    then have "c div 262144 * 262144 + c div 4096 mod 64 * 4096 + c div 64 mod 64 * 64 + c mod 64 = c"
      using div_mult_mod_eq [of "c div 64" 64] div_mult_mod_eq [of c 64] div_mult_mod_eq [of "c div 4096" 64]
      by linarith
    then show ?thesis
      using 4 n d assms continuation_of [of "c mod 64"] continuation_of [of "c div 64 mod 64"]
        continuation_of [of "c div 4096 mod 64"]
      by (simp add: utf8_char_def Let_def del: of_nat_add)
  qed
qed

lemma utf8_char_nonempty: "utf8_char c \<noteq> []" "0 < length (utf8_char c)"
  by (simp_all add: utf8_char_def)

lemma utf8_decode_encode: "scalar_text t \<Longrightarrow> utf8_decode (utf8_encode t) = Some t"
proof (induction t)
  case Nil
  then show ?case by (simp add: utf8_encode_def utf8_decode.simps)
next
  case (Cons c t)
  then show ?case using utf8_step_char [of c "utf8_encode t"] utf8_char_nonempty [of c]
    by (subst utf8_decode.simps) (simp add: scalar_text_def utf8_encode_def)
qed

lemma byte_of_unat: "unat b = n \<Longrightarrow> of_nat n = (b :: byte)"
  by (auto simp: of_nat_unat)

lemma continuation_Some: "continuation x = Some i \<Longrightarrow> of_nat (0x80 + i) = x \<and> i < 64"
proof -
  assume "continuation x = Some i"
  then have "0x80 \<le> unat x" "unat x < 0xC0" "i = unat x - 0x80"
    by (auto simp: continuation_def split: if_splits)
  then have "unat x = 0x80 + i" "i < 64" by auto
  then show ?thesis using byte_of_unat by blast
qed

lemma pack2: "i < 64 \<Longrightarrow> (m * 64 + i) div 64 = m \<and> (m * 64 + i) mod 64 = (i :: nat)"
  by simp

lemma utf8_step_two:
  assumes "0xC0 \<le> unat b" "unat b < 0xE0" "utf8_step (b # bs) = Some (c, r)"
  shows "b # bs = utf8_char c @ r \<and> is_scalar c"
proof -
  obtain x i where bs: "bs = x # r" "continuation x = Some i" "c = (unat b - 0xC0) * 64 + i" "0x80 \<le> c"
    using assms by (auto simp: Let_def split: list.splits option.splits if_splits)
  note x = continuation_Some [OF bs(2)]
  have "unat b - 0xC0 < 0x20" using assms(2) by linarith
  then have "c < 0x800" using bs(3) x by linarith
  moreover have "0xC0 + (unat b - 0xC0) = unat b" using assms(1) by simp
  ultimately show ?thesis using bs x pack2 [of i "unat b - 0xC0"] byte_of_unat [OF refl, of b]
    by (simp add: utf8_char_def is_scalar_def del: of_nat_add)
qed

lemma utf8_step_three:
  assumes "0xE0 \<le> unat b" "unat b < 0xF0" "utf8_step (b # bs) = Some (c, r)"
  shows "b # bs = utf8_char c @ r \<and> is_scalar c"
proof -
  define m where "m = unat b - 0xE0"
  obtain x y i j where bs: "bs = x # y # r" "continuation x = Some i" "continuation y = Some j"
      "c = m * 4096 + i * 64 + j" "0x800 \<le> c" "is_scalar c"
    using assms by (auto simp: Let_def m_def split: list.splits option.splits if_splits)
  note x = continuation_Some [OF bs(2)] and y = continuation_Some [OF bs(3)]
  have "c = (m * 64 + i) * 64 + j" using bs(4) by simp
  then have d: "c div 64 = m * 64 + i" "c mod 64 = j" using pack2 [of j "m * 64 + i"] y by simp_all
  have "c div 4096 = c div 64 div 64" by (simp add: div_mult2_eq [of c 64 64, symmetric, simplified])
  then have e: "c div 4096 = m" "c div 64 mod 64 = i" using d pack2 [of i m] x by simp_all
  have "m < 0x10" using assms(2) unfolding m_def by linarith
  then have "c < 0x10000" using bs(4) x y by linarith
  moreover have "0xE0 + m = unat b" using assms(1) by (simp add: m_def)
  ultimately show ?thesis using bs x y d e byte_of_unat [OF refl, of b]
    by (simp add: utf8_char_def del: of_nat_add)
qed

lemma utf8_step_four:
  assumes "0xF0 \<le> unat b" "unat b < 0xF8" "utf8_step (b # bs) = Some (c, r)"
  shows "b # bs = utf8_char c @ r \<and> is_scalar c"
proof -
  define m where "m = unat b - 0xF0"
  obtain x y z i j k where bs: "bs = x # y # z # r" "continuation x = Some i" "continuation y = Some j"
      "continuation z = Some k" "c = m * 262144 + i * 4096 + j * 64 + k" "0x10000 \<le> c" "is_scalar c"
    using assms by (auto simp: Let_def m_def split: list.splits option.splits if_splits)
  note x = continuation_Some [OF bs(2)] and y = continuation_Some [OF bs(3)] and z = continuation_Some [OF bs(4)]
  have "c = ((m * 64 + i) * 64 + j) * 64 + k" using bs(5) by simp
  then have d: "c div 64 = (m * 64 + i) * 64 + j" "c mod 64 = k"
    using pack2 [of k "(m * 64 + i) * 64 + j"] z by simp_all
  have "c div 4096 = c div 64 div 64" by (simp add: div_mult2_eq [of c 64 64, symmetric, simplified])
  then have e: "c div 4096 = m * 64 + i" "c div 64 mod 64 = j" using d pack2 [of j "m * 64 + i"] y by simp_all
  have "c div 262144 = c div 4096 div 64" by (simp add: div_mult2_eq [of c 4096 64, symmetric, simplified])
  then have f: "c div 262144 = m" "c div 4096 mod 64 = i" using e pack2 [of i m] x by simp_all
  have "0xF0 + m = unat b" using assms(1) by (simp add: m_def)
  then show ?thesis using bs x y z d e f byte_of_unat [OF refl, of b]
    by (simp add: utf8_char_def del: of_nat_add)
qed

lemma utf8_step_inverse:
  assumes "utf8_step bs = Some (c, r)"
  shows "bs = utf8_char c @ r \<and> is_scalar c"
proof (cases bs)
  case (Cons b tail)
  consider "unat b < 0x80" | "0xC0 \<le> unat b" "unat b < 0xE0" | "0xE0 \<le> unat b" "unat b < 0xF0"
    | "0xF0 \<le> unat b" "unat b < 0xF8"
    using assms Cons by (auto simp: Let_def split: if_splits)
  then show ?thesis
  proof cases
    case 1
    then have "c = unat b" "r = tail" using assms Cons by simp_all
    then show ?thesis using 1 Cons byte_of_unat [OF refl, of b] by (simp add: utf8_char_def is_scalar_def)
  next
    case 2
    then show ?thesis using utf8_step_two assms Cons by simp
  next
    case 3
    then show ?thesis using utf8_step_three assms Cons by simp
  next
    case 4
    then show ?thesis using utf8_step_four assms Cons by simp
  qed
qed (use assms in simp)

lemma utf8_encode_decode: "utf8_decode bs = Some t \<Longrightarrow> utf8_encode t = bs \<and> scalar_text t"
proof (induction bs arbitrary: t rule: utf8_decode.induct)
  case (1 bs)
  show ?case
  proof (cases "bs = []")
    case True
    then show ?thesis using "1.prems" by (simp add: utf8_decode.simps utf8_encode_def scalar_text_def)
  next
    case False
    then obtain c r u where s: "utf8_step bs = Some (c, r)" "utf8_decode r = Some u" "t = c # u"
      using "1.prems" by (subst (asm) utf8_decode.simps) (auto split: option.splits)
    then have "utf8_encode u = r \<and> scalar_text u" using "1.IH" [OF False s(1) refl s(2)] by simp
    then show ?thesis using utf8_step_inverse [OF s(1)] s(3) by (simp add: utf8_encode_def scalar_text_def)
  qed
qed

section \<open>Byte offsets\<close>

lemma utf8_encode_append [simp]: "utf8_encode (s @ t) = utf8_encode s @ utf8_encode t"
  by (simp add: utf8_encode_def)

lemma offsets_from_length [simp]: "length (offsets_from acc t) = length t"
  by (induction t arbitrary: acc) auto

lemma offsets_length [simp]: "length (utf8_byte_offsets t) = Suc (length t)"
  by (simp add: utf8_byte_offsets_def)

lemma offsets_from_nth:
  "i < length t \<Longrightarrow> offsets_from acc t ! i = acc + length (utf8_encode (take (Suc i) t))"
proof (induction t arbitrary: acc i)
  case (Cons c t)
  then show ?case by (cases i) (simp_all add: utf8_encode_def)
qed simp

lemma offsets_nth: "i \<le> length t \<Longrightarrow> utf8_byte_offsets t ! i = length (utf8_encode (take i t))"
  by (cases i) (simp_all add: utf8_byte_offsets_def offsets_from_nth, simp add: utf8_encode_def)

lemma offsets_less:
  assumes "i < j" "j \<le> length t"
  shows "utf8_byte_offsets t ! i < utf8_byte_offsets t ! j"
proof -
  have "take j t = take i t @ t ! i # take (j - Suc i) (drop (Suc i) t)"
    using assms by (metis Cons_nth_drop_Suc add_diff_inverse_nat less_imp_le_nat less_le_trans not_less
        take_Suc_Cons take_add Suc_diff_Suc)
  then show ?thesis using assms utf8_char_nonempty(2) [of "t ! i"]
    by (simp add: offsets_nth utf8_encode_def)
qed

lemma offsets_mono: "i \<le> j \<Longrightarrow> j \<le> length t \<Longrightarrow> utf8_byte_offsets t ! i \<le> utf8_byte_offsets t ! j"
  using offsets_less [of i j t] by (cases "i = j") auto

lemma offsets_inject:
  "i \<le> length t \<Longrightarrow> j \<le> length t \<Longrightarrow> utf8_byte_offsets t ! i = utf8_byte_offsets t ! j \<longleftrightarrow> i = j"
  using offsets_less [of i j t] offsets_less [of j i t] by (cases i j rule: linorder_cases) auto

lemma offsets_zero [simp]: "utf8_byte_offsets t ! 0 = 0"
  by (simp add: utf8_byte_offsets_def)

lemma offsets_last: "utf8_byte_offsets t ! length t = length (utf8_encode t)"
  by (simp add: offsets_nth)

lemma offsets_sorted: "sorted_wrt (<) (utf8_byte_offsets t)"
  by (auto simp: sorted_wrt_iff_nth_less offsets_less)

text \<open>A slice of characters is the slice of bytes between their offsets.\<close>

lemma encode_slice:
  assumes "i \<le> j" "j \<le> length t"
  shows "slice_of (utf8_encode t) (utf8_byte_offsets t ! i) (utf8_byte_offsets t ! j) = utf8_encode (slice_of t i j)"
proof -
  have t: "t = take i t @ slice_of t i j @ drop j t"
    using assms by (simp add: slice_of_def) (metis append_take_drop_id drop_drop le_add_diff_inverse2)
  have j: "take j t = take i t @ slice_of t i j"
    using assms slice_of_append [of 0 i j t] by (simp add: slice_of_def)
  have "utf8_encode t = utf8_encode (take i t) @ utf8_encode (slice_of t i j) @ utf8_encode (drop j t)"
    by (subst t) simp
  moreover have "utf8_byte_offsets t ! i = length (utf8_encode (take i t))"
    "utf8_byte_offsets t ! j = length (utf8_encode (take i t)) + length (utf8_encode (slice_of t i j))"
    using assms j by (simp_all add: offsets_nth)
  ultimately show ?thesis by (simp add: slice_of_def)
qed

text \<open>
  Decoding and encoding are inverse: a byte string decodes exactly when it is the encoding of
  a text of scalar values, and then to that text.
\<close>

theorem decode_utf8_exact:
  "decode_utf8 content label = Inr t \<longleftrightarrow> scalar_text t \<and> content = utf8_encode t"
  using utf8_decode_encode [of t] utf8_encode_decode [of content t]
  by (auto simp: decode_utf8_def split: option.splits)

end
