(* ===== verification/Boundaries.thy ===== *)
theory Boundaries
  imports Unicode_Text
begin

text \<open>
  The boundary machinery of src/src/docspec/processing/bounded_segmentation.py: where an oversized
  region is cut. The token counter is an argument; nothing is assumed of it except where a lemma
  says so. The binary searches and the trimming loops terminate for every counter. The loop of
  \<open>_leaf_spans\<close> need not: a leaf trimmed to nothing would be produced again for ever, which the
  model reports as \<^theory_text>\<open>NoReturn\<close>; for a monotone counter it always returns.
\<close>

record counter =
  ct_name :: string
  ct_version :: string
  ct_count :: "utext \<Rightarrow> int"

section \<open>Breaks\<close>

definition newline :: nat where "newline = 10"

definition sentence_end :: "utext \<Rightarrow> nat \<Rightarrow> bool" where
  "sentence_end t i = (t ! i \<in> {46, 33, 63} \<and> i + 1 < length t \<and> isspace (t ! (i + 1)))"

definition sentence_break :: "utext \<Rightarrow> nat \<Rightarrow> nat \<Rightarrow> nat option" where
  "sentence_break t lower upper = map_option Suc (find (sentence_end t) (rev [lower..<upper]))"

text \<open>\<open>t.rfind(pattern, lower, upper)\<close>, \<open>None\<close> for -1.\<close>

definition rfind :: "utext \<Rightarrow> utext \<Rightarrow> nat \<Rightarrow> nat \<Rightarrow> nat option" where
  "rfind pattern t lower upper =
     find (\<lambda>i. i + length pattern \<le> upper \<and> slice_of t i (i + length pattern) = pattern)
       (rev [lower..<Suc upper])"

definition last_break :: "utext \<Rightarrow> nat \<Rightarrow> nat \<Rightarrow> nat \<Rightarrow> nat result" where
  "last_break t start lower upper =
     (case rfind [newline, newline] t lower upper of
        Some paragraph \<Rightarrow> Inr (paragraph + 2)
      | None \<Rightarrow>
     (case rfind [newline] t lower upper of
        Some line \<Rightarrow> Inr (line + 1)
      | None \<Rightarrow>
     (case sentence_break t lower upper of
        Some sentence \<Rightarrow> Inr sentence
      | None \<Rightarrow>
     (case find (\<lambda>i. isspace (t ! i)) (rev [lower..<upper]) of
        Some i \<Rightarrow> Inr (i + 1)
      | None \<Rightarrow>
        if upper \<le> start then Inl (BoundedSegmentationError ''segment boundary did not advance'')
        else Inr upper))))"

section \<open>Searches\<close>

text \<open>The window after \<open>k\<close> doublings.\<close>

definition window_size :: "int \<Rightarrow> nat \<Rightarrow> nat" where
  "window_size max_tokens k = nat (max 64 (max_tokens * 4)) * 2 ^ k"

lemma window_pos: "0 < window_size max_tokens k"
  by (simp add: window_size_def)

text \<open>The exponential probe: the last fitting end, the first that does not fit, or the whole text.\<close>

function probe :: "counter \<Rightarrow> utext \<Rightarrow> nat \<Rightarrow> int \<Rightarrow> nat \<Rightarrow> nat \<Rightarrow> nat \<times> nat \<times> bool" where
  "probe c t start max_tokens k safe =
     (let high = min (length t) (start + window_size max_tokens k) in
      if ct_count c (slice_of t start high) \<le> max_tokens
      then if high = length t then (high, high, True)
           else probe c t start max_tokens (Suc k) high
      else (safe, high, False))"
  by pat_completeness auto
termination
proof (relation "measure (\<lambda>(c, t, start, max_tokens, k, safe). length t - (start + window_size max_tokens k))", goal_cases)
  case (2 c t start max_tokens k safe high)
  then have "start + window_size max_tokens k < length t" by (auto simp: min_def split: if_splits)
  moreover have "window_size max_tokens (Suc k) = window_size max_tokens k + window_size max_tokens k"
    by (simp add: window_size_def)
  ultimately show ?case using window_pos [of max_tokens k] by simp
qed simp

declare probe.simps [simp del]

text \<open>The binary search for the last fitting end in \<open>[low, high]\<close>.\<close>

function search_largest :: "counter \<Rightarrow> utext \<Rightarrow> nat \<Rightarrow> int \<Rightarrow> nat \<Rightarrow> nat \<Rightarrow> nat \<Rightarrow> nat" where
  "search_largest c t start max_tokens low high safe =
     (if low \<le> high
      then let middle = (low + high) div 2 in
        if ct_count c (slice_of t start middle) \<le> max_tokens
        then search_largest c t start max_tokens (middle + 1) high middle
        else if middle = 0 then safe
        else search_largest c t start max_tokens low (middle - 1) safe
      else safe)"
  by pat_completeness auto
termination
  by (relation "measure (\<lambda>(c, t, start, max_tokens, low, high, safe). Suc high - low)") auto

declare search_largest.simps [simp del]

text \<open>\<open>while safe > start and count(text[start:safe]) > max_tokens: safe -= 1\<close>.\<close>

fun trim_end :: "counter \<Rightarrow> utext \<Rightarrow> nat \<Rightarrow> int \<Rightarrow> nat \<Rightarrow> nat" where
  "trim_end c t start max_tokens 0 = 0"
| "trim_end c t start max_tokens (Suc e) =
     (if start < Suc e \<and> max_tokens < ct_count c (slice_of t start (Suc e))
      then trim_end c t start max_tokens e else Suc e)"

definition largest_end_within_budget :: "counter \<Rightarrow> utext \<Rightarrow> nat \<Rightarrow> int \<Rightarrow> nat result" where
  "largest_end_within_budget c t start max_tokens =
     (if length t \<le> start then Inr (length t)
      else case probe c t start max_tokens 0 start of
        (safe, high, fits) \<Rightarrow>
          if fits then Inr high
          else let safe = trim_end c t start max_tokens
                            (search_largest c t start max_tokens (safe + 1) high safe) in
            if safe = start
            then Inl (BoundedSegmentationError ''max_tokens cannot contain one source character'')
            else Inr safe)"

function search_smallest :: "counter \<Rightarrow> utext \<Rightarrow> nat \<Rightarrow> int \<Rightarrow> nat \<Rightarrow> nat \<Rightarrow> nat \<Rightarrow> nat" where
  "search_smallest c t start min_tokens low high found =
     (if low \<le> high
      then let middle = (low + high) div 2 in
        if min_tokens \<le> ct_count c (slice_of t start middle)
        then (if middle = 0 then middle
              else search_smallest c t start min_tokens low (middle - 1) middle)
        else search_smallest c t start min_tokens (middle + 1) high found
      else found)"
  by pat_completeness auto
termination
  by (relation "measure (\<lambda>(c, t, start, min_tokens, low, high, found). Suc high - low)") auto

declare search_smallest.simps [simp del]

definition smallest_end_at_budget :: "counter \<Rightarrow> utext \<Rightarrow> nat \<Rightarrow> nat \<Rightarrow> int \<Rightarrow> nat" where
  "smallest_end_at_budget c t start upper min_tokens =
     (if min_tokens \<le> 1 then min (start + 1) upper
      else search_smallest c t start min_tokens (start + 1) upper upper)"

section \<open>Leaves\<close>

text \<open>The body of the loop: the end of the leaf that begins at \<open>start\<close>.\<close>

definition leaf_end :: "counter \<Rightarrow> utext \<Rightarrow> int \<Rightarrow> int \<Rightarrow> nat \<Rightarrow> nat result" where
  "leaf_end c t max_tokens min_tokens start =
     bindE (largest_end_within_budget c t start max_tokens) (\<lambda>upper.
       if upper = length t then Inr upper
       else bindE (last_break t start (smallest_end_at_budget c t start upper min_tokens) upper)
              (\<lambda>e. Inr (trim_end c t start max_tokens e)))"

text \<open>
  The loop with a bound on its rounds. Every round that goes forward moves the start by at least
  one, so running out means a round that does not: from then on all rounds are the same.
\<close>

fun leaf_loop :: "nat \<Rightarrow> counter \<Rightarrow> utext \<Rightarrow> int \<Rightarrow> int \<Rightarrow> nat \<Rightarrow> (nat \<times> nat) list \<Rightarrow> (nat \<times> nat) list result" where
  "leaf_loop 0 c t max_tokens min_tokens start spans =
     (if start < length t then Inl NoReturn else Inr spans)"
| "leaf_loop (Suc n) c t max_tokens min_tokens start spans =
     (if start < length t
      then bindE (leaf_end c t max_tokens min_tokens start) (\<lambda>e.
             leaf_loop n c t max_tokens min_tokens e (spans @ [(start, e)]))
      else Inr spans)"

definition leaf_spans :: "counter \<Rightarrow> utext \<Rightarrow> int \<Rightarrow> int \<Rightarrow> (nat \<times> nat) list result" where
  "leaf_spans c t max_tokens min_tokens =
     (if max_tokens \<le> 0 then Inl (BoundedSegmentationError ''max_tokens must be positive'')
      else if min_tokens \<le> 0 \<or> max_tokens < min_tokens
      then Inl (BoundedSegmentationError ''min_tokens must be positive and no larger than max_tokens'')
      else if t = [] then Inr []
      else leaf_loop (length t) c t max_tokens min_tokens 0 [])"

section \<open>Overlap\<close>

function search_overlap :: "counter \<Rightarrow> utext \<Rightarrow> nat \<Rightarrow> int \<Rightarrow> nat \<Rightarrow> nat \<Rightarrow> nat" where
  "search_overlap c t e overlap_tokens low high =
     (if low < high
      then let middle = (low + high) div 2 in
        if ct_count c (slice_of t middle e) \<le> overlap_tokens
        then search_overlap c t e overlap_tokens low middle
        else search_overlap c t e overlap_tokens (middle + 1) high
      else low)"
  by pat_completeness auto
termination
  by (relation "measure (\<lambda>(c, t, e, overlap_tokens, low, high). high - low)") auto

declare search_overlap.simps [simp del]

function trim_start :: "counter \<Rightarrow> utext \<Rightarrow> nat \<Rightarrow> int \<Rightarrow> nat \<Rightarrow> nat" where
  "trim_start c t e overlap_tokens start =
     (if start < e \<and> overlap_tokens < ct_count c (slice_of t start e)
      then trim_start c t e overlap_tokens (start + 1) else start)"
  by pat_completeness auto
termination
  by (relation "measure (\<lambda>(c, t, e, overlap_tokens, start). e - start)") auto

declare trim_start.simps [simp del]

fun extend_start :: "counter \<Rightarrow> utext \<Rightarrow> nat \<Rightarrow> nat \<Rightarrow> int \<Rightarrow> nat \<Rightarrow> nat" where
  "extend_start c t lower e overlap_tokens 0 = 0"
| "extend_start c t lower e overlap_tokens (Suc s) =
     (if lower < Suc s \<and> ct_count c (slice_of t s e) \<le> overlap_tokens
      then extend_start c t lower e overlap_tokens s else Suc s)"

definition overlap_start :: "counter \<Rightarrow> utext \<Rightarrow> nat \<Rightarrow> nat \<Rightarrow> int \<Rightarrow> nat" where
  "overlap_start c t lower e overlap_tokens =
     extend_start c t lower e overlap_tokens
       (trim_start c t e overlap_tokens (search_overlap c t e overlap_tokens lower e))"

section \<open>What the searches find\<close>

abbreviation fits :: "counter \<Rightarrow> utext \<Rightarrow> int \<Rightarrow> nat \<Rightarrow> nat \<Rightarrow> bool" where
  "fits c t m a b \<equiv> ct_count c (slice_of t a b) \<le> m"

text \<open>A longer text never counts less: the named hypothesis of the lemmas that need it.\<close>

definition monotone_counter :: "counter \<Rightarrow> bool" where
  "monotone_counter c \<longleftrightarrow> (\<forall>s t. ct_count c s \<le> ct_count c (s @ t) \<and> ct_count c t \<le> ct_count c (s @ t))"

lemma fits_shorter:
  assumes "monotone_counter c" "fits c t m a b" "a \<le> a'" "a' \<le> b'" "b' \<le> b"
  shows "fits c t m a' b'"
proof -
  have "slice_of t a b = slice_of t a a' @ slice_of t a' b' @ slice_of t b' b"
    using assms slice_of_append [of a a' b t] slice_of_append [of a' b' b t] by simp
  then have "ct_count c (slice_of t a' b') \<le> ct_count c (slice_of t a b)"
    using assms(1) unfolding monotone_counter_def by (metis order_trans)
  then show ?thesis using assms(2) by simp
qed

lemma probe_found:
  "probe c t start m k safe = (s, h, b) \<Longrightarrow> start < length t \<Longrightarrow> start \<le> safe \<Longrightarrow> safe \<le> length t
     \<Longrightarrow> safe < start + window_size m k \<Longrightarrow> safe = start \<or> fits c t m start safe \<Longrightarrow>
     start < h \<and> h \<le> length t \<and> (b \<longleftrightarrow> fits c t m start h) \<and> (b \<longrightarrow> h = length t) \<and>
     (\<not> b \<longrightarrow> start \<le> s \<and> s < h \<and> (s = start \<or> fits c t m start s))"
proof (induction c t start m k safe rule: probe.induct)
  case (1 c t start m k safe)
  define high where "high = min (length t) (start + window_size m k)"
  have high: "start < high" "high \<le> length t"
    using "1.prems"(2) window_pos [of m k] by (simp_all add: high_def)
  have unfolded: "probe c t start m k safe = (if fits c t m start high
      then if high = length t then (high, high, True) else probe c t start m (Suc k) high
      else (safe, high, False))"
    by (subst probe.simps) (simp add: high_def Let_def)
  show ?case
  proof (cases "fits c t m start high \<and> high \<noteq> length t")
    case True
    then have "high = start + window_size m k" by (auto simp: high_def min_def split: if_splits)
    then have "high < start + window_size m (Suc k)" using window_pos [of m k] by (simp add: window_size_def)
    then show ?thesis
      using "1.IH" [OF high_def] True high unfolded "1.prems"(1,2) by simp
  next
    case False
    moreover have "safe < high" if "\<not> fits c t m start high"
      using that "1.prems"(3-6) high by (auto simp: high_def min_def split: if_splits) (metis le_neq_implies_less)+
    ultimately show ?thesis using unfolded "1.prems" high by (auto split: if_splits)
  qed
qed

lemma search_largest_found:
  "search_largest c t start m low high safe = r \<Longrightarrow> r = safe \<or> (low \<le> r \<and> r \<le> high \<and> fits c t m start r)"
proof (induction c t start m low high safe arbitrary: r rule: search_largest.induct)
  case (1 c t start m low high safe)
  show ?case
  proof (cases "low \<le> high")
    case True
    define middle where "middle = (low + high) div 2"
    have mid: "low \<le> middle" "middle \<le> high" using True by (auto simp: middle_def)
    show ?thesis
    proof (cases "fits c t m start middle")
      case fit: True
      have "search_largest c t start m (middle + 1) high middle = r"
        using "1.prems" True fit by (subst (asm) search_largest.simps) (simp add: middle_def Let_def)
      from "1.IH"(1) [OF True middle_def fit this] show ?thesis using mid fit by auto
    next
      case nofit: False
      show ?thesis
      proof (cases "middle = 0")
        case False
        then have "search_largest c t start m low (middle - 1) safe = r"
          using "1.prems" True nofit by (subst (asm) search_largest.simps) (simp add: middle_def Let_def)
        from "1.IH"(2) [OF True middle_def nofit False this] show ?thesis using mid by auto
      next
        case zero: True
        then show ?thesis using "1.prems" True nofit
          by (subst (asm) search_largest.simps) (simp add: middle_def Let_def)
      qed
    qed
  next
    case False
    then show ?thesis using "1.prems" by (subst (asm) search_largest.simps) simp
  qed
qed

text \<open>With a monotone counter the search finds the last end that fits.\<close>

lemma search_largest_last:
  "monotone_counter c \<Longrightarrow> low = Suc safe \<Longrightarrow> start \<le> safe \<Longrightarrow> safe \<le> high \<Longrightarrow>
     \<forall>e. high < e \<longrightarrow> e \<le> length t \<longrightarrow> \<not> fits c t m start e \<Longrightarrow>
     \<forall>e. search_largest c t start m low high safe < e \<longrightarrow> e \<le> length t \<longrightarrow> \<not> fits c t m start e"
proof (induction c t start m low high safe rule: search_largest.induct)
  case (1 c t start m low high safe)
  show ?case
  proof (cases "low \<le> high")
    case True
    define middle where "middle = (low + high) div 2"
    have mid: "low \<le> middle" "middle \<le> high" using True by (auto simp: middle_def)
    show ?thesis
    proof (cases "fits c t m start middle")
      case fit: True
      have eq: "search_largest c t start m low high safe = search_largest c t start m (middle + 1) high middle"
        using True fit by (subst search_largest.simps) (simp add: middle_def Let_def)
      show ?thesis unfolding eq
        by (rule "1.IH"(1) [OF True middle_def fit]) (use "1.prems" mid in auto)
    next
      case nofit: False
      have nz: "middle \<noteq> 0" using mid "1.prems"(2) by simp
      have eq: "search_largest c t start m low high safe = search_largest c t start m low (middle - 1) safe"
        using True nofit nz by (subst search_largest.simps) (simp add: middle_def Let_def)
      have above: "\<not> fits c t m start e" if "middle - 1 < e" "e \<le> length t" for e
      proof
        assume "fits c t m start e"
        then have "fits c t m start middle"
          by (rule fits_shorter [OF "1.prems"(1)]) (use that "1.prems" mid nz in auto)
        then show False using nofit by simp
      qed
      show ?thesis unfolding eq
        by (rule "1.IH"(2) [OF True middle_def nofit nz]) (use "1.prems" mid above in auto)
    qed
  next
    case False
    then have "search_largest c t start m low high safe = safe"
      by (subst search_largest.simps) simp
    moreover have "safe = high" using False "1.prems" by simp
    ultimately show ?thesis using "1.prems" by simp
  qed
qed

lemma trim_end_found:
  "trim_end c t start m e = r \<Longrightarrow> r \<le> e \<and> (start \<le> e \<longrightarrow> start \<le> r \<and> (r = start \<or> fits c t m start r))"
proof (induction e arbitrary: r)
  case (Suc e)
  then show ?case by (cases "start < Suc e \<and> m < ct_count c (slice_of t start (Suc e))") (auto simp: le_Suc_eq)
qed simp

lemma trim_end_fits: "fits c t m start e \<Longrightarrow> trim_end c t start m e = e"
  by (cases e) auto

lemma largest_end_found:
  assumes "largest_end_within_budget c t start m = Inr r" "start < length t"
  shows "start < r \<and> r \<le> length t \<and> fits c t m start r"
proof -
  obtain s h b where p: "probe c t start m 0 start = (s, h, b)" by (metis prod_cases3)
  note found = probe_found [OF p assms(2)]
  have f: "start < h \<and> h \<le> length t \<and> (b \<longleftrightarrow> fits c t m start h) \<and> (b \<longrightarrow> h = length t) \<and>
     (\<not> b \<longrightarrow> start \<le> s \<and> s < h \<and> (s = start \<or> fits c t m start s))"
    using found assms(2) window_pos [of m 0] by simp
  show ?thesis
  proof (cases b)
    case True
    then show ?thesis using assms p f by (simp add: largest_end_within_budget_def)
  next
    case False
    define x where "x = search_largest c t start m (s + 1) h s"
    have r: "r = trim_end c t start m x" "r \<noteq> start"
      using assms p False by (auto simp: largest_end_within_budget_def x_def Let_def split: if_splits)
    have x: "x = s \<or> (s + 1 \<le> x \<and> x \<le> h \<and> fits c t m start x)"
      using search_largest_found [OF x_def [symmetric]] .
    then have "start \<le> x" "x \<le> length t" using f False by auto
    then show ?thesis using trim_end_found [OF r(1) [symmetric]] r(2) by auto
  qed
qed

text \<open>For a monotone counter: the last end of all that fit, and found whenever one character fits.\<close>

lemma largest_end_last:
  assumes mono: "monotone_counter c" and start: "start < length t"
  shows "(\<exists>r. largest_end_within_budget c t start m = Inr r) \<longleftrightarrow> fits c t m start (Suc start)"
    and "largest_end_within_budget c t start m = Inr r \<Longrightarrow> r < e \<Longrightarrow> e \<le> length t \<Longrightarrow> \<not> fits c t m start e"
proof -
  obtain s h b where p: "probe c t start m 0 start = (s, h, b)" by (metis prod_cases3)
  have f: "start < h \<and> h \<le> length t \<and> (b \<longleftrightarrow> fits c t m start h) \<and> (b \<longrightarrow> h = length t) \<and>
     (\<not> b \<longrightarrow> start \<le> s \<and> s < h \<and> (s = start \<or> fits c t m start s))"
    using probe_found [OF p start] start window_pos [of m 0] by simp
  define x where "x = search_largest c t start m (s + 1) h s"
  have x: "x = s \<or> (s + 1 \<le> x \<and> x \<le> h \<and> fits c t m start x)" using search_largest_found [OF x_def [symmetric]] .
  have last: "\<not> fits c t m start e" if nb: "\<not> b" and "x < e" "e \<le> length t" for e
  proof -
    have "\<not> fits c t m start e" if "h < e" "e \<le> length t" for e
    proof
      assume "fits c t m start e"
      then have "fits c t m start h" by (rule fits_shorter [OF mono]) (use that f in auto)
      then show False using f nb by simp
    qed
    then have "\<forall>e. h < e \<longrightarrow> e \<le> length t \<longrightarrow> \<not> fits c t m start e" by blast
    then have "\<forall>e. x < e \<longrightarrow> e \<le> length t \<longrightarrow> \<not> fits c t m start e"
      unfolding x_def by (rule search_largest_last [OF mono, rotated 3]) (use f nb in simp_all)
    then show ?thesis using that by blast
  qed
  define y where "y = trim_end c t start m x"
  have res: "largest_end_within_budget c t start m = (if b then Inr h else if y = start
      then Inl (BoundedSegmentationError ''max_tokens cannot contain one source character'') else Inr y)"
    using start p by (simp add: largest_end_within_budget_def x_def y_def Let_def)
  have y: "y = x" if "\<not> b"
  proof (cases "fits c t m start x")
    case True
    then show ?thesis unfolding y_def by (rule trim_end_fits)
  next
    case False
    then have "x = start" using x f that by blast
    then show ?thesis using trim_end_found [OF y_def [symmetric]] by simp
  qed
  show "(\<exists>r. largest_end_within_budget c t start m = Inr r) \<longleftrightarrow> fits c t m start (Suc start)"
  proof (cases b)
    case True
    then have "fits c t m start (Suc start)"
      using f start by (intro fits_shorter [OF mono, of t start h m start "Suc start"]) auto
    then show ?thesis using True res by simp
  next
    case False
    show ?thesis
    proof (cases "x = start")
      case True
      then show ?thesis using res y False last [OF False, of "Suc start"] start by simp
    next
      case ne: False
      then have "fits c t m start x" "start < x" using x f False by auto
      then have "fits c t m start (Suc start)"
        using fits_shorter [OF mono, of t start x m start "Suc start"] by simp
      then show ?thesis using res False ne y by simp
    qed
  qed
  show "\<not> fits c t m start e" if "largest_end_within_budget c t start m = Inr r" "r < e" "e \<le> length t"
  proof (cases b)
    case True
    then show ?thesis using that res f by simp
  next
    case False
    then have "r = x" using that(1) res y by (simp split: if_splits)
    then show ?thesis using last [OF False] that by simp
  qed
qed

lemma search_smallest_bounds:
  "low \<le> Suc high \<Longrightarrow> start < low \<Longrightarrow> high \<le> upper \<Longrightarrow> found \<le> upper \<Longrightarrow> start < found \<Longrightarrow>
     start < search_smallest c t start m low high found \<and> search_smallest c t start m low high found \<le> upper"
proof (induction c t start m low high found rule: search_smallest.induct)
  case (1 c t start m low high found)
  show ?case
  proof (cases "low \<le> high")
    case True
    define middle where "middle = (low + high) div 2"
    have mid: "low \<le> middle" "middle \<le> high" using True by (auto simp: middle_def)
    then have nz: "middle \<noteq> 0" using "1.prems"(2) by simp
    show ?thesis
    proof (cases "m \<le> ct_count c (slice_of t start middle)")
      case ge: True
      have eq: "search_smallest c t start m low high found = search_smallest c t start m low (middle - 1) middle"
        using True ge nz by (subst search_smallest.simps) (simp add: middle_def Let_def)
      show ?thesis unfolding eq
        by (rule "1.IH"(1) [OF True middle_def ge nz]) (use "1.prems" mid in auto)
    next
      case lt: False
      have eq: "search_smallest c t start m low high found = search_smallest c t start m (middle + 1) high found"
        using True lt by (subst search_smallest.simps) (simp add: middle_def Let_def)
      show ?thesis unfolding eq
        by (rule "1.IH"(2) [OF True middle_def lt]) (use "1.prems" mid in auto)
    qed
  next
    case False
    then show ?thesis using "1.prems" by (subst (1 2) search_smallest.simps) simp
  qed
qed

lemma smallest_end_bounds:
  assumes "start < upper"
  shows "start < smallest_end_at_budget c t start upper m \<and> smallest_end_at_budget c t start upper m \<le> upper"
  using assms search_smallest_bounds [of "start + 1" upper start upper upper c t m]
  by (simp add: smallest_end_at_budget_def)

lemma find_Some_mem: "find P xs = Some x \<Longrightarrow> x \<in> set xs \<and> P x"
  by (induction xs) (auto split: if_splits)

lemma rfind_bounds: "rfind pattern t lower upper = Some i \<Longrightarrow> lower \<le> i \<and> i + length pattern \<le> upper"
  by (auto simp: rfind_def simp del: upt_Suc dest!: find_Some_mem)

text \<open>A break lies above the lower bound and never beyond the upper one.\<close>

lemma last_break_bounds:
  assumes "lower \<le> upper" "start < upper"
  shows "\<exists>e. last_break t start lower upper = Inr e \<and> lower \<le> e \<and> e \<le> upper"
proof (cases "rfind [newline, newline] t lower upper")
  case (Some i)
  then show ?thesis using rfind_bounds [OF Some] by (simp add: last_break_def)
next
  case no_par: None
  show ?thesis
  proof (cases "rfind [newline] t lower upper")
    case (Some i)
    then show ?thesis using no_par rfind_bounds [OF Some] by (simp add: last_break_def)
  next
    case no_line: None
    show ?thesis
    proof (cases "sentence_break t lower upper")
      case (Some i)
      then have "lower < i" "i \<le> upper"
        by (auto simp: sentence_break_def dest!: find_Some_mem)
      then show ?thesis using no_par no_line Some by (simp add: last_break_def)
    next
      case no_sentence: None
      show ?thesis
      proof (cases "find (\<lambda>i. isspace (t ! i)) (rev [lower..<upper])")
        case None
        then show ?thesis using no_par no_line no_sentence assms by (simp add: last_break_def)
      next
        case (Some i)
        then have "lower \<le> i" "i < upper" by (auto dest!: find_Some_mem)
        then show ?thesis using no_par no_line no_sentence Some by (simp add: last_break_def)
      qed
    qed
  qed
qed

section \<open>Leaves\<close>

text \<open>
  The specification of a split: consecutive, nonempty, within the budget, from the given start to
  the end of the text.
\<close>

fun leaf_chain :: "counter \<Rightarrow> utext \<Rightarrow> int \<Rightarrow> nat \<Rightarrow> (nat \<times> nat) list \<Rightarrow> bool" where
  "leaf_chain c t m a [] = (a = length t)"
| "leaf_chain c t m a ((x, y) # spans) =
     (x = a \<and> x < y \<and> y \<le> length t \<and> fits c t m x y \<and> leaf_chain c t m y spans)"

lemma leaf_chain_concat:
  "leaf_chain c t m a spans \<Longrightarrow> a \<le> length t \<Longrightarrow>
     concat (map (\<lambda>(x, y). slice_of t x y) spans) = drop a t"
proof (induction spans arbitrary: a)
  case (Cons s spans)
  obtain x y where s: "s = (x, y)" by (cases s)
  then have "concat (map (\<lambda>(x, y). slice_of t x y) spans) = slice_of t y (length t)"
    using Cons by (auto simp: slice_of_def)
  moreover have "slice_of t x (length t) = drop a t" using Cons.prems s by (simp add: slice_of_def)
  ultimately show ?case using Cons.prems s slice_of_append [of x y "length t" t] by simp
qed simp

lemma leaf_end_found:
  assumes "leaf_end c t m k start = Inr e" "start < length t"
  shows "start \<le> e \<and> e \<le> length t \<and> (e = start \<or> fits c t m start e)"
proof -
  obtain upper where up: "largest_end_within_budget c t start m = Inr upper"
    using assms(1) by (auto simp: leaf_end_def bindE_Inr_iff)
  note u = largest_end_found [OF up assms(2)]
  show ?thesis
  proof (cases "upper = length t")
    case True
    then show ?thesis using assms(1) up u by (simp add: leaf_end_def)
  next
    case False
    note lower = smallest_end_bounds [of start upper c t k]
    obtain b where b: "last_break t start (smallest_end_at_budget c t start upper k) upper = Inr b"
      "smallest_end_at_budget c t start upper k \<le> b" "b \<le> upper"
      using last_break_bounds lower u by blast
    then have "e = trim_end c t start m b" using assms(1) up False by (simp add: leaf_end_def)
    then show ?thesis using trim_end_found [of c t start m b e] b lower u by auto
  qed
qed

lemma leaf_end_forward:
  assumes "monotone_counter c" "leaf_end c t m k start = Inr e" "start < length t"
  shows "start < e"
proof -
  obtain upper where up: "largest_end_within_budget c t start m = Inr upper"
    using assms(2) by (auto simp: leaf_end_def bindE_Inr_iff)
  note u = largest_end_found [OF up assms(3)]
  show ?thesis
  proof (cases "upper = length t")
    case True
    then show ?thesis using assms(2) up u by (simp add: leaf_end_def)
  next
    case False
    note lower = smallest_end_bounds [of start upper c t k]
    obtain b where b: "last_break t start (smallest_end_at_budget c t start upper k) upper = Inr b"
      "smallest_end_at_budget c t start upper k \<le> b" "b \<le> upper"
      using last_break_bounds lower u by blast
    have "fits c t m start b" by (rule fits_shorter [OF assms(1)]) (use u b lower in auto)
    then have "e = b" using assms(2) up False b trim_end_fits by (simp add: leaf_end_def)
    then show ?thesis using b lower u by auto
  qed
qed

lemma leaf_end_exists:
  assumes "monotone_counter c" "fits c t m start (Suc start)" "start < length t"
  shows "\<exists>e. leaf_end c t m k start = Inr e"
proof -
  obtain upper where up: "largest_end_within_budget c t start m = Inr upper"
    using largest_end_last(1) [OF assms(1,3)] assms(2) by blast
  note u = largest_end_found [OF up assms(3)]
  note lower = smallest_end_bounds [of start upper c t k]
  obtain b where "last_break t start (smallest_end_at_budget c t start upper k) upper = Inr b"
    using last_break_bounds lower u by blast
  then show ?thesis using up by (simp add: leaf_end_def)
qed

text \<open>A round that stays where it is repeats for ever.\<close>

lemma leaf_loop_stuck:
  "start < length t \<Longrightarrow> leaf_end c t m k start = Inr start \<Longrightarrow> leaf_loop n c t m k start spans = Inl NoReturn"
  by (induction n arbitrary: spans) auto

text \<open>The bound on the rounds is no restriction: any two that suffice agree.\<close>

lemma leaf_loop_enough:
  "start \<le> length t \<Longrightarrow> length t - start \<le> n \<Longrightarrow> length t - start \<le> n' \<Longrightarrow>
     leaf_loop n c t m k start spans = leaf_loop n' c t m k start spans"
proof (induction n arbitrary: n' start spans)
  case 0
  then show ?case by (cases n') auto
next
  case (Suc n)
  show ?case
  proof (cases "start < length t")
    case True
    then obtain j where j: "n' = Suc j" using Suc.prems by (cases n') auto
    show ?thesis
    proof (cases "leaf_end c t m k start")
      case (Inr e)
      note e = leaf_end_found [OF Inr True]
      show ?thesis
      proof (cases "e = start")
        case True
        then show ?thesis using leaf_loop_stuck Inr \<open>start < length t\<close> by simp
      next
        case False
        then have "length t - e \<le> j" "length t - e \<le> n" using e Suc.prems j by auto
        then show ?thesis using Suc.IH e True j Inr by simp
      qed
    qed (use True j in simp)
  next
    case False
    then show ?thesis by (cases n') simp_all
  qed
qed

text \<open>Every list of spans the loop returns continues the given ones by a chain.\<close>

lemma leaf_loop_chain:
  "leaf_loop n c t m k start spans = Inr r \<Longrightarrow> start \<le> length t \<Longrightarrow>
     \<exists>more. r = spans @ more \<and> leaf_chain c t m start more"
proof (induction n arbitrary: start spans)
  case 0
  then have "r = spans @ [] \<and> leaf_chain c t m start []" by (simp split: if_splits)
  then show ?case by blast
next
  case (Suc n)
  show ?case
  proof (cases "start < length t")
    case True
    then obtain e where e: "leaf_end c t m k start = Inr e"
      and rest: "leaf_loop n c t m k e (spans @ [(start, e)]) = Inr r"
      using Suc.prems(1) by (auto simp: bindE_Inr_iff)
    note found = leaf_end_found [OF e True]
    have "e \<noteq> start"
    proof
      assume same: "e = start"
      then have "leaf_loop n c t m k e (spans @ [(start, e)]) = Inl NoReturn"
        using leaf_loop_stuck e True by blast
      then show False using rest by simp
    qed
    moreover obtain more where "r = (spans @ [(start, e)]) @ more" "leaf_chain c t m e more"
      using Suc.IH [OF rest] found by blast
    ultimately have "r = spans @ ((start, e) # more) \<and> leaf_chain c t m start ((start, e) # more)"
      using found by auto
    then show ?thesis by blast
  next
    case False
    then have "r = spans @ [] \<and> leaf_chain c t m start []" using Suc.prems by simp
    then show ?thesis by blast
  qed
qed

lemma leaf_spans_chain:
  "leaf_spans c t m k = Inr spans \<Longrightarrow> leaf_chain c t m 0 spans"
  using leaf_loop_chain [of "length t" c t m k 0 "[]" spans]
  by (auto simp: leaf_spans_def split: if_splits)

lemma leaf_loop_returns:
  "monotone_counter c \<Longrightarrow> (\<And>i. i < length t \<Longrightarrow> fits c t m i (Suc i)) \<Longrightarrow> start \<le> length t \<Longrightarrow>
     length t - start \<le> n \<Longrightarrow> \<exists>r. leaf_loop n c t m k start spans = Inr r"
proof (induction n arbitrary: start spans)
  case (Suc n)
  show ?case
  proof (cases "start < length t")
    case True
    obtain e where e: "leaf_end c t m k start = Inr e"
      using leaf_end_exists [OF Suc.prems(1) Suc.prems(2) [OF True] True] by blast
    have "start < e" "e \<le> length t"
      using leaf_end_forward [OF Suc.prems(1) e True] leaf_end_found [OF e True] by auto
    then have "\<exists>r. leaf_loop n c t m k e (spans @ [(start, e)]) = Inr r"
      using Suc.prems by (intro Suc.IH) auto
    then show ?thesis using True e by simp
  qed simp
qed simp

lemma leaf_spans_exists:
  assumes "monotone_counter c" "\<And>i. i < length t \<Longrightarrow> fits c t m i (Suc i)" "0 < k" "k \<le> m"
  shows "\<exists>spans. leaf_spans c t m k = Inr spans"
  using assms leaf_loop_returns [OF assms(1,2), of 0 "length t" k "[]"]
  by (simp add: leaf_spans_def)

section \<open>Overlap starts\<close>

lemma search_overlap_bounds:
  "low \<le> high \<Longrightarrow> low \<le> search_overlap c t e m low high \<and> search_overlap c t e m low high \<le> high"
proof (induction c t e m low high rule: search_overlap.induct)
  case (1 c t e m low high)
  show ?case
  proof (cases "low < high")
    case True
    define middle where "middle = (low + high) div 2"
    have mid: "low \<le> middle" "middle < high" using True by (auto simp: middle_def)
    have eq: "search_overlap c t e m low high =
        (if fits c t m middle e then search_overlap c t e m low middle
         else search_overlap c t e m (middle + 1) high)"
      using True by (subst search_overlap.simps) (simp add: middle_def Let_def)
    show ?thesis
    proof (cases "fits c t m middle e")
      case fit: True
      then show ?thesis using "1.IH"(1) [OF True middle_def fit] mid eq by simp
    next
      case nofit: False
      then show ?thesis using "1.IH"(2) [OF True middle_def nofit] mid eq by simp
    qed
  next
    case False
    then have "search_overlap c t e m low high = low" by (subst search_overlap.simps) simp
    then show ?thesis using "1.prems" by simp
  qed
qed

lemma trim_start_found:
  "start \<le> e \<Longrightarrow> start \<le> trim_start c t e m start \<and> trim_start c t e m start \<le> e \<and>
     (trim_start c t e m start = e \<or> fits c t m (trim_start c t e m start) e)"
proof (induction c t e m start rule: trim_start.induct)
  case (1 c t e m start)
  show ?case
  proof (cases "start < e \<and> m < ct_count c (slice_of t start e)")
    case True
    then have "trim_start c t e m start = trim_start c t e m (start + 1)"
      by (subst trim_start.simps) simp
    then show ?thesis using "1.IH" [OF True] True by auto
  next
    case False
    have "trim_start c t e m start = start" by (subst trim_start.simps) (rule if_not_P [OF False])
    then show ?thesis using False "1.prems" by auto
  qed
qed

lemma extend_start_found:
  "lower \<le> s \<Longrightarrow> s = e \<or> fits c t m s e \<Longrightarrow>
     lower \<le> extend_start c t lower e m s \<and> extend_start c t lower e m s \<le> s \<and>
     (extend_start c t lower e m s = e \<or> fits c t m (extend_start c t lower e m s) e) \<and>
     (lower < extend_start c t lower e m s \<longrightarrow>
        \<not> fits c t m (extend_start c t lower e m s - 1) e)"
proof (induction s)
  case (Suc s)
  show ?case
  proof (cases "lower < Suc s \<and> fits c t m s e")
    case True
    then show ?thesis using Suc.IH by auto
  next
    case False
    then show ?thesis using Suc.prems by auto
  qed
qed simp

lemma overlap_start_found:
  assumes "lower \<le> e"
  shows "lower \<le> overlap_start c t lower e m \<and> overlap_start c t lower e m \<le> e \<and>
     (overlap_start c t lower e m = e \<or> fits c t m (overlap_start c t lower e m) e) \<and>
     (lower < overlap_start c t lower e m \<longrightarrow> \<not> fits c t m (overlap_start c t lower e m - 1) e)"
proof -
  define a where "a = search_overlap c t e m lower e"
  define b where "b = trim_start c t e m a"
  have a: "lower \<le> a" "a \<le> e" using search_overlap_bounds [OF assms] by (auto simp: a_def)
  have b: "a \<le> b" "b \<le> e" "b = e \<or> fits c t m b e"
    using trim_start_found [OF a(2), of c t m] by (auto simp: b_def)
  have eq: "overlap_start c t lower e m = extend_start c t lower e m b"
    by (simp add: overlap_start_def a_def b_def)
  have "lower \<le> b" using a b by simp
  from extend_start_found [OF this b(3)] show ?thesis unfolding eq using b(2) by auto
qed

section \<open>Properties of the split\<close>

text \<open>
  Whatever the token counter, a split that \<open>_leaf_spans\<close> returns consists of consecutive
  nonempty spans from the first character to the last, each within the budget, and the texts of
  the spans concatenate to the text: nothing is dropped, repeated or too long.
\<close>

theorem leaf_spans_tile:
  assumes "leaf_spans c t m k = Inr spans"
  shows "leaf_chain c t m 0 spans \<and> concat (map (\<lambda>(a, b). slice_of t a b) spans) = t"
  using leaf_spans_chain [OF assms] leaf_chain_concat [of c t m 0 spans] by simp

definition length_counter :: counter where
  "length_counter = \<lparr>ct_name = ''length'', ct_version = ''1'', ct_count = (\<lambda>t. int (length t))\<rparr>"

lemma length_counter_count [simp]: "ct_count length_counter t = int (length t)"
  by (simp add: length_counter_def)

lemma length_counter_monotone: "monotone_counter length_counter"
  by (simp add: monotone_counter_def)

lemma leaf_spans_sample:
  "leaf_spans length_counter [97, 32, 98, 99, 100] 3 1 = Inr [(0, 2), (2, 5)]"
  by code_simp

theorem leaf_spans_tile_witness:
  "leaf_chain length_counter [97, 32, 98, 99, 100] 3 0 [(0, 2), (2, 5)] \<and>
     concat (map (\<lambda>(a, b). slice_of [97::nat, 32, 98, 99, 100] a b) [(0, 2), (2, 5)]) = [97, 32, 98, 99, 100]"
  by (rule leaf_spans_tile [OF leaf_spans_sample])

text \<open>
  C33. \<open>_leaf_spans\<close> returns for every monotone token counter whenever the budgets are legal and each
  single character fits the budget.
\<close>

theorem leaf_spans_returns:
  assumes "monotone_counter c" "\<forall>i<length t. ct_count c (slice_of t i (Suc i)) \<le> m" "0 < k" "k \<le> m"
  shows "\<exists>spans. leaf_spans c t m k = Inr spans"
  using assms leaf_spans_exists by blast

theorem leaf_spans_returns_witness:
  "\<exists>spans. leaf_spans length_counter [97, 32, 98, 99, 100] 3 1 = Inr spans"
  by (rule leaf_spans_returns)
    (auto simp: monotone_counter_def slice_of_def)

text \<open>
  A counter that counts a shorter text higher, as a tokenizer with merges does: two tokens for a
  text of one letter or ending in a space, one for the others.
\<close>

definition merging_counter :: counter where
  "merging_counter = \<lparr>ct_name = ''merging'', ct_version = ''1'',
     ct_count = (\<lambda>t. if t = [] then 0 else if length t = 3 then 1 else 2)\<rparr>"

text \<open>
  C34. Without monotonicity \<open>_leaf_spans\<close> need not return: cutting \<open>a bcd\<close> at the break before \<open>b\<close>,
  a counter that gives the text \<open>a b\<close> one token but its prefixes two makes the trimming loop give
  back the whole leaf, the span is empty and the next round starts where this one did, whatever the
  number of rounds.
\<close>

theorem leaf_spans_may_not_return:
  "leaf_spans merging_counter [97, 32, 98, 99, 100] 1 1 = Inl NoReturn \<and>
     leaf_loop n merging_counter [97, 32, 98, 99, 100] 1 1 0 spans = Inl NoReturn"
proof -
  have "leaf_end merging_counter [97, 32, 98, 99, 100] 1 1 0 = Inr 0" by code_simp
  then have "leaf_loop n merging_counter [97, 32, 98, 99, 100] 1 1 0 spans = Inl NoReturn" for n spans
    by (rule leaf_loop_stuck [rotated]) simp
  then show ?thesis by (simp add: leaf_spans_def)
qed

text \<open>
  The start of an overlap lies between its bounds, the overlap before \<open>e\<close> stays within its
  budget unless it is empty, and one character more would exceed it: for any token counter.
\<close>

theorem overlap_start_maximal:
  assumes "lower \<le> e"
  shows "lower \<le> overlap_start c t lower e m \<and> overlap_start c t lower e m \<le> e \<and>
     (overlap_start c t lower e m = e \<or> ct_count c (slice_of t (overlap_start c t lower e m) e) \<le> m) \<and>
     (lower < overlap_start c t lower e m \<longrightarrow>
        m < ct_count c (slice_of t (overlap_start c t lower e m - 1) e))"
  using overlap_start_found [OF assms, of c t m] unfolding not_le .

theorem overlap_start_maximal_witness:
  "(0::nat) \<le> overlap_start length_counter [97, 32, 98, 99, 100] 0 4 2 \<and>
     overlap_start length_counter [97, 32, 98, 99, 100] 0 4 2 = 2"
proof -
  have "overlap_start length_counter [97, 32, 98, 99, 100] 0 4 2 = 2" by code_simp
  then show ?thesis using overlap_start_maximal [of 0 4 length_counter "[97, 32, 98, 99, 100]" 2] by simp
qed

end
