(* ===== verification/Regions.thy ===== *)
theory Regions
  imports Boundaries
begin

text \<open>
  The region tiling of src/src/docspec/processing/bounded_segmentation.py: blank-line blocks,
  ATX headings, and the heading stack. The two regular expressions are written out as the
  deterministic matchers they are. The lemmas show that the regions of a window tile it, what
  each kind of region holds, and that the heading stack is a path of increasing levels.
\<close>

section \<open>Blank-line blocks\<close>

text \<open>\<open>\r?\n\<close> at a position, then \<open>[ \t]*\<close>, then \<open>\r?\n\<close>: no choice leads back.\<close>

definition newline_at :: "utext \<Rightarrow> nat \<Rightarrow> nat \<Rightarrow> nat option" where
  "newline_at t upper i =
     (if i + 1 < upper \<and> t ! i = 13 \<and> t ! (i + 1) = newline then Some (i + 2)
      else if i < upper \<and> t ! i = newline then Some (i + 1) else None)"

definition is_blank :: "nat \<Rightarrow> bool" where
  "is_blank c = (c = 32 \<or> c = 9)"

definition skip_blanks :: "utext \<Rightarrow> nat \<Rightarrow> nat \<Rightarrow> nat" where
  "skip_blanks t upper i = i + length (takeWhile is_blank (slice_of t i upper))"

definition gap_end :: "utext \<Rightarrow> nat \<Rightarrow> nat \<Rightarrow> nat option" where
  "gap_end t upper i =
     Option.bind (newline_at t upper i) (\<lambda>j. newline_at t upper (skip_blanks t upper j))"

lemma newline_at_bounds: "newline_at t upper i = Some j \<Longrightarrow> i < j \<and> j \<le> upper"
  by (auto simp: newline_at_def split: if_splits)

lemma gap_end_bounds: "gap_end t upper i = Some j \<Longrightarrow> i < j \<and> j \<le> upper"
  by (auto simp: gap_end_def skip_blanks_def dest!: newline_at_bounds split: Option.bind_splits)

text \<open>\<open>finditer\<close>: leftmost matches, each search beginning where the last match ended.\<close>

function gaps :: "utext \<Rightarrow> nat \<Rightarrow> nat \<Rightarrow> (nat \<times> nat) list" where
  "gaps t upper i =
     (if i < upper
      then case gap_end t upper i of
             Some j \<Rightarrow> (i, j) # gaps t upper j
           | None \<Rightarrow> gaps t upper (i + 1)
      else [])"
  by pat_completeness auto
termination
  by (relation "measure (\<lambda>(t, upper, i). upper - i)") (auto dest: gap_end_bounds)

declare gaps.simps [simp del]

fun blocks_from :: "nat \<Rightarrow> nat \<Rightarrow> (nat \<times> nat) list \<Rightarrow> (nat \<times> nat) list" where
  "blocks_from upper start [] = [(start, upper)]"
| "blocks_from upper start ((a, b) # rest) = (start, a) # (a, b) # blocks_from upper b rest"

definition blocks :: "utext \<Rightarrow> nat \<Rightarrow> nat \<Rightarrow> (nat \<times> nat) list" where
  "blocks t lower upper = blocks_from upper lower (gaps t upper lower)"

section \<open>Regions\<close>

datatype region_kind = Paragraph | Heading | EmptyRegion

record region =
  rg_window :: nat
  rg_kind :: region_kind
  rg_start :: nat
  rg_end :: nat
  rg_text :: utext

definition evidence_eligible :: "region \<Rightarrow> bool" where
  "evidence_eligible r = (rg_kind r = Paragraph)"

definition hash :: nat where "hash = 35"

text \<open>
  \<open>^(#{1,6})[ \t]+(\S.*)$\<close>: the hashes, the blanks and the first other character are determined;
  the rest runs to the end of the line, which is the end of the text or before a last newline.
\<close>

definition heading_match :: "utext \<Rightarrow> (nat \<times> utext) option" where
  "heading_match body =
     (let level = length (takeWhile (\<lambda>c. c = hash) body);
          after = drop level body;
          title = dropWhile is_blank after;
          line = takeWhile (\<lambda>c. c \<noteq> newline) title in
      if 1 \<le> level \<and> level \<le> 6 \<and> after \<noteq> [] \<and> is_blank (hd after)
           \<and> title \<noteq> [] \<and> \<not> isspace (hd title)
           \<and> (drop (length line) title = [] \<or> drop (length line) title = [newline])
      then Some (level, line) else None)"

text \<open>The two trimming loops: the first position from \<open>a\<close> on, and the last end from \<open>b\<close> back, that are not space.\<close>

definition skip_space :: "utext \<Rightarrow> nat \<Rightarrow> nat \<Rightarrow> nat" where
  "skip_space t a b = a + length (takeWhile isspace (slice_of t a b))"

definition drop_space :: "utext \<Rightarrow> nat \<Rightarrow> nat \<Rightarrow> nat" where
  "drop_space t a b = b - length (takeWhile isspace (rev (slice_of t a b)))"

definition block_regions :: "utext \<Rightarrow> nat \<Rightarrow> nat \<times> nat \<Rightarrow> region list" where
  "block_regions t index block = (case block of (a, b) \<Rightarrow>
     if a = b then []
     else let a' = skip_space t a b; b' = drop_space t a' b in
       if a' = b' then [\<lparr>rg_window = index, rg_kind = EmptyRegion, rg_start = a, rg_end = b, rg_text = slice_of t a b\<rparr>]
       else let body = slice_of t a' b';
                kind = (if newline \<notin> set body \<and> heading_match body \<noteq> None then Heading else Paragraph) in
         (if a < a' then [\<lparr>rg_window = index, rg_kind = EmptyRegion, rg_start = a, rg_end = a', rg_text = slice_of t a a'\<rparr>] else [])
         @ [\<lparr>rg_window = index, rg_kind = kind, rg_start = a', rg_end = b', rg_text = body\<rparr>]
         @ (if b' < b then [\<lparr>rg_window = index, rg_kind = EmptyRegion, rg_start = b', rg_end = b, rg_text = slice_of t b' b\<rparr>] else []))"

definition window_regions :: "utext \<Rightarrow> nat \<Rightarrow> nat \<times> nat \<Rightarrow> region list" where
  "window_regions t index window =
     concat (map (block_regions t index) (blocks t (fst window) (snd window)))"

definition regions :: "utext \<Rightarrow> (nat \<times> nat) list \<Rightarrow> region list" where
  "regions t windows = concat (map (\<lambda>(index, window). window_regions t index window) (enumerate 0 windows))"

section \<open>Headings\<close>

type_synonym heading_stack = "(nat \<times> utext) list"

definition heading_path :: "heading_stack \<Rightarrow> utext list" where
  "heading_path stack = map snd stack"

definition strip_text :: "utext \<Rightarrow> utext" where
  "strip_text t = rev (dropWhile isspace (rev (dropWhile isspace t)))"

definition push_heading :: "heading_stack \<Rightarrow> utext \<Rightarrow> (heading_stack \<times> (nat \<times> utext)) result" where
  "push_heading stack body =
     (case heading_match body of
        None \<Rightarrow> Inl (BoundedSegmentationError ''a heading region must carry a heading'')
      | Some (level, title) \<Rightarrow>
          let entry = (level, strip_text title) in
          Inr (rev (dropWhile (\<lambda>e. level \<le> fst e) (rev stack)) @ [entry], entry))"

section \<open>The tiling\<close>

text \<open>Consecutive nonempty pieces from one position to another.\<close>

fun tiles :: "nat \<Rightarrow> nat \<Rightarrow> (nat \<times> nat) list \<Rightarrow> bool" where
  "tiles a b [] = (a = b)"
| "tiles a b ((x, y) # rest) = (x = a \<and> x < y \<and> tiles y b rest)"

lemma tiles_append: "tiles a b (xs @ ys) \<longleftrightarrow> (\<exists>m. tiles a m xs \<and> tiles m b ys)"
  by (induction xs arbitrary: a) auto

lemma tiles_le: "tiles a b xs \<Longrightarrow> a \<le> b"
  by (induction xs arbitrary: a) fastforce+

lemma tiles_inside: "tiles a b xs \<Longrightarrow> (x, y) \<in> set xs \<Longrightarrow> a \<le> x \<and> x < y \<and> y \<le> b"
proof (induction xs arbitrary: a)
  case (Cons p xs)
  obtain u v where p: "p = (u, v)" by (cases p)
  then show ?case using Cons tiles_le [of v b xs] by fastforce
qed simp

lemma tiles_hit: "tiles a b xs \<Longrightarrow> a \<le> p \<Longrightarrow> p < b \<Longrightarrow> \<exists>(x, y) \<in> set xs. x \<le> p \<and> p < y"
proof (induction xs arbitrary: a)
  case (Cons q xs)
  obtain x y where q: "q = (x, y)" by (cases q)
  then show ?case using Cons.prems Cons.IH [of y] by (cases "p < y") auto
qed simp

definition span_of :: "region \<Rightarrow> nat \<times> nat" where
  "span_of r = (rg_start r, rg_end r)"

text \<open>What a region holds.\<close>

definition region_ok :: "utext \<Rightarrow> nat \<Rightarrow> region \<Rightarrow> bool" where
  "region_ok t index r \<longleftrightarrow> rg_window r = index \<and> rg_start r < rg_end r \<and> rg_end r \<le> length t \<and>
     rg_text r = slice_of t (rg_start r) (rg_end r) \<and>
     (case rg_kind r of
        EmptyRegion \<Rightarrow> list_all isspace (rg_text r)
      | Heading \<Rightarrow> newline \<notin> set (rg_text r) \<and> (\<exists>m. heading_match (rg_text r) = Some m)
      | Paragraph \<Rightarrow> \<not> isspace (hd (rg_text r)) \<and> \<not> isspace (last (rg_text r)) \<and>
          \<not> (newline \<notin> set (rg_text r) \<and> heading_match (rg_text r) \<noteq> None))"

lemma skip_space_parts:
  assumes "a \<le> b" "b \<le> length t"
  shows "a \<le> skip_space t a b \<and> skip_space t a b \<le> b \<and>
    slice_of t a (skip_space t a b) = takeWhile isspace (slice_of t a b) \<and>
    slice_of t (skip_space t a b) b = dropWhile isspace (slice_of t a b)"
proof -
  define n where "n = length (takeWhile isspace (slice_of t a b))"
  have n: "n \<le> b - a" "skip_space t a b = a + n"
    using length_takeWhile_le [of isspace "slice_of t a b"] slice_of_length [OF assms]
    by (simp_all add: n_def skip_space_def)
  have "slice_of t a (a + n) = take n (slice_of t a b)" using n assms by (simp add: slice_of_def min_def)
  moreover have "slice_of t (a + n) b = drop n (slice_of t a b)"
    using n assms by (simp add: slice_of_def drop_take ac_simps)
  ultimately show ?thesis using n assms
    by (simp add: n_def takeWhile_eq_take [symmetric] dropWhile_eq_drop [symmetric])
qed

lemma drop_space_parts:
  assumes "a \<le> b" "b \<le> length t"
  shows "a \<le> drop_space t a b \<and> drop_space t a b \<le> b \<and>
    slice_of t a (drop_space t a b) = rev (dropWhile isspace (rev (slice_of t a b))) \<and>
    slice_of t (drop_space t a b) b = rev (takeWhile isspace (rev (slice_of t a b)))"
proof -
  define s where "s = slice_of t a b"
  define n where "n = length (takeWhile isspace (rev s))"
  have len: "length s = b - a" using slice_of_length [OF assms] by (simp add: s_def)
  have n: "n \<le> b - a" "drop_space t a b = b - n"
    using length_takeWhile_le [of isspace "rev s"] len by (simp_all add: n_def s_def drop_space_def)
  have "slice_of t a (b - n) = take (b - a - n) s"
    using n assms by (simp add: s_def slice_of_def min_def add.commute)
  moreover have "slice_of t (b - n) b = drop (b - a - n) s"
    using n assms by (simp add: s_def slice_of_def drop_take)
  moreover have "rev (dropWhile isspace (rev s)) = take (b - a - n) s"
    by (simp add: dropWhile_eq_drop n_def [symmetric] rev_drop len)
  moreover have "rev (takeWhile isspace (rev s)) = drop (b - a - n) s"
    using n len by (subst takeWhile_eq_take) (simp add: n_def [symmetric] rev_take)
  ultimately show ?thesis using n assms by (simp add: s_def)
qed

lemma set_takeWhile_all: "list_all P (takeWhile P xs)"
  by (induction xs) auto

lemma hd_dropWhile_rev: "rev (dropWhile P (rev xs)) \<noteq> [] \<Longrightarrow> hd (rev (dropWhile P (rev xs))) = hd xs"
proof -
  assume ne: "rev (dropWhile P (rev xs)) \<noteq> []"
  have "rev (takeWhile P (rev xs) @ dropWhile P (rev xs)) = xs" by simp
  then have "hd (rev (dropWhile P (rev xs)) @ rev (takeWhile P (rev xs))) = hd xs"
    unfolding rev_append by (rule arg_cong)
  then show ?thesis by (simp only: hd_append2 [OF ne])
qed

text \<open>The regions of one block tile it, and each is as its kind says.\<close>

lemma block_regions_ok:
  assumes "a \<le> b" "b \<le> length t"
  shows "tiles a b (map span_of (block_regions t i (a, b))) \<and>
    (\<forall>r \<in> set (block_regions t i (a, b)). region_ok t i r)"
proof (cases "a = b")
  case False
  define a' where "a' = skip_space t a b"
  define b' where "b' = drop_space t a' b"
  note A = skip_space_parts [OF assms, folded a'_def]
  have "a' \<le> b" using A by simp
  note B = drop_space_parts [OF this assms(2), folded b'_def]
  have white: "list_all isspace (slice_of t a a')" "list_all isspace (slice_of t b' b)"
    using A B by (simp_all only: list_all_rev set_takeWhile_all)
  have body: "slice_of t a' b' = rev (dropWhile isspace (rev (dropWhile isspace (slice_of t a b))))"
    using A B by (simp only:)
  show ?thesis
  proof (cases "a' = b'")
    case True
    then have "list_all isspace (slice_of t a' b)" using white(2) by simp
    then have "list_all isspace (slice_of t a a' @ slice_of t a' b)" using white(1) by simp
    then have "list_all isspace (slice_of t a b)"
      using slice_of_append [of a a' b t] A by (simp only:)
    then show ?thesis
      using False True [symmetric] assms
      by (simp add: block_regions_def a'_def [symmetric] b'_def [symmetric] region_ok_def span_of_def)
  next
    case ne: False
    then have lt: "a' < b'" using B by simp
    define s where "s = slice_of t a' b'"
    have "length s = b' - a'" unfolding s_def using lt B assms by (intro slice_of_length) auto
    then have len: "s \<noteq> []" using lt by auto
    have drop_ne: "dropWhile isspace (slice_of t a b) \<noteq> []"
    proof
      assume "dropWhile isspace (slice_of t a b) = []"
      then have "s = []" unfolding s_def body by (simp only: rev.simps dropWhile.simps)
      then show False using len by simp
    qed
    have "hd s = hd (dropWhile isspace (slice_of t a b))"
      using hd_dropWhile_rev len unfolding s_def body .
    then have first: "\<not> isspace (hd s)" using hd_dropWhile [OF drop_ne] by simp
    have rest_ne: "dropWhile isspace (rev (dropWhile isspace (slice_of t a b))) \<noteq> []"
      using len unfolding s_def body by (simp only: rev_is_Nil_conv not_False_eq_True)
    have last: "\<not> isspace (last s)"
      using hd_dropWhile [OF rest_ne] unfolding s_def body last_rev .
    show ?thesis
      using False ne lt A B assms white first last
      by (simp add: block_regions_def a'_def [symmetric] b'_def [symmetric] region_ok_def span_of_def
            s_def [symmetric] Let_def)
  qed
qed (simp add: block_regions_def)

text \<open>The gaps lie in order, so the blocks run from the window's start to its end.\<close>

fun in_order :: "nat \<Rightarrow> nat \<Rightarrow> (nat \<times> nat) list \<Rightarrow> bool" where
  "in_order a b [] = (a \<le> b)"
| "in_order a b ((x, y) # rest) = (a \<le> x \<and> x < y \<and> in_order y b rest)"

lemma in_order_weaken: "in_order a b xs \<Longrightarrow> a' \<le> a \<Longrightarrow> in_order a' b xs"
  by (cases "(a, b, xs)" rule: in_order.cases) auto

lemma in_order_end: "in_order a b xs \<Longrightarrow> a \<le> b"
  by (induction a b xs rule: in_order.induct) auto

lemma gaps_in_order: "i \<le> upper \<Longrightarrow> in_order i upper (gaps t upper i)"
proof (induction t upper i rule: gaps.induct)
  case (1 t upper i)
  show ?case
  proof (cases "i < upper")
    case True
    show ?thesis
    proof (cases "gap_end t upper i")
      case None
      then have "gaps t upper i = gaps t upper (i + 1)" using True by (subst gaps.simps) simp
      then show ?thesis using "1.IH"(1) [OF True None] True in_order_weaken by simp
    next
      case (Some j)
      then have "gaps t upper i = (i, j) # gaps t upper j" using True by (subst gaps.simps) simp
      then show ?thesis using "1.IH"(2) [OF True Some] gap_end_bounds [OF Some] by simp
    qed
  next
    case False
    then have "gaps t upper i = []" by (subst gaps.simps) simp
    then show ?thesis using "1.prems" by simp
  qed
qed

lemma blocks_regions_ok:
  "in_order start upper gs \<Longrightarrow> upper \<le> length t \<Longrightarrow>
     tiles start upper (map span_of (concat (map (block_regions t i) (blocks_from upper start gs)))) \<and>
     (\<forall>r \<in> set (concat (map (block_regions t i) (blocks_from upper start gs))). region_ok t i r)"
proof (induction upper start gs rule: blocks_from.induct)
  case (1 upper start)
  then show ?case using block_regions_ok [of start upper t i] by simp
next
  case (2 upper start a b rest)
  then have le: "start \<le> a" "a < b" "b \<le> upper" using in_order_end by auto
  note one = block_regions_ok [of start a t i] and two = block_regions_ok [of a b t i]
  have "tiles start a (map span_of (block_regions t i (start, a)))"
    "tiles a b (map span_of (block_regions t i (a, b)))"
    using one two le 2 by auto
  moreover have "tiles b upper (map span_of (concat (map (block_regions t i) (blocks_from upper b rest))))"
    using 2 by simp
  ultimately show ?case using one two le 2 by (auto simp: tiles_append)
qed

lemma window_regions_ok:
  assumes "lower \<le> upper" "upper \<le> length t"
  shows "tiles lower upper (map span_of (window_regions t i (lower, upper))) \<and>
    (\<forall>r \<in> set (window_regions t i (lower, upper)). region_ok t i r)"
  using blocks_regions_ok [OF gaps_in_order [OF assms(1)] assms(2)]
  by (simp add: window_regions_def blocks_def)

section \<open>No region but an empty one crosses a blank line\<close>

definition no_gap :: "utext \<Rightarrow> nat \<Rightarrow> nat \<Rightarrow> nat \<Rightarrow> bool" where
  "no_gap t upper a b \<longleftrightarrow> (\<forall>i. a \<le> i \<longrightarrow> i < b \<longrightarrow> gap_end t upper i = None)"

lemma blocks_split:
  "no_gap t upper start i \<Longrightarrow> i \<le> upper \<Longrightarrow> (a, b) \<in> set (blocks_from upper start (gaps t upper i)) \<Longrightarrow>
     gap_end t upper a = Some b \<or> no_gap t upper a b"
proof (induction t upper i arbitrary: start rule: gaps.induct)
  case (1 t upper i)
  show ?case
  proof (cases "i < upper")
    case True
    show ?thesis
    proof (cases "gap_end t upper i")
      case None
      then have eq: "gaps t upper i = gaps t upper (i + 1)" using True by (subst gaps.simps) simp
      moreover have "no_gap t upper start (i + 1)"
        using "1.prems"(1) None by (simp add: no_gap_def less_Suc_eq)
      ultimately show ?thesis
        using "1.IH"(1) [OF True None] "1.prems"(3) True unfolding eq by simp
    next
      case (Some j)
      then have eq: "gaps t upper i = (i, j) # gaps t upper j" using True by (subst gaps.simps) simp
      have "no_gap t upper j j" by (simp add: no_gap_def)
      moreover have "j \<le> upper" using gap_end_bounds [OF Some] by simp
      moreover have "(a, b) = (start, i) \<or> (a, b) = (i, j) \<or> (a, b) \<in> set (blocks_from upper j (gaps t upper j))"
        using "1.prems"(3) eq by auto
      ultimately show ?thesis using "1.IH"(2) [OF True Some] "1.prems"(1) Some by blast
    qed
  next
    case False
    then have "gaps t upper i = []" by (subst gaps.simps) simp
    then show ?thesis using "1.prems" False by simp
  qed
qed

lemma isspace_breaks [simp]: "isspace 13" "isspace newline" "isspace 32" "isspace 9"
  by (simp_all add: isspace_def newline_def)

lemma newline_at_cases:
  "newline_at t upper i = Some j \<Longrightarrow>
     (j = i + 2 \<and> t ! i = 13 \<and> t ! (i + 1) = newline) \<or> (j = i + 1 \<and> t ! i = newline)"
  unfolding newline_at_def by (simp only: split: if_splits) (simp_all only: option.inject option.distinct, blast+)

lemma newline_space:
  assumes "newline_at t upper i = Some j" "i \<le> x" "x < j"
  shows "isspace (t ! x)"
proof -
  have "x = i \<or> x = i + 1" using newline_at_cases [OF assms(1)] assms(2,3) by linarith
  then show ?thesis using newline_at_cases [OF assms(1)] assms(3) by auto
qed

lemma blocks_from_inside:
  "in_order start upper gs \<Longrightarrow> (a, b) \<in> set (blocks_from upper start gs) \<Longrightarrow> a \<le> b \<and> b \<le> upper"
proof (induction upper start gs rule: blocks_from.induct)
  case (2 upper start x y rest)
  then have "start \<le> x" "x < y" "y \<le> upper" using in_order_end [of y upper rest] by auto
  then show ?case using 2 by auto
qed simp

lemma gap_space:
  assumes "gap_end t upper i = Some j" "i \<le> x" "x < j" "upper \<le> length t"
  shows "isspace (t ! x)"
proof -
  obtain m where m: "newline_at t upper i = Some m" "newline_at t upper (skip_blanks t upper m) = Some j"
    using assms(1) unfolding gap_end_def bind_eq_Some_conv by blast
  consider "x < m" | "m \<le> x" "x < skip_blanks t upper m" | "skip_blanks t upper m \<le> x" by linarith
  then show ?thesis
  proof cases
    case 1
    then show ?thesis using newline_space [OF m(1)] assms by blast
  next
    case 2
    define s where "s = slice_of t m upper"
    have k: "x - m < length (takeWhile is_blank s)" using 2 by (simp add: skip_blanks_def s_def)
    have "length (takeWhile is_blank s) \<le> length s" by (rule length_takeWhile_le)
    then have "x - m < upper - m" using k by (simp add: s_def slice_of_def)
    then have "s ! (x - m) = t ! x" using 2 assms(4) by (simp add: s_def slice_of_nth)
    moreover have "is_blank (takeWhile is_blank s ! (x - m))"
      using set_takeWhileD [OF nth_mem [OF k]] by blast
    ultimately have "is_blank (t ! x)" using takeWhile_nth [OF k] by simp
    then show ?thesis unfolding is_blank_def by auto
  next
    case 3
    then show ?thesis using newline_space [OF m(2)] assms by blast
  qed
qed

lemma window_regions_blocks:
  assumes "lower \<le> upper" "upper \<le> length t" "r \<in> set (window_regions t i (lower, upper))"
    "rg_kind r \<noteq> EmptyRegion"
  shows "no_gap t upper (rg_start r) (rg_end r)"
proof -
  obtain a b where ab: "(a, b) \<in> set (blocks t lower upper)" "r \<in> set (block_regions t i (a, b))"
    using assms(3) by (auto simp: window_regions_def)
  have bounds: "a \<le> b" "b \<le> upper" "b \<le> length t"
    using blocks_from_inside [OF gaps_in_order [OF assms(1)]] ab(1) assms(2) by (fastforce simp: blocks_def)+
  note ok = block_regions_ok [OF bounds(1,3), of i]
  have r: "region_ok t i r" using ok ab(2) by blast
  have inside: "a \<le> rg_start r" "rg_start r < rg_end r" "rg_end r \<le> b"
    using tiles_inside [of a b _ "rg_start r" "rg_end r"] ok ab(2) by (auto simp: span_of_def)
  have "no_gap t upper lower lower" by (simp add: no_gap_def)
  then have "gap_end t upper a = Some b \<or> no_gap t upper a b"
    using blocks_split ab(1) assms(1) by (simp add: blocks_def)
  moreover have "gap_end t upper a \<noteq> Some b"
  proof
    assume "gap_end t upper a = Some b"
    then have "isspace (t ! rg_start r)" using gap_space inside assms(2) by simp
    moreover have "rg_text r = slice_of t (rg_start r) (rg_end r)" using r by (simp add: region_ok_def)
    then have "hd (rg_text r) = t ! rg_start r"
      using inside bounds by (simp add: hd_drop_conv_nth slice_of_def hd_take)
    moreover have "\<not> isspace (hd (rg_text r))"
    proof (cases "rg_kind r")
      case Heading
      then obtain m where "heading_match (rg_text r) = Some m" using r by (auto simp: region_ok_def)
      then have "1 \<le> length (takeWhile (\<lambda>c. c = hash) (rg_text r))"
        by (auto simp: heading_match_def Let_def split: if_splits)
      then have "hd (rg_text r) = hash" by (cases "rg_text r") (auto split: if_splits)
      then show ?thesis by (simp add: hash_def isspace_def)
    qed (use r assms(4) in \<open>auto simp: region_ok_def\<close>)
    ultimately show False by simp
  qed
  ultimately show ?thesis using inside by (simp add: no_gap_def)
qed

section \<open>All windows\<close>

lemma block_regions_window: "\<forall>r \<in> set (block_regions t i b). rg_window r = i"
  by (cases b) (simp add: block_regions_def Let_def ball_Un)

lemma window_regions_window: "r \<in> set (window_regions t i w) \<Longrightarrow> rg_window r = i"
  using block_regions_window [of t i] by (auto simp: window_regions_def)

lemma filter_window:
  "filter (\<lambda>r. rg_window r = k) (window_regions t i w) = (if i = k then window_regions t i w else [])"
proof (cases "i = k")
  case True
  have "\<forall>r \<in> set (window_regions t i w). rg_window r = k"
    using window_regions_window [of _ t i w] True by blast
  then show ?thesis unfolding filter_id_conv [symmetric] by (simp only: True if_True simp_thms)
next
  case False
  have "\<forall>r \<in> set (window_regions t i w). \<not> rg_window r = k"
    using window_regions_window [of _ t i w] False by blast
  then have "filter (\<lambda>r. rg_window r = k) (window_regions t i w) = []"
    by (simp only: filter_empty_conv not_False_eq_True)
  then show ?thesis by (simp only: False if_False)
qed

lemma regions_from_filter:
  "filter (\<lambda>r. rg_window r = k) (concat (map (\<lambda>(i, w). window_regions t i w) (enumerate n ws))) =
     (if n \<le> k \<and> k < n + length ws then window_regions t k (ws ! (k - n)) else [])"
proof (induction ws arbitrary: n)
  case Nil
  have "\<not> (n \<le> k \<and> k < n)" by simp
  then show ?case by (simp only: enumerate_simps list.map concat.simps filter.simps list.size add_0_right if_False)
next
  case (Cons w ws)
  then show ?case by (cases "k = n") (simp_all add: filter_window nth_Cons')
qed

lemma regions_filter:
  "k < length windows \<Longrightarrow>
     filter (\<lambda>r. rg_window r = k) (regions t windows) = window_regions t k (windows ! k)"
  using regions_from_filter [of k t 0 windows] by (simp add: regions_def)

lemma regions_member:
  "r \<in> set (regions t windows) \<Longrightarrow>
     rg_window r < length windows \<and> r \<in> set (window_regions t (rg_window r) (windows ! rg_window r))"
proof -
  assume "r \<in> set (regions t windows)"
  then have "r \<in> set (filter (\<lambda>q. rg_window q = rg_window r) (regions t windows))" by simp
  then show ?thesis using regions_from_filter [of "rg_window r" t 0 windows]
    by (auto simp: regions_def split: if_splits)
qed

abbreviation legal_windows :: "utext \<Rightarrow> (nat \<times> nat) list \<Rightarrow> bool" where
  "legal_windows t windows \<equiv> \<forall>w \<in> set windows. fst w \<le> snd w \<and> snd w \<le> length t"

lemma regions_ok:
  assumes "legal_windows t windows" "r \<in> set (regions t windows)"
  shows "region_ok t (rg_window r) r"
    and "rg_kind r \<noteq> EmptyRegion \<Longrightarrow> no_gap t (snd (windows ! rg_window r)) (rg_start r) (rg_end r)"
proof -
  define w where "w = windows ! rg_window r"
  have r: "w \<in> set windows" "r \<in> set (window_regions t (rg_window r) (fst w, snd w))"
    using regions_member [OF assms(2)] by (simp_all add: w_def)
  show "region_ok t (rg_window r) r" using window_regions_ok assms(1) r by blast
  show "rg_kind r \<noteq> EmptyRegion \<Longrightarrow> no_gap t (snd (windows ! rg_window r)) (rg_start r) (rg_end r)"
    using window_regions_blocks assms(1) r unfolding w_def by blast
qed

lemma regions_window_tiles:
  assumes "legal_windows t windows" "k < length windows"
  shows "tiles (fst (windows ! k)) (snd (windows ! k))
    (map span_of (filter (\<lambda>r. rg_window r = k) (regions t windows)))"
proof -
  have "windows ! k \<in> set windows" using assms(2) by simp
  then show ?thesis
    using window_regions_ok [of "fst (windows ! k)" "snd (windows ! k)" t k] assms regions_filter
    by simp
qed

text \<open>
  The regions of every window tile it exactly: in order, nonempty, abutting, from its start to
  its end. Each region carries the text of its span; an empty region is all white space, a heading
  is one line that the heading pattern matches, a paragraph begins and ends with other characters,
  and no blank line begins inside a heading or a paragraph.
\<close>

theorem regions_tile:
  assumes "legal_windows t windows"
  shows "(\<forall>k < length windows. tiles (fst (windows ! k)) (snd (windows ! k))
      (map span_of (filter (\<lambda>r. rg_window r = k) (regions t windows)))) \<and>
    (\<forall>r \<in> set (regions t windows). region_ok t (rg_window r) r \<and>
      (rg_kind r \<noteq> EmptyRegion \<longrightarrow> no_gap t (snd (windows ! rg_window r)) (rg_start r) (rg_end r)))"
  using regions_window_tiles regions_ok assms by blast

definition sample_text :: utext where
  "sample_text = [35, 32, 65, 10, 10, 98, 99]"

lemma sample_blocks: "blocks sample_text 0 7 = [(0, 3), (3, 5), (5, 7)]"
  by (simp add: blocks_def gaps.simps gap_end_def newline_at_def skip_blanks_def is_blank_def slice_of_def
      newline_def sample_text_def)

lemma sample_regions:
  "regions sample_text [(0, 7)] =
     [\<lparr>rg_window = 0, rg_kind = Heading, rg_start = 0, rg_end = 3, rg_text = [35, 32, 65]\<rparr>,
      \<lparr>rg_window = 0, rg_kind = EmptyRegion, rg_start = 3, rg_end = 5, rg_text = [10, 10]\<rparr>,
      \<lparr>rg_window = 0, rg_kind = Paragraph, rg_start = 5, rg_end = 7, rg_text = [98, 99]\<rparr>]"
  by (simp add: regions_def window_regions_def sample_blocks [unfolded sample_text_def] block_regions_def Let_def
      skip_space_def drop_space_def isspace_def slice_of_def sample_text_def heading_match_def
      hash_def is_blank_def newline_def)

theorem regions_tile_witness:
  "tiles 0 7 (map span_of (regions sample_text [(0, 7)])) \<and>
     length (regions sample_text [(0, 7)]) = 3"
proof -
  have "length sample_text = 7" by (simp add: sample_text_def)
  then have "tiles 0 7 (map span_of (filter (\<lambda>r. rg_window r = 0) (regions sample_text [(0, 7)])))"
    using regions_tile [of "[(0, 7)]" sample_text] by simp
  then show ?thesis unfolding sample_regions by simp
qed

section \<open>The heading path\<close>

definition heading_levels_ok :: "heading_stack \<Rightarrow> bool" where
  "heading_levels_ok stack \<longleftrightarrow> sorted_wrt (<) (map fst stack) \<and> (\<forall>e \<in> set stack. 1 \<le> fst e \<and> fst e \<le> 6)"

lemma heading_match_level:
  "heading_match body = Some (level, title) \<Longrightarrow> 1 \<le> level \<and> level \<le> 6 \<and> title \<noteq> [] \<and> \<not> isspace (hd title)"
proof -
  assume m: "heading_match body = Some (level, title)"
  define x where "x = dropWhile is_blank (drop (length (takeWhile (\<lambda>c. c = hash) body)) body)"
  have level: "1 \<le> level" "level \<le> 6" and title: "title = takeWhile (\<lambda>c. c \<noteq> newline) x" "x \<noteq> []" "\<not> isspace (hd x)"
    using m by (auto simp: heading_match_def Let_def x_def split: if_splits)
  then have "hd x \<noteq> newline" by auto
  then show ?thesis using level title by (cases x) auto
qed

lemma kept_levels:
  assumes "heading_levels_ok stack"
  shows "\<exists>kept dropped. stack = kept @ dropped \<and>
     rev (dropWhile (\<lambda>e. level \<le> fst e) (rev stack)) = kept \<and> heading_levels_ok kept \<and>
     (\<forall>e \<in> set kept. fst e < level) \<and> (\<forall>e \<in> set dropped. level \<le> fst e)"
proof -
  define kept where "kept = rev (dropWhile (\<lambda>e. level \<le> fst e) (rev stack))"
  define dropped where "dropped = rev (takeWhile (\<lambda>e. level \<le> fst e) (rev stack))"
  have "rev (takeWhile (\<lambda>e. level \<le> fst e) (rev stack) @ dropWhile (\<lambda>e. level \<le> fst e) (rev stack)) = stack" by simp
  then have split: "kept @ dropped = stack" by (simp only: kept_def dropped_def rev_append)
  have ok: "heading_levels_ok kept" using assms split [symmetric]
    by (auto simp: heading_levels_ok_def sorted_wrt_append)
  have drop: "\<forall>e \<in> set dropped. level \<le> fst e" by (auto simp: dropped_def dest: set_takeWhileD)
  have keep: "\<forall>e \<in> set kept. fst e < level"
  proof (cases kept rule: rev_cases)
    case (snoc front e)
    have "rev kept = dropWhile (\<lambda>e. level \<le> fst e) (rev stack)" by (simp add: kept_def)
    then have "dropWhile (\<lambda>e. level \<le> fst e) (rev stack) = e # rev front" using snoc by simp
    then have last: "fst e < level" by (simp add: dropWhile_eq_Cons_conv)
    have "\<forall>x \<in> set front. fst x < fst e" using ok snoc by (auto simp: heading_levels_ok_def sorted_wrt_append)
    then show ?thesis using snoc last by auto
  qed simp
  show ?thesis using split ok drop keep kept_def by metis
qed

lemma push_heading_ok:
  assumes "heading_levels_ok stack" "push_heading stack body = Inr (stack', entry)"
  shows "heading_levels_ok stack' \<and> (\<exists>kept dropped. stack = kept @ dropped \<and> stack' = kept @ [entry] \<and>
     (\<forall>e \<in> set kept. fst e < fst entry) \<and> (\<forall>e \<in> set dropped. fst entry \<le> fst e))"
proof -
  obtain level title where m: "heading_match body = Some (level, title)"
    using assms(2) by (auto simp: push_heading_def split: option.splits)
  then have entry: "entry = (level, strip_text title)"
    and stack': "stack' = rev (dropWhile (\<lambda>e. level \<le> fst e) (rev stack)) @ [entry]"
    using assms(2) by (auto simp: push_heading_def Let_def)
  obtain kept dropped where k: "stack = kept @ dropped"
    "rev (dropWhile (\<lambda>e. level \<le> fst e) (rev stack)) = kept" "heading_levels_ok kept"
    "\<forall>e \<in> set kept. fst e < level" "\<forall>e \<in> set dropped. level \<le> fst e"
    using kept_levels [OF assms(1), of level] by blast
  have "heading_levels_ok (kept @ [entry])"
    using k(3,4) heading_match_level [OF m] by (auto simp: heading_levels_ok_def sorted_wrt_append entry)
  then show ?thesis using k entry stack' by auto
qed

text \<open>
  The heading path stays a path: pushing a heading keeps exactly the enclosing headings of
  lower level, drops those it closes, and appends its own, so along every stack the levels strictly
  increase from 1 to at most 6.
\<close>

theorem heading_path_nested:
  assumes "heading_levels_ok stack" "push_heading stack body = Inr (stack', entry)"
  shows "heading_levels_ok stack' \<and> (\<exists>kept dropped. stack = kept @ dropped \<and> stack' = kept @ [entry] \<and>
     (\<forall>e \<in> set kept. fst e < fst entry) \<and> (\<forall>e \<in> set dropped. fst entry \<le> fst e))"
  using push_heading_ok [OF assms] .

lemma sample_push:
  "push_heading [(1, [65]), (2, [66]), (3, [67])] [35, 35, 32, 68, 32] =
     Inr ([(1, [65]), (2, [68])], (2, [68]))"
  by (simp add: push_heading_def heading_match_def strip_text_def isspace_def hash_def is_blank_def newline_def Let_def)

theorem heading_path_nested_witness:
  "heading_levels_ok [(1, [65 :: nat]), (2, [68])]"
  using heading_path_nested [OF _ sample_push] by (simp add: heading_levels_ok_def)

end
