(* ===== verification/Coverage.thy ===== *)
theory Coverage
  imports Prelude "HOL-Library.Product_Lexorder" "HOL-Library.Multiset"
begin

text \<open>
  The byte accounting of src/src/docspec/processing/bounded_segmentation.py: \<open>_merge\<close>,
  \<open>_remainder\<close>, \<open>_union_length\<close> and the sweep of \<open>_coverage\<close>. The lemmas give each its meaning on
  the set of positions that spans cover, and \<open>coverage\<close> its meaning as cardinalities.
\<close>

section \<open>Definitions\<close>

type_synonym span = "nat \<times> nat"

fun merge_from :: "span list \<Rightarrow> span list \<Rightarrow> span list" where
  "merge_from merged [] = merged"
| "merge_from merged ((s, e) # rest) =
     (if merged \<noteq> [] \<and> s \<le> snd (last merged)
      then merge_from (butlast merged @ [(fst (last merged), max (snd (last merged)) e)]) rest
      else merge_from (merged @ [(s, e)]) rest)"

definition merge_spans :: "span list \<Rightarrow> span list" where
  "merge_spans values = merge_from [] (sort values)"

fun remainder_from :: "span list \<Rightarrow> nat \<Rightarrow> nat \<Rightarrow> span list \<Rightarrow> span list" where
  "remainder_from pieces position e [] =
     (if position < e then pieces @ [(position, e)] else pieces)"
| "remainder_from pieces position e ((span_start, span_end) # rest) =
     (if span_end \<le> position then remainder_from pieces position e rest
      else if e \<le> span_start then (if position < e then pieces @ [(position, e)] else pieces)
      else let pieces = (if position < span_start then pieces @ [(position, min span_start e)] else pieces);
               position = max position span_end in
        if e \<le> position then pieces else remainder_from pieces position e rest)"

definition remainder :: "nat \<Rightarrow> nat \<Rightarrow> span list \<Rightarrow> span list" where
  "remainder s e covered = remainder_from [] s e covered"

definition union_length :: "span list \<Rightarrow> int" where
  "union_length values = sum_list (map (\<lambda>(s, e). int e - int s) (merge_spans values))"

record segment_coverage =
  cv_representation_bytes :: int
  cv_covered_bytes :: int
  cv_duplicated_bytes :: int
  cv_excluded_bytes :: int
  cv_uncovered_bytes :: int
  cv_segment_count :: int

text \<open>The events, and the sweep with its covered, duplicated, active and previous.\<close>

definition span_events :: "span list \<Rightarrow> (nat \<times> int) list" where
  "span_events spans = concat (map (\<lambda>(s, e). [(s, 1), (e, -1)]) spans)"

fun sweep :: "int \<Rightarrow> int \<Rightarrow> int \<Rightarrow> nat \<Rightarrow> (nat \<times> int) list \<Rightarrow> int \<times> int" where
  "sweep covered duplicated active previous [] = (covered, duplicated)"
| "sweep covered duplicated active previous ((position, delta) # rest) =
     (let width = int position - int previous;
          (covered, duplicated) =
            (if active \<noteq> 0
             then (covered + width, if 1 < active then duplicated + width * (active - 1) else duplicated)
             else (covered, duplicated))
      in sweep covered duplicated (active + delta) position rest)"

definition coverage :: "nat \<Rightarrow> span list \<Rightarrow> span list \<Rightarrow> segment_coverage" where
  "coverage representation_bytes spans excluded_spans =
     (let (covered, duplicated) =
            sweep 0 0 0 0 (sort_key (\<lambda>(position, delta). (position, - delta)) (span_events spans));
          accounted = union_length (spans @ excluded_spans) in
      \<lparr>cv_representation_bytes = int representation_bytes,
       cv_covered_bytes = covered,
       cv_duplicated_bytes = duplicated,
       cv_excluded_bytes = accounted - union_length spans,
       cv_uncovered_bytes = int representation_bytes - accounted,
       cv_segment_count = int (length spans)\<rparr>)"

definition identity_holds :: "segment_coverage \<Rightarrow> bool" where
  "identity_holds c = (cv_uncovered_bytes c = 0 \<and>
     cv_covered_bytes c + cv_excluded_bytes c = cv_representation_bytes c)"

section \<open>The positions spans cover\<close>

definition cover :: "span list \<Rightarrow> nat set" where
  "cover values = (\<Union>(s, e) \<in> set values. {s..<e})"

lemma cover_simps [simp]:
  "cover [] = {}" "cover ((s, e) # xs) = {s..<e} \<union> cover xs" "cover (xs @ ys) = cover xs \<union> cover ys"
  by (auto simp: cover_def)

lemma mem_cover: "x \<in> cover xs \<longleftrightarrow> (\<exists>p \<in> set xs. fst p \<le> x \<and> x < snd p)"
  by (simp add: cover_def case_prod_unfold)

lemma finite_cover [simp]: "finite (cover xs)"
  by (auto simp: cover_def)

lemma cover_set_cong: "set xs = set ys \<Longrightarrow> cover xs = cover ys"
  by (simp add: cover_def)

lemma cover_sort [simp]: "cover (sort xs) = cover xs"
  by (rule cover_set_cong) simp

abbreviation proper :: "span list \<Rightarrow> bool" where
  "proper values \<equiv> \<forall>(s, e) \<in> set values. s \<le> e"

text \<open>Merged spans: in order, with a position between any two.\<close>

definition separated :: "span list \<Rightarrow> bool" where
  "separated values \<longleftrightarrow> proper values \<and> sorted_wrt (\<lambda>a b. snd a < fst b) values"

lemma separated_append:
  "separated (xs @ ys) \<longleftrightarrow> separated xs \<and> separated ys \<and> (\<forall>a \<in> set xs. \<forall>b \<in> set ys. snd a < fst b)"
  by (auto simp: separated_def sorted_wrt_append)

lemma separated_snoc:
  "separated (xs @ [x]) \<longleftrightarrow> separated xs \<and> fst x \<le> snd x \<and> (\<forall>a \<in> set xs. snd a < fst x)"
  by (cases x) (auto simp: separated_def sorted_wrt_append)

lemma merge_from_ok:
  "separated merged \<Longrightarrow> proper rest \<Longrightarrow> sorted (map fst rest) \<Longrightarrow>
     (\<forall>a \<in> set merged. \<forall>b \<in> set rest. fst a \<le> fst b) \<Longrightarrow>
     separated (merge_from merged rest) \<and> cover (merge_from merged rest) = cover merged \<union> cover rest"
proof (induction merged rest rule: merge_from.induct)
  case (2 merged s e rest)
  show ?case
  proof (cases "merged \<noteq> [] \<and> s \<le> snd (last merged)")
    case True
    define front where "front = butlast merged"
    define a where "a = fst (last merged)"
    define b where "b = snd (last merged)"
    have m: "merged = front @ [(a, b)]" using True by (simp add: front_def a_def b_def)
    have ab: "separated front" "a \<le> b" "\<forall>x \<in> set front. snd x < a"
      using "2.prems"(1) unfolding m separated_snoc by simp_all
    have le: "a \<le> s" "s \<le> e" "s \<le> b" using "2.prems"(2,4) True by (auto simp: m)
    have "separated (front @ [(a, max b e)])" using ab by (simp add: separated_snoc)
    moreover have "\<forall>x \<in> set (front @ [(a, max b e)]). \<forall>y \<in> set rest. fst x \<le> fst y"
      using "2.prems"(4) by (simp add: m)
    ultimately have "separated (merge_from (front @ [(a, max b e)]) rest) \<and>
        cover (merge_from (front @ [(a, max b e)]) rest) = cover (front @ [(a, max b e)]) \<union> cover rest"
      using "2.IH"(1) [OF True] "2.prems"(2,3) by (simp add: front_def a_def b_def)
    moreover have "{a..<max b e} = {a..<b} \<union> {s..<e}" using le by auto
    ultimately show ?thesis using True by (auto simp: m)
  next
    case False
    have above: "\<forall>x \<in> set merged. snd x < s"
    proof (cases merged rule: rev_cases)
      case (snoc front l)
      then have "snd l < s" using False by simp
      moreover have "\<forall>x \<in> set front. snd x < fst l" "fst l \<le> snd l"
        using "2.prems"(1) by (simp_all add: snoc separated_snoc)
      ultimately show ?thesis using snoc by auto
    qed simp
    have "separated (merged @ [(s, e)])" using above "2.prems"(1,2) by (simp add: separated_snoc)
    moreover have "\<forall>x \<in> set (merged @ [(s, e)]). \<forall>y \<in> set rest. fst x \<le> fst y"
      using "2.prems"(3,4) by auto
    ultimately show ?thesis using "2.IH"(2) [OF False] "2.prems"(2,3) False by (auto simp: Un_assoc)
  qed
qed simp

lemma sorted_fst: "sorted (xs :: (nat \<times> 'a :: linorder) list) \<Longrightarrow> sorted (map fst xs)"
  by (induction xs) (auto simp: less_eq_prod_def)

lemma merge_spans_ok:
  assumes "proper xs"
  shows "separated (merge_spans xs)" "cover (merge_spans xs) = cover xs"
proof -
  have "sorted (map fst (sort xs))" by (rule sorted_fst) simp
  moreover have "proper (sort xs)" using assms by simp
  ultimately show "separated (merge_spans xs)" "cover (merge_spans xs) = cover xs"
    using merge_from_ok [of "[]" "sort xs"] by (simp_all add: merge_spans_def separated_def)
qed

lemma card_separated: "separated xs \<Longrightarrow> sum_list (map (\<lambda>(s, e). int e - int s) xs) = int (card (cover xs))"
proof (induction xs)
  case (Cons x xs)
  obtain s e where x: "x = (s, e)" by (cases x)
  have sep: "separated xs" "s \<le> e" "\<forall>b \<in> set xs. e < fst b"
    using Cons.prems by (auto simp: separated_def x)
  then have "{s..<e} \<inter> cover xs = {}" by (fastforce simp: cover_def)
  then have "card ({s..<e} \<union> cover xs) = (e - s) + card (cover xs)" by (simp add: card_Un_disjoint)
  then show ?case using Cons.IH [OF sep(1)] sep(2) by (simp add: x)
qed simp

lemma union_length_card: "proper xs \<Longrightarrow> union_length xs = int (card (cover xs))"
  using merge_spans_ok [of xs] card_separated by (simp add: union_length_def)

section \<open>The remainder\<close>

lemma remainder_from_ok:
  "separated covered \<Longrightarrow> (\<forall>p \<in> set pieces. fst p < snd p) \<Longrightarrow> position \<le> e \<Longrightarrow>
     cover (remainder_from pieces position e covered) = cover pieces \<union> ({position..<e} - cover covered) \<and>
     (\<forall>p \<in> set (remainder_from pieces position e covered). fst p < snd p)"
proof (induction pieces position e covered rule: remainder_from.induct)
  case (2 pieces position e s t rest)
  have sep: "separated rest" "s \<le> t" "\<forall>b \<in> set rest. t < fst b"
    using "2.prems"(1) by (auto simp: separated_def)
  then have after: "cover rest \<subseteq> {t<..}" by (fastforce simp: cover_def)
  show ?case
  proof (cases "t \<le> position")
    case True
    moreover have "{position..<e} - cover rest = {position..<e} - ({s..<t} \<union> cover rest)" using True by auto
    ultimately show ?thesis using "2.IH"(1) [OF True sep(1) "2.prems"(2,3)] by simp
  next
    case later: False
    show ?thesis
    proof (cases "e \<le> s")
      case True
      have "{position..<e} - ({s..<t} \<union> cover rest) = {position..<e}" using True after sep by force
      then show ?thesis using later True "2.prems" by auto
    next
      case inside: False
      define pieces' where "pieces' = (if position < s then pieces @ [(position, min s e)] else pieces)"
      have p: "\<forall>p \<in> set pieces'. fst p < snd p" using "2.prems"(2) inside by (auto simp: pieces'_def)
      have c: "cover pieces' = cover pieces \<union> {position..<s}" using inside by (auto simp: pieces'_def)
      have top: "max position t = t" using later by simp
      show ?thesis
      proof (cases "e \<le> t")
        case True
        have "{position..<e} - ({s..<t} \<union> cover rest) = {position..<s}" using True inside after by force
        then show ?thesis using True later inside p c top by (simp add: pieces'_def [symmetric] Let_def)
      next
        case False
        have "cover (remainder_from pieces' t e rest) = cover pieces' \<union> ({t..<e} - cover rest) \<and>
            (\<forall>p \<in> set (remainder_from pieces' t e rest). fst p < snd p)"
          using "2.IH"(2) [OF later inside pieces'_def refl] sep(1) p False top by simp
        moreover have "{position..<e} - ({s..<t} \<union> cover rest) = {position..<s} \<union> ({t..<e} - cover rest)"
          using False inside later after sep by force
        ultimately show ?thesis
          using False later inside c top by (auto simp: pieces'_def [symmetric] Let_def)
      qed
    qed
  qed
qed auto

lemma remainder_ok:
  assumes "separated covered" "s \<le> e"
  shows "cover (remainder s e covered) = {s..<e} - cover covered"
    and "p \<in> set (remainder s e covered) \<Longrightarrow> s \<le> fst p \<and> fst p < snd p \<and> snd p \<le> e"
proof -
  have ok: "cover (remainder s e covered) = {s..<e} - cover covered"
    "\<forall>p \<in> set (remainder s e covered). fst p < snd p"
    using remainder_from_ok [OF assms(1), of "[]" s e] assms(2) by (simp_all add: remainder_def)
  then show "cover (remainder s e covered) = {s..<e} - cover covered" by simp
  assume p: "p \<in> set (remainder s e covered)"
  then have lt: "fst p < snd p" using ok(2) by blast
  have "{fst p..<snd p} \<subseteq> cover (remainder s e covered)" using p by (force simp: cover_def)
  then have "{fst p..<snd p} \<subseteq> {s..<e}" using ok(1) by blast
  then show "s \<le> fst p \<and> fst p < snd p \<and> snd p \<le> e" using lt by (auto simp: subset_iff dest: spec [of _ "snd p - 1"])
qed

section \<open>The sweep\<close>

text \<open>How many spans hold a position, and the sum of the deltas up to it.\<close>

definition depth :: "span list \<Rightarrow> nat \<Rightarrow> int" where
  "depth spans x = sum_list (map (\<lambda>(s, e). if s \<le> x \<and> x < e then 1 else 0) spans)"

definition rises :: "(nat \<times> int) list \<Rightarrow> nat \<Rightarrow> int" where
  "rises events x = sum_list (map (\<lambda>(p, d). if p \<le> x then d else 0) events)"

lemma rises_simps [simp]:
  "rises [] x = 0" "rises ((p, d) # es) x = (if p \<le> x then d else 0) + rises es x"
  "rises (es @ fs) x = rises es x + rises fs x"
  by (simp_all add: rises_def)

lemma rises_before: "\<forall>e \<in> set es. x < fst e \<Longrightarrow> rises es x = 0"
  by (induction es) auto

lemma rises_events: "proper spans \<Longrightarrow> rises (span_events spans) x = depth spans x"
proof (induction spans)
  case Nil
  show ?case by (simp add: span_events_def depth_def)
next
  case (Cons sp spans)
  obtain s e where sp: "sp = (s, e)" by (cases sp)
  have "span_events (sp # spans) = [(s, 1), (e, -1)] @ span_events spans" by (simp add: span_events_def sp)
  then show ?case using Cons by (simp add: sp depth_def)
qed

lemma rises_mset: "mset es = mset fs \<Longrightarrow> rises es x = rises fs x"
proof -
  assume "mset es = mset fs"
  then have "mset (map (\<lambda>(p, d). if p \<le> x then d else 0) es) = mset (map (\<lambda>(p, d). if p \<le> x then d else 0) fs)"
    by simp
  then show ?thesis unfolding rises_def by (metis sum_mset_sum_list)
qed

definition last_position :: "nat \<Rightarrow> (nat \<times> int) list \<Rightarrow> nat" where
  "last_position previous events = (if events = [] then previous else fst (last events))"

lemma last_position_simps [simp]:
  "last_position previous [] = previous" "last_position previous ((p, d) # es) = last_position p es"
  by (simp_all add: last_position_def)

lemma last_position_ge:
  "sorted (map fst es) \<Longrightarrow> \<forall>e \<in> set es. previous \<le> fst e \<Longrightarrow> previous \<le> last_position previous es"
  by (simp add: last_position_def)

lemma last_position_upper: "sorted (map fst es) \<Longrightarrow> e \<in> set es \<Longrightarrow> fst e \<le> last_position previous es"
  by (cases es rule: rev_cases) (auto simp: last_position_def sorted_append)

lemma sum_split_at:
  fixes f :: "nat \<Rightarrow> int"
  shows "a \<le> b \<Longrightarrow> b \<le> c \<Longrightarrow> sum f {a..<c} = sum f {a..<b} + sum f {b..<c}"
  by (simp add: sum.atLeastLessThan_concat)

lemma sweep_sums:
  "sorted (map fst es) \<Longrightarrow> \<forall>e \<in> set es. previous \<le> fst e \<Longrightarrow>
     sweep covered duplicated active previous es =
       (covered + (\<Sum>x \<in> {previous..<last_position previous es}. of_bool (active + rises es x \<noteq> 0)),
        duplicated + (\<Sum>x \<in> {previous..<last_position previous es}. max 0 (active + rises es x - 1)))"
proof (induction covered duplicated active previous es rule: sweep.induct)
  case (2 covered duplicated active previous p d rest)
  define c where "c = (if active \<noteq> 0 then covered + (int p - int previous) else covered)"
  define u where "u = (if 1 < active then duplicated + (int p - int previous) * (active - 1) else duplicated)"
  have le: "previous \<le> p" "\<forall>e \<in> set rest. p \<le> fst e" "sorted (map fst rest)" using "2.prems" by auto
  define m where "m = last_position p rest"
  have pm: "p \<le> m" using le last_position_ge unfolding m_def by blast
  have low: "rises ((p, d) # rest) x = 0" if "x < p" for x
    using that le(2) by (intro rises_before) auto
  have high: "rises ((p, d) # rest) x = d + rises rest x" if "p \<le> x" for x using that by simp
  have step: "sweep covered duplicated active previous ((p, d) # rest) = sweep c u (active + d) p rest"
    by (simp add: c_def u_def Let_def)
  have IH: "sweep c u (active + d) p rest =
     (c + (\<Sum>x \<in> {p..<m}. of_bool (active + d + rises rest x \<noteq> 0)),
      u + (\<Sum>x \<in> {p..<m}. max 0 (active + d + rises rest x - 1)))"
    unfolding m_def by (rule "2.IH" [OF refl _ refl le(3) le(2)]) (simp add: c_def u_def)
  have sums: "sum f {previous..<m} = sum f {previous..<p} + sum f {p..<m}" for f :: "nat \<Rightarrow> int"
    using le(1) pm by (rule sum_split_at)
  have first: "(\<Sum>x \<in> {previous..<p}. of_bool (active + rises ((p, d) # rest) x \<noteq> 0)) =
      (if active \<noteq> 0 then int p - int previous else 0)"
    using low le(1) by simp
  have second: "(\<Sum>x \<in> {previous..<p}. max 0 (active + rises ((p, d) # rest) x - 1)) =
      (int p - int previous) * max 0 (active - 1)"
    using low le(1) by simp
  have third: "(\<Sum>x \<in> {p..<m}. of_bool (active + rises ((p, d) # rest) x \<noteq> 0)) =
      (\<Sum>x \<in> {p..<m}. of_bool (active + d + rises rest x \<noteq> 0) :: int)"
    by (rule sum.cong) (simp_all add: add.assoc)
  have fourth: "(\<Sum>x \<in> {p..<m}. max 0 (active + rises ((p, d) # rest) x - 1)) =
      (\<Sum>x \<in> {p..<m}. max 0 (active + d + rises rest x - 1))"
    by (rule sum.cong) (simp_all add: add.assoc)
  show ?case unfolding step IH last_position_simps m_def [symmetric] sums first second third fourth
    by (simp add: c_def u_def max_def)
qed simp

section \<open>Coverage counts positions\<close>

lemma depth_Cons: "depth ((s, e) # spans) x = (if s \<le> x \<and> x < e then 1 else 0) + depth spans x"
  by (simp add: depth_def)

lemma depth_nonneg: "0 \<le> depth spans x"
  by (induction spans) (auto simp: depth_Cons, simp add: depth_def)

lemma depth_zero: "depth spans x = 0 \<longleftrightarrow> x \<notin> cover spans"
proof (induction spans)
  case (Cons sp spans)
  obtain s e where "sp = (s, e)" by (cases sp)
  then show ?case using Cons depth_nonneg [of spans x] by (auto simp: depth_Cons)
qed (simp add: depth_def)

lemma depth_sum:
  "proper spans \<Longrightarrow> \<forall>(s, e) \<in> set spans. e \<le> m \<Longrightarrow>
     (\<Sum>x \<in> {0..<m}. depth spans x) = sum_list (map (\<lambda>(s, e). int e - int s) spans)"
proof (induction spans)
  case Nil
  show ?case by (simp add: depth_def)
next
  case (Cons sp spans)
  obtain s e where sp: "sp = (s, e)" by (cases sp)
  have "(\<Sum>x \<in> {0..<m}. if s \<le> x \<and> x < e then 1 else 0) = int (card ({0..<m} \<inter> {x. s \<le> x \<and> x < e}))"
    by (simp add: sum.If_cases)
  also have "{0..<m} \<inter> {x. s \<le> x \<and> x < e} = {s..<e}" using Cons.prems(2) by (auto simp: sp)
  finally have "(\<Sum>x \<in> {0..<m}. if s \<le> x \<and> x < e then 1 else 0) = int e - int s"
    using Cons.prems(1) by (simp add: sp of_nat_diff)
  then show ?case using Cons by (simp add: sp depth_Cons sum.distrib)
qed

lemma events_positions: "fst ` set (span_events spans) = fst ` set spans \<union> snd ` set spans"
  by (force simp: span_events_def)

lemma sorted_events_fst: "sorted (map fst (sort_key (\<lambda>(p, d :: int). (p :: nat, - d)) es))"
proof -
  have "sorted (map (\<lambda>(p, d). (p, - d)) (sort_key (\<lambda>(p, d). (p, - d)) es))" by (rule sorted_sort_key)
  then have "sorted (map fst (map (\<lambda>(p, d). (p, - d)) (sort_key (\<lambda>(p, d). (p, - d)) es)))"
    by (rule sorted_fst)
  then show ?thesis by (simp add: comp_def case_prod_unfold)
qed

lemma sweep_counts:
  assumes "proper spans"
  shows "sweep 0 0 0 0 (sort_key (\<lambda>(p, d). (p, - d)) (span_events spans)) =
    (int (card (cover spans)), sum_list (map (\<lambda>(s, e). int e - int s) spans) - int (card (cover spans)))"
proof -
  define es where "es = sort_key (\<lambda>(p, d :: int). (p :: nat, - d)) (span_events spans)"
  define m where "m = last_position 0 es"
  have sorted: "sorted (map fst es)" by (simp add: es_def sorted_events_fst)
  have rises: "rises es x = depth spans x" for x
    using rises_mset [of es "span_events spans" x] rises_events [OF assms] by (simp add: es_def)
  have "fst ` set es = fst ` set spans \<union> snd ` set spans"
    using events_positions [of spans] by (simp add: es_def)
  then have below: "p \<le> m" if "p \<in> fst ` set spans \<union> snd ` set spans" for p
    using that last_position_upper [OF sorted, of _ 0] by (force simp: m_def)
  have ends: "\<forall>(s, e) \<in> set spans. e \<le> m" using below by force
  have inside: "cover spans \<subseteq> {0..<m}" using ends by (fastforce simp: cover_def)
  have "(\<Sum>x \<in> {0..<m}. of_bool (depth spans x \<noteq> 0)) = int (card ({0..<m} \<inter> cover spans))"
    by (simp add: depth_zero of_bool_def sum.If_cases Int_def)
  also have "{0..<m} \<inter> cover spans = cover spans" using inside by blast
  finally have covered: "(\<Sum>x \<in> {0..<m}. of_bool (depth spans x \<noteq> 0)) = int (card (cover spans))" .
  have "(\<Sum>x \<in> {0..<m}. max 0 (depth spans x - 1)) =
      (\<Sum>x \<in> {0..<m}. depth spans x - of_bool (depth spans x \<noteq> 0))"
  proof (intro sum.cong refl)
    fix x show "max 0 (depth spans x - 1) = depth spans x - of_bool (depth spans x \<noteq> 0)"
      using depth_nonneg [of spans x] by (cases "depth spans x = 0") auto
  qed
  also have "\<dots> = sum_list (map (\<lambda>(s, e). int e - int s) spans) - int (card (cover spans))"
    by (simp add: sum_subtractf covered depth_sum [OF assms ends])
  finally show ?thesis
    using sweep_sums [OF sorted, of 0 0 0 0] covered by (simp add: m_def [symmetric] rises flip: es_def)
qed

lemma coverage_size [simp]: "cv_representation_bytes (coverage n spans excluded) = int n"
  by (cases "sweep 0 0 0 0 (sort_key (\<lambda>(p, d). (p, - d)) (span_events spans))")
    (simp add: coverage_def Let_def)

lemma proper_append: "proper (xs @ ys) \<longleftrightarrow> proper xs \<and> proper ys"
  by auto

lemma coverage_counts:
  assumes "proper spans" "proper excluded"
  shows "cv_covered_bytes (coverage n spans excluded) = int (card (cover spans))"
    and "cv_duplicated_bytes (coverage n spans excluded) =
      sum_list (map (\<lambda>(s, e). int e - int s) spans) - int (card (cover spans))"
    and "cv_excluded_bytes (coverage n spans excluded) = int (card (cover excluded - cover spans))"
    and "cv_uncovered_bytes (coverage n spans excluded) = int n - int (card (cover spans \<union> cover excluded))"
proof -
  have both: "union_length (spans @ excluded) = int (card (cover spans \<union> cover excluded))"
    using union_length_card [of "spans @ excluded"] assms by auto
  have "card (cover spans \<union> (cover excluded - cover spans)) = card (cover spans) + card (cover excluded - cover spans)"
    by (rule card_Un_disjoint) auto
  then have "int (card (cover spans \<union> cover excluded)) - int (card (cover spans)) = int (card (cover excluded - cover spans))"
    by simp
  then show "cv_covered_bytes (coverage n spans excluded) = int (card (cover spans))"
    "cv_duplicated_bytes (coverage n spans excluded) =
      sum_list (map (\<lambda>(s, e). int e - int s) spans) - int (card (cover spans))"
    "cv_excluded_bytes (coverage n spans excluded) = int (card (cover excluded - cover spans))"
    "cv_uncovered_bytes (coverage n spans excluded) = int n - int (card (cover spans \<union> cover excluded))"
    using sweep_counts [OF assms(1)] both union_length_card [OF assms(1)]
    by (simp_all add: coverage_def)
qed

text \<open>Within the content, nothing uncovered means that every byte is accounted for.\<close>

lemma uncovered_zero:
  assumes "proper spans" "proper excluded" "cover spans \<union> cover excluded \<subseteq> {0..<n}"
  shows "cv_uncovered_bytes (coverage n spans excluded) = 0 \<longleftrightarrow> cover spans \<union> cover excluded = {0..<n}"
proof -
  have "card (cover spans \<union> cover excluded) = card {0..<n} \<longleftrightarrow> cover spans \<union> cover excluded = {0..<n}"
    using card_subset_eq [OF _ assms(3)] by auto
  then show ?thesis using coverage_counts(4) [OF assms(1,2), of n] by auto
qed

lemma coverage_identity:
  assumes "proper spans" "proper excluded" "cover spans \<union> cover excluded \<subseteq> {0..<n}"
  shows "identity_holds (coverage n spans excluded) \<longleftrightarrow> cover spans \<union> cover excluded = {0..<n}"
proof -
  have "card (cover spans \<union> (cover excluded - cover spans)) = card (cover spans) + card (cover excluded - cover spans)"
    by (rule card_Un_disjoint) auto
  then have "int (card (cover spans)) + int (card (cover excluded - cover spans)) = int (card (cover spans \<union> cover excluded))"
    by simp
  then have "identity_holds (coverage n spans excluded) \<longleftrightarrow> cv_uncovered_bytes (coverage n spans excluded) = 0"
    using coverage_counts [OF assms(1,2), of n] by (auto simp: identity_holds_def)
  then show ?thesis using uncovered_zero [OF assms] by simp
qed

text \<open>
  C29. The account \<open>_coverage\<close> gives of spans and excluded ranges counts positions: covered are those
  in some span, duplicated the surplus of the span lengths over them, excluded those in an excluded
  range and no span, uncovered the rest of the content. When the ranges lie in the content, its
  identity (nothing uncovered, covered and excluded add up) holds exactly when every byte is in a
  span or an excluded range.
\<close>

theorem coverage_exact:
  assumes "proper spans" "proper excluded" "cover spans \<union> cover excluded \<subseteq> {0..<n}"
  shows "cv_covered_bytes (coverage n spans excluded) = int (card (cover spans)) \<and>
    cv_covered_bytes (coverage n spans excluded) + cv_duplicated_bytes (coverage n spans excluded) =
      sum_list (map (\<lambda>(s, e). int e - int s) spans) \<and>
    cv_excluded_bytes (coverage n spans excluded) = int (card (cover excluded - cover spans)) \<and>
    cv_uncovered_bytes (coverage n spans excluded) = int (card ({0..<n} - (cover spans \<union> cover excluded))) \<and>
    (identity_holds (coverage n spans excluded) \<longleftrightarrow> cover spans \<union> cover excluded = {0..<n})"
proof -
  note c = coverage_counts [OF assms(1,2), of n]
  have rest: "int (card ({0..<n} - (cover spans \<union> cover excluded))) = int n - int (card (cover spans \<union> cover excluded))"
    using assms(3) card_mono [OF _ assms(3)] by (subst card_Diff_subset) (auto simp: of_nat_diff)
  show ?thesis using c rest coverage_identity [OF assms] by simp
qed

theorem coverage_exact_witness:
  "cover [(0, 3), (2, 5)] \<union> cover [(4, 6)] = {0..<6} \<and>
     identity_holds (coverage 6 [(0, 3), (2, 5)] [(4, 6)])"
proof -
  have "cover [(0, 3), (2, 5)] \<union> cover [(4, 6)] = {0..<6}" by auto
  then show ?thesis using coverage_exact [of "[(0, 3), (2, 5)]" "[(4, 6)]" 6] by simp
qed

end
