(* ===== verification/Packing.thy ===== *)
theory Packing
  imports Regions Coverage
begin

text \<open>
  Units and packing of src/src/docspec/processing/bounded_segmentation.py: the settings, \<open>_units\<close>
  and \<open>_pack\<close>. Token amounts are integers as in the source; the settings a caller constructs have
  passed \<open>settings_check\<close>. The lemmas show where units and held-back regions lie, that they cover
  the regions, and what a packed group is.
\<close>

section \<open>Settings\<close>

record bounded_settings =
  bs_policy :: string
  bs_policy_version :: string
  bs_max_tokens :: int
  bs_min_tokens :: int
  bs_overlap_tokens :: int
  bs_tokenizer :: string
  bs_tokenizer_version :: string
  bs_boundary_method :: string

definition settings_check :: "bounded_settings \<Rightarrow> unit result" where
  "settings_check s =
     thenE (refuse (bs_max_tokens s \<le> 0) (ValueError ''max_tokens must be positive''))
    (thenE (refuse (bs_min_tokens s \<le> 0 \<or> bs_max_tokens s < bs_min_tokens s)
             (ValueError ''min_tokens must be positive and no larger than max_tokens''))
    (thenE (refuse (bs_overlap_tokens s < 0) (ValueError ''overlap_tokens cannot be negative''))
    (thenE (refuse (bs_max_tokens s - bs_overlap_tokens s \<le> 0)
             (ValueError ''the overlap budget leaves no room for evidence''))
    (eachE (\<lambda>(name, value). bindE (require_text (JStr value) (''bounded segmentation '' @ name)) (\<lambda>_. Inr ()))
       [(''policy'', bs_policy s), (''policy_version'', bs_policy_version s), (''tokenizer'', bs_tokenizer s),
        (''tokenizer_version'', bs_tokenizer_version s), (''boundary_method'', bs_boundary_method s)]))))"

definition leaf_budget :: "bounded_settings \<Rightarrow> int" where
  "leaf_budget s = bs_max_tokens s - bs_overlap_tokens s"

section \<open>Units\<close>

definition excluded_not_eligible :: string where
  "excluded_not_eligible = ''segmentation.region-not-evidence-eligible''"
definition excluded_empty :: string where
  "excluded_empty = ''segmentation.region-empty''"
definition heading_exclusion_reason :: string where
  "heading_exclusion_reason = ''heading text is segment context, never segment evidence''"
definition empty_exclusion_reason :: string where
  "empty_exclusion_reason = ''the region carries no text between its neighbours''"

record held_back =
  hb_start :: nat
  hb_end :: nat
  hb_reason_code :: string
  hb_reason :: string
  hb_heading :: "(nat \<times> utext) option"

record text_unit =
  un_start :: nat
  un_end :: nat
  un_headings :: "utext list"
  un_key :: "nat \<times> nat"
  un_split :: bool

text \<open>The variables of the loop over regions.\<close>

record units_state =
  us_units :: "text_unit list"
  us_held :: "held_back list"
  us_stack :: heading_stack
  us_epoch :: nat

definition leaf_unit ::
    "bounded_settings \<Rightarrow> counter \<Rightarrow> region \<Rightarrow> utext list \<Rightarrow> nat \<times> nat \<Rightarrow> nat \<times> nat \<times> nat \<Rightarrow> text_unit" where
  "leaf_unit s c r headings key leaf = (case leaf of (index, a, b) \<Rightarrow>
     let relative_start = (if index \<noteq> 0 then overlap_start c (rg_text r) 0 a (bs_overlap_tokens s) else a) in
     \<lparr>un_start = rg_start r + relative_start, un_end = rg_start r + b,
      un_headings = headings, un_key = key, un_split = True\<rparr>)"

definition units_step ::
    "bounded_settings \<Rightarrow> counter \<Rightarrow> units_state \<Rightarrow> region \<Rightarrow> units_state result" where
  "units_step s c st r =
     (if rg_kind r = Heading
      then bindE (push_heading (us_stack st) (rg_text r)) (\<lambda>(stack, level, title).
             Inr (st\<lparr>us_stack := stack, us_epoch := us_epoch st + 1,
                     us_held := us_held st @ [\<lparr>hb_start = rg_start r, hb_end = rg_end r,
                        hb_reason_code = excluded_not_eligible, hb_reason = heading_exclusion_reason,
                        hb_heading = Some (level, title)\<rparr>]\<rparr>))
      else if \<not> evidence_eligible r
      then Inr (st\<lparr>us_held := us_held st @ [\<lparr>hb_start = rg_start r, hb_end = rg_end r,
                        hb_reason_code = excluded_empty, hb_reason = empty_exclusion_reason,
                        hb_heading = None\<rparr>]\<rparr>)
      else let headings = heading_path (us_stack st); key = (rg_window r, us_epoch st) in
        if ct_count c (rg_text r) \<le> bs_max_tokens s
        then Inr (st\<lparr>us_units := us_units st @ [\<lparr>un_start = rg_start r, un_end = rg_end r,
                        un_headings = headings, un_key = key, un_split = False\<rparr>]\<rparr>)
        else bindE (leaf_spans c (rg_text r) (leaf_budget s) (min (bs_min_tokens s) (leaf_budget s))) (\<lambda>spans.
             Inr (st\<lparr>us_units := us_units st @ map (leaf_unit s c r headings key) (enumerate 0 spans)\<rparr>)))"

definition units_start :: units_state where
  "units_start = \<lparr>us_units = [], us_held = [], us_stack = [], us_epoch = 0\<rparr>"

definition text_units :: "bounded_settings \<Rightarrow> counter \<Rightarrow> region list \<Rightarrow> (text_unit list \<times> held_back list) result" where
  "text_units s c rs = bindE (foldE (units_step s c) units_start rs) (\<lambda>st. Inr (us_units st, us_held st))"

section \<open>Packing\<close>

definition flush :: "text_unit list list \<Rightarrow> text_unit list \<Rightarrow> text_unit list list" where
  "flush groups current = (if current = [] then groups else groups @ [current])"

fun pack_from ::
    "utext \<Rightarrow> bounded_settings \<Rightarrow> counter \<Rightarrow> text_unit list list \<Rightarrow> text_unit list \<Rightarrow> text_unit list \<Rightarrow> text_unit list list" where
  "pack_from t s c groups current [] = flush groups current"
| "pack_from t s c groups current (u # rest) =
     (let (groups, current) =
            (if current \<noteq> [] \<and> un_key (last current) \<noteq> un_key u then (groups @ [current], []) else (groups, current)) in
      if un_split u then pack_from t s c (flush groups current @ [[u]]) [] rest
      else if current \<noteq> [] \<and> bs_max_tokens s < ct_count c (slice_of t (un_start (hd current)) (un_end u))
      then pack_from t s c (groups @ [current]) [u] rest
      else pack_from t s c groups (current @ [u]) rest)"

definition pack :: "utext \<Rightarrow> bounded_settings \<Rightarrow> counter \<Rightarrow> text_unit list \<Rightarrow> text_unit list list" where
  "pack t s c units = pack_from t s c [] [] units"

section \<open>What a group is\<close>

definition hull :: "text_unit list \<Rightarrow> span" where
  "hull g = (un_start (hd g), un_end (last g))"

definition group_ok :: "utext \<Rightarrow> bounded_settings \<Rightarrow> counter \<Rightarrow> text_unit list \<Rightarrow> bool" where
  "group_ok t s c g \<longleftrightarrow> g \<noteq> [] \<and> (\<exists>key. \<forall>u \<in> set g. un_key u = key) \<and>
     ((\<exists>u. g = [u]) \<or> (\<forall>u \<in> set g. \<not> un_split u) \<and> fits c t (bs_max_tokens s) (fst (hull g)) (snd (hull g)))"

lemma group_extend:
  assumes "current = [] \<or> group_ok t s c current \<and> (\<forall>v \<in> set current. \<not> un_split v)"
    "current \<noteq> [] \<Longrightarrow> un_key (last current) = un_key u \<and>
       fits c t (bs_max_tokens s) (un_start (hd current)) (un_end u)" "\<not> un_split u"
  shows "group_ok t s c (current @ [u]) \<and> (\<forall>v \<in> set (current @ [u]). \<not> un_split v)"
proof (cases "current = []")
  case True
  then show ?thesis using assms(3) by (simp add: group_ok_def)
next
  case False
  then obtain key where keys: "\<forall>v \<in> set current. un_key v = key"
    and whole: "\<forall>v \<in> set (current @ [u]). \<not> un_split v"
    using assms(1,3) unfolding group_ok_def by auto
  then have "un_key u = key" using assms(2) [OF False] last_in_set [OF False] by simp
  then have key: "\<forall>v \<in> set (current @ [u]). un_key v = key" using keys by simp
  have "hull (current @ [u]) = (un_start (hd current), un_end u)"
    by (simp add: hull_def hd_append2 [OF False])
  then have "fits c t (bs_max_tokens s) (fst (hull (current @ [u]))) (snd (hull (current @ [u])))"
    using assms(2) [OF False] by simp
  then show ?thesis unfolding group_ok_def using key whole by blast
qed

lemma pack_from_ok:
  "\<forall>g \<in> set groups. group_ok t s c g \<Longrightarrow>
     current = [] \<or> group_ok t s c current \<and> (\<forall>v \<in> set current. \<not> un_split v) \<Longrightarrow>
     concat (pack_from t s c groups current units) = concat groups @ current @ units \<and>
     (\<forall>g \<in> set (pack_from t s c groups current units). group_ok t s c g)"
proof (induction units arbitrary: groups current)
  case Nil
  then show ?case by (auto simp: flush_def)
next
  case (Cons u rest)
  define split_key where "split_key \<longleftrightarrow> current \<noteq> [] \<and> un_key (last current) \<noteq> un_key u"
  define groups' where "groups' = (if split_key then groups @ [current] else groups)"
  define current' where "current' = (if split_key then [] else current)"
  have eq: "pack_from t s c groups current (u # rest) =
     (if un_split u then pack_from t s c (flush groups' current' @ [[u]]) [] rest
      else if current' \<noteq> [] \<and> bs_max_tokens s < ct_count c (slice_of t (un_start (hd current')) (un_end u))
      then pack_from t s c (groups' @ [current']) [u] rest
      else pack_from t s c groups' (current' @ [u]) rest)"
    unfolding pack_from.simps Let_def groups'_def current'_def split_key_def
    by (cases "current \<noteq> [] \<and> un_key (last current) \<noteq> un_key u") (simp_all only: if_True if_False prod.case simp_thms)
  have g: "\<forall>g \<in> set groups'. group_ok t s c g"
    and cur: "current' = [] \<or> group_ok t s c current' \<and> (\<forall>v \<in> set current'. \<not> un_split v)"
    and all: "concat groups' @ current' = concat groups @ current"
    and key: "current' \<noteq> [] \<Longrightarrow> un_key (last current') = un_key u"
    using Cons.prems by (cases split_key; auto simp: groups'_def current'_def split_key_def)+
  have one: "group_ok t s c [u]" by (simp add: group_ok_def)
  show ?case
  proof (cases "un_split u")
    case True
    have "\<forall>g \<in> set (flush groups' current' @ [[u]]). group_ok t s c g"
      using g cur one unfolding flush_def by auto
    from Cons.IH [OF this, of "[]"]
    have "concat (pack_from t s c (flush groups' current' @ [[u]]) [] rest) = concat (flush groups' current') @ u # rest"
      "\<forall>g \<in> set (pack_from t s c (flush groups' current' @ [[u]]) [] rest). group_ok t s c g" by simp_all
    moreover have "concat (flush groups' current') = concat groups' @ current'" by (simp add: flush_def)
    ultimately show ?thesis unfolding eq if_P [OF True] using all by simp
  next
    case whole: False
    show ?thesis
    proof (cases "current' \<noteq> [] \<and> bs_max_tokens s < ct_count c (slice_of t (un_start (hd current')) (un_end u))")
      case True
      have "\<forall>g \<in> set (groups' @ [current']). group_ok t s c g" using g cur True by auto
      from Cons.IH [OF this, of "[u]"] one whole
      have "concat (pack_from t s c (groups' @ [current']) [u] rest) = concat groups' @ current' @ u # rest"
        "\<forall>g \<in> set (pack_from t s c (groups' @ [current']) [u] rest). group_ok t s c g" by simp_all
      then show ?thesis unfolding eq if_not_P [OF whole] if_P [OF True] using all by simp
    next
      case False
      have "group_ok t s c (current' @ [u]) \<and> (\<forall>v \<in> set (current' @ [u]). \<not> un_split v)"
        by (rule group_extend [OF cur _ whole]) (use key False in auto)
      from Cons.IH [OF g disjI2 [OF this]]
      show ?thesis unfolding eq if_not_P [OF whole] if_not_P [OF False] using all by simp
    qed
  qed
qed

lemma pack_ok:
  "concat (pack t s c units) = units" "\<forall>g \<in> set (pack t s c units). group_ok t s c g"
  using pack_from_ok [of "[]" t s c "[]" units] by (simp_all add: pack_def)

section \<open>Where units and held-back regions lie\<close>

definition unit_of_region :: "utext \<Rightarrow> bounded_settings \<Rightarrow> counter \<Rightarrow> region \<Rightarrow> text_unit \<Rightarrow> bool" where
  "unit_of_region t s c r u \<longleftrightarrow> rg_kind r = Paragraph \<and> fst (un_key u) = rg_window r \<and>
     rg_start r \<le> un_start u \<and> un_start u < un_end u \<and> un_end u \<le> rg_end r \<and>
     (if un_split u
      then \<exists>l. un_start u \<le> l \<and> l \<le> un_end u \<and>
        (un_start u = l \<or> fits c t (bs_overlap_tokens s) (un_start u) l) \<and> fits c t (leaf_budget s) l (un_end u)
      else un_start u = rg_start r \<and> un_end u = rg_end r \<and> fits c t (bs_max_tokens s) (un_start u) (un_end u))"

definition unit_cover :: "text_unit list \<Rightarrow> nat set" where
  "unit_cover units = cover (map (\<lambda>u. (un_start u, un_end u)) units)"

lemma unit_cover_append [simp]: "unit_cover (us @ vs) = unit_cover us \<union> unit_cover vs"
  by (simp add: unit_cover_def)

lemma leaf_chain_cover: "leaf_chain c t m a spans \<Longrightarrow> a \<le> length t \<Longrightarrow> cover spans = {a..<length t}"
proof (induction spans arbitrary: a)
  case (Cons sp spans)
  obtain x y where sp: "sp = (x, y)" by (cases sp)
  then show ?case using Cons by auto
qed simp

lemma leaf_chain_member:
  "leaf_chain c t m a spans \<Longrightarrow> a \<le> length t \<Longrightarrow> (x, y) \<in> set spans \<Longrightarrow>
     a \<le> x \<and> x < y \<and> y \<le> length t \<and> fits c t m x y"
proof (induction spans arbitrary: a)
  case (Cons sp spans)
  obtain u v where sp: "sp = (u, v)" by (cases sp)
  then show ?case using Cons.prems Cons.IH [of v] by fastforce
qed simp

text \<open>One leaf of a region: its overlap fits its budget, the leaf its own, and it stays in the region.\<close>

lemma leaf_unit_ok:
  assumes "rg_kind r = Paragraph" "rg_end r \<le> length t" "rg_start r \<le> rg_end r"
    "rg_text r = slice_of t (rg_start r) (rg_end r)"
    "a < b" "b \<le> length (rg_text r)" "fits c (rg_text r) (leaf_budget s) a b"
  shows "unit_of_region t s c r (leaf_unit s c r headings (rg_window r, e) (i, a, b)) \<and>
    un_start (leaf_unit s c r headings (rg_window r, e) (i, a, b)) \<le> rg_start r + a \<and>
    un_end (leaf_unit s c r headings (rg_window r, e) (i, a, b)) = rg_start r + b"
proof -
  define rel where "rel = (if i \<noteq> 0 then overlap_start c (rg_text r) 0 a (bs_overlap_tokens s) else a)"
  have len: "length (rg_text r) = rg_end r - rg_start r"
    using assms(2,3) by (simp add: assms(4) slice_of_length)
  have rel: "rel \<le> a" "rel = a \<or> fits c (rg_text r) (bs_overlap_tokens s) rel a"
    using overlap_start_found [of 0 a c "rg_text r" "bs_overlap_tokens s"] by (auto simp: rel_def)
  have part: "slice_of (rg_text r) x y = slice_of t (rg_start r + x) (rg_start r + y)"
    if "x \<le> y" "y \<le> length (rg_text r)" for x y
    unfolding assms(4) using that assms(2,3) len by (intro slice_of_slice) auto
  have "fits c t (leaf_budget s) (rg_start r + a) (rg_start r + b)" using assms(5,6,7) part by simp
  moreover have "rel = a \<or> fits c t (bs_overlap_tokens s) (rg_start r + rel) (rg_start r + a)"
    using rel part [of rel a] assms(5,6) by auto
  moreover have "leaf_unit s c r headings (rg_window r, e) (i, a, b) =
      \<lparr>un_start = rg_start r + rel, un_end = rg_start r + b, un_headings = headings,
       un_key = (rg_window r, e), un_split = True\<rparr>"
    by (simp add: leaf_unit_def rel_def)
  ultimately show ?thesis
    unfolding unit_of_region_def using rel(1) assms(1,2,3,5,6) len
    by (auto intro!: exI [of _ "rg_start r + a"])
qed

definition headings_of :: "held_back list \<Rightarrow> held_back list" where
  "headings_of held = filter (\<lambda>h. hb_heading h \<noteq> None) held"

lemma headings_of_append [simp]: "headings_of (hs @ ks) = headings_of hs @ headings_of ks"
  by (simp add: headings_of_def)

text \<open>A unit lies after the headings its epoch counts and before all others.\<close>

definition between_headings :: "held_back list \<Rightarrow> text_unit \<Rightarrow> bool" where
  "between_headings hs u \<longleftrightarrow> snd (un_key u) \<le> length hs \<and>
     (\<forall>i < length hs. if i < snd (un_key u) then hb_end (hs ! i) \<le> un_start u else un_end u \<le> hb_start (hs ! i))"

lemma between_headings_snoc:
  "between_headings hs u \<Longrightarrow> un_end u \<le> hb_start h \<Longrightarrow> between_headings (hs @ [h]) u"
  by (auto simp: between_headings_def nth_append less_Suc_eq)

definition held_of_region :: "region \<Rightarrow> held_back \<Rightarrow> bool" where
  "held_of_region r h \<longleftrightarrow> hb_start h = rg_start r \<and> hb_end h = rg_end r \<and> rg_kind r \<noteq> Paragraph \<and>
     (rg_kind r = Heading \<longleftrightarrow> hb_heading h \<noteq> None)"

definition units_inv ::
    "utext \<Rightarrow> bounded_settings \<Rightarrow> counter \<Rightarrow> region list \<Rightarrow> units_state \<Rightarrow> bool" where
  "units_inv t s c past st \<longleftrightarrow>
     (\<forall>u \<in> set (us_units st). (\<exists>r \<in> set past. unit_of_region t s c r u) \<and> between_headings (headings_of (us_held st)) u) \<and>
     (\<forall>h \<in> set (us_held st). \<exists>r \<in> set past. held_of_region r h) \<and>
     (\<forall>r \<in> set past. if rg_kind r = Paragraph then {rg_start r..<rg_end r} \<subseteq> unit_cover (us_units st)
                     else \<exists>h \<in> set (us_held st). held_of_region r h) \<and>
     us_epoch st = length (headings_of (us_held st)) \<and>
     sorted_wrt (\<lambda>u v. un_split u \<or> un_split v \<or> un_end u \<le> un_start v) (us_units st)"

lemma units_invI:
  assumes "\<And>u. u \<in> set (us_units st) \<Longrightarrow>
      (\<exists>r \<in> set past. unit_of_region t s c r u) \<and> between_headings (headings_of (us_held st)) u"
    "\<And>h. h \<in> set (us_held st) \<Longrightarrow> \<exists>r \<in> set past. held_of_region r h"
    "\<And>r. r \<in> set past \<Longrightarrow> rg_kind r = Paragraph \<Longrightarrow> {rg_start r..<rg_end r} \<subseteq> unit_cover (us_units st)"
    "\<And>r. r \<in> set past \<Longrightarrow> rg_kind r \<noteq> Paragraph \<Longrightarrow> \<exists>h \<in> set (us_held st). held_of_region r h"
    "us_epoch st = length (headings_of (us_held st))"
    "sorted_wrt (\<lambda>u v. un_split u \<or> un_split v \<or> un_end u \<le> un_start v) (us_units st)"
  shows "units_inv t s c past st"
  unfolding units_inv_def using assms by simp

lemma units_invD:
  assumes "units_inv t s c past st"
  shows "u \<in> set (us_units st) \<Longrightarrow> \<exists>r \<in> set past. unit_of_region t s c r u"
    and "u \<in> set (us_units st) \<Longrightarrow> between_headings (headings_of (us_held st)) u"
    and "h \<in> set (us_held st) \<Longrightarrow> \<exists>r \<in> set past. held_of_region r h"
    and "r \<in> set past \<Longrightarrow> rg_kind r = Paragraph \<Longrightarrow> {rg_start r..<rg_end r} \<subseteq> unit_cover (us_units st)"
    and "r \<in> set past \<Longrightarrow> rg_kind r \<noteq> Paragraph \<Longrightarrow> \<exists>h \<in> set (us_held st). held_of_region r h"
    and "us_epoch st = length (headings_of (us_held st))"
    and "sorted_wrt (\<lambda>u v. un_split u \<or> un_split v \<or> un_end u \<le> un_start v) (us_units st)"
  using assms unfolding units_inv_def by fastforce+

lemma held_step:
  assumes inv: "units_inv t s c past st" and before: "\<forall>q \<in> set past. rg_end q \<le> rg_start r"
    and h: "held_of_region r h"
    and st': "us_units st' = us_units st" "us_held st' = us_held st @ [h]"
      "us_epoch st' = (if rg_kind r = Heading then us_epoch st + 1 else us_epoch st)"
  shows "units_inv t s c (past @ [r]) st'"
proof (rule units_invI)
  note D = units_invD [OF inv]
  have kind: "rg_kind r \<noteq> Paragraph" "rg_kind r = Heading \<longleftrightarrow> hb_heading h \<noteq> None" "hb_start h = rg_start r"
    using h by (auto simp: held_of_region_def)
  show "(\<exists>r \<in> set (past @ [r]). unit_of_region t s c r u) \<and> between_headings (headings_of (us_held st')) u"
    if "u \<in> set (us_units st')" for u
  proof -
    have u: "u \<in> set (us_units st)" using that st' by simp
    then obtain q where q: "q \<in> set past" "unit_of_region t s c q u" using D(1) by blast
    then have "un_end u \<le> hb_start h" using before kind(3) by (fastforce simp: unit_of_region_def)
    then have "between_headings (headings_of (us_held st')) u"
      using D(2) [OF u] by (auto simp: st' headings_of_def intro: between_headings_snoc)
    then show ?thesis using q by auto
  qed
  show "us_epoch st' = length (headings_of (us_held st'))" using D(6) kind by (auto simp: st' headings_of_def)
  show "\<exists>r \<in> set (past @ [r]). held_of_region r k" if "k \<in> set (us_held st')" for k
    using that D(3) h by (auto simp: st')
  show "{rg_start q..<rg_end q} \<subseteq> unit_cover (us_units st')" if "q \<in> set (past @ [r])" "rg_kind q = Paragraph" for q
    using that D(4) kind(1) by (auto simp: st')
  show "\<exists>k \<in> set (us_held st'). held_of_region q k" if "q \<in> set (past @ [r])" "rg_kind q \<noteq> Paragraph" for q
    using that D(5) h by (auto simp: st')
  show "sorted_wrt (\<lambda>u v. un_split u \<or> un_split v \<or> un_end u \<le> un_start v) (us_units st')"
    using D(7) by (simp only: st')
qed

lemma units_step_new:
  assumes inv: "units_inv t s c past st" and before: "\<forall>q \<in> set past. rg_end q \<le> rg_start r"
    and para: "rg_kind r = Paragraph"
    and new: "\<forall>u \<in> set us. unit_of_region t s c r u \<and> snd (un_key u) = us_epoch st"
    and cov: "{rg_start r..<rg_end r} \<subseteq> unit_cover us"
    and apart: "(\<exists>u. us = [u]) \<or> (\<forall>u \<in> set us. un_split u)"
    and st': "us_units st' = us_units st @ us" "us_held st' = us_held st" "us_epoch st' = us_epoch st"
  shows "units_inv t s c (past @ [r]) st'"
proof (rule units_invI)
  note D = units_invD [OF inv]
  have old: "un_end u \<le> rg_start r" if u: "u \<in> set (us_units st)" for u
  proof -
    obtain q where "q \<in> set past" "unit_of_region t s c q u" using D(1) [OF u] by blast
    then show ?thesis using before by (fastforce simp: unit_of_region_def)
  qed
  have held: "hb_end h \<le> rg_start r" if h: "h \<in> set (us_held st)" for h
  proof -
    obtain q where "q \<in> set past" "held_of_region q h" using D(3) [OF h] by blast
    then show ?thesis using before by (simp add: held_of_region_def)
  qed
  have start: "rg_start r \<le> un_start u" if "u \<in> set us" for u
    using new that by (auto simp: unit_of_region_def)
  show "(\<exists>r \<in> set (past @ [r]). unit_of_region t s c r u) \<and> between_headings (headings_of (us_held st')) u"
    if "u \<in> set (us_units st')" for u
  proof (cases "u \<in> set us")
    case True
    have "hb_end (headings_of (us_held st) ! i) \<le> un_start u" if "i < length (headings_of (us_held st))" for i
    proof -
      have "headings_of (us_held st) ! i \<in> set (us_held st)" using nth_mem [OF that] by (simp add: headings_of_def)
      then show ?thesis using held start [OF True] order_trans by blast
    qed
    then have "between_headings (headings_of (us_held st')) u"
      using new True D(6) by (simp add: between_headings_def st')
    then show ?thesis using new True by auto
  next
    case False
    then show ?thesis using D(1,2) that st' by fastforce
  qed
  show "sorted_wrt (\<lambda>u v. un_split u \<or> un_split v \<or> un_end u \<le> un_start v) (us_units st')"
    unfolding st' sorted_wrt_append
  proof (intro conjI ballI)
    show "sorted_wrt (\<lambda>u v. un_split u \<or> un_split v \<or> un_end u \<le> un_start v) us"
      using apart by (auto simp: sorted_wrt_iff_nth_less)
    show "un_split u \<or> un_split v \<or> un_end u \<le> un_start v" if "u \<in> set (us_units st)" "v \<in> set us" for u v
      using old [OF that(1)] start [OF that(2)] by simp
  qed (rule D(7))
  show "us_epoch st' = length (headings_of (us_held st'))" using D(6) by (simp add: st')
  show "\<exists>r \<in> set (past @ [r]). held_of_region r k" if "k \<in> set (us_held st')" for k
    using that D(3) by (auto simp: st')
  show "{rg_start q..<rg_end q} \<subseteq> unit_cover (us_units st')" if "q \<in> set (past @ [r])" "rg_kind q = Paragraph" for q
    using that D(4) cov by (auto simp: st')
  show "\<exists>k \<in> set (us_held st'). held_of_region q k" if "q \<in> set (past @ [r])" "rg_kind q \<noteq> Paragraph" for q
    using that D(5) para by (auto simp: st')
qed

lemma leaf_units_ok:
  assumes "region_ok t i r" "rg_kind r = Paragraph"
    "leaf_spans c (rg_text r) (leaf_budget s) k = Inr spans"
  shows "\<forall>u \<in> set (map (leaf_unit s c r headings (rg_window r, e)) (enumerate 0 spans)).
      unit_of_region t s c r u \<and> snd (un_key u) = e \<and> un_split u"
    and "{rg_start r..<rg_end r} \<subseteq> unit_cover (map (leaf_unit s c r headings (rg_window r, e)) (enumerate 0 spans))"
proof -
  have r: "rg_start r < rg_end r" "rg_end r \<le> length t" "rg_text r = slice_of t (rg_start r) (rg_end r)"
    using assms(1) by (simp_all add: region_ok_def)
  have len: "length (rg_text r) = rg_end r - rg_start r" using r by (simp add: slice_of_length)
  have chain: "leaf_chain c (rg_text r) (leaf_budget s) 0 spans" by (rule leaf_spans_chain [OF assms(3)])
  have one: "unit_of_region t s c r (leaf_unit s c r headings (rg_window r, e) (j, a, b)) \<and>
      un_start (leaf_unit s c r headings (rg_window r, e) (j, a, b)) \<le> rg_start r + a \<and>
      un_end (leaf_unit s c r headings (rg_window r, e) (j, a, b)) = rg_start r + b"
    if "(a, b) \<in> set spans" for j a b
    using leaf_chain_member [OF chain _ that] r assms(2) by (intro leaf_unit_ok) auto
  show "\<forall>u \<in> set (map (leaf_unit s c r headings (rg_window r, e)) (enumerate 0 spans)).
      unit_of_region t s c r u \<and> snd (un_key u) = e \<and> un_split u"
  proof
    fix u assume "u \<in> set (map (leaf_unit s c r headings (rg_window r, e)) (enumerate 0 spans))"
    then obtain j a b where "u = leaf_unit s c r headings (rg_window r, e) (j, a, b)" "(a, b) \<in> set spans"
      by (auto dest!: set_zip_rightD simp: enumerate_eq_zip)
    then show "unit_of_region t s c r u \<and> snd (un_key u) = e \<and> un_split u"
      using one by (simp add: leaf_unit_def)
  qed
  show "{rg_start r..<rg_end r} \<subseteq> unit_cover (map (leaf_unit s c r headings (rg_window r, e)) (enumerate 0 spans))"
  proof
    fix x assume x: "x \<in> {rg_start r..<rg_end r}"
    then have "x - rg_start r \<in> cover spans" using leaf_chain_cover [OF chain] len by auto
    then obtain a b where ab: "(a, b) \<in> set spans" "a \<le> x - rg_start r" "x - rg_start r < b"
      by (auto simp: cover_def)
    then obtain j where j: "j < length spans" "spans ! j = (a, b)" by (auto simp: in_set_conv_nth)
    define u where "u = leaf_unit s c r headings (rg_window r, e) (j, a, b)"
    have "(j, a, b) \<in> set (enumerate 0 spans)"
      using j by (auto simp: enumerate_eq_zip set_zip intro!: exI [of _ j])
    then have "u \<in> set (map (leaf_unit s c r headings (rg_window r, e)) (enumerate 0 spans))"
      by (auto simp: u_def)
    moreover have "un_start u \<le> x" "x < un_end u" using one [OF ab(1), of j] ab x by (auto simp: u_def)
    ultimately show "x \<in> unit_cover (map (leaf_unit s c r headings (rg_window r, e)) (enumerate 0 spans))"
      by (force simp: unit_cover_def cover_def)
  qed
qed

lemma units_step_inv:
  assumes inv: "units_inv t s c past st" and before: "\<forall>q \<in> set past. rg_end q \<le> rg_start r"
    and r: "region_ok t i r" and step: "units_step s c st r = Inr st'"
  shows "units_inv t s c (past @ [r]) st'"
proof (cases "rg_kind r")
  case Heading
  then obtain stack level title where
    "push_heading (us_stack st) (rg_text r) = Inr (stack, level, title)"
    and st': "st' = st\<lparr>us_stack := stack, us_epoch := us_epoch st + 1,
       us_held := us_held st @ [\<lparr>hb_start = rg_start r, hb_end = rg_end r,
          hb_reason_code = excluded_not_eligible, hb_reason = heading_exclusion_reason,
          hb_heading = Some (level, title)\<rparr>]\<rparr>"
    using step by (auto simp: units_step_def bindE_Inr_iff)
  show ?thesis by (rule held_step [OF inv before]) (simp_all add: st' Heading held_of_region_def)
next
  case EmptyRegion
  then have st': "st' = st\<lparr>us_held := us_held st @ [\<lparr>hb_start = rg_start r, hb_end = rg_end r,
          hb_reason_code = excluded_empty, hb_reason = empty_exclusion_reason, hb_heading = None\<rparr>]\<rparr>"
    using step by (simp add: units_step_def evidence_eligible_def)
  show ?thesis by (rule held_step [OF inv before]) (simp_all add: st' EmptyRegion held_of_region_def)
next
  case Paragraph
  have ok: "rg_start r < rg_end r" "rg_text r = slice_of t (rg_start r) (rg_end r)"
    using r by (simp_all add: region_ok_def)
  show ?thesis
  proof (cases "ct_count c (rg_text r) \<le> bs_max_tokens s")
    case True
    then have st': "st' = st\<lparr>us_units := us_units st @ [\<lparr>un_start = rg_start r, un_end = rg_end r,
        un_headings = heading_path (us_stack st), un_key = (rg_window r, us_epoch st), un_split = False\<rparr>]\<rparr>"
      using step Paragraph by (simp add: units_step_def evidence_eligible_def Let_def)
    show ?thesis
      by (rule units_step_new [OF inv before Paragraph, where us = "[\<lparr>un_start = rg_start r, un_end = rg_end r,
        un_headings = heading_path (us_stack st), un_key = (rg_window r, us_epoch st), un_split = False\<rparr>]"])
        (use ok True Paragraph in \<open>simp_all add: st' unit_of_region_def unit_cover_def\<close>)
  next
    case False
    then obtain spans where spans: "leaf_spans c (rg_text r) (leaf_budget s) (min (bs_min_tokens s) (leaf_budget s)) = Inr spans"
      and st': "st' = st\<lparr>us_units := us_units st @ map (leaf_unit s c r (heading_path (us_stack st)) (rg_window r, us_epoch st)) (enumerate 0 spans)\<rparr>"
      using step Paragraph by (auto simp: units_step_def evidence_eligible_def Let_def bindE_Inr_iff)
    note leaves = leaf_units_ok [OF r Paragraph spans, of "heading_path (us_stack st)" "us_epoch st"]
    show ?thesis
      by (rule units_step_new [OF inv before Paragraph _ leaves(2)]) (use leaves(1) in \<open>auto simp: st'\<close>)
  qed
qed

abbreviation ordered_regions :: "region list \<Rightarrow> bool" where
  "ordered_regions rs \<equiv> sorted_wrt (\<lambda>q r. rg_end q \<le> rg_start r) rs"

lemma units_fold_inv:
  "units_inv t s c past st \<Longrightarrow> ordered_regions (past @ rs) \<Longrightarrow> \<forall>r \<in> set rs. region_ok t (rg_window r) r \<Longrightarrow>
     foldE (units_step s c) st rs = Inr st' \<Longrightarrow> units_inv t s c (past @ rs) st'"
proof (induction rs arbitrary: past st)
  case (Cons r rs)
  obtain st1 where st1: "units_step s c st r = Inr st1" "foldE (units_step s c) st1 rs = Inr st'"
    using Cons.prems(4) by (auto simp: bindE_Inr_iff)
  have "\<forall>q \<in> set past. rg_end q \<le> rg_start r" using Cons.prems(2) by (auto simp: sorted_wrt_append)
  then have "units_inv t s c (past @ [r]) st1"
    using units_step_inv [OF Cons.prems(1) _ _ st1(1), of "rg_window r"] Cons.prems(3) by simp
  then show ?case using Cons.IH [of "past @ [r]" st1] Cons.prems(2,3) st1(2) by simp
qed simp

lemma text_units_inv:
  assumes "ordered_regions rs" "\<forall>r \<in> set rs. region_ok t (rg_window r) r"
    "text_units s c rs = Inr (units, held)"
  shows "\<exists>st. units_inv t s c rs st \<and> us_units st = units \<and> us_held st = held"
proof -
  obtain st where st: "foldE (units_step s c) units_start rs = Inr st" "us_units st = units" "us_held st = held"
    using assms(3) by (auto simp: text_units_def bindE_Inr_iff)
  have "units_inv t s c [] units_start" by (rule units_invI) (simp_all add: units_start_def headings_of_def)
  from units_fold_inv [OF this _ assms(2) st(1)] show ?thesis using assms(1) st by auto
qed

text \<open>
  \<open>_pack\<close> loses and reorders nothing: its groups concatenate to the units. Each group is
  nonempty and of one break key; it is a single unit, or whole regions only whose joint span fits
  the token budget.
\<close>

theorem pack_partitions:
  "concat (pack t s c units) = units \<and> (\<forall>g \<in> set (pack t s c units). group_ok t s c g)"
  using pack_ok by simp

end
