(* ===== verification/Bounding.thy ===== *)
theory Bounding
  imports Packing
begin

text \<open>
  \<^theory_text>\<open>BoundedSegmenter._bound\<close> and \<open>segment_text\<close> of
  src/src/docspec/processing/bounded_segmentation.py: regions, units, groups, byte spans, the
  excluded ledger and its account. The theorems are the module's promises: every byte is in a
  segment or in the ledger and not in both, every segment is within the token budget, headings
  are never evidence; and for a counter that is monotone and subadditive it never refuses.
\<close>

section \<open>Results\<close>

record text_span =
  ts_start :: nat
  ts_end :: nat
  ts_headings :: "utext list"
  ts_token_count :: int

record heading_region =
  hr_start :: nat
  hr_end :: nat
  hr_level :: nat
  hr_title :: utext

record excluded_region =
  xr_start :: int
  xr_end :: int
  xr_reason_code :: string
  xr_reason :: string

record bounded_text =
  bt_spans :: "text_span list"
  bt_headings :: "heading_region list"
  bt_excluded :: "excluded_region list"
  bt_coverage :: segment_coverage

text \<open>
  \<open>^[a-z][a-z0-9]*(\.[a-z][a-z0-9-]*)+$\<close> with \<open>match\<close>: parts between dots, at least two, each led
  by a letter, hyphens from the second on; \<open>$\<close> also matches before one last newline.
\<close>

definition is_lower :: "char \<Rightarrow> bool" where
  "is_lower c = (c \<in> set ''abcdefghijklmnopqrstuvwxyz'')"

definition is_lower_or_digit :: "char \<Rightarrow> bool" where
  "is_lower_or_digit c = (is_lower c \<or> c \<in> set ''0123456789'')"

definition legible_code :: "string \<Rightarrow> bool" where
  "legible_code code =
     (let code = (if code \<noteq> [] \<and> last code = CHR 0x0A then butlast code else code);
          parts = split_on (CHR ''.'') code in
      2 \<le> length parts \<and> list_all (\<lambda>p. p \<noteq> [] \<and> is_lower (hd p)) parts \<and>
      list_all is_lower_or_digit (hd parts) \<and>
      list_all (list_all (\<lambda>c. is_lower_or_digit c \<or> c = CHR ''-'')) (tl parts))"

definition excluded_check :: "excluded_region \<Rightarrow> excluded_region result" where
  "excluded_check x =
     thenE (refuse (xr_start x < 0 \<or> xr_end x \<le> xr_start x)
              (ValueError ''an excluded range must satisfy end > start''))
    (thenE (refuse (\<not> legible_code (xr_reason_code x))
              (ValueError ''excluded range reasonCode is not machine-legible''))
    (bindE (require_text (JStr (xr_reason x)) ''excluded range reason'') (\<lambda>_. Inr x)))"

definition excluded_span :: "excluded_region \<Rightarrow> span" where
  "excluded_span x = (nat (xr_start x), nat (xr_end x))"

section \<open>The segmenter\<close>

definition require_matching_counter :: "bounded_settings \<Rightarrow> counter \<Rightarrow> unit result" where
  "require_matching_counter s c =
     refuse (bs_tokenizer s \<noteq> ct_name c \<or> bs_tokenizer_version s \<noteq> ct_version c)
       (BoundedSegmentationError (''settings name tokenizer '' @ bs_tokenizer s @ ''@'' @ bs_tokenizer_version s
          @ '' but the counter is '' @ ct_name c @ ''@'' @ ct_version c))"

definition index_or_raise :: "'a list \<Rightarrow> nat \<Rightarrow> 'a result" where
  "index_or_raise xs i = (if i < length xs then Inr (xs ! i) else Inl IndexError)"

definition group_span ::
    "utext \<Rightarrow> nat list \<Rightarrow> bounded_settings \<Rightarrow> counter \<Rightarrow> string \<Rightarrow> nat \<times> text_unit list \<Rightarrow> text_span result" where
  "group_span t offsets s c label item = (case item of (ordinal, units) \<Rightarrow>
     let (a, b) = hull units; token_count = ct_count c (slice_of t a b) in
     if bs_max_tokens s < token_count
     then Inl (BoundedSegmentationError (''segment '' @ digits_of_nat ordinal @ '' of '' @ label @ '' needs ''
        @ str_of_int token_count @ '' tokens, over the hard budget of '' @ str_of_int (bs_max_tokens s)))
     else bindE (index_or_raise offsets a) (\<lambda>start.
          bindE (index_or_raise offsets b) (\<lambda>e.
            Inr \<lparr>ts_start = start, ts_end = e, ts_headings = un_headings (hd units), ts_token_count = token_count\<rparr>)))"

definition held_excluded ::
    "nat list \<Rightarrow> span list \<Rightarrow> held_back \<Rightarrow> excluded_region list result" where
  "held_excluded offsets covered h =
     mapE (\<lambda>(a, b). bindE (index_or_raise offsets a) (\<lambda>start. bindE (index_or_raise offsets b) (\<lambda>e.
            excluded_check \<lparr>xr_start = int start, xr_end = int e,
              xr_reason_code = hb_reason_code h, xr_reason = hb_reason h\<rparr>)))
       (remainder (hb_start h) (hb_end h) covered)"

definition heading_region_of :: "nat list \<Rightarrow> held_back \<Rightarrow> heading_region list result" where
  "heading_region_of offsets h = (case hb_heading h of
     None \<Rightarrow> Inr []
   | Some (level, title) \<Rightarrow>
       bindE (index_or_raise offsets (hb_start h)) (\<lambda>start.
       bindE (index_or_raise offsets (hb_end h)) (\<lambda>e.
         Inr [\<lparr>hr_start = start, hr_end = e, hr_level = level, hr_title = title\<rparr>])))"

definition bound ::
    "bounded_settings \<Rightarrow> counter \<Rightarrow> utext \<Rightarrow> nat list \<Rightarrow> span list \<Rightarrow> nat \<Rightarrow> string \<Rightarrow> bounded_text result" where
  "bound s c t offsets windows content_length label =
     thenE (require_matching_counter s c)
    (bindE (text_units s c (regions t windows)) (\<lambda>(units, held).
     let groups = pack t s c units in
     bindE (mapE (group_span t offsets s c label) (enumerate 0 groups)) (\<lambda>spans.
     let covered = merge_spans (map hull groups) in
     bindE (mapE (held_excluded offsets covered) held) (\<lambda>excluded.
     let coverage = coverage content_length (map (\<lambda>x. (ts_start x, ts_end x)) spans)
                      (map excluded_span (concat excluded)) in
     thenE (refuse (cv_uncovered_bytes coverage \<noteq> 0)
              (BoundedSegmentationError (str_of_int (cv_uncovered_bytes coverage)
                 @ '' representation bytes reached neither a segment nor the excluded ledger'')))
    (bindE (mapE (heading_region_of offsets) held) (\<lambda>headings.
       Inr \<lparr>bt_spans = spans, bt_headings = concat headings, bt_excluded = concat excluded,
            bt_coverage = coverage\<rparr>))))))"

definition segment_text :: "bounded_settings \<Rightarrow> counter \<Rightarrow> bytes \<Rightarrow> string \<Rightarrow> bounded_text result" where
  "segment_text s c content label =
     bindE (decode_utf8 content (''bounded segmentation '' @ label)) (\<lambda>t.
       bound s c t (utf8_byte_offsets t) [(0, length t)] (length content) label)"

section \<open>Characters and bytes\<close>

text \<open>The byte ranges of character ranges: byte \<open>b\<close> belongs to one character.\<close>

lemma byte_char:
  assumes "b < utf8_byte_offsets t ! length t"
  shows "\<exists>i < length t. utf8_byte_offsets t ! i \<le> b \<and> b < utf8_byte_offsets t ! Suc i"
proof -
  define i where "i = (LEAST i. b < utf8_byte_offsets t ! i)"
  have less: "b < utf8_byte_offsets t ! i" unfolding i_def by (rule LeastI) (rule assms)
  have le: "i \<le> length t" unfolding i_def by (rule Least_le) (rule assms)
  have "i \<noteq> 0" using less by (cases i) auto
  then obtain j where j: "i = Suc j" by (cases i) auto
  have "\<not> b < utf8_byte_offsets t ! j" using not_less_Least [of j "\<lambda>i. b < utf8_byte_offsets t ! i"] j
    by (simp add: i_def)
  then show ?thesis using less le j by (intro exI [of _ j]) auto
qed

definition byte_span :: "utext \<Rightarrow> span \<Rightarrow> span" where
  "byte_span t x = (utf8_byte_offsets t ! fst x, utf8_byte_offsets t ! snd x)"

abbreviation inside :: "nat \<Rightarrow> span list \<Rightarrow> bool" where
  "inside n xs \<equiv> \<forall>x \<in> set xs. fst x \<le> snd x \<and> snd x \<le> n"

lemma byte_in_span:
  assumes "i < length t" "utf8_byte_offsets t ! i \<le> b" "b < utf8_byte_offsets t ! Suc i" "snd x \<le> length t"
    "fst x \<le> snd x"
  shows "b \<in> {fst (byte_span t x)..<snd (byte_span t x)} \<longleftrightarrow> fst x \<le> i \<and> i < snd x"
proof
  assume b: "b \<in> {fst (byte_span t x)..<snd (byte_span t x)}"
  have "fst x \<le> i"
  proof (rule ccontr)
    assume "\<not> fst x \<le> i"
    then have "utf8_byte_offsets t ! Suc i \<le> utf8_byte_offsets t ! fst x" using assms by (intro offsets_mono) auto
    then show False using b assms by (simp add: byte_span_def)
  qed
  moreover have "i < snd x"
  proof (rule ccontr)
    assume "\<not> i < snd x"
    then have "utf8_byte_offsets t ! snd x \<le> utf8_byte_offsets t ! i" using assms by (intro offsets_mono) auto
    then show False using b assms by (simp add: byte_span_def)
  qed
  ultimately show "fst x \<le> i \<and> i < snd x" by simp
next
  assume i: "fst x \<le> i \<and> i < snd x"
  have "utf8_byte_offsets t ! fst x \<le> utf8_byte_offsets t ! i" using i assms by (intro offsets_mono) auto
  moreover have "utf8_byte_offsets t ! Suc i \<le> utf8_byte_offsets t ! snd x" using i assms by (intro offsets_mono) auto
  ultimately show "b \<in> {fst (byte_span t x)..<snd (byte_span t x)}" using assms by (simp add: byte_span_def)
qed

lemma byte_cover:
  assumes "inside (length t) xs" "i < length t" "utf8_byte_offsets t ! i \<le> b" "b < utf8_byte_offsets t ! Suc i"
  shows "b \<in> cover (map (byte_span t) xs) \<longleftrightarrow> i \<in> cover xs"
proof -
  have "b \<in> cover (map (byte_span t) xs) \<longleftrightarrow> (\<exists>x \<in> set xs. b \<in> {fst (byte_span t x)..<snd (byte_span t x)})"
    by (simp add: mem_cover)
  also have "\<dots> \<longleftrightarrow> (\<exists>x \<in> set xs. fst x \<le> i \<and> i < snd x)"
    using byte_in_span [OF assms(2-4)] assms(1) by blast
  also have "\<dots> \<longleftrightarrow> i \<in> cover xs" by (simp only: mem_cover)
  finally show ?thesis .
qed

lemma byte_cover_bounds:
  assumes "inside (length t) xs"
  shows "cover (map (byte_span t) xs) \<subseteq> {0..<utf8_byte_offsets t ! length t}"
proof
  fix b assume "b \<in> cover (map (byte_span t) xs)"
  then obtain x where x: "x \<in> set xs" "b < utf8_byte_offsets t ! snd x"
    by (auto simp: cover_def byte_span_def)
  have "utf8_byte_offsets t ! snd x \<le> utf8_byte_offsets t ! length t" using assms x by (intro offsets_mono) auto
  then show "b \<in> {0..<utf8_byte_offsets t ! length t}" using x by simp
qed

lemma byte_span_proper: "inside (length t) xs \<Longrightarrow> x \<in> set xs \<Longrightarrow> fst (byte_span t x) \<le> snd (byte_span t x)"
  by (auto simp: byte_span_def intro: offsets_mono)

text \<open>Relations between character ranges carry over to their byte ranges.\<close>

lemma byte_cover_disjoint:
  assumes "inside (length t) xs" "inside (length t) ys" "cover xs \<inter> cover ys = {}"
  shows "cover (map (byte_span t) xs) \<inter> cover (map (byte_span t) ys) = {}"
proof (rule ccontr)
  assume "cover (map (byte_span t) xs) \<inter> cover (map (byte_span t) ys) \<noteq> {}"
  then obtain b where b: "b \<in> cover (map (byte_span t) xs)" "b \<in> cover (map (byte_span t) ys)" by blast
  then have "b < utf8_byte_offsets t ! length t" using byte_cover_bounds [OF assms(1)] by auto
  then obtain i where "i < length t" "utf8_byte_offsets t ! i \<le> b" "b < utf8_byte_offsets t ! Suc i"
    using byte_char by blast
  then show False using byte_cover assms b by blast
qed

lemma byte_cover_all:
  assumes "inside (length t) xs" "cover xs = {0..<length t}"
  shows "cover (map (byte_span t) xs) = {0..<utf8_byte_offsets t ! length t}"
proof (rule equalityI [OF byte_cover_bounds [OF assms(1)]], rule subsetI)
  fix b assume "b \<in> {0..<utf8_byte_offsets t ! length t}"
  then obtain i where "i < length t" "utf8_byte_offsets t ! i \<le> b" "b < utf8_byte_offsets t ! Suc i"
    using byte_char by auto
  then show "b \<in> cover (map (byte_span t) xs)" using byte_cover [OF assms(1)] assms(2) by auto
qed

section \<open>Groups\<close>

abbreviation ordered_windows :: "span list \<Rightarrow> bool" where
  "ordered_windows windows \<equiv> sorted_wrt (\<lambda>v w. snd v \<le> fst w) windows"

lemma tiles_ordered: "tiles a b (map span_of rs) \<Longrightarrow> ordered_regions rs"
proof (induction rs arbitrary: a)
  case (Cons r rs)
  have rest: "tiles (rg_end r) b (map span_of rs)" using Cons.prems by (simp add: span_of_def [of r])
  have "rg_end r \<le> rg_start q" if "q \<in> set rs" for q
    using tiles_inside [OF rest, of "rg_start q" "rg_end q"] that by (force simp: span_of_def)
  then show ?case using Cons.IH [OF rest] by simp
qed simp

lemma window_region_inside:
  assumes "fst w \<le> snd w" "snd w \<le> length t" "r \<in> set (window_regions t i w)"
  shows "fst w \<le> rg_start r \<and> rg_end r \<le> snd w"
proof -
  have "(rg_start r, rg_end r) \<in> set (map span_of (window_regions t i (fst w, snd w)))"
    using assms(3) by (force simp: span_of_def)
  then show ?thesis using tiles_inside window_regions_ok [OF assms(1,2), of i] by blast
qed

lemma regions_from_ordered:
  "legal_windows t ws \<Longrightarrow> ordered_windows ws \<Longrightarrow>
     ordered_regions (concat (map (\<lambda>(i, w). window_regions t i w) (enumerate n ws)))"
proof (induction ws arbitrary: n)
  case (Cons w ws)
  have w: "fst w \<le> snd w" "snd w \<le> length t" using Cons.prems(1) by auto
  have "ordered_regions (window_regions t n (fst w, snd w))"
    using window_regions_ok [OF w, of n] tiles_ordered by blast
  moreover have "rg_end r \<le> rg_start q"
    if r: "r \<in> set (window_regions t n w)"
      and q0: "q \<in> set (concat (map (\<lambda>(i, w). window_regions t i w) (enumerate (Suc n) ws)))" for r q
  proof -
    obtain i v where q: "(i, v) \<in> set (enumerate (Suc n) ws)" "q \<in> set (window_regions t i v)" using q0 by auto
    then have v: "v \<in> set ws" by (auto dest: set_zip_rightD simp: enumerate_eq_zip)
    then have "fst v \<le> rg_start q" using window_region_inside [OF _ _ q(2)] Cons.prems(1) by simp
    moreover have "snd w \<le> fst v" using Cons.prems(2) v by simp
    ultimately show ?thesis using window_region_inside [OF w r] by linarith
  qed
  ultimately show ?case using Cons.IH Cons.prems by (simp add: sorted_wrt_append)
qed simp

lemma regions_ordered: "legal_windows t windows \<Longrightarrow> ordered_windows windows \<Longrightarrow> ordered_regions (regions t windows)"
  unfolding regions_def by (rule regions_from_ordered)

lemma sorted_wrt_concat_mem: "sorted_wrt P (concat gs) \<Longrightarrow> g \<in> set gs \<Longrightarrow> sorted_wrt P g"
  by (induction gs) (auto simp: sorted_wrt_append)

text \<open>A group spans its units, within one window, between headings.\<close>

lemma group_hull:
  assumes "g \<noteq> []" "\<forall>u \<in> set g. un_start u < un_end u"
    "(\<exists>u. g = [u]) \<or> (\<forall>u \<in> set g. \<not> un_split u)"
    "sorted_wrt (\<lambda>u v. un_split u \<or> un_split v \<or> un_end u \<le> un_start v) g"
  shows "fst (hull g) < snd (hull g) \<and> (\<forall>u \<in> set g. fst (hull g) \<le> un_start u \<and> un_end u \<le> snd (hull g))"
  using assms(3)
proof
  assume "\<exists>u. g = [u]"
  then show ?thesis using assms(2) by (auto simp: hull_def)
next
  assume whole: "\<forall>u \<in> set g. \<not> un_split u"
  have sorted: "sorted_wrt (\<lambda>u v. un_end u \<le> un_start v) g"
    by (rule sorted_wrt_mono_rel [OF _ assms(4)]) (use whole in auto)
  have first: "un_start (hd g) \<le> un_start u" if u: "u \<in> set g" for u
  proof (cases g)
    case (Cons v vs)
    then have "u = v \<or> un_end v \<le> un_start u" using u sorted by auto
    then show ?thesis using assms(2) Cons by fastforce
  qed (use assms(1) in simp)
  have final: "un_end u \<le> un_end (last g)" if u: "u \<in> set g" for u
  proof (cases g rule: rev_cases)
    case (snoc vs v)
    then have "u = v \<or> un_end u \<le> un_start v" using u sorted by (auto simp: sorted_wrt_append)
    then show ?thesis using assms(2) snoc by fastforce
  qed (use assms(1) in simp)
  have "un_start (hd g) < un_end (hd g)" "hd g \<in> set g" using assms(1,2) by auto
  then have "un_start (hd g) < un_end (last g)" using final [of "hd g"] by simp
  then show ?thesis using first final by (simp add: hull_def)
qed

text \<open>The facts about one run of the units and groups of given windows.\<close>

lemma units_groups:
  assumes legal: "legal_windows t windows" and ordered: "ordered_windows windows"
    and units: "text_units s c (regions t windows) = Inr (units, held)"
  shows group_inside: "\<And>g. g \<in> set (pack t s c units) \<Longrightarrow> fst (hull g) < snd (hull g) \<and>
      (\<exists>w \<in> set windows. fst w \<le> fst (hull g) \<and> snd (hull g) \<le> snd w)"
    and group_headings: "\<And>g h. g \<in> set (pack t s c units) \<Longrightarrow> h \<in> set held \<Longrightarrow> hb_heading h \<noteq> None \<Longrightarrow>
      hb_end h \<le> fst (hull g) \<or> snd (hull g) \<le> hb_start h"
    and group_covers: "unit_cover units \<subseteq> cover (map hull (pack t s c units))"
    and held_inside: "\<And>h. h \<in> set held \<Longrightarrow> hb_start h < hb_end h \<and>
      (\<exists>w \<in> set windows. fst w \<le> hb_start h \<and> hb_end h \<le> snd w)"
    and windows_covered: "\<And>x w. w \<in> set windows \<Longrightarrow> fst w \<le> x \<Longrightarrow> x < snd w \<Longrightarrow>
      x \<in> unit_cover units \<or> (\<exists>h \<in> set held. hb_start h \<le> x \<and> x < hb_end h)"
    and units_fit: "\<And>u. u \<in> set units \<Longrightarrow> \<exists>r. unit_of_region t s c r u"
proof -
  define rs where "rs = regions t windows"
  have ok: "\<forall>r \<in> set rs. region_ok t (rg_window r) r" using regions_ok(1) [OF legal] by (simp add: rs_def)
  obtain st where inv: "units_inv t s c rs st" and st: "us_units st = units" "us_held st = held"
    using text_units_inv [OF _ ok] regions_ordered [OF legal ordered] units unfolding rs_def by blast
  note D = units_invD [OF inv, unfolded st]
  have window: "\<exists>w \<in> set windows. windows ! rg_window r = w \<and> fst w \<le> rg_start r \<and> rg_end r \<le> snd w"
    if r: "r \<in> set rs" for r
  proof -
    have m: "rg_window r < length windows" "r \<in> set (window_regions t (rg_window r) (windows ! rg_window r))"
      using regions_member [of r t windows] r by (auto simp: rs_def)
    then have "windows ! rg_window r \<in> set windows" by simp
    then show ?thesis using window_region_inside [OF _ _ m(2)] legal by blast
  qed
  have parts: "concat (pack t s c units) = units" "\<forall>g \<in> set (pack t s c units). group_ok t s c g" by (rule pack_ok)+
  have member: "u \<in> set units" if "g \<in> set (pack t s c units)" "u \<in> set g" for g u
    using that set_concat [of "pack t s c units"] unfolding parts(1) by blast
  have pos: "un_start u < un_end u" if "u \<in> set units" for u using D(1) [OF that] by (auto simp: unit_of_region_def)
  have hull: "g \<noteq> [] \<and> fst (hull g) < snd (hull g) \<and>
      (\<forall>u \<in> set g. fst (hull g) \<le> un_start u \<and> un_end u \<le> snd (hull g))" if g: "g \<in> set (pack t s c units)" for g
  proof -
    have "g \<noteq> []" "(\<exists>u. g = [u]) \<or> (\<forall>u \<in> set g. \<not> un_split u)" using parts(2) g by (auto simp: group_ok_def)
    moreover have "sorted_wrt (\<lambda>u v. un_split u \<or> un_split v \<or> un_end u \<le> un_start v) g"
      by (rule sorted_wrt_concat_mem [OF _ g]) (simp only: parts(1) D(7))
    ultimately show ?thesis using group_hull pos member [OF g] by blast
  qed
  have key: "\<exists>k. \<forall>u \<in> set g. un_key u = k" if "g \<in> set (pack t s c units)" for g
    using parts(2) that by (auto simp: group_ok_def)
  show "fst (hull g) < snd (hull g) \<and> (\<exists>w \<in> set windows. fst w \<le> fst (hull g) \<and> snd (hull g) \<le> snd w)"
    if g: "g \<in> set (pack t s c units)" for g
  proof -
    obtain k where k: "\<forall>u \<in> set g. un_key u = k" using key [OF g] by blast
    have ends: "hd g \<in> set g" "last g \<in> set g" using hull [OF g] by auto
    obtain q r where q: "q \<in> set rs" "unit_of_region t s c q (hd g)" and r: "r \<in> set rs" "unit_of_region t s c r (last g)"
      using D(1) member [OF g] ends by blast
    have "rg_window q = rg_window r" using q(2) r(2) k ends by (simp add: unit_of_region_def)
    then have "\<exists>w \<in> set windows. fst w \<le> rg_start q \<and> rg_end r \<le> snd w"
      using window [OF q(1)] window [OF r(1)] by auto
    then show ?thesis using hull [OF g] q(2) r(2) by (force simp: hull_def unit_of_region_def)
  qed
  show "hb_end h \<le> fst (hull g) \<or> snd (hull g) \<le> hb_start h"
    if g: "g \<in> set (pack t s c units)" and h: "h \<in> set held" "hb_heading h \<noteq> None" for g h
  proof -
    obtain k where k: "\<forall>u \<in> set g. un_key u = k" using key [OF g] by blast
    have ends: "hd g \<in> set g" "last g \<in> set g" using hull [OF g] by auto
    have "h \<in> set (headings_of held)" using h by (simp add: headings_of_def)
    then obtain i where i: "i < length (headings_of held)" "headings_of held ! i = h" by (auto simp: in_set_conv_nth)
    have "between_headings (headings_of held) (hd g)" "between_headings (headings_of held) (last g)"
      using D(2) member [OF g] ends by blast+
    then show ?thesis using i k ends by (auto simp: between_headings_def hull_def split: if_splits)
  qed
  show "unit_cover units \<subseteq> cover (map hull (pack t s c units))"
  proof
    fix x assume "x \<in> unit_cover units"
    then obtain u where u: "u \<in> set units" "un_start u \<le> x" "x < un_end u" by (auto simp: unit_cover_def mem_cover)
    then obtain g where g: "g \<in> set (pack t s c units)" "u \<in> set g"
      using set_concat [of "pack t s c units"] unfolding parts(1) by blast
    then show "x \<in> cover (map hull (pack t s c units))" using hull [OF g(1)] u by (force simp: mem_cover)
  qed
  show "hb_start h < hb_end h \<and> (\<exists>w \<in> set windows. fst w \<le> hb_start h \<and> hb_end h \<le> snd w)" if h: "h \<in> set held" for h
  proof -
    obtain r where r: "r \<in> set rs" "held_of_region r h" using D(3) [OF h] by blast
    then show ?thesis using window [OF r(1)] ok by (auto simp: held_of_region_def region_ok_def)
  qed
  show "x \<in> unit_cover units \<or> (\<exists>h \<in> set held. hb_start h \<le> x \<and> x < hb_end h)"
    if w: "w \<in> set windows" "fst w \<le> x" "x < snd w" for x w
  proof -
    obtain k where k: "k < length windows" "windows ! k = w" using w(1) by (auto simp: in_set_conv_nth)
    have "tiles (fst w) (snd w) (map span_of (filter (\<lambda>r. rg_window r = k) rs))"
      using regions_window_tiles [OF legal k(1)] k(2) by (simp add: rs_def)
    from tiles_hit [OF this w(2,3)] obtain r where r: "r \<in> set rs" "rg_start r \<le> x" "x < rg_end r"
      by (auto simp: span_of_def)
    show ?thesis
    proof (cases "rg_kind r = Paragraph")
      case True
      then show ?thesis using D(4) [OF r(1)] r by force
    next
      case False
      then obtain h where h: "h \<in> set held" "held_of_region r h" using D(5) [OF r(1)] by blast
      then have "hb_start h \<le> x \<and> x < hb_end h" using r by (simp add: held_of_region_def)
      then show ?thesis using h(1) by blast
    qed
  qed
  show "\<exists>r. unit_of_region t s c r u" if "u \<in> set units" for u using D(1) [OF that] by blast
qed

section \<open>The result of a run\<close>

definition group_text_span :: "utext \<Rightarrow> counter \<Rightarrow> text_unit list \<Rightarrow> text_span" where
  "group_text_span t c g = \<lparr>ts_start = fst (byte_span t (hull g)), ts_end = snd (byte_span t (hull g)),
     ts_headings = un_headings (hd g), ts_token_count = ct_count c (slice_of t (fst (hull g)) (snd (hull g)))\<rparr>"

definition piece_region :: "utext \<Rightarrow> held_back \<Rightarrow> span \<Rightarrow> excluded_region" where
  "piece_region t h p = \<lparr>xr_start = int (fst (byte_span t p)), xr_end = int (snd (byte_span t p)),
     xr_reason_code = hb_reason_code h, xr_reason = hb_reason h\<rparr>"

definition heading_span :: "utext \<Rightarrow> held_back \<Rightarrow> heading_region list" where
  "heading_span t h = (case hb_heading h of None \<Rightarrow> []
     | Some (level, title) \<Rightarrow> [\<lparr>hr_start = fst (byte_span t (hb_start h, hb_end h)),
         hr_end = snd (byte_span t (hb_start h, hb_end h)), hr_level = level, hr_title = title\<rparr>])"

lemma offset_found: "i \<le> length t \<Longrightarrow> index_or_raise (utf8_byte_offsets t) i = Inr (utf8_byte_offsets t ! i)"
  by (simp add: index_or_raise_def)

lemma group_span_eq:
  assumes "fst (hull g) \<le> length t" "snd (hull g) \<le> length t"
  shows "group_span t (utf8_byte_offsets t) s c label (i, g) = Inr x \<longleftrightarrow>
    x = group_text_span t c g \<and> fits c t (bs_max_tokens s) (fst (hull g)) (snd (hull g))"
  using offset_found [OF assms(1)] offset_found [OF assms(2)]
  by (cases "hull g") (auto simp: group_span_def group_text_span_def byte_span_def Let_def split: if_splits)

definition held_text_ok :: "held_back \<Rightarrow> bool" where
  "held_text_ok h \<longleftrightarrow> (hb_reason_code h = excluded_not_eligible \<and> hb_reason h = heading_exclusion_reason) \<or>
     (hb_reason_code h = excluded_empty \<and> hb_reason h = empty_exclusion_reason)"

lemma held_texts: "text_units s c rs = Inr (units, held) \<Longrightarrow> h \<in> set held \<Longrightarrow> held_text_ok h"
proof -
  assume a: "text_units s c rs = Inr (units, held)" "h \<in> set held"
  then obtain st where st: "foldE (units_step s c) units_start rs = Inr st" "us_held st = held"
    by (auto simp: text_units_def bindE_Inr_iff)
  have "\<forall>h \<in> set (us_held st). held_text_ok h"
  proof (rule foldE_invariant [OF st(1), of "\<lambda>st. \<forall>h \<in> set (us_held st). held_text_ok h"])
    fix st r st' assume "\<forall>h \<in> set (us_held st). held_text_ok h" "units_step s c st r = Inr st'"
    then show "\<forall>h \<in> set (us_held st'). held_text_ok h"
      by (auto simp: units_step_def bindE_Inr_iff Let_def held_text_ok_def split: if_splits)
  qed (simp add: units_start_def)
  then show "held_text_ok h" using st(2) a(2) by simp
qed

lemma legible_reasons: "legible_code excluded_not_eligible" "legible_code excluded_empty"
  "strip heading_exclusion_reason \<noteq> []" "strip empty_exclusion_reason \<noteq> []"
  by (simp_all add: excluded_not_eligible_def excluded_empty_def heading_exclusion_reason_def
      empty_exclusion_reason_def legible_code_def is_lower_def is_lower_or_digit_def strip_def char_isspace_def)

lemma excluded_ok:
  assumes "held_text_ok h" "fst p < snd p" "snd p \<le> length t"
  shows "excluded_check (piece_region t h p) = Inr (piece_region t h p)"
  using assms offsets_less [of "fst p" "snd p" t] legible_reasons
  by (auto simp: excluded_check_def piece_region_def byte_span_def held_text_ok_def require_text_def)

lemma held_excluded_eq:
  assumes "held_text_ok h" "separated covered" "hb_start h < hb_end h" "hb_end h \<le> length t"
  shows "held_excluded (utf8_byte_offsets t) covered h =
    Inr (map (piece_region t h) (remainder (hb_start h) (hb_end h) covered))"
  unfolding held_excluded_def
proof (rule mapE_pure)
  fix p assume "p \<in> set (remainder (hb_start h) (hb_end h) covered)"
  then have p: "fst p < snd p" "snd p \<le> length t"
    using remainder_ok(2) [OF assms(2), of "hb_start h" "hb_end h" p] assms(3,4) by auto
  have "excluded_check \<lparr>xr_start = int (utf8_byte_offsets t ! fst p), xr_end = int (utf8_byte_offsets t ! snd p),
      xr_reason_code = hb_reason_code h, xr_reason = hb_reason h\<rparr> = Inr (piece_region t h p)"
    using excluded_ok [OF assms(1) p] by (simp add: piece_region_def byte_span_def)
  then show "(case p of (a, b) \<Rightarrow> bindE (index_or_raise (utf8_byte_offsets t) a) (\<lambda>start.
      bindE (index_or_raise (utf8_byte_offsets t) b) (\<lambda>e. excluded_check \<lparr>xr_start = int start, xr_end = int e,
         xr_reason_code = hb_reason_code h, xr_reason = hb_reason h\<rparr>))) = Inr (piece_region t h p)"
    using p by (cases p) (simp add: offset_found)
qed

lemma heading_region_eq:
  "hb_start h \<le> length t \<Longrightarrow> hb_end h \<le> length t \<Longrightarrow>
     heading_region_of (utf8_byte_offsets t) h = Inr (heading_span t h)"
  by (auto simp: heading_region_of_def heading_span_def offset_found byte_span_def split: option.splits)

definition bound_result :: "utext \<Rightarrow> counter \<Rightarrow> nat \<Rightarrow> text_unit list list \<Rightarrow> held_back list \<Rightarrow> bounded_text" where
  "bound_result t c n groups held =
     (let spans = map (group_text_span t c) groups;
          excluded = concat (map (\<lambda>h. map (piece_region t h)
             (remainder (hb_start h) (hb_end h) (merge_spans (map hull groups)))) held) in
      \<lparr>bt_spans = spans, bt_headings = concat (map (heading_span t) held), bt_excluded = excluded,
       bt_coverage = coverage n (map (\<lambda>x. (ts_start x, ts_end x)) spans) (map excluded_span excluded)\<rparr>)"

definition pieces :: "text_unit list list \<Rightarrow> held_back list \<Rightarrow> span list" where
  "pieces groups held =
     concat (map (\<lambda>h. remainder (hb_start h) (hb_end h) (merge_spans (map hull groups))) held)"

lemma bound_result_spans:
  "map (\<lambda>x. (ts_start x, ts_end x)) (bt_spans (bound_result t c n groups held)) = map (byte_span t) (map hull groups)"
  "map excluded_span (bt_excluded (bound_result t c n groups held)) = map (byte_span t) (pieces groups held)"
  by (simp_all add: bound_result_def group_text_span_def pieces_def map_concat comp_def excluded_span_def piece_region_def)

text \<open>What \<open>bound\<close> returns, and exactly when.\<close>

lemma bound_eq:
  assumes legal: "legal_windows t windows" and ordered: "ordered_windows windows"
    and units: "text_units s c (regions t windows) = Inr (units, held)"
  shows "bound s c t (utf8_byte_offsets t) windows n label = Inr r \<longleftrightarrow>
    require_matching_counter s c = Inr () \<and> r = bound_result t c n (pack t s c units) held \<and>
    (\<forall>g \<in> set (pack t s c units). fits c t (bs_max_tokens s) (fst (hull g)) (snd (hull g))) \<and>
    cv_uncovered_bytes (bt_coverage r) = 0"
proof -
  note F = units_groups [OF legal ordered units]
  define groups where "groups = pack t s c units"
  have hull: "fst (hull g) \<le> length t \<and> snd (hull g) \<le> length t \<and> fst (hull g) \<le> snd (hull g)"
    if "g \<in> set groups" for g
    using F(1) [of g] that legal unfolding groups_def by fastforce
  have spans: "mapE (group_span t (utf8_byte_offsets t) s c label) (enumerate 0 groups) = Inr spans \<longleftrightarrow>
      spans = map (group_text_span t c) groups \<and>
      (\<forall>g \<in> set groups. fits c t (bs_max_tokens s) (fst (hull g)) (snd (hull g)))" for spans
    unfolding mapE_Inr_iff list_all2_conv_all_nth list_eq_iff_nth_eq all_set_conv_all_nth
    using group_span_eq hull by (auto simp: nth_enumerate_eq)
  have sep: "separated (merge_spans (map hull groups))"
    by (rule merge_spans_ok(1)) (use hull in \<open>auto simp: case_prod_unfold\<close>)
  have held: "hb_start h < hb_end h \<and> hb_end h \<le> length t" if "h \<in> set held" for h
    using F(4) [OF that] legal by fastforce
  have excl: "mapE (held_excluded (utf8_byte_offsets t) (merge_spans (map hull groups))) held =
      Inr (map (\<lambda>h. map (piece_region t h) (remainder (hb_start h) (hb_end h) (merge_spans (map hull groups)))) held)"
    by (rule mapE_pure, rule held_excluded_eq [OF held_texts [OF units] sep]) (use held in auto)
  have heads: "mapE (heading_region_of (utf8_byte_offsets t)) held = Inr (map (heading_span t) held)"
    by (rule mapE_pure, rule heading_region_eq) (use held in \<open>auto intro: less_imp_le order_trans\<close>)
  show ?thesis unfolding bound_def units
    by (auto simp: Let_def bindE_Inr_iff thenE_Inr_iff refuse_Inr_iff spans excl heads bound_result_def
        simp flip: groups_def)
qed

section \<open>Every byte is accounted for\<close>

lemma bound_units:
  assumes "bound s c t offsets windows n label = Inr r"
  shows "\<exists>units held. text_units s c (regions t windows) = Inr (units, held)"
  using assms by (auto simp: bound_def bindE_Inr_iff thenE_Inr_iff)

lemma pieces_cover:
  assumes "separated (merge_spans (map hull groups))" "\<forall>h \<in> set held. hb_start h \<le> hb_end h"
  shows "cover (pieces groups held) =
    {x. \<exists>h \<in> set held. hb_start h \<le> x \<and> x < hb_end h} - cover (merge_spans (map hull groups))"
  using assms(2)
proof (induction held)
  case (Cons h held)
  then show ?case using remainder_ok(1) [OF assms(1), of "hb_start h" "hb_end h"] by (auto simp: pieces_def)
qed (simp add: pieces_def)

lemma run_covers:
  assumes legal: "legal_windows t windows" and ordered: "ordered_windows windows"
    and units: "text_units s c (regions t windows) = Inr (units, held)"
  shows run_inside: "inside (length t) (map hull (pack t s c units))" "inside (length t) (pieces (pack t s c units) held)"
    and run_disjoint: "cover (map hull (pack t s c units)) \<inter> cover (pieces (pack t s c units) held) = {}"
    and run_all: "cover windows \<subseteq> cover (map hull (pack t s c units)) \<union> cover (pieces (pack t s c units) held)"
proof -
  note F = units_groups [OF legal ordered units]
  let ?groups = "pack t s c units"
  show hulls: "inside (length t) (map hull ?groups)"
  proof
    fix x assume "x \<in> set (map hull ?groups)"
    then obtain g where g: "g \<in> set ?groups" "x = hull g" by auto
    then show "fst x \<le> snd x \<and> snd x \<le> length t" using F(1) [OF g(1)] legal by fastforce
  qed
  have proper: "proper (map hull ?groups)" using hulls by (simp add: case_prod_unfold)
  note sep = merge_spans_ok(1) [OF proper] and cov = merge_spans_ok(2) [OF proper]
  have held: "hb_start h < hb_end h \<and> hb_end h \<le> length t" if "h \<in> set held" for h
    using F(4) [OF that] legal by fastforce
  have le: "\<forall>h \<in> set held. hb_start h \<le> hb_end h" using held less_imp_le by blast
  note P = pieces_cover [OF sep le, unfolded cov]
  show "inside (length t) (pieces ?groups held)"
  proof
    fix p assume "p \<in> set (pieces ?groups held)"
    then obtain h where h: "h \<in> set held" "p \<in> set (remainder (hb_start h) (hb_end h) (merge_spans (map hull ?groups)))"
      by (auto simp: pieces_def)
    then show "fst p \<le> snd p \<and> snd p \<le> length t"
      using remainder_ok(2) [OF sep _ h(2)] held [OF h(1)] by fastforce
  qed
  show "cover (map hull ?groups) \<inter> cover (pieces ?groups held) = {}" unfolding P by blast
  show "cover windows \<subseteq> cover (map hull ?groups) \<union> cover (pieces ?groups held)"
  proof
    fix x assume "x \<in> cover windows"
    then obtain w where w: "w \<in> set windows" "fst w \<le> x" "x < snd w" by (auto simp: mem_cover)
    then show "x \<in> cover (map hull ?groups) \<union> cover (pieces ?groups held)"
      using F(5) [OF w] F(3) unfolding P by blast
  qed
qed

abbreviation span_ranges :: "bounded_text \<Rightarrow> span list" where
  "span_ranges r \<equiv> map (\<lambda>x. (ts_start x, ts_end x)) (bt_spans r)"

abbreviation excluded_ranges :: "bounded_text \<Rightarrow> span list" where
  "excluded_ranges r \<equiv> map excluded_span (bt_excluded r)"

lemma bound_coverage: "bt_coverage (bound_result t c n groups held) =
    coverage n (span_ranges (bound_result t c n groups held)) (excluded_ranges (bound_result t c n groups held))"
  by (simp add: bound_result_def Let_def)

lemma bound_partition:
  assumes legal: "legal_windows t windows" and ordered: "ordered_windows windows"
    and run: "bound s c t (utf8_byte_offsets t) windows (length (utf8_encode t)) label = Inr r"
  shows "cover (span_ranges r) \<union> cover (excluded_ranges r) = {0..<length (utf8_encode t)}"
    and "cover (span_ranges r) \<inter> cover (excluded_ranges r) = {}"
    and "identity_holds (bt_coverage r)"
proof -
  obtain units held where units: "text_units s c (regions t windows) = Inr (units, held)"
    using bound_units [OF run] by blast
  define groups where "groups = pack t s c units"
  note R = run_covers [OF legal ordered units, folded groups_def]
  have r: "r = bound_result t c (length (utf8_encode t)) groups held" "cv_uncovered_bytes (bt_coverage r) = 0"
    using bound_eq [OF legal ordered units] run by (auto simp: groups_def)
  have S: "span_ranges r = map (byte_span t) (map hull groups)" "excluded_ranges r = map (byte_span t) (pieces groups held)"
    unfolding r(1) by (rule bound_result_spans)+
  have proper: "proper (span_ranges r)" "proper (excluded_ranges r)"
    unfolding S using R(1,2) by (auto simp: byte_span_def intro: offsets_mono)
  have sub: "cover (span_ranges r) \<union> cover (excluded_ranges r) \<subseteq> {0..<length (utf8_encode t)}"
    unfolding S using byte_cover_bounds [OF R(1)] byte_cover_bounds [OF R(2)] by (simp add: offsets_last)
  have cov: "bt_coverage r = coverage (length (utf8_encode t)) (span_ranges r) (excluded_ranges r)"
    unfolding r(1) by (rule bound_coverage)
  show all: "cover (span_ranges r) \<union> cover (excluded_ranges r) = {0..<length (utf8_encode t)}"
    using uncovered_zero [OF proper sub] r(2) cov by simp
  show "cover (span_ranges r) \<inter> cover (excluded_ranges r) = {}"
    unfolding S by (rule byte_cover_disjoint [OF R(1,2,3)])
  show "identity_holds (bt_coverage r)" using coverage_identity [OF proper sub] all cov by simp
qed

section \<open>Segments are exact, within the budget, and never headings\<close>

text \<open>A segment: a range of characters of one window, its bytes, its measured tokens.\<close>

definition exact_segment :: "utext \<Rightarrow> counter \<Rightarrow> int \<Rightarrow> text_span \<Rightarrow> nat \<Rightarrow> nat \<Rightarrow> bool" where
  "exact_segment t c m x a b \<longleftrightarrow> a < b \<and> b \<le> length t \<and>
     ts_start x = utf8_byte_offsets t ! a \<and> ts_end x = utf8_byte_offsets t ! b \<and>
     slice_of (utf8_encode t) (ts_start x) (ts_end x) = utf8_encode (slice_of t a b) \<and>
     ts_token_count x = ct_count c (slice_of t a b) \<and> ts_token_count x \<le> m"

lemma bound_segments:
  assumes legal: "legal_windows t windows" and ordered: "ordered_windows windows"
    and run: "bound s c t (utf8_byte_offsets t) windows n label = Inr r" and x: "x \<in> set (bt_spans r)"
  shows "\<exists>a b. exact_segment t c (bs_max_tokens s) x a b \<and> (\<exists>w \<in> set windows. fst w \<le> a \<and> b \<le> snd w)"
    and "h \<in> set (bt_headings r) \<Longrightarrow> hr_end h \<le> ts_start x \<or> ts_end x \<le> hr_start h"
proof -
  obtain units held where units: "text_units s c (regions t windows) = Inr (units, held)"
    using bound_units [OF run] by blast
  note F = units_groups [OF legal ordered units]
  have r: "r = bound_result t c n (pack t s c units) held"
    and fit: "\<forall>g \<in> set (pack t s c units). fits c t (bs_max_tokens s) (fst (hull g)) (snd (hull g))"
    using bound_eq [OF legal ordered units] run by auto
  obtain g where g: "g \<in> set (pack t s c units)" "x = group_text_span t c g"
    using x by (auto simp: r bound_result_def Let_def)
  obtain w where w: "w \<in> set windows" "fst w \<le> fst (hull g)" "snd (hull g) \<le> snd w" "fst (hull g) < snd (hull g)"
    using F(1) [OF g(1)] by blast
  then have top: "snd (hull g) \<le> length t" using legal by fastforce
  have "exact_segment t c (bs_max_tokens s) x (fst (hull g)) (snd (hull g))"
    using w(4) top fit g(1) encode_slice [of "fst (hull g)" "snd (hull g)" t]
    by (simp add: exact_segment_def g(2) group_text_span_def byte_span_def)
  then show "\<exists>a b. exact_segment t c (bs_max_tokens s) x a b \<and> (\<exists>w \<in> set windows. fst w \<le> a \<and> b \<le> snd w)"
    using w by blast
  assume "h \<in> set (bt_headings r)"
  then obtain k where k: "k \<in> set held" "h \<in> set (heading_span t k)" by (auto simp: r bound_result_def Let_def)
  then have h: "hb_heading k \<noteq> None" "hr_start h = utf8_byte_offsets t ! hb_start k"
      "hr_end h = utf8_byte_offsets t ! hb_end k"
    by (cases "hb_heading k"; auto simp: heading_span_def byte_span_def)+
  have "hb_start k \<le> length t" "hb_end k \<le> length t" using F(4) [OF k(1)] legal by fastforce+
  moreover have "hb_end k \<le> fst (hull g) \<or> snd (hull g) \<le> hb_start k" by (rule F(2) [OF g(1) k(1) h(1)])
  ultimately show "hr_end h \<le> ts_start x \<or> ts_end x \<le> hr_start h"
    using h w(4) top offsets_mono [of "hb_end k" "fst (hull g)" t] offsets_mono [of "snd (hull g)" "hb_start k" t]
    by (auto simp: g(2) group_text_span_def byte_span_def)
qed

section \<open>When it never refuses\<close>

definition subadditive_counter :: "counter \<Rightarrow> bool" where
  "subadditive_counter c \<longleftrightarrow> (\<forall>s t. ct_count c (s @ t) \<le> ct_count c s + ct_count c t)"

lemma settings_ok:
  assumes "settings_check s = Inr ()"
  shows "0 < bs_min_tokens s" "bs_min_tokens s \<le> bs_max_tokens s" "0 \<le> bs_overlap_tokens s"
    "0 < leaf_budget s" "leaf_budget s \<le> bs_max_tokens s"
  using assms by (auto simp: settings_check_def thenE_Inr_iff refuse_Inr_iff leaf_budget_def)

lemma units_total:
  assumes "monotone_counter c" "settings_check s = Inr ()" "\<forall>i < length t. fits c t (leaf_budget s) i (Suc i)"
    "\<forall>r \<in> set rs. region_ok t (rg_window r) r"
  shows "\<exists>st'. foldE (units_step s c) st rs = Inr st'"
  using assms(4)
proof (induction rs arbitrary: st)
  case (Cons r rs)
  have r: "region_ok t (rg_window r) r" using Cons.prems by simp
  have "\<exists>st1. units_step s c st r = Inr st1"
  proof (cases "rg_kind r")
    case Heading
    then obtain m where "heading_match (rg_text r) = Some m" using r by (auto simp: region_ok_def)
    then show ?thesis using Heading by (cases m) (simp add: units_step_def push_heading_def Let_def)
  next
    case EmptyRegion
    then show ?thesis by (simp add: units_step_def evidence_eligible_def)
  next
    case Paragraph
    have b: "rg_start r < rg_end r" "rg_end r \<le> length t" "rg_text r = slice_of t (rg_start r) (rg_end r)"
      using r by (simp_all add: region_ok_def)
    have "fits c (rg_text r) (leaf_budget s) i (Suc i)" if "i < length (rg_text r)" for i
    proof -
      have "i < rg_end r - rg_start r" using that b by (simp add: slice_of_length)
      then have "slice_of (rg_text r) i (Suc i) = slice_of t (rg_start r + i) (Suc (rg_start r + i))"
        unfolding b(3) using b slice_of_slice [of "rg_start r" "rg_end r" t i "Suc i"] by simp
      then show ?thesis using assms(3) b \<open>i < rg_end r - rg_start r\<close> by simp
    qed
    then have "\<exists>spans. leaf_spans c (rg_text r) (leaf_budget s) (min (bs_min_tokens s) (leaf_budget s)) = Inr spans"
      using settings_ok [OF assms(2)] by (intro leaf_spans_exists [OF assms(1)]) auto
    then show ?thesis using Paragraph by (auto simp: units_step_def evidence_eligible_def Let_def)
  qed
  then obtain st1 where "units_step s c st r = Inr st1" by blast
  then show ?case using Cons.IH [of st1] Cons.prems by simp
qed simp

text \<open>An overlap and a leaf that fit their budgets fit the whole together.\<close>

lemma unit_fits:
  assumes "subadditive_counter c" "settings_check s = Inr ()" "unit_of_region t s c r u"
  shows "fits c t (bs_max_tokens s) (un_start u) (un_end u)"
proof (cases "un_split u")
  case True
  then obtain l where l: "un_start u \<le> l" "l \<le> un_end u"
    "un_start u = l \<or> fits c t (bs_overlap_tokens s) (un_start u) l" "fits c t (leaf_budget s) l (un_end u)"
    using assms(3) by (auto simp: unit_of_region_def)
  have "ct_count c (slice_of t (un_start u) (un_end u)) \<le>
      ct_count c (slice_of t (un_start u) l) + ct_count c (slice_of t l (un_end u))"
    using assms(1) slice_of_append [OF l(1,2), of t] unfolding subadditive_counter_def by metis
  then show ?thesis using l settings_ok [OF assms(2)] by (auto simp: leaf_budget_def)
next
  case False
  then show ?thesis using assms(3) unfolding unit_of_region_def by auto
qed

lemma bound_total:
  assumes counter: "monotone_counter c" "subadditive_counter c"
    and settings: "settings_check s = Inr ()" "require_matching_counter s c = Inr ()"
    and chars: "\<forall>i < length t. fits c t (leaf_budget s) i (Suc i)"
    and legal: "legal_windows t windows" and ordered: "ordered_windows windows"
    and all: "cover windows = {0..<length t}"
  shows "\<exists>r. bound s c t (utf8_byte_offsets t) windows (length (utf8_encode t)) label = Inr r"
proof -
  obtain st where "foldE (units_step s c) units_start (regions t windows) = Inr st"
    using units_total [OF counter(1) settings(1) chars] regions_ok(1) [OF legal] by blast
  then obtain units held where units: "text_units s c (regions t windows) = Inr (units, held)"
    by (simp add: text_units_def)
  let ?groups = "pack t s c units" and ?n = "length (utf8_encode t)"
  note F = units_groups [OF legal ordered units] and R = run_covers [OF legal ordered units]
  have fit: "fits c t (bs_max_tokens s) (fst (hull g)) (snd (hull g))" if g: "g \<in> set ?groups" for g
  proof -
    have ok: "group_ok t s c g" using pack_ok(2) g by blast
    show ?thesis
    proof (cases "\<exists>u. g = [u]")
      case True
      then obtain u where u: "g = [u]" by blast
      then have "u \<in> set units" using g pack_ok(1) [of t s c units] by (metis UN_iff list.set_intros(1) set_concat)
      then show ?thesis using F(6) unit_fits [OF counter(2) settings(1)] u by (fastforce simp: hull_def)
    next
      case False
      then show ?thesis using ok by (auto simp: group_ok_def)
    qed
  qed
  let ?r = "bound_result t c ?n ?groups held"
  have S: "span_ranges ?r = map (byte_span t) (map hull ?groups)" "excluded_ranges ?r = map (byte_span t) (pieces ?groups held)"
    by (rule bound_result_spans)+
  have "cover (map hull ?groups @ pieces ?groups held) = {0..<length t}"
  proof
    show "cover (map hull ?groups @ pieces ?groups held) \<subseteq> {0..<length t}"
      using R(1,2) by (fastforce simp: mem_cover)
    show "{0..<length t} \<subseteq> cover (map hull ?groups @ pieces ?groups held)" using R(4) all by simp
  qed
  then have bytes: "cover (span_ranges ?r) \<union> cover (excluded_ranges ?r) = {0..<?n}"
    using byte_cover_all [of "map hull ?groups @ pieces ?groups held" t] R(1,2)
    by (simp only: S offsets_last map_append cover_simps set_append ball_Un)
  have proper: "proper (span_ranges ?r)" "proper (excluded_ranges ?r)"
    unfolding S using R(1,2) by (auto simp: byte_span_def intro: offsets_mono)
  have "cv_uncovered_bytes (bt_coverage ?r) = 0"
    using uncovered_zero [OF proper] bytes by (simp add: bound_coverage)
  then show ?thesis using bound_eq [OF legal ordered units, of "?n" label ?r] fit settings(2) by blast
qed

section \<open>Segmenting a text\<close>

lemma segment_text_run:
  assumes "segment_text s c content label = Inr r"
  shows "\<exists>t. scalar_text t \<and> content = utf8_encode t \<and>
    bound s c t (utf8_byte_offsets t) [(0, length t)] (length (utf8_encode t)) label = Inr r"
proof -
  obtain t where "utf8_decode content = Some t"
    "bound s c t (utf8_byte_offsets t) [(0, length t)] (length content) label = Inr r"
    using assms by (auto simp: segment_text_def decode_utf8_def bindE_Inr_iff split: option.splits)
  then show ?thesis using utf8_encode_decode by blast
qed

lemma segment_text_total_run:
  assumes "monotone_counter c" "subadditive_counter c" "settings_check s = Inr ()"
    "require_matching_counter s c = Inr ()" "scalar_text t"
    "\<forall>i < length t. fits c t (leaf_budget s) i (Suc i)"
  shows "\<exists>r. segment_text s c (utf8_encode t) label = Inr r"
  using bound_total [OF assms(1-4,6), where windows = "[(0, length t)]" and label = label] utf8_decode_encode [OF assms(5)]
  by (simp add: segment_text_def decode_utf8_def)

text \<open>
  Every byte is accounted for, once: whenever \<open>segment_text\<close> returns, for whatever token
  counter, the segments and the excluded ranges together cover exactly the bytes of the content,
  no byte of a segment is in an excluded range, and the reported coverage satisfies its identity.
\<close>

theorem segment_text_partition:
  assumes "segment_text s c content label = Inr r"
  shows "cover (span_ranges r) \<union> cover (excluded_ranges r) = {0..<length content} \<and>
    cover (span_ranges r) \<inter> cover (excluded_ranges r) = {} \<and> identity_holds (bt_coverage r)"
proof -
  obtain t where t: "content = utf8_encode t"
    "bound s c t (utf8_byte_offsets t) [(0, length t)] (length (utf8_encode t)) label = Inr r"
    using segment_text_run [OF assms] by blast
  have "legal_windows t [(0, length t)]" "ordered_windows [(0, length t)]" by simp_all
  from bound_partition [OF this t(2)] show ?thesis unfolding t(1) by simp
qed

definition sample_settings :: bounded_settings where
  "sample_settings = \<lparr>bs_policy = ''p'', bs_policy_version = ''1'', bs_max_tokens = 3, bs_min_tokens = 1,
     bs_overlap_tokens = 1, bs_tokenizer = ''length'', bs_tokenizer_version = ''1'', bs_boundary_method = ''b''\<rparr>"

lemma sample_settings_ok: "settings_check sample_settings = Inr ()"
  "require_matching_counter sample_settings length_counter = Inr ()"
  by (simp_all add: settings_check_def sample_settings_def require_text_def strip_def char_isspace_def
      require_matching_counter_def length_counter_def)

lemma length_counter_subadditive: "subadditive_counter length_counter"
  by (simp add: subadditive_counter_def)

lemma sample_run: "\<exists>r. segment_text sample_settings length_counter (utf8_encode sample_text) ''x'' = Inr r"
  by (rule segment_text_total_run [OF length_counter_monotone length_counter_subadditive sample_settings_ok])
    (auto simp: sample_text_def scalar_text_def is_scalar_def leaf_budget_def sample_settings_def slice_of_def)

lemma sample_bytes: "length (utf8_encode sample_text) = 7"
  by (simp add: utf8_encode_def utf8_char_def sample_text_def)

theorem segment_text_partition_witness:
  "\<exists>r. segment_text sample_settings length_counter (utf8_encode sample_text) ''x'' = Inr r \<and>
     cover (span_ranges r) \<union> cover (excluded_ranges r) = {0..<7}"
  using sample_run segment_text_partition sample_bytes by metis

text \<open>
  Every segment of \<open>segment_text\<close> is a nonempty range of whole characters whose bytes are the
  content's own, with the token count of exactly that text, within the hard budget; and no segment
  overlaps a heading.
\<close>

theorem segment_text_exact:
  assumes "segment_text s c content label = Inr r"
  shows "\<exists>t. content = utf8_encode t \<and>
    (\<forall>x \<in> set (bt_spans r). \<exists>a b. exact_segment t c (bs_max_tokens s) x a b) \<and>
    (\<forall>x \<in> set (bt_spans r). \<forall>h \<in> set (bt_headings r). hr_end h \<le> ts_start x \<or> ts_end x \<le> hr_start h)"
proof -
  obtain t where t: "content = utf8_encode t"
    "bound s c t (utf8_byte_offsets t) [(0, length t)] (length (utf8_encode t)) label = Inr r"
    using segment_text_run [OF assms] by blast
  have "legal_windows t [(0, length t)]" "ordered_windows [(0, length t)]" by simp_all
  note B = bound_segments [OF this t(2)]
  show ?thesis using t(1) B by blast
qed

theorem segment_text_exact_witness:
  "\<exists>r t. segment_text sample_settings length_counter (utf8_encode sample_text) ''x'' = Inr r \<and>
     (\<forall>x \<in> set (bt_spans r). \<exists>a b. exact_segment t length_counter 3 x a b)"
proof -
  obtain r where r: "segment_text sample_settings length_counter (utf8_encode sample_text) ''x'' = Inr r"
    using sample_run by blast
  show ?thesis using segment_text_exact [OF r] r by (auto simp: sample_settings_def)
qed

text \<open>
  For legal settings and a matching counter that is monotone and subadditive, with every single
  character within the leaf budget, \<open>segment_text\<close> returns for every valid UTF-8 content: no
  segment is over the budget and no byte is left uncovered, so neither refusal is ever taken.
\<close>

theorem segment_text_total:
  assumes "monotone_counter c" "subadditive_counter c" "settings_check s = Inr ()"
    "require_matching_counter s c = Inr ()" "scalar_text t"
    "\<forall>i < length t. ct_count c (slice_of t i (Suc i)) \<le> leaf_budget s"
  shows "\<exists>r. segment_text s c (utf8_encode t) label = Inr r"
  using segment_text_total_run assms by blast

theorem segment_text_total_witness:
  "\<exists>r. segment_text sample_settings length_counter (utf8_encode sample_text) ''y'' = Inr r"
  by (rule segment_text_total [OF length_counter_monotone length_counter_subadditive sample_settings_ok])
    (auto simp: sample_text_def scalar_text_def is_scalar_def leaf_budget_def sample_settings_def slice_of_def)

end
