(* ===== verification/Content.thy ===== *)
theory Content
  imports Wire_Records
begin

text \<open>
  The content records of src/src/docspec/domain/content.py: candidate files, source items,
  captured files, evidence coordinates and mappings, representations, segments and derived
  records, each with its checks in source order, its content URN, \<open>to_dict\<close> and \<open>from_dict\<close>.
  The first argument of a definition is the platform where an identity is computed, and
  \<open>trusted\<close>, the state of \<open>trusted_json_input\<close>, where a JSON value is stored.
\<close>

section \<open>Enumerations\<close>

datatype source_item_state = ActiveItem | DeletedItem | ExcludedItem

definition source_item_state_text :: "source_item_state \<Rightarrow> string" where
  "source_item_state_text s = (case s of ActiveItem \<Rightarrow> ''active'' | DeletedItem \<Rightarrow> ''deleted''
     | ExcludedItem \<Rightarrow> ''excluded'')"

datatype acquisition_disposition =
  Captured | Unchanged | AcquisitionDeleted | AcquisitionExcluded | AcquisitionAcceptedFailure | AcquisitionRejectedRun

definition acquisition_text :: "acquisition_disposition \<Rightarrow> string" where
  "acquisition_text d = (case d of Captured \<Rightarrow> ''captured'' | Unchanged \<Rightarrow> ''unchanged''
     | AcquisitionDeleted \<Rightarrow> ''deleted'' | AcquisitionExcluded \<Rightarrow> ''excluded''
     | AcquisitionAcceptedFailure \<Rightarrow> ''accepted-failure'' | AcquisitionRejectedRun \<Rightarrow> ''rejected-run'')"

datatype processor_disposition =
  Produced | Abstained | ProcessorExcluded | ProcessorAcceptedFailure | ProcessorRejectedRun

definition processor_text :: "processor_disposition \<Rightarrow> string" where
  "processor_text d = (case d of Produced \<Rightarrow> ''produced'' | Abstained \<Rightarrow> ''abstained''
     | ProcessorExcluded \<Rightarrow> ''excluded'' | ProcessorAcceptedFailure \<Rightarrow> ''accepted-failure''
     | ProcessorRejectedRun \<Rightarrow> ''rejected-run'')"

text \<open>\<open>StrEnum(value)\<close>: the member of that value.\<close>

definition enum_of :: "('a \<Rightarrow> string) \<Rightarrow> 'a list \<Rightarrow> string \<Rightarrow> 'a result" where
  "enum_of text_of members value =
     (case find (\<lambda>m. text_of m = value) members of
        Some m \<Rightarrow> Inr m | None \<Rightarrow> Inl (ValueError (value @ '' is not a valid member'')))"

definition source_item_state_of :: "string \<Rightarrow> source_item_state result" where
  "source_item_state_of = enum_of source_item_state_text [ActiveItem, DeletedItem, ExcludedItem]"

definition acquisition_of :: "string \<Rightarrow> acquisition_disposition result" where
  "acquisition_of = enum_of acquisition_text [Captured, Unchanged, AcquisitionDeleted, AcquisitionExcluded,
     AcquisitionAcceptedFailure, AcquisitionRejectedRun]"

definition processor_of :: "string \<Rightarrow> processor_disposition result" where
  "processor_of = enum_of processor_text [Produced, Abstained, ProcessorExcluded, ProcessorAcceptedFailure,
     ProcessorRejectedRun]"

lemma enum_round_trip [wire_simps]:
  "source_item_state_of (source_item_state_text s) = Inr s"
  "acquisition_of (acquisition_text a) = Inr a"
  "processor_of (processor_text p) = Inr p"
proof -
  show "source_item_state_of (source_item_state_text s) = Inr s"
    by (cases s) (simp_all add: source_item_state_of_def source_item_state_text_def enum_of_def)
  show "acquisition_of (acquisition_text a) = Inr a"
    by (cases a) (simp_all add: acquisition_of_def acquisition_text_def enum_of_def)
  show "processor_of (processor_text p) = Inr p"
    by (cases p) (simp_all add: processor_of_def processor_text_def enum_of_def)
qed

section \<open>Candidate files\<close>

record candidate_file =
  cf_candidate_id :: string
  cf_locator :: string
  cf_media_type :: string
  cf_expected_digest :: "string option"
  cf_expected_size :: "int option"
  cf_transport_version :: "string option"
  cf_metadata :: json

text \<open>An absent metadata (\<open>None\<close>) is \<open>JNull\<close> before construction and the empty object after.\<close>

definition metadata_or_empty :: "json \<Rightarrow> json" where
  "metadata_or_empty m = (if m = JNull then JObj [] else m)"

definition candidate_file_make :: "bool \<Rightarrow> candidate_file \<Rightarrow> candidate_file result" where
  "candidate_file_make trusted c =
     thenE (check_texts [(''candidate_id'', cf_candidate_id c), (''candidate locator'', cf_locator c),
       (''candidate media_type'', cf_media_type c)])
    (thenE (when_given (\<lambda>d. check_digest d ''candidate expected_digest'') (cf_expected_digest c))
    (thenE (when_given (\<lambda>n. refuse (n < 0) (ValueError ''candidate expected_size must be non-negative''))
              (cf_expected_size c))
    (thenE (when_given (\<lambda>v. check_texts [(''candidate transport_version'', v)]) (cf_transport_version c))
    (bindE (stored trusted ''candidate metadata'' (metadata_or_empty (cf_metadata c))) (\<lambda>m.
       Inr (c\<lparr>cf_metadata := m\<rparr>))))))"

definition candidate_file_json :: "candidate_file \<Rightarrow> json" where
  "candidate_file_json c = JObj [(''candidateId'', JStr (cf_candidate_id c)), (''locator'', JStr (cf_locator c)),
     (''mediaType'', JStr (cf_media_type c)), (''expectedDigest'', opt_text (cf_expected_digest c)),
     (''expectedSize'', opt_int (cf_expected_size c)), (''transportVersion'', opt_text (cf_transport_version c)),
     (''metadata'', cf_metadata c)]"

definition candidate_file_from :: "bool \<Rightarrow> json \<Rightarrow> candidate_file result" where
  "candidate_file_from trusted value =
     bindE (closed_shape value [''candidateId'', ''locator'', ''mediaType'', ''expectedDigest'', ''expectedSize'',
       ''transportVersion'', ''metadata''] ''candidate file'') (\<lambda>kvs.
     bindE (get_text kvs ''candidateId'') (\<lambda>candidate_id. bindE (get_text kvs ''locator'') (\<lambda>locator.
     bindE (get_text kvs ''mediaType'') (\<lambda>media_type.
     bindE (get_opt_text kvs ''expectedDigest'') (\<lambda>expected_digest.
     bindE (get_opt_int kvs ''expectedSize'') (\<lambda>expected_size.
     bindE (get_opt_text kvs ''transportVersion'') (\<lambda>transport_version.
       candidate_file_make trusted \<lparr>cf_candidate_id = candidate_id, cf_locator = locator,
         cf_media_type = media_type, cf_expected_digest = expected_digest, cf_expected_size = expected_size,
         cf_transport_version = transport_version, cf_metadata = dict_get kvs ''metadata''\<rparr>)))))))"

definition candidate_file_ok :: "bool \<Rightarrow> candidate_file \<Rightarrow> bool" where
  "candidate_file_ok trusted c \<longleftrightarrow> candidate_file_make trusted c = Inr c"

lemma key_sorted_null: "key_sorted j = JNull \<longleftrightarrow> j = JNull"
  by (cases j) simp_all

lemma stored_stable:
  assumes "stored trusted l (metadata_or_empty m) = Inr m'"
  shows "stored trusted l (metadata_or_empty m') = Inr m'"
proof -
  have m': "m' = (if trusted then metadata_or_empty m else key_sorted (metadata_or_empty m))"
    using assms unfolding stored_eq sum.inject by (rule sym)
  have "metadata_or_empty m \<noteq> JNull" by (simp add: metadata_or_empty_def)
  then have "m' \<noteq> JNull" unfolding m' by (simp only: key_sorted_null split: if_split) blast
  then have "metadata_or_empty m' = m'" by (simp only: metadata_or_empty_def if_False)
  moreover have "(if trusted then m' else key_sorted m') = m'" unfolding m' by simp
  ultimately show ?thesis by (simp only: stored_eq)
qed

lemma candidate_file_make_ok: "candidate_file_make trusted c = Inr c' \<Longrightarrow> candidate_file_ok trusted c'"
proof -
  assume c': "candidate_file_make trusted c = Inr c'"
  define m where "m = (if trusted then metadata_or_empty (cf_metadata c) else key_sorted (metadata_or_empty (cf_metadata c)))"
  have m: "stored trusted ''candidate metadata'' (metadata_or_empty (cf_metadata c)) = Inr m" by (simp add: m_def)
  then have "c' = c\<lparr>cf_metadata := m\<rparr>"
    using c' by (simp add: candidate_file_make_def thenE_Inr_iff del: stored_eq)
  then show ?thesis using c' stored_stable [OF m] m
    by (simp add: candidate_file_ok_def candidate_file_make_def thenE_Inr_iff del: stored_eq)
qed

lemma candidate_file_read: "candidate_file_from trusted (candidate_file_json c) = candidate_file_make trusted c"
  by (cases c) (simp add: candidate_file_from_def candidate_file_json_def wire_simps)

lemma candidate_file_from_ok: "candidate_file_from trusted v = Inr r \<Longrightarrow> candidate_file_ok trusted r"
  by (auto simp: candidate_file_from_def bindE_Inr_iff intro: candidate_file_make_ok)

interpretation candidate: wire "candidate_file_ok trusted" candidate_file_json "candidate_file_from trusted"
  for trusted
  by (rule wireI [where construct = "candidate_file_make trusted"])
    (simp_all add: candidate_file_ok_def candidate_file_read candidate_file_from_ok [unfolded candidate_file_ok_def])

section \<open>Source items\<close>

record source_item =
  si_item_id :: string
  si_version :: string
  si_candidates :: "candidate_file list"
  si_state :: source_item_state
  si_metadata :: json

definition source_item_make :: "bool \<Rightarrow> source_item \<Rightarrow> source_item result" where
  "source_item_make trusted r =
     thenE (check_texts [(''source item_id'', si_item_id r), (''source item version'', si_version r)])
    (thenE (refuse (si_state r = ActiveItem \<and> si_candidates r = [])
              (ValueError ''an active source item must contain at least one candidate''))
    (thenE (refuse (\<not> distinct (map cf_candidate_id (si_candidates r)))
              (ValueError ''source item candidate identities must be distinct''))
    (bindE (stored trusted ''source item metadata'' (metadata_or_empty (si_metadata r))) (\<lambda>m.
       Inr (r\<lparr>si_metadata := m\<rparr>)))))"

definition source_item_identity :: "platform \<Rightarrow> source_item \<Rightarrow> string result" where
  "source_item_identity P r = stable_urn P ''source-item-version''
     (JObj [(''itemId'', JStr (si_item_id r)), (''version'', JStr (si_version r))])"

definition same_acquisition_inputs :: "platform \<Rightarrow> source_item \<Rightarrow> source_item \<Rightarrow> bool result" where
  "same_acquisition_inputs P r q =
     (if (si_item_id r, si_version r, si_state r) \<noteq> (si_item_id q, si_version q, si_state q) then Inr False
      else bindE (canonical_json_bytes P (python_of (JArr (map candidate_file_json (si_candidates r))))) (\<lambda>a.
           bindE (canonical_json_bytes P (python_of (JArr (map candidate_file_json (si_candidates q))))) (\<lambda>b.
             Inr (a = b))))"

definition source_item_json :: "source_item \<Rightarrow> json" where
  "source_item_json r = JObj [(''itemId'', JStr (si_item_id r)), (''version'', JStr (si_version r)),
     (''state'', JStr (source_item_state_text (si_state r))),
     (''candidates'', JArr (map candidate_file_json (si_candidates r))), (''metadata'', si_metadata r)]"

definition source_item_from :: "bool \<Rightarrow> json \<Rightarrow> source_item result" where
  "source_item_from trusted value =
     bindE (closed_shape value [''itemId'', ''version'', ''state'', ''candidates'', ''metadata''] ''source item'') (\<lambda>kvs.
     bindE (get_text kvs ''itemId'') (\<lambda>item_id. bindE (get_text kvs ''version'') (\<lambda>version.
     bindE (bindE (get_text kvs ''state'') source_item_state_of) (\<lambda>state.
     bindE (bindE (get_list kvs ''candidates'') (mapE (candidate_file_from trusted))) (\<lambda>candidates.
       source_item_make trusted \<lparr>si_item_id = item_id, si_version = version, si_candidates = candidates,
         si_state = state, si_metadata = dict_get kvs ''metadata''\<rparr>)))))"

definition source_item_ok :: "bool \<Rightarrow> source_item \<Rightarrow> bool" where
  "source_item_ok trusted r \<longleftrightarrow> source_item_make trusted r = Inr r \<and>
     (\<forall>c \<in> set (si_candidates r). candidate_file_ok trusted c)"

lemma source_item_make_ok:
  "source_item_make trusted r = Inr r' \<Longrightarrow> \<forall>c \<in> set (si_candidates r). candidate_file_ok trusted c \<Longrightarrow>
     source_item_ok trusted r'"
proof -
  assume r': "source_item_make trusted r = Inr r'" and ok: "\<forall>c \<in> set (si_candidates r). candidate_file_ok trusted c"
  define m where "m = (if trusted then metadata_or_empty (si_metadata r) else key_sorted (metadata_or_empty (si_metadata r)))"
  have m: "stored trusted ''source item metadata'' (metadata_or_empty (si_metadata r)) = Inr m" by (simp add: m_def)
  then have "r' = r\<lparr>si_metadata := m\<rparr>"
    using r' by (simp add: source_item_make_def thenE_Inr_iff del: stored_eq)
  then show ?thesis using r' ok stored_stable [OF m] m
    by (simp add: source_item_ok_def source_item_make_def thenE_Inr_iff del: stored_eq)
qed

lemma source_item_read:
  "\<forall>c \<in> set (si_candidates r). candidate_file_ok trusted c \<Longrightarrow>
     source_item_from trusted (source_item_json r) = source_item_make trusted r"
  by (cases r) (simp add: source_item_from_def source_item_json_def wire_simps candidate.from_to_list)

lemma source_item_from_ok: "source_item_from trusted v = Inr r \<Longrightarrow> source_item_ok trusted r"
  by (auto simp: source_item_from_def bindE_Inr_iff intro!: source_item_make_ok candidate.from_list_ok)

interpretation item: wire "source_item_ok trusted" source_item_json "source_item_from trusted" for trusted
  by (rule wireI [where construct = "source_item_make trusted"])
    (auto simp: source_item_ok_def source_item_read dest: source_item_from_ok [unfolded source_item_ok_def])

end
