(* ===== verification/Captured_Files.thy ===== *)
theory Captured_Files
  imports Content
begin

text \<open>
  Captured files, evidence coordinates and evidence mappings of src/src/docspec/domain/content.py.
  The lemmas show that the written records are read back, and that resolving a range through a
  mapping is translation along it.
\<close>

section \<open>Captured files\<close>

record captured_file =
  cap_file_id :: string
  cap_source_item_id :: string
  cap_source_version :: string
  cap_candidate_id :: string
  cap_blob :: blob_ref
  cap_media_type :: string
  cap_acquired_at :: string
  cap_downloader_id :: string
  cap_transport_version :: "string option"
  cap_disposition :: acquisition_disposition
  cap_acquisition_started_at :: "string option"
  cap_downloader_configuration_digest :: "string option"
  cap_task_id :: "string option"
  cap_attempt_id :: "string option"

definition captured_file_identity :: "captured_file \<Rightarrow> json" where
  "captured_file_identity f = JObj [(''sourceItemId'', JStr (cap_source_item_id f)),
     (''sourceVersion'', JStr (cap_source_version f)), (''candidateId'', JStr (cap_candidate_id f)),
     (''blobDigest'', JStr (br_digest (cap_blob f))), (''mediaType'', JStr (cap_media_type f)),
     (''transportVersion'', opt_text (cap_transport_version f))]"

definition captured_file_make :: "platform \<Rightarrow> captured_file \<Rightarrow> captured_file result" where
  "captured_file_make P f =
     thenE (check_texts [(''file_id'', cap_file_id f), (''source_item_id'', cap_source_item_id f),
       (''source_version'', cap_source_version f), (''candidate_id'', cap_candidate_id f),
       (''media_type'', cap_media_type f), (''acquired_at'', cap_acquired_at f),
       (''downloader_id'', cap_downloader_id f)])
    (thenE (when_given (\<lambda>v. check_texts [(''acquisition_started_at'', v)]) (cap_acquisition_started_at f))
    (thenE (when_given (\<lambda>v. check_texts [(''task_id'', v)]) (cap_task_id f))
    (thenE (when_given (\<lambda>v. check_texts [(''attempt_id'', v)]) (cap_attempt_id f))
    (thenE (when_given (\<lambda>d. check_digest d ''downloader configuration digest'')
              (cap_downloader_configuration_digest f))
    (bindE (stable_urn P ''captured-file'' (captured_file_identity f)) (\<lambda>expected.
     thenE (refuse (cap_file_id f \<noteq> expected) (ValueError ''captured file identity differs'')) (Inr f)))))))"

text \<open>\<open>create\<close>: the record given, but under its own identity and captured.\<close>

definition captured_file_create :: "platform \<Rightarrow> captured_file \<Rightarrow> captured_file result" where
  "captured_file_create P f =
     bindE (stable_urn P ''captured-file'' (captured_file_identity f)) (\<lambda>file_id.
       captured_file_make P (f\<lparr>cap_file_id := file_id, cap_disposition := Captured\<rparr>))"

definition captured_file_json :: "captured_file \<Rightarrow> json" where
  "captured_file_json f = JObj [(''fileId'', JStr (cap_file_id f)),
     (''sourceItemId'', JStr (cap_source_item_id f)), (''sourceVersion'', JStr (cap_source_version f)),
     (''candidateId'', JStr (cap_candidate_id f)), (''blob'', blob_ref_json (cap_blob f)),
     (''mediaType'', JStr (cap_media_type f)), (''acquiredAt'', JStr (cap_acquired_at f)),
     (''downloaderId'', JStr (cap_downloader_id f)), (''transportVersion'', opt_text (cap_transport_version f)),
     (''disposition'', JStr (acquisition_text (cap_disposition f))),
     (''acquisitionStartedAt'', opt_text (cap_acquisition_started_at f)),
     (''downloaderConfigurationDigest'', opt_text (cap_downloader_configuration_digest f)),
     (''taskId'', opt_text (cap_task_id f)), (''attemptId'', opt_text (cap_attempt_id f))]"

definition captured_file_keys :: "string list" where
  "captured_file_keys = [''fileId'', ''sourceItemId'', ''sourceVersion'', ''candidateId'', ''blob'',
     ''mediaType'', ''acquiredAt'', ''downloaderId'', ''transportVersion'', ''disposition'',
     ''acquisitionStartedAt'', ''downloaderConfigurationDigest'', ''taskId'', ''attemptId'']"

definition captured_file_from :: "platform \<Rightarrow> json \<Rightarrow> captured_file result" where
  "captured_file_from P value =
     bindE (closed_shape value captured_file_keys ''captured file'') (\<lambda>kvs.
     bindE (get_text kvs ''fileId'') (\<lambda>file_id. bindE (get_text kvs ''sourceItemId'') (\<lambda>source_item_id.
     bindE (get_text kvs ''sourceVersion'') (\<lambda>source_version. bindE (get_text kvs ''candidateId'') (\<lambda>candidate_id.
     bindE (blob_ref_from (dict_get kvs ''blob'')) (\<lambda>blob. bindE (get_text kvs ''mediaType'') (\<lambda>media_type.
     bindE (get_text kvs ''acquiredAt'') (\<lambda>acquired_at. bindE (get_text kvs ''downloaderId'') (\<lambda>downloader_id.
     bindE (get_opt_text kvs ''transportVersion'') (\<lambda>transport_version.
     bindE (bindE (get_text kvs ''disposition'') acquisition_of) (\<lambda>disposition.
     bindE (get_opt_text kvs ''acquisitionStartedAt'') (\<lambda>started_at.
     bindE (get_opt_text kvs ''downloaderConfigurationDigest'') (\<lambda>configuration_digest.
     bindE (get_opt_text kvs ''taskId'') (\<lambda>task_id. bindE (get_opt_text kvs ''attemptId'') (\<lambda>attempt_id.
       captured_file_make P \<lparr>cap_file_id = file_id, cap_source_item_id = source_item_id,
         cap_source_version = source_version, cap_candidate_id = candidate_id, cap_blob = blob,
         cap_media_type = media_type, cap_acquired_at = acquired_at, cap_downloader_id = downloader_id,
         cap_transport_version = transport_version, cap_disposition = disposition,
         cap_acquisition_started_at = started_at, cap_downloader_configuration_digest = configuration_digest,
         cap_task_id = task_id, cap_attempt_id = attempt_id\<rparr>)))))))))))))))"

definition captured_file_ok :: "platform \<Rightarrow> captured_file \<Rightarrow> bool" where
  "captured_file_ok P f \<longleftrightarrow> captured_file_make P f = Inr f \<and> blob_ref_ok (cap_blob f)"

lemma captured_file_make_same: "captured_file_make P f = Inr f' \<Longrightarrow> f' = f"
  by (auto simp: captured_file_make_def thenE_Inr_iff bindE_Inr_iff)

lemma captured_file_read:
  "blob_ref_ok (cap_blob f) \<Longrightarrow> captured_file_from P (captured_file_json f) = captured_file_make P f"
  by (cases f) (simp add: captured_file_from_def captured_file_json_def captured_file_keys_def wire_simps blob.from_to)

lemma captured_file_from_ok: "captured_file_from P v = Inr f \<Longrightarrow> captured_file_ok P f"
  using captured_file_make_same
  by (fastforce simp: captured_file_from_def bindE_Inr_iff captured_file_ok_def dest: blob.from_ok)

interpretation captured: wire "captured_file_ok P" captured_file_json "captured_file_from P" for P
  by (rule wireI [where construct = "captured_file_make P"])
    (auto simp: captured_file_ok_def captured_file_read dest: captured_file_from_ok [unfolded captured_file_ok_def])

section \<open>Evidence coordinates\<close>

record evidence_coordinate =
  ec_coordinate_system :: string
  ec_source_digest :: string
  ec_start :: "int option"
  ec_end :: "int option"
  ec_page :: "int option"
  ec_region :: json

text \<open>An absent region is \<open>JNull\<close>.\<close>

definition coordinate_interval_bad :: "int option \<Rightarrow> int option \<Rightarrow> bool" where
  "coordinate_interval_bad s e = (case s of None \<Rightarrow> False
     | Some s \<Rightarrow> s < 0 \<or> (case e of None \<Rightarrow> True | Some e \<Rightarrow> e < s))"

definition evidence_coordinate_make :: "bool \<Rightarrow> evidence_coordinate \<Rightarrow> evidence_coordinate result" where
  "evidence_coordinate_make trusted c =
     thenE (check_texts [(''coordinate_system'', ec_coordinate_system c)])
    (thenE (check_digest (ec_source_digest c) ''evidence source_digest'')
    (thenE (refuse ((ec_start c = None) \<noteq> (ec_end c = None))
              (ValueError ''evidence start and end must be supplied together''))
    (thenE (refuse (coordinate_interval_bad (ec_start c) (ec_end c))
              (ValueError ''evidence byte coordinates must form a non-negative half-open interval''))
    (thenE (when_given (\<lambda>p. refuse (p \<le> 0) (ValueError ''evidence page must be positive'')) (ec_page c))
    (bindE (stored trusted ''evidence region'' (ec_region c)) (\<lambda>region. Inr (c\<lparr>ec_region := region\<rparr>)))))))"

definition evidence_coordinate_json :: "evidence_coordinate \<Rightarrow> json" where
  "evidence_coordinate_json c = JObj [(''coordinateSystem'', JStr (ec_coordinate_system c)),
     (''sourceDigest'', JStr (ec_source_digest c)), (''start'', opt_int (ec_start c)),
     (''end'', opt_int (ec_end c)), (''page'', opt_int (ec_page c)), (''region'', ec_region c)]"

definition evidence_coordinate_from :: "bool \<Rightarrow> json \<Rightarrow> evidence_coordinate result" where
  "evidence_coordinate_from trusted value =
     bindE (closed_shape value [''coordinateSystem'', ''sourceDigest'', ''start'', ''end'', ''page'', ''region'']
       ''evidence coordinate'') (\<lambda>kvs.
     bindE (get_text kvs ''coordinateSystem'') (\<lambda>coordinate_system.
     bindE (get_text kvs ''sourceDigest'') (\<lambda>source_digest.
     bindE (get_opt_int kvs ''start'') (\<lambda>start. bindE (get_opt_int kvs ''end'') (\<lambda>e.
     bindE (get_opt_int kvs ''page'') (\<lambda>page.
       evidence_coordinate_make trusted \<lparr>ec_coordinate_system = coordinate_system,
         ec_source_digest = source_digest, ec_start = start, ec_end = e, ec_page = page,
         ec_region = dict_get kvs ''region''\<rparr>))))))"

definition evidence_coordinate_ok :: "bool \<Rightarrow> evidence_coordinate \<Rightarrow> bool" where
  "evidence_coordinate_ok trusted c \<longleftrightarrow> evidence_coordinate_make trusted c = Inr c"

lemma evidence_coordinate_make_ok: "evidence_coordinate_make trusted c = Inr c' \<Longrightarrow> evidence_coordinate_ok trusted c'"
  by (auto simp: evidence_coordinate_ok_def evidence_coordinate_make_def thenE_Inr_iff)

lemma evidence_coordinate_read:
  "evidence_coordinate_from trusted (evidence_coordinate_json c) = evidence_coordinate_make trusted c"
  by (cases c) (simp add: evidence_coordinate_from_def evidence_coordinate_json_def wire_simps)

lemma evidence_coordinate_from_ok: "evidence_coordinate_from trusted v = Inr r \<Longrightarrow> evidence_coordinate_ok trusted r"
  by (auto simp: evidence_coordinate_from_def bindE_Inr_iff intro: evidence_coordinate_make_ok)

interpretation coordinate: wire "evidence_coordinate_ok trusted" evidence_coordinate_json
    "evidence_coordinate_from trusted" for trusted
  by (rule wireI [where construct = "evidence_coordinate_make trusted"])
    (simp_all add: evidence_coordinate_ok_def evidence_coordinate_read
      evidence_coordinate_from_ok [unfolded evidence_coordinate_ok_def])

section \<open>Evidence mappings\<close>

definition identity_transformation :: string where
  "identity_transformation = ''identity-byte-slice''"

record evidence_mapping =
  em_representation_start :: int
  em_representation_end :: int
  em_evidence :: evidence_coordinate
  em_transformation :: string

definition evidence_mapping_make :: "evidence_mapping \<Rightarrow> evidence_mapping result" where
  "evidence_mapping_make m =
     thenE (refuse (em_representation_start m < 0 \<or> em_representation_end m < em_representation_start m)
              (ValueError ''representation mapping coordinates must form a non-negative half-open interval''))
    (thenE (check_texts [(''evidence mapping transformation'', em_transformation m)]) (Inr m))"

definition evidence_mapping_json :: "evidence_mapping \<Rightarrow> json" where
  "evidence_mapping_json m = JObj [(''representationStart'', JInt (em_representation_start m)),
     (''representationEnd'', JInt (em_representation_end m)),
     (''evidence'', evidence_coordinate_json (em_evidence m)), (''transformation'', JStr (em_transformation m))]"

definition evidence_mapping_from :: "bool \<Rightarrow> json \<Rightarrow> evidence_mapping result" where
  "evidence_mapping_from trusted value =
     bindE (closed_shape value [''representationStart'', ''representationEnd'', ''evidence'', ''transformation'']
       ''evidence mapping'') (\<lambda>kvs.
     bindE (get_int kvs ''representationStart'') (\<lambda>start. bindE (get_int kvs ''representationEnd'') (\<lambda>e.
     bindE (evidence_coordinate_from trusted (dict_get kvs ''evidence'')) (\<lambda>evidence.
     bindE (get_text kvs ''transformation'') (\<lambda>transformation.
       evidence_mapping_make \<lparr>em_representation_start = start, em_representation_end = e,
         em_evidence = evidence, em_transformation = transformation\<rparr>)))))"

definition evidence_mapping_ok :: "bool \<Rightarrow> evidence_mapping \<Rightarrow> bool" where
  "evidence_mapping_ok trusted m \<longleftrightarrow> evidence_mapping_make m = Inr m \<and> evidence_coordinate_ok trusted (em_evidence m)"

lemma evidence_mapping_make_same: "evidence_mapping_make m = Inr m' \<Longrightarrow> m' = m"
  by (auto simp: evidence_mapping_make_def thenE_Inr_iff)

lemma evidence_mapping_read:
  "evidence_coordinate_ok trusted (em_evidence m) \<Longrightarrow>
     evidence_mapping_from trusted (evidence_mapping_json m) = evidence_mapping_make m"
  by (cases m) (simp add: evidence_mapping_from_def evidence_mapping_json_def wire_simps coordinate.from_to)

lemma evidence_mapping_from_ok: "evidence_mapping_from trusted v = Inr r \<Longrightarrow> evidence_mapping_ok trusted r"
  using evidence_mapping_make_same
  by (fastforce simp: evidence_mapping_from_def bindE_Inr_iff evidence_mapping_ok_def dest: coordinate.from_ok)

interpretation mapping: wire "evidence_mapping_ok trusted" evidence_mapping_json "evidence_mapping_from trusted"
  for trusted
  by (rule wireI [where construct = evidence_mapping_make])
    (auto simp: evidence_mapping_ok_def evidence_mapping_read
      dest: evidence_mapping_from_ok [unfolded evidence_mapping_ok_def])

text \<open>The bounds are integers: a range of a representation that lies in the mapping.\<close>

definition resolve_evidence_mapping ::
    "bool \<Rightarrow> evidence_mapping \<Rightarrow> int \<Rightarrow> int \<Rightarrow> evidence_coordinate result" where
  "resolve_evidence_mapping trusted m start e =
     (if \<not> (em_representation_start m \<le> start \<and> start \<le> e \<and> e \<le> em_representation_end m)
      then Inl (ValueError ''requested range leaves its representation evidence mapping'')
      else if em_transformation m = identity_transformation
      then case (ec_start (em_evidence m), ec_end (em_evidence m)) of
             (Some s, Some _) \<Rightarrow>
               evidence_coordinate_make trusted
                 ((em_evidence m)\<lparr>ec_start := Some (s + start - em_representation_start m),
                                  ec_end := Some (s + e - em_representation_start m)\<rparr>)
           | _ \<Rightarrow> Inl (ValueError ''identity evidence mapping requires captured-file byte coordinates'')
      else if start = em_representation_start m \<and> e = em_representation_end m then Inr (em_evidence m)
      else Inl (ValueError ''a derived evidence mapping may only be used at its declared boundary''))"

end
