(* ===== verification/Representations.thy ===== *)
theory Representations
  imports Captured_Files
begin

text \<open>
  Representations, segments and derived records of src/src/docspec/domain/content.py.
\<close>

section \<open>Representations\<close>

record representation =
  rp_representation_id :: string
  rp_source_item_id :: string
  rp_file_id :: string
  rp_file_digest :: string
  rp_kind :: string
  rp_blob :: blob_ref
  rp_extractor_id :: string
  rp_configuration_digest :: string
  rp_evidence_mappings :: "evidence_mapping list"
  rp_warnings :: "string list"

definition representation_identity :: "representation \<Rightarrow> json" where
  "representation_identity r = JObj [(''fileId'', JStr (rp_file_id r)), (''fileDigest'', JStr (rp_file_digest r)),
     (''kind'', JStr (rp_kind r)), (''blobDigest'', JStr (br_digest (rp_blob r))),
     (''extractorId'', JStr (rp_extractor_id r)), (''configurationDigest'', JStr (rp_configuration_digest r)),
     (''evidenceMappings'', JArr (map evidence_mapping_json (rp_evidence_mappings r)))]"

text \<open>The loop over the mappings with its \<open>previous_end\<close>.\<close>

definition identity_mapping_check :: "evidence_mapping \<Rightarrow> unit result" where
  "identity_mapping_check m =
     (case (ec_start (em_evidence m), ec_end (em_evidence m)) of
        (Some s, Some e) \<Rightarrow>
          refuse (e - s \<noteq> em_representation_end m - em_representation_start m)
            (ValueError ''identity evidence mapping must preserve byte length'')
      | _ \<Rightarrow> Inl (ValueError ''identity evidence mapping requires captured-file byte coordinates''))"

fun check_mappings :: "string \<Rightarrow> int \<Rightarrow> int \<Rightarrow> evidence_mapping list \<Rightarrow> unit result" where
  "check_mappings file_digest byte_size previous_end [] = Inr ()"
| "check_mappings file_digest byte_size previous_end (m # rest) =
     thenE (refuse (em_representation_start m < previous_end)
              (ValueError ''representation evidence mappings overlap or are out of order''))
    (thenE (refuse (byte_size < em_representation_end m)
              (ValueError ''representation evidence mapping exceeds its bytes''))
    (thenE (refuse (ec_source_digest (em_evidence m) \<noteq> file_digest)
              (ValueError ''representation evidence mapping names a different captured file''))
    (thenE (if em_transformation m = identity_transformation then identity_mapping_check m else Inr ())
       (check_mappings file_digest byte_size (em_representation_end m) rest))))"

definition representation_make :: "platform \<Rightarrow> representation \<Rightarrow> representation result" where
  "representation_make P r =
     thenE (check_texts [(''representation_id'', rp_representation_id r), (''source_item_id'', rp_source_item_id r),
       (''file_id'', rp_file_id r), (''kind'', rp_kind r), (''extractor_id'', rp_extractor_id r)])
    (thenE (check_digest (rp_file_digest r) ''representation file_digest'')
    (thenE (check_digest (rp_configuration_digest r) ''representation configuration_digest'')
    (thenE (check_mappings (rp_file_digest r) (br_byte_size (rp_blob r)) 0 (rp_evidence_mappings r))
    (thenE (check_texts (map (\<lambda>w. (''representation warning'', w)) (rp_warnings r)))
    (bindE (stable_urn P ''representation'' (representation_identity r)) (\<lambda>expected.
     thenE (refuse (rp_representation_id r \<noteq> expected) (ValueError ''representation identity differs'')) (Inr r)))))))"

definition representation_create :: "platform \<Rightarrow> representation \<Rightarrow> representation result" where
  "representation_create P r =
     bindE (stable_urn P ''representation'' (representation_identity r)) (\<lambda>i.
       representation_make P (r\<lparr>rp_representation_id := i\<rparr>))"

definition boundaries :: "representation \<Rightarrow> evidence_coordinate list" where
  "boundaries r = map em_evidence (rp_evidence_mappings r)"

definition evidence_for_range :: "bool \<Rightarrow> representation \<Rightarrow> int \<Rightarrow> int \<Rightarrow> evidence_coordinate result" where
  "evidence_for_range trusted r start e =
     (if start < 0 \<or> e < start \<or> br_byte_size (rp_blob r) < e
      then Inl (ValueError ''requested representation range is outside its bytes'')
      else case find (\<lambda>m. em_representation_start m \<le> start \<and> e \<le> em_representation_end m) (rp_evidence_mappings r) of
             Some m \<Rightarrow> resolve_evidence_mapping trusted m start e
           | None \<Rightarrow> Inl (ValueError ''representation range has no single reversible evidence mapping''))"

definition representation_json :: "representation \<Rightarrow> json" where
  "representation_json r = JObj [(''representationId'', JStr (rp_representation_id r)),
     (''sourceItemId'', JStr (rp_source_item_id r)), (''fileId'', JStr (rp_file_id r)),
     (''fileDigest'', JStr (rp_file_digest r)), (''kind'', JStr (rp_kind r)),
     (''blob'', blob_ref_json (rp_blob r)), (''extractorId'', JStr (rp_extractor_id r)),
     (''configurationDigest'', JStr (rp_configuration_digest r)),
     (''evidenceMappings'', JArr (map evidence_mapping_json (rp_evidence_mappings r))),
     (''warnings'', JArr (map JStr (rp_warnings r)))]"

definition representation_from :: "platform \<Rightarrow> bool \<Rightarrow> json \<Rightarrow> representation result" where
  "representation_from P trusted value =
     bindE (closed_shape value [''representationId'', ''sourceItemId'', ''fileId'', ''fileDigest'', ''kind'', ''blob'',
       ''extractorId'', ''configurationDigest'', ''evidenceMappings'', ''warnings''] ''representation'') (\<lambda>kvs.
     bindE (get_text kvs ''representationId'') (\<lambda>representation_id.
     bindE (get_text kvs ''sourceItemId'') (\<lambda>source_item_id. bindE (get_text kvs ''fileId'') (\<lambda>file_id.
     bindE (get_text kvs ''fileDigest'') (\<lambda>file_digest. bindE (get_text kvs ''kind'') (\<lambda>kind.
     bindE (blob_ref_from (dict_get kvs ''blob'')) (\<lambda>blob. bindE (get_text kvs ''extractorId'') (\<lambda>extractor_id.
     bindE (get_text kvs ''configurationDigest'') (\<lambda>configuration_digest.
     bindE (bindE (get_list kvs ''evidenceMappings'') (mapE (evidence_mapping_from trusted))) (\<lambda>mappings.
     bindE (bindE (get_list kvs ''warnings'') (mapE as_text)) (\<lambda>warnings.
       representation_make P \<lparr>rp_representation_id = representation_id, rp_source_item_id = source_item_id,
         rp_file_id = file_id, rp_file_digest = file_digest, rp_kind = kind, rp_blob = blob,
         rp_extractor_id = extractor_id, rp_configuration_digest = configuration_digest,
         rp_evidence_mappings = mappings, rp_warnings = warnings\<rparr>)))))))))))"

definition representation_ok :: "platform \<Rightarrow> bool \<Rightarrow> representation \<Rightarrow> bool" where
  "representation_ok P trusted r \<longleftrightarrow> representation_make P r = Inr r \<and> blob_ref_ok (rp_blob r) \<and>
     (\<forall>m \<in> set (rp_evidence_mappings r). evidence_mapping_ok trusted m)"

lemma representation_make_same: "representation_make P r = Inr r' \<Longrightarrow> r' = r"
  by (auto simp: representation_make_def thenE_Inr_iff bindE_Inr_iff)

lemma representation_read:
  "blob_ref_ok (rp_blob r) \<Longrightarrow> \<forall>m \<in> set (rp_evidence_mappings r). evidence_mapping_ok trusted m \<Longrightarrow>
     representation_from P trusted (representation_json r) = representation_make P r"
  by (cases r) (simp add: representation_from_def representation_json_def wire_simps blob.from_to mapping.from_to_list)

lemma representation_from_ok: "representation_from P trusted v = Inr r \<Longrightarrow> representation_ok P trusted r"
  using representation_make_same
  by (fastforce simp: representation_from_def bindE_Inr_iff representation_ok_def
      dest: blob.from_ok mapping.from_list_ok)

interpretation representation: wire "representation_ok P trusted" representation_json "representation_from P trusted"
  for P trusted
  by (rule wireI [where construct = "representation_make P"])
    (auto simp: representation_ok_def representation_read dest: representation_from_ok [unfolded representation_ok_def])

section \<open>Segments\<close>

record segment =
  sg_segment_id :: string
  sg_source_item_id :: string
  sg_file_id :: string
  sg_representation_id :: string
  sg_representation_start :: int
  sg_representation_end :: int
  sg_ordinal :: int
  sg_kind :: string
  sg_content :: blob_ref
  sg_evidence :: evidence_coordinate
  sg_segmenter_id :: string
  sg_policy_digest :: string
  sg_derivation :: "string list"

definition segment_identity :: "segment \<Rightarrow> json" where
  "segment_identity r = JObj [(''representationId'', JStr (sg_representation_id r)),
     (''representationStart'', JInt (sg_representation_start r)),
     (''representationEnd'', JInt (sg_representation_end r)), (''ordinal'', JInt (sg_ordinal r)),
     (''kind'', JStr (sg_kind r)), (''contentDigest'', JStr (br_digest (sg_content r))),
     (''evidence'', evidence_coordinate_json (sg_evidence r)), (''segmenterId'', JStr (sg_segmenter_id r)),
     (''policyDigest'', JStr (sg_policy_digest r))]"

definition segment_make :: "platform \<Rightarrow> segment \<Rightarrow> segment result" where
  "segment_make P r =
     thenE (check_texts [(''segment_id'', sg_segment_id r), (''source_item_id'', sg_source_item_id r),
       (''file_id'', sg_file_id r), (''representation_id'', sg_representation_id r), (''kind'', sg_kind r),
       (''segmenter_id'', sg_segmenter_id r)])
    (thenE (check_digest (sg_policy_digest r) ''segment policy_digest'')
    (thenE (refuse (sg_ordinal r < 0) (ValueError ''segment ordinal must be non-negative''))
    (thenE (refuse (sg_representation_start r < 0 \<or> sg_representation_end r < sg_representation_start r)
              (ValueError ''segment representation coordinates must form a non-negative half-open interval''))
    (thenE (refuse (sg_representation_end r - sg_representation_start r \<noteq> br_byte_size (sg_content r))
              (ValueError ''segment representation interval byte size differs from its content''))
    (bindE (stable_urn P ''segment'' (segment_identity r)) (\<lambda>expected.
     thenE (refuse (sg_segment_id r \<noteq> expected) (ValueError ''segment identity differs'')) (Inr r)))))))"

definition segment_create :: "platform \<Rightarrow> segment \<Rightarrow> segment result" where
  "segment_create P r =
     bindE (stable_urn P ''segment'' (segment_identity r)) (\<lambda>i. segment_make P (r\<lparr>sg_segment_id := i\<rparr>))"

definition segment_json :: "segment \<Rightarrow> json" where
  "segment_json r = JObj [(''segmentId'', JStr (sg_segment_id r)), (''sourceItemId'', JStr (sg_source_item_id r)),
     (''fileId'', JStr (sg_file_id r)), (''representationId'', JStr (sg_representation_id r)),
     (''representationStart'', JInt (sg_representation_start r)),
     (''representationEnd'', JInt (sg_representation_end r)), (''ordinal'', JInt (sg_ordinal r)),
     (''kind'', JStr (sg_kind r)), (''content'', blob_ref_json (sg_content r)),
     (''evidence'', evidence_coordinate_json (sg_evidence r)), (''segmenterId'', JStr (sg_segmenter_id r)),
     (''policyDigest'', JStr (sg_policy_digest r)), (''derivation'', JArr (map JStr (sg_derivation r)))]"

definition segment_from :: "platform \<Rightarrow> bool \<Rightarrow> json \<Rightarrow> segment result" where
  "segment_from P trusted value =
     bindE (closed_shape value [''segmentId'', ''sourceItemId'', ''fileId'', ''representationId'',
       ''representationStart'', ''representationEnd'', ''ordinal'', ''kind'', ''content'', ''evidence'',
       ''segmenterId'', ''policyDigest'', ''derivation''] ''segment'') (\<lambda>kvs.
     bindE (get_text kvs ''segmentId'') (\<lambda>segment_id. bindE (get_text kvs ''sourceItemId'') (\<lambda>source_item_id.
     bindE (get_text kvs ''fileId'') (\<lambda>file_id. bindE (get_text kvs ''representationId'') (\<lambda>representation_id.
     bindE (get_int kvs ''representationStart'') (\<lambda>start. bindE (get_int kvs ''representationEnd'') (\<lambda>e.
     bindE (get_int kvs ''ordinal'') (\<lambda>ordinal. bindE (get_text kvs ''kind'') (\<lambda>kind.
     bindE (blob_ref_from (dict_get kvs ''content'')) (\<lambda>content.
     bindE (evidence_coordinate_from trusted (dict_get kvs ''evidence'')) (\<lambda>evidence.
     bindE (get_text kvs ''segmenterId'') (\<lambda>segmenter_id. bindE (get_text kvs ''policyDigest'') (\<lambda>policy_digest.
     bindE (bindE (get_list kvs ''derivation'') (mapE as_text)) (\<lambda>derivation.
       segment_make P \<lparr>sg_segment_id = segment_id, sg_source_item_id = source_item_id, sg_file_id = file_id,
         sg_representation_id = representation_id, sg_representation_start = start, sg_representation_end = e,
         sg_ordinal = ordinal, sg_kind = kind, sg_content = content, sg_evidence = evidence,
         sg_segmenter_id = segmenter_id, sg_policy_digest = policy_digest, sg_derivation = derivation\<rparr>))))))))))))))"

definition segment_ok :: "platform \<Rightarrow> bool \<Rightarrow> segment \<Rightarrow> bool" where
  "segment_ok P trusted r \<longleftrightarrow> segment_make P r = Inr r \<and> blob_ref_ok (sg_content r) \<and>
     evidence_coordinate_ok trusted (sg_evidence r)"

lemma segment_make_same: "segment_make P r = Inr r' \<Longrightarrow> r' = r"
  by (auto simp: segment_make_def thenE_Inr_iff bindE_Inr_iff)

lemma segment_read:
  "blob_ref_ok (sg_content r) \<Longrightarrow> evidence_coordinate_ok trusted (sg_evidence r) \<Longrightarrow>
     segment_from P trusted (segment_json r) = segment_make P r"
  by (cases r) (simp add: segment_from_def segment_json_def wire_simps blob.from_to coordinate.from_to)

lemma segment_from_ok: "segment_from P trusted v = Inr r \<Longrightarrow> segment_ok P trusted r"
  using segment_make_same
  by (fastforce simp: segment_from_def bindE_Inr_iff segment_ok_def dest: blob.from_ok coordinate.from_ok)

interpretation segment: wire "segment_ok P trusted" segment_json "segment_from P trusted" for P trusted
  by (rule wireI [where construct = "segment_make P"])
    (auto simp: segment_ok_def segment_read dest: segment_from_ok [unfolded segment_ok_def])

end
