(* ===== verification/Derived_Records.thy ===== *)
theory Derived_Records
  imports Representations
begin

text \<open>
  The derived record of src/src/docspec/domain/content.py: one processor output, stored in frozen key
  order under the digest of its value and the identity its fields give.
\<close>

record derived_record =
  dr_derived_id :: string
  dr_source_item_id :: string
  dr_processor_id :: string
  dr_input_ids :: "string list"
  dr_schema_id :: string
  dr_value :: json
  dr_output_digest :: string
  dr_provider_receipt_digest :: string
  dr_disposition :: processor_disposition
  dr_warnings :: "string list"

definition derived_record_identity :: "derived_record \<Rightarrow> json" where
  "derived_record_identity r = JObj [(''sourceItemId'', JStr (dr_source_item_id r)),
     (''processorId'', JStr (dr_processor_id r)), (''inputIds'', JArr (map JStr (dr_input_ids r))),
     (''schemaId'', JStr (dr_schema_id r)), (''outputDigest'', JStr (dr_output_digest r)),
     (''providerReceiptDigest'', JStr (dr_provider_receipt_digest r)),
     (''disposition'', JStr (processor_text (dr_disposition r)))]"

definition derived_record_make :: "platform \<Rightarrow> bool \<Rightarrow> derived_record \<Rightarrow> derived_record result" where
  "derived_record_make P trusted r =
     thenE (check_texts [(''derived_id'', dr_derived_id r), (''source_item_id'', dr_source_item_id r),
       (''processor_id'', dr_processor_id r), (''schema_id'', dr_schema_id r)])
    (thenE (check_texts (map (\<lambda>i. (''derived input_id'', i)) (dr_input_ids r)))
    (thenE (refuse (\<not> distinct (dr_input_ids r)) (ValueError ''derived input identities must be distinct''))
    (thenE (check_digest (dr_output_digest r) ''derived output_digest'')
    (thenE (check_digest (dr_provider_receipt_digest r) ''provider receipt digest'')
    (bindE (stored trusted ''derived value'' (dr_value r)) (\<lambda>v.
     bindE (identity_digest P v) (\<lambda>digest.
     thenE (refuse (digest \<noteq> dr_output_digest r) (ValueError ''derived output digest differs from its value''))
    (bindE (stable_urn P ''derived-record'' (derived_record_identity r)) (\<lambda>expected.
     thenE (refuse (dr_derived_id r \<noteq> expected) (ValueError ''derived record identity differs''))
       (Inr (r\<lparr>dr_value := v\<rparr>)))))))))))"

text \<open>\<open>create\<close>: the record given, under the digest of its value and its own identity.\<close>

definition derived_record_create :: "platform \<Rightarrow> bool \<Rightarrow> derived_record \<Rightarrow> derived_record result" where
  "derived_record_create P trusted r =
     bindE (identity_digest P (dr_value r)) (\<lambda>digest. let r' = r\<lparr>dr_output_digest := digest\<rparr> in
     bindE (stable_urn P ''derived-record'' (derived_record_identity r')) (\<lambda>i.
       derived_record_make P trusted (r'\<lparr>dr_derived_id := i\<rparr>)))"

definition derived_record_json :: "derived_record \<Rightarrow> json" where
  "derived_record_json r = JObj [(''derivedId'', JStr (dr_derived_id r)),
     (''sourceItemId'', JStr (dr_source_item_id r)), (''processorId'', JStr (dr_processor_id r)),
     (''inputIds'', JArr (map JStr (dr_input_ids r))), (''schemaId'', JStr (dr_schema_id r)),
     (''value'', dr_value r), (''outputDigest'', JStr (dr_output_digest r)),
     (''providerReceiptDigest'', JStr (dr_provider_receipt_digest r)),
     (''disposition'', JStr (processor_text (dr_disposition r))), (''warnings'', JArr (map JStr (dr_warnings r)))]"

definition derived_record_from :: "platform \<Rightarrow> bool \<Rightarrow> json \<Rightarrow> derived_record result" where
  "derived_record_from P trusted value =
     bindE (closed_shape value [''derivedId'', ''sourceItemId'', ''processorId'', ''inputIds'', ''schemaId'', ''value'',
       ''outputDigest'', ''providerReceiptDigest'', ''disposition'', ''warnings''] ''derived record'') (\<lambda>kvs.
     bindE (get_text kvs ''derivedId'') (\<lambda>derived_id. bindE (get_text kvs ''sourceItemId'') (\<lambda>source_item_id.
     bindE (get_text kvs ''processorId'') (\<lambda>processor_id.
     bindE (bindE (get_list kvs ''inputIds'') (mapE as_text)) (\<lambda>input_ids.
     bindE (get_text kvs ''schemaId'') (\<lambda>schema_id. bindE (get_text kvs ''outputDigest'') (\<lambda>output_digest.
     bindE (get_text kvs ''providerReceiptDigest'') (\<lambda>receipt_digest.
     bindE (bindE (get_text kvs ''disposition'') processor_of) (\<lambda>disposition.
     bindE (bindE (get_list kvs ''warnings'') (mapE as_text)) (\<lambda>warnings.
       derived_record_make P trusted \<lparr>dr_derived_id = derived_id, dr_source_item_id = source_item_id,
         dr_processor_id = processor_id, dr_input_ids = input_ids, dr_schema_id = schema_id,
         dr_value = dict_get kvs ''value'', dr_output_digest = output_digest,
         dr_provider_receipt_digest = receipt_digest, dr_disposition = disposition,
         dr_warnings = warnings\<rparr>))))))))))"

definition derived_record_ok :: "platform \<Rightarrow> bool \<Rightarrow> derived_record \<Rightarrow> bool" where
  "derived_record_ok P trusted r \<longleftrightarrow> derived_record_make P trusted r = Inr r"

lemma derived_record_make_ok: "derived_record_make P trusted r = Inr r' \<Longrightarrow> derived_record_ok P trusted r'"
  by (auto simp: derived_record_make_def derived_record_ok_def thenE_Inr_iff bindE_Inr_iff
      derived_record_identity_def)

lemma derived_record_read: "derived_record_from P trusted (derived_record_json r) = derived_record_make P trusted r"
  by (cases r) (simp add: derived_record_from_def derived_record_json_def wire_simps enum_round_trip)

lemma derived_record_from_ok: "derived_record_from P trusted v = Inr r \<Longrightarrow> derived_record_ok P trusted r"
  by (auto simp: derived_record_from_def bindE_Inr_iff intro: derived_record_make_ok)

interpretation derived: wire "derived_record_ok P trusted" derived_record_json "derived_record_from P trusted"
  for P trusted
  by (rule wireI [where construct = "derived_record_make P trusted"])
    (simp_all add: derived_record_ok_def derived_record_read derived_record_from_ok [unfolded derived_record_ok_def])

text \<open>
  A created record is admitted when the canonical form does not depend on the order of keys:
  \<open>create\<close> digests the value as given, \<open>__post_init__\<close> the value in frozen order.
\<close>

lemma derived_record_create_value:
  assumes "canonical_documented P" "derived_record_create P trusted r = Inr r'"
  shows "dr_value r' = (if trusted then dr_value r else key_sorted (dr_value r))"
  using assms by (auto simp: derived_record_create_def derived_record_make_def thenE_Inr_iff bindE_Inr_iff Let_def)

end
