(* ===== verification/Artifacts.thy ===== *)
theory Artifacts
  imports Derived_Records Reference_Codec Unicode_Text
begin

text \<open>
  The byte-bearing values of src/src/docspec/processing/artifacts.py: content-addressed references,
  representation and segment payloads, the segment built from a representation range, and the
  verification of a segment against its representation and the captured source. The lemmas connect
  the two ends: a verified segment is the source range its evidence names.
\<close>

section \<open>Slices and equality\<close>

text \<open>\<open>xs[i:j]\<close> for any integers: a negative bound counts from the end, and both are clipped.\<close>

definition clip_bound :: "int \<Rightarrow> int \<Rightarrow> int" where
  "clip_bound n k = (if k < 0 then max 0 (k + n) else min k n)"

definition py_slice :: "'a list \<Rightarrow> int \<Rightarrow> int \<Rightarrow> 'a list" where
  "py_slice xs i j = slice_of xs (nat (clip_bound (int (length xs)) i)) (nat (clip_bound (int (length xs)) j))"

text \<open>
  The \<open>==\<close> of the dataclass on evidence coordinates: the order of keys in the region does not matter,
  and \<open>True == 1\<close>.
\<close>

fun py_normal :: "json \<Rightarrow> json" where
  "py_normal (JBool b) = JInt (if b then 1 else 0)"
| "py_normal (JArr js) = JArr (map py_normal js)"
| "py_normal (JObj kvs) = JObj (sort_key fst (map (\<lambda>kv. (fst kv, py_normal (snd kv))) kvs))"
| "py_normal j = j"

definition coordinate_equal :: "evidence_coordinate \<Rightarrow> evidence_coordinate \<Rightarrow> bool" where
  "coordinate_equal a b \<longleftrightarrow> a\<lparr>ec_region := JNull\<rparr> = b\<lparr>ec_region := JNull\<rparr> \<and>
     py_normal (ec_region a) = py_normal (ec_region b)"

section \<open>References to worker bytes\<close>

definition content_blob_ref :: "platform \<Rightarrow> bytes \<Rightarrow> string \<Rightarrow> blob_ref result" where
  "content_blob_ref P content media_type =
     (let digest = sha256_digest P content in
      blob_ref_make \<lparr>br_locator = ''cas+sha256://'' @ remove_prefix ''sha256:'' digest, br_digest = digest,
                     br_byte_size = int (length content), br_media_type = media_type\<rparr>)"

definition verify_blob_bytes :: "platform \<Rightarrow> blob_ref \<Rightarrow> bytes \<Rightarrow> string \<Rightarrow> unit result" where
  "verify_blob_bytes P reference content label =
     thenE (refuse (br_byte_size reference \<noteq> int (length content))
              (IntegrityError (label @ '' byte size differs from its reference'')))
       (refuse (br_digest reference \<noteq> sha256_digest P content)
          (IntegrityError (label @ '' digest differs from its reference'')))"

section \<open>Payloads\<close>

record representation_payload =
  rpp_representation :: representation
  rpp_content :: bytes

definition representation_payload_make ::
    "platform \<Rightarrow> representation_payload \<Rightarrow> representation_payload result" where
  "representation_payload_make P p =
     thenE (verify_blob_bytes P (rp_blob (rpp_representation p)) (rpp_content p) ''representation'')
    (bindE (representation_create P (rpp_representation p)) (\<lambda>recreated.
     thenE (refuse (rp_representation_id recreated \<noteq> rp_representation_id (rpp_representation p))
              (IntegrityError ''representation identity does not match its semantic inputs'')) (Inr p)))"

text \<open>\<open>except ValueError as error: raise IntegrityError(str(error))\<close>.\<close>

definition value_error_as_integrity :: "'a result \<Rightarrow> 'a result" where
  "value_error_as_integrity x = (case x of
     Inl e \<Rightarrow> Inl (if is_value_error e then IntegrityError (message_of e) else e) | Inr y \<Rightarrow> Inr y)"

definition payload_evidence :: "bool \<Rightarrow> representation_payload \<Rightarrow> int \<Rightarrow> int \<Rightarrow> evidence_coordinate result" where
  "payload_evidence trusted p start e =
     (if start < 0 \<or> e < start \<or> int (length (rpp_content p)) < e
      then Inl (IntegrityError ''requested representation range is outside its bytes'')
      else value_error_as_integrity (evidence_for_range trusted (rpp_representation p) start e))"

record segment_payload =
  sgp_segment :: segment
  sgp_content :: bytes

definition segment_payload_make :: "platform \<Rightarrow> segment_payload \<Rightarrow> segment_payload result" where
  "segment_payload_make P p =
     thenE (verify_blob_bytes P (sg_content (sgp_segment p)) (sgp_content p) ''segment'')
    (bindE (segment_create P (sgp_segment p)) (\<lambda>recreated.
     thenE (refuse (sg_segment_id recreated \<noteq> sg_segment_id (sgp_segment p))
              (IntegrityError ''segment identity does not match its semantic inputs'')) (Inr p)))"

text \<open>\<open>media_type or representation.media_type\<close>: an absent or empty one is replaced.\<close>

definition media_type_or :: "string option \<Rightarrow> string \<Rightarrow> string" where
  "media_type_or given otherwise = (case given of None \<Rightarrow> otherwise | Some m \<Rightarrow> if m = [] then otherwise else m)"

definition build_segment ::
    "platform \<Rightarrow> bool \<Rightarrow> representation_payload \<Rightarrow> int \<Rightarrow> string \<Rightarrow> int \<Rightarrow> int \<Rightarrow> string \<Rightarrow> string \<Rightarrow> string list
       \<Rightarrow> string option \<Rightarrow> segment_payload result" where
  "build_segment P trusted p ordinal kind start e segmenter_id policy_digest derivation media_type =
     (let content = py_slice (rpp_content p) start e; source = rpp_representation p in
      bindE (content_blob_ref P content (media_type_or media_type (br_media_type (rp_blob source)))) (\<lambda>reference.
      bindE (payload_evidence trusted p start e) (\<lambda>evidence.
      bindE (segment_create P \<lparr>sg_segment_id = [], sg_source_item_id = rp_source_item_id source,
           sg_file_id = rp_file_id source, sg_representation_id = rp_representation_id source,
           sg_representation_start = start, sg_representation_end = e, sg_ordinal = ordinal, sg_kind = kind,
           sg_content = reference, sg_evidence = evidence, sg_segmenter_id = segmenter_id,
           sg_policy_digest = policy_digest,
           sg_derivation = (''representation:'' @ rp_representation_id source) # derivation\<rparr>) (\<lambda>segment.
        segment_payload_make P \<lparr>sgp_segment = segment, sgp_content = content\<rparr>))))"

section \<open>Verification\<close>

text \<open>The resolver of derived mappings is the caller's.\<close>

type_synonym resolver = "(evidence_mapping \<Rightarrow> bytes \<Rightarrow> bytes result) option"

definition verify_representation_mapping :: "resolver \<Rightarrow> evidence_mapping \<Rightarrow> bytes \<Rightarrow> bytes \<Rightarrow> unit result" where
  "verify_representation_mapping derived m output source_bytes =
     bindE (if em_transformation m = identity_transformation
            then case (ec_start (em_evidence m), ec_end (em_evidence m)) of
                   (Some s, Some e) \<Rightarrow>
                     if int (length source_bytes) < e
                     then Inl (IntegrityError ''evidence byte range exceeds the captured source'')
                     else Inr (py_slice source_bytes s e)
                 | _ \<Rightarrow> Inl (IntegrityError ''identity evidence requires source byte coordinates'')
            else case derived of
                   Some resolve \<Rightarrow> resolve m source_bytes
                 | None \<Rightarrow> Inl (IntegrityError (''evidence transformation '' @ em_transformation m @
                             '' requires its named resolver''))) (\<lambda>resolved.
       refuse (resolved \<noteq> output)
         (IntegrityError ''representation bytes do not round-trip through their source evidence''))"

definition verify_representation_evidence ::
    "platform \<Rightarrow> resolver \<Rightarrow> representation_payload \<Rightarrow> bytes \<Rightarrow> unit result" where
  "verify_representation_evidence P derived p source_bytes =
     thenE (refuse (sha256_digest P source_bytes \<noteq> rp_file_digest (rpp_representation p))
              (IntegrityError ''captured source bytes differ from the file digest of the representation''))
       (eachE (\<lambda>m.
          thenE (refuse (ec_source_digest (em_evidence m) \<noteq> rp_file_digest (rpp_representation p))
                   (IntegrityError ''evidence source digest differs from the file digest of the representation''))
            (verify_representation_mapping derived m
               (py_slice (rpp_content p) (em_representation_start m) (em_representation_end m)) source_bytes))
          (rp_evidence_mappings (rpp_representation p)))"

definition verify_segment_representation ::
    "bool \<Rightarrow> segment_payload \<Rightarrow> representation_payload \<Rightarrow> unit result" where
  "verify_segment_representation trusted s p =
     thenE (refuse (sg_representation_id (sgp_segment s) \<noteq> rp_representation_id (rpp_representation p))
              (IntegrityError ''segment names a different representation''))
    (thenE (refuse (sg_file_id (sgp_segment s) \<noteq> rp_file_id (rpp_representation p))
              (IntegrityError ''segment names a different captured file''))
    (thenE (refuse (int (length (rpp_content p)) < sg_representation_end (sgp_segment s))
              (IntegrityError ''segment range exceeds its representation''))
    (thenE (refuse (sgp_content s \<noteq> py_slice (rpp_content p) (sg_representation_start (sgp_segment s))
                (sg_representation_end (sgp_segment s)))
              (IntegrityError ''segment bytes differ from their exact representation slice''))
    (bindE (payload_evidence trusted p (sg_representation_start (sgp_segment s))
              (sg_representation_end (sgp_segment s))) (\<lambda>expected.
       refuse (\<not> coordinate_equal (sg_evidence (sgp_segment s)) expected)
         (IntegrityError ''segment evidence differs from its representation mapping''))))))"

definition verify_segment_evidence ::
    "platform \<Rightarrow> bool \<Rightarrow> resolver \<Rightarrow> segment_payload \<Rightarrow> representation_payload \<Rightarrow> bytes \<Rightarrow> unit result" where
  "verify_segment_evidence P trusted derived s p source_bytes =
     thenE (verify_segment_representation trusted s p) (verify_representation_evidence P derived p source_bytes)"


section \<open>Lemmas on slices\<close>

lemma py_slice_inside: "0 \<le> i \<Longrightarrow> i \<le> j \<Longrightarrow> j \<le> int (length xs) \<Longrightarrow> py_slice xs i j = slice_of xs (nat i) (nat j)"
  by (simp add: py_slice_def clip_bound_def)

lemma py_slice_length: "0 \<le> i \<Longrightarrow> i \<le> j \<Longrightarrow> j \<le> int (length xs) \<Longrightarrow> int (length (py_slice xs i j)) = j - i"
  by (simp add: py_slice_inside slice_of_length nat_mono nat_diff_distrib [symmetric])

lemma py_slice_sub:
  assumes "py_slice xs a b = py_slice ys c d" "0 \<le> a" "a \<le> b" "b \<le> int (length xs)" "0 \<le> c" "c \<le> d"
    "d \<le> int (length ys)" "0 \<le> i" "i \<le> j" "j \<le> b - a" "b - a = d - c"
  shows "py_slice xs (a + i) (a + j) = py_slice ys (c + i) (c + j)"
proof -
  have "slice_of (slice_of xs (nat a) (nat b)) (nat i) (nat j) = slice_of (slice_of ys (nat c) (nat d)) (nat i) (nat j)"
    using assms by (simp add: py_slice_inside)
  moreover have "slice_of (slice_of xs (nat a) (nat b)) (nat i) (nat j) = slice_of xs (nat (a + i)) (nat (a + j))"
    using assms by (subst slice_of_slice) (auto simp: nat_add_distrib)
  moreover have "slice_of (slice_of ys (nat c) (nat d)) (nat i) (nat j) = slice_of ys (nat (c + i)) (nat (c + j))"
    using assms by (subst slice_of_slice) (auto simp: nat_add_distrib)
  ultimately show ?thesis using assms by (simp add: py_slice_inside)
qed

lemma py_normal_key_sorted: "py_normal (key_sorted j) = py_normal j"
proof (induction j rule: key_sorted.induct)
  case (2 kvs)
  let ?f = "\<lambda>kv. (fst kv, py_normal (snd kv))" and ?g = "\<lambda>kv. (fst kv, key_sorted (snd kv))"
  have same: "map ?f (map ?g kvs) = map ?f kvs"
    using 2 by auto
  have "map ?f (sort_key fst (map ?g kvs)) = sort_key fst (map ?f kvs)"
    unfolding sort_key_fst_map same ..
  moreover have "sort_key fst (sort_key fst (map ?f kvs)) = sort_key fst (map ?f kvs)"
    by (rule sort_key_id_if_sorted) simp
  ultimately show ?case by (simp only: key_sorted.simps py_normal.simps)
qed auto

section \<open>Payloads of well-formed representations\<close>

definition payload_ok :: "platform \<Rightarrow> bool \<Rightarrow> representation_payload \<Rightarrow> bool" where
  "payload_ok P trusted p \<longleftrightarrow> representation_ok P trusted (rpp_representation p) \<and> representation_payload_make P p = Inr p"

lemma verify_blob_bytes_iff:
  "verify_blob_bytes P r b l = Inr () \<longleftrightarrow> br_byte_size r = int (length b) \<and> br_digest r = sha256_digest P b"
  by (auto simp: verify_blob_bytes_def thenE_Inr_iff refuse_Inr_iff)

lemma payload_blob:
  "payload_ok P trusted p \<Longrightarrow> br_byte_size (rp_blob (rpp_representation p)) = int (length (rpp_content p))"
  by (auto simp: payload_ok_def representation_payload_make_def thenE_Inr_iff verify_blob_bytes_iff)

lemma check_mappings_member:
  assumes "check_mappings d n k ms = Inr ()" "m \<in> set ms" "0 \<le> k"
    "\<forall>m \<in> set ms. em_representation_start m \<le> em_representation_end m"
  shows "0 \<le> em_representation_start m \<and> k \<le> em_representation_start m \<and> em_representation_end m \<le> n \<and>
     ec_source_digest (em_evidence m) = d \<and>
     (em_transformation m = identity_transformation \<longrightarrow> identity_mapping_check m = Inr ())"
  using assms
proof (induction ms arbitrary: k)
  case (Cons a ms)
  then have a: "k \<le> em_representation_start a" "em_representation_end a \<le> n" "ec_source_digest (em_evidence a) = d"
    "em_transformation a = identity_transformation \<longrightarrow> identity_mapping_check a = Inr ()"
    and rest: "check_mappings d n (em_representation_end a) ms = Inr ()"
    by (auto simp: thenE_Inr_iff refuse_Inr_iff split: if_splits)
  have "k \<le> em_representation_end a" using a Cons.prems by force
  then show ?case using Cons.IH [OF rest] Cons.prems a by auto
qed simp

lemma mapping_okD:
  assumes "evidence_mapping_ok trusted m"
  shows "em_representation_start m \<le> em_representation_end m"
    "ec_start (em_evidence m) = Some a \<Longrightarrow> ec_end (em_evidence m) = Some b \<Longrightarrow> 0 \<le> a \<and> a \<le> b"
  using assms
  by (auto simp: evidence_mapping_ok_def evidence_mapping_make_def evidence_coordinate_ok_def
      evidence_coordinate_make_def coordinate_interval_bad_def thenE_Inr_iff refuse_Inr_iff)

lemma payload_mapping:
  assumes "payload_ok P trusted p" "m \<in> set (rp_evidence_mappings (rpp_representation p))"
  shows "0 \<le> em_representation_start m \<and> em_representation_start m \<le> em_representation_end m \<and>
     em_representation_end m \<le> int (length (rpp_content p)) \<and>
     ec_source_digest (em_evidence m) = rp_file_digest (rpp_representation p) \<and>
     (em_transformation m = identity_transformation \<longrightarrow> identity_mapping_check m = Inr ())"
proof -
  let ?r = "rpp_representation p"
  have ok: "\<forall>m \<in> set (rp_evidence_mappings ?r). em_representation_start m \<le> em_representation_end m"
    using assms(1) mapping_okD(1) by (auto simp: payload_ok_def representation_ok_def)
  have "check_mappings (rp_file_digest ?r) (int (length (rpp_content p))) 0 (rp_evidence_mappings ?r) = Inr ()"
    using assms(1) payload_blob [OF assms(1)]
    by (auto simp: payload_ok_def representation_ok_def representation_make_def thenE_Inr_iff bindE_Inr_iff)
  then show ?thesis using check_mappings_member [OF _ assms(2) _ ok] ok assms(2) by auto
qed

lemma value_error_as_integrity_Inr [simp]: "value_error_as_integrity x = Inr y \<longleftrightarrow> x = Inr y"
  by (auto simp: value_error_as_integrity_def split: sum.splits)

lemma payload_evidence_found:
  assumes "payload_evidence trusted p s e = Inr ev"
  shows "0 \<le> s \<and> s \<le> e \<and> e \<le> int (length (rpp_content p)) \<and>
     (\<exists>m \<in> set (rp_evidence_mappings (rpp_representation p)). em_representation_start m \<le> s \<and>
        e \<le> em_representation_end m \<and> resolve_evidence_mapping trusted m s e = Inr ev)"
  using assms
  by (auto simp: payload_evidence_def evidence_for_range_def find_Some_iff split: if_splits option.splits)

lemma resolve_identity:
  assumes "resolve_evidence_mapping trusted m s e = Inr ev" "em_transformation m = identity_transformation"
  shows "\<exists>a b. ec_start (em_evidence m) = Some a \<and> ec_end (em_evidence m) = Some b \<and>
     ec_start ev = Some (a + s - em_representation_start m) \<and> ec_end ev = Some (a + e - em_representation_start m) \<and>
     ec_source_digest ev = ec_source_digest (em_evidence m)"
  using assms
  by (auto simp: resolve_evidence_mapping_def evidence_coordinate_make_def thenE_Inr_iff
      split: if_splits option.splits)

lemma resolve_derived:
  assumes "resolve_evidence_mapping trusted m s e = Inr ev" "em_transformation m \<noteq> identity_transformation"
  shows "s = em_representation_start m \<and> e = em_representation_end m \<and> ev = em_evidence m"
  using assms by (auto simp: resolve_evidence_mapping_def split: if_splits)

lemma coordinate_equal_fields:
  "coordinate_equal a b \<Longrightarrow> ec_start a = ec_start b \<and> ec_end a = ec_end b \<and> ec_source_digest a = ec_source_digest b"
  by (cases a; cases b) (simp add: coordinate_equal_def)

lemma coordinate_equal_refl [simp]: "coordinate_equal a a"
  by (simp add: coordinate_equal_def)


section \<open>From a segment to the captured source\<close>

text \<open>What one verified mapping says of the bytes it covers.\<close>

lemma mapping_verified:
  assumes "verify_representation_evidence P derived p src = Inr ()"
    "m \<in> set (rp_evidence_mappings (rpp_representation p))"
  shows "sha256_digest P src = rp_file_digest (rpp_representation p)"
    "verify_representation_mapping derived m
       (py_slice (rpp_content p) (em_representation_start m) (em_representation_end m)) src = Inr ()"
  using assms by (auto simp: verify_representation_evidence_def thenE_Inr_iff refuse_Inr_iff eachE_Inr_iff)

lemma identity_mapping_slice:
  assumes "payload_ok P trusted p" "verify_representation_evidence P derived p src = Inr ()"
    "m \<in> set (rp_evidence_mappings (rpp_representation p))" "em_transformation m = identity_transformation"
    "em_representation_start m \<le> s" "s \<le> e" "e \<le> em_representation_end m"
    "ec_start (em_evidence m) = Some a" "ec_end (em_evidence m) = Some b"
  shows "0 \<le> a" "b \<le> int (length src)" "b - a = em_representation_end m - em_representation_start m"
    "py_slice src (a + s - em_representation_start m) (a + e - em_representation_start m) = py_slice (rpp_content p) s e"
proof -
  let ?x = "em_representation_start m" and ?y = "em_representation_end m"
  have m: "0 \<le> ?x" "?x \<le> ?y" "?y \<le> int (length (rpp_content p))" and len: "b - a = ?y - ?x"
    using payload_mapping [OF assms(1,3)] assms(4,8,9) by (auto simp: identity_mapping_check_def refuse_Inr_iff)
  have ok: "evidence_mapping_ok trusted m" using assms(1,3) by (auto simp: payload_ok_def representation_ok_def)
  have ab: "0 \<le> a" "a \<le> b" using mapping_okD(2) [OF ok assms(8,9)] by auto
  have v: "b \<le> int (length src)" "py_slice src a b = py_slice (rpp_content p) ?x ?y"
    using mapping_verified(2) [OF assms(2,3)] assms(4,8,9)
    by (auto simp: verify_representation_mapping_def refuse_Inr_iff split: if_splits)
  have "py_slice src (a + (s - ?x)) (a + (e - ?x)) = py_slice (rpp_content p) (?x + (s - ?x)) (?x + (e - ?x))"
    by (rule py_slice_sub [OF v(2)]) (use m ab v len assms(5-7) in auto)
  then show "py_slice src (a + s - ?x) (a + e - ?x) = py_slice (rpp_content p) s e"
    by (simp add: algebra_simps)
  show "0 \<le> a" "b \<le> int (length src)" "b - a = ?y - ?x" using ab v len by auto
qed

text \<open>
  The relation between a segment and the source it was cut from: the abstract promise of the
  evidence chain.
\<close>

definition evidence_of_source :: "resolver \<Rightarrow> evidence_mapping \<Rightarrow> evidence_coordinate \<Rightarrow> bytes \<Rightarrow> bytes \<Rightarrow> bool" where
  "evidence_of_source derived m ev content src \<longleftrightarrow>
     (if em_transformation m = identity_transformation
      then case (ec_start ev, ec_end ev) of
             (Some a, Some b) \<Rightarrow> 0 \<le> a \<and> a \<le> b \<and> b \<le> int (length src) \<and> content = slice_of src (nat a) (nat b)
           | _ \<Rightarrow> False
      else case derived of Some resolve \<Rightarrow> resolve m src = Inr content | None \<Rightarrow> False)"

lemma range_in_source:
  assumes "payload_ok P trusted p" "verify_representation_evidence P derived p src = Inr ()"
    "payload_evidence trusted' p s e = Inr ev"
  shows "\<exists>m \<in> set (rp_evidence_mappings (rpp_representation p)).
     em_representation_start m \<le> s \<and> e \<le> em_representation_end m \<and>
     ec_source_digest ev = sha256_digest P src \<and> evidence_of_source derived m ev (py_slice (rpp_content p) s e) src"
proof -
  from payload_evidence_found [OF assms(3)] obtain m
    where m: "m \<in> set (rp_evidence_mappings (rpp_representation p))" "em_representation_start m \<le> s" "s \<le> e"
      "e \<le> em_representation_end m" "resolve_evidence_mapping trusted' m s e = Inr ev" by auto
  have digest: "ec_source_digest (em_evidence m) = sha256_digest P src"
    using payload_mapping [OF assms(1) m(1)] mapping_verified(1) [OF assms(2) m(1)] by simp
  have "ec_source_digest ev = sha256_digest P src \<and> evidence_of_source derived m ev (py_slice (rpp_content p) s e) src"
  proof (cases "em_transformation m = identity_transformation")
    case True
    from resolve_identity [OF m(5) True] obtain a b where ab: "ec_start (em_evidence m) = Some a"
      "ec_end (em_evidence m) = Some b" "ec_start ev = Some (a + s - em_representation_start m)"
      "ec_end ev = Some (a + e - em_representation_start m)" "ec_source_digest ev = ec_source_digest (em_evidence m)"
      by blast
    note sl = identity_mapping_slice [OF assms(1,2) m(1) True m(2-4) ab(1,2)]
    have "py_slice (rpp_content p) s e
        = slice_of src (nat (a + s - em_representation_start m)) (nat (a + e - em_representation_start m))"
      unfolding sl(4) [symmetric] by (rule py_slice_inside) (use sl m in auto)
    then show ?thesis using True ab sl(1-3) m digest by (auto simp: evidence_of_source_def)
  next
    case False
    from resolve_derived [OF m(5) False] have r: "s = em_representation_start m" "e = em_representation_end m" "ev = em_evidence m"
      by auto
    show ?thesis using mapping_verified(2) [OF assms(2) m(1)] False digest
      by (auto simp: evidence_of_source_def verify_representation_mapping_def bindE_Inr_iff refuse_Inr_iff r
          split: option.splits)
  qed
  with m show ?thesis by auto
qed

lemma verify_segment_representationD:
  assumes "verify_segment_representation trusted s p = Inr ()"
  obtains ev where "sgp_content s = py_slice (rpp_content p) (sg_representation_start (sgp_segment s))
       (sg_representation_end (sgp_segment s))"
    "payload_evidence trusted p (sg_representation_start (sgp_segment s)) (sg_representation_end (sgp_segment s)) = Inr ev"
    "coordinate_equal (sg_evidence (sgp_segment s)) ev"
  using assms by (auto simp: verify_segment_representation_def thenE_Inr_iff bindE_Inr_iff refuse_Inr_iff)

lemma evidence_of_source_cong:
  "coordinate_equal ev ev' \<Longrightarrow> evidence_of_source derived m ev' c src \<Longrightarrow> evidence_of_source derived m ev c src"
  using coordinate_equal_fields [of ev ev'] by (auto simp: evidence_of_source_def split: if_splits)

lemma verified_segment_source:
  assumes "payload_ok P trusted p" "verify_segment_evidence P trusted' derived s p src = Inr ()"
  shows "\<exists>m \<in> set (rp_evidence_mappings (rpp_representation p)).
     em_representation_start m \<le> sg_representation_start (sgp_segment s) \<and>
     sg_representation_end (sgp_segment s) \<le> em_representation_end m \<and>
     ec_source_digest (sg_evidence (sgp_segment s)) = sha256_digest P src \<and>
     evidence_of_source derived m (sg_evidence (sgp_segment s)) (sgp_content s) src"
proof -
  have v: "verify_segment_representation trusted' s p = Inr ()" "verify_representation_evidence P derived p src = Inr ()"
    using assms(2) by (auto simp: verify_segment_evidence_def thenE_Inr_iff)
  obtain ev where ev: "sgp_content s = py_slice (rpp_content p) (sg_representation_start (sgp_segment s))
       (sg_representation_end (sgp_segment s))"
    "payload_evidence trusted' p (sg_representation_start (sgp_segment s)) (sg_representation_end (sgp_segment s)) = Inr ev"
    "coordinate_equal (sg_evidence (sgp_segment s)) ev"
    by (rule verify_segment_representationD [OF v(1)])
  show ?thesis
    using range_in_source [OF assms(1) v(2) ev(2)] ev(1) evidence_of_source_cong [OF ev(3)]
      coordinate_equal_fields [OF ev(3)] by auto
qed

section \<open>Built segments\<close>

lemma segment_create_parts:
  "segment_create P r = Inr r' \<Longrightarrow> \<exists>i. r' = r\<lparr>sg_segment_id := i\<rparr> \<and> segment_make P r' = Inr r'"
  using segment_make_same by (fastforce simp: segment_create_def bindE_Inr_iff)

lemma build_segment_parts:
  assumes "build_segment P trusted p ordinal kind start e segmenter_id policy_digest derivation media_type = Inr s"
  obtains i reference evidence where
    "sgp_content s = py_slice (rpp_content p) start e" "payload_evidence trusted p start e = Inr evidence"
    "sgp_segment s = \<lparr>sg_segment_id = i, sg_source_item_id = rp_source_item_id (rpp_representation p),
           sg_file_id = rp_file_id (rpp_representation p), sg_representation_id = rp_representation_id (rpp_representation p),
           sg_representation_start = start, sg_representation_end = e, sg_ordinal = ordinal, sg_kind = kind,
           sg_content = reference, sg_evidence = evidence, sg_segmenter_id = segmenter_id,
           sg_policy_digest = policy_digest,
           sg_derivation = (''representation:'' @ rp_representation_id (rpp_representation p)) # derivation\<rparr>"
    "segment_make P (sgp_segment s) = Inr (sgp_segment s)" "blob_ref_ok reference"
  using assms
  by (auto simp: build_segment_def Let_def bindE_Inr_iff segment_payload_make_def thenE_Inr_iff
      content_blob_ref_def blob_ref_make_ok dest!: segment_create_parts)

lemma build_segment_verified:
  assumes "build_segment P trusted p ordinal kind start e segmenter_id policy_digest derivation media_type = Inr s"
  shows "verify_segment_representation trusted s p = Inr ()"
proof -
  from build_segment_parts [OF assms] obtain i reference evidence where
    "sgp_content s = py_slice (rpp_content p) start e" "payload_evidence trusted p start e = Inr evidence"
    "sgp_segment s = \<lparr>sg_segment_id = i, sg_source_item_id = rp_source_item_id (rpp_representation p),
           sg_file_id = rp_file_id (rpp_representation p), sg_representation_id = rp_representation_id (rpp_representation p),
           sg_representation_start = start, sg_representation_end = e, sg_ordinal = ordinal, sg_kind = kind,
           sg_content = reference, sg_evidence = evidence, sg_segmenter_id = segmenter_id,
           sg_policy_digest = policy_digest,
           sg_derivation = (''representation:'' @ rp_representation_id (rpp_representation p)) # derivation\<rparr>" by metis
  with payload_evidence_found show ?thesis
    by (fastforce simp: verify_segment_representation_def)
qed


text \<open>When every check of the identified record passes, identification succeeds.\<close>

lemma segment_identity_id [simp]: "segment_identity (r\<lparr>sg_segment_id := i\<rparr>) = segment_identity r"
  by (simp add: segment_identity_def)

definition segment_fields_ok :: "segment \<Rightarrow> bool" where
  "segment_fields_ok r \<longleftrightarrow> (\<forall>v \<in> {sg_source_item_id r, sg_file_id r, sg_representation_id r, sg_kind r, sg_segmenter_id r}.
       strip v \<noteq> []) \<and> is_sha256 (sg_policy_digest r) \<and> 0 \<le> sg_ordinal r \<and> 0 \<le> sg_representation_start r \<and>
     sg_representation_start r \<le> sg_representation_end r \<and>
     sg_representation_end r - sg_representation_start r = br_byte_size (sg_content r)"

lemma urn_nonblank: "strip (''urn:docspec:'' @ s) \<noteq> []"
  by (simp add: strip_eq_Nil_iff char_isspace_def)

lemma segment_urn:
  "canonical P j = Inr b \<Longrightarrow> stable_urn P ''segment'' j = Inr (''urn:docspec:'' @ ''segment'' @ '':v1:'' @ sha256_hex P b)"
  by (subst stable_urn_eq) (simp_all add: is_urn_part_def strip_eq_Nil_iff char_isspace_def)

lemma segment_create_total:
  assumes "canonical P (segment_identity r) = Inr b" "segment_fields_ok r"
  shows "\<exists>i. segment_create P r = Inr (r\<lparr>sg_segment_id := i\<rparr>) \<and> stable_urn P ''segment'' (segment_identity r) = Inr i"
proof -
  let ?i = "''urn:docspec:'' @ ''segment'' @ '':v1:'' @ sha256_hex P b"
  note urn = segment_urn [OF assms(1)]
  have "segment_make P (r\<lparr>sg_segment_id := ?i\<rparr>) = Inr (r\<lparr>sg_segment_id := ?i\<rparr>)"
    using assms(2) urn urn_nonblank
    by (simp add: segment_make_def segment_fields_ok_def thenE_Inr_iff bindE_Inr_iff check_texts_iff check_digest_iff
        refuse_Inr_iff del: append_assoc)
  then show ?thesis using urn by (simp add: segment_create_def)
qed


lemma content_blob_ref_ok:
  "hex_documented P \<Longrightarrow> strip media \<noteq> [] \<Longrightarrow> content_blob_ref P c media = Inr
     \<lparr>br_locator = ''cas+sha256://'' @ remove_prefix ''sha256:'' (sha256_digest P c),
      br_digest = sha256_digest P c, br_byte_size = int (length c), br_media_type = media\<rparr>"
  by (simp add: content_blob_ref_def Let_def blob_ref_make_def thenE_Inr_iff check_texts_iff check_digest_iff
      refuse_Inr_iff sha256_digest_form strip_eq_Nil_iff char_isspace_def)

lemma payload_texts:
  assumes "payload_ok P trusted p"
  shows "\<forall>v \<in> {rp_source_item_id (rpp_representation p), rp_file_id (rpp_representation p),
       rp_representation_id (rpp_representation p), br_media_type (rp_blob (rpp_representation p))}. strip v \<noteq> []"
  using assms
  by (auto simp: payload_ok_def representation_ok_def representation_make_def blob_ref_ok_def blob_ref_make_def
      thenE_Inr_iff bindE_Inr_iff check_texts_iff)

lemma segment_payload_make_created:
  assumes "segment_create P r = Inr r'" "verify_blob_bytes P (sg_content r) c ''segment'' = Inr ()"
  shows "segment_payload_make P \<lparr>sgp_segment = r', sgp_content = c\<rparr> = Inr \<lparr>sgp_segment = r', sgp_content = c\<rparr>"
proof -
  from assms(1) obtain i where i: "stable_urn P ''segment'' (segment_identity r) = Inr i"
    "segment_make P (r\<lparr>sg_segment_id := i\<rparr>) = Inr r'"
    by (auto simp: segment_create_def bindE_Inr_iff)
  then have r': "r' = r\<lparr>sg_segment_id := i\<rparr>" using segment_make_same by blast
  then have "segment_create P r' = Inr r'" using i by (simp add: segment_create_def)
  then show ?thesis using assms(2) r' by (simp add: segment_payload_make_def)
qed

text \<open>The record \<open>build_segment\<close> identifies.\<close>

definition built_record ::
    "platform \<Rightarrow> representation_payload \<Rightarrow> evidence_coordinate \<Rightarrow> int \<Rightarrow> string \<Rightarrow> int \<Rightarrow> int \<Rightarrow> string \<Rightarrow> string \<Rightarrow> string list
       \<Rightarrow> segment" where
  "built_record P p evidence ordinal kind start e segmenter_id policy_digest derivation =
     (let digest = sha256_digest P (py_slice (rpp_content p) start e); source = rpp_representation p in
      \<lparr>sg_segment_id = [], sg_source_item_id = rp_source_item_id source, sg_file_id = rp_file_id source,
       sg_representation_id = rp_representation_id source, sg_representation_start = start,
       sg_representation_end = e, sg_ordinal = ordinal, sg_kind = kind,
       sg_content = \<lparr>br_locator = ''cas+sha256://'' @ remove_prefix ''sha256:'' digest, br_digest = digest,
         br_byte_size = int (length (py_slice (rpp_content p) start e)), br_media_type = br_media_type (rp_blob source)\<rparr>,
       sg_evidence = evidence, sg_segmenter_id = segmenter_id, sg_policy_digest = policy_digest,
       sg_derivation = (''representation:'' @ rp_representation_id source) # derivation\<rparr>)"

lemma build_segment_total:
  assumes "payload_ok P trusted p" "hex_documented P" "payload_evidence trusted' p start e = Inr ev" "0 \<le> ordinal"
    "strip kind \<noteq> []" "strip segmenter_id \<noteq> []" "is_sha256 policy_digest"
    "is_ok (canonical P (segment_identity (built_record P p ev ordinal kind start e segmenter_id policy_digest derivation)))"
  shows "\<exists>i. build_segment P trusted' p ordinal kind start e segmenter_id policy_digest derivation None =
     Inr \<lparr>sgp_segment = (built_record P p ev ordinal kind start e segmenter_id policy_digest derivation)\<lparr>sg_segment_id := i\<rparr>,
          sgp_content = py_slice (rpp_content p) start e\<rparr> \<and>
     stable_urn P ''segment'' (segment_identity
       (built_record P p ev ordinal kind start e segmenter_id policy_digest derivation)) = Inr i"
proof -
  let ?r = "built_record P p ev ordinal kind start e segmenter_id policy_digest derivation"
  from assms(8) obtain b where b: "canonical P (segment_identity ?r) = Inr b" by (auto simp: is_ok_iff)
  have bounds: "0 \<le> start" "start \<le> e" "e \<le> int (length (rpp_content p))"
    using payload_evidence_found [OF assms(3)] by auto
  have "segment_fields_ok ?r"
    using payload_texts [OF assms(1)] assms(4-7) bounds py_slice_length [OF bounds]
    by (simp add: segment_fields_ok_def built_record_def Let_def)
  from segment_create_total [OF b this] obtain i where i: "segment_create P ?r = Inr (?r\<lparr>sg_segment_id := i\<rparr>)"
    "stable_urn P ''segment'' (segment_identity ?r) = Inr i" by blast
  have "verify_blob_bytes P (sg_content ?r) (py_slice (rpp_content p) start e) ''segment'' = Inr ()"
    by (simp add: verify_blob_bytes_iff built_record_def Let_def)
  from segment_payload_make_created [OF i(1) this] i assms(3)
    content_blob_ref_ok [OF assms(2), of "br_media_type (rp_blob (rpp_representation p))" "py_slice (rpp_content p) start e"]
    payload_texts [OF assms(1)]
  show ?thesis
    by (simp add: build_segment_def Let_def media_type_or_def built_record_def)
qed


lemma payload_evidence_ok:
  assumes "payload_ok P trusted p" "payload_evidence trusted p s e = Inr ev"
  shows "evidence_coordinate_ok trusted ev"
proof -
  from payload_evidence_found [OF assms(2)] obtain m where m: "m \<in> set (rp_evidence_mappings (rpp_representation p))"
    "resolve_evidence_mapping trusted m s e = Inr ev" by auto
  have "evidence_coordinate_ok trusted (em_evidence m)"
    using assms(1) m(1) by (auto simp: payload_ok_def representation_ok_def evidence_mapping_ok_def)
  with m(2) show ?thesis
    by (auto simp: resolve_evidence_mapping_def intro: evidence_coordinate_make_ok split: if_splits option.splits)
qed

lemma check_mappings_sorted:
  assumes "check_mappings d n k ms = Inr ()" "\<forall>m \<in> set ms. em_representation_start m \<le> em_representation_end m"
  shows "sorted_wrt (\<lambda>m m'. em_representation_end m \<le> em_representation_start m') ms \<and>
     (\<forall>m \<in> set ms. k \<le> em_representation_start m)"
  using assms
proof (induction ms arbitrary: k)
  case (Cons a ms)
  then have "k \<le> em_representation_start a" "check_mappings d n (em_representation_end a) ms = Inr ()"
    by (auto simp: thenE_Inr_iff refuse_Inr_iff)
  then show ?case using Cons.IH [of "em_representation_end a"] Cons.prems(2) by force
qed simp

section \<open>A representation of a whole file\<close>

text \<open>For the closed examples: bytes represented as they are, over one identity mapping.\<close>

definition whole_mapping :: "bytes \<Rightarrow> evidence_mapping" where
  "whole_mapping c = \<lparr>em_representation_start = 0, em_representation_end = int (length c),
     em_evidence = \<lparr>ec_coordinate_system = ''bytes'', ec_source_digest = sha256_digest reference_platform c,
       ec_start = Some 0, ec_end = Some (int (length c)), ec_page = None, ec_region = JNull\<rparr>,
     em_transformation = identity_transformation\<rparr>"

definition whole_fields :: "bytes \<Rightarrow> representation" where
  "whole_fields c = \<lparr>rp_representation_id = [], rp_source_item_id = ''item'', rp_file_id = ''file'',
     rp_file_digest = sha256_digest reference_platform c, rp_kind = ''text'',
     rp_blob = \<lparr>br_locator = ''cas'', br_digest = sha256_digest reference_platform c,
       br_byte_size = int (length c), br_media_type = ''text/plain''\<rparr>,
     rp_extractor_id = ''text'', rp_configuration_digest = sha256_digest reference_platform [],
     rp_evidence_mappings = [whole_mapping c], rp_warnings = []\<rparr>"

text \<open>A record under the identity its fields give, with the bytes its blob names.\<close>

definition identified :: "representation \<Rightarrow> bytes \<Rightarrow> representation_payload" where
  "identified r c = \<lparr>rpp_representation = r\<lparr>rp_representation_id := ''urn:docspec:'' @ ''representation'' @
       '':v1:'' @ sha256_hex reference_platform (ascii_bytes (emit (key_sorted (representation_identity r))))\<rparr>,
     rpp_content = c\<rparr>"

definition whole_payload :: "bytes \<Rightarrow> representation_payload" where
  "whole_payload c = identified (whole_fields c) c"

lemma whole_mapping_ok: "evidence_mapping_ok False (whole_mapping c)"
  by (simp add: whole_mapping_def evidence_mapping_ok_def evidence_mapping_make_def evidence_coordinate_ok_def
      evidence_coordinate_make_def check_texts_iff check_digest_iff coordinate_interval_bad_def when_given_def
      sha256_digest_form strip_eq_Nil_iff char_isspace_def identity_transformation_def thenE_Inr_iff refuse_Inr_iff)

lemma representation_identity_id [simp]: "representation_identity (r\<lparr>rp_representation_id := i\<rparr>) = representation_identity r"
  by (simp add: representation_identity_def)

lemma identified_payload_ok:
  assumes "blob_ref_ok (rp_blob r)" "br_byte_size (rp_blob r) = int (length c)"
    "br_digest (rp_blob r) = sha256_digest reference_platform c"
    "\<forall>m \<in> set (rp_evidence_mappings r). evidence_mapping_ok False m"
    "check_mappings (rp_file_digest r) (int (length c)) 0 (rp_evidence_mappings r) = Inr ()"
    "\<forall>v \<in> {rp_source_item_id r, rp_file_id r, rp_kind r, rp_extractor_id r}. strip v \<noteq> []"
    "\<forall>w \<in> set (rp_warnings r). strip w \<noteq> []" "is_sha256 (rp_file_digest r)" "is_sha256 (rp_configuration_digest r)"
  shows "payload_ok reference_platform False (identified r c)"
proof -
  let ?r = "rpp_representation (identified r c)"
  have urn: "stable_urn reference_platform ''representation'' (representation_identity r) = Inr (rp_representation_id ?r)"
    by (subst stable_urn_eq) (simp_all add: identified_def is_urn_part_def strip_eq_Nil_iff char_isspace_def)
  have "strip (rp_representation_id ?r) \<noteq> []"
    using urn_nonblank by (simp add: identified_def del: append_assoc)
  then have made: "representation_make reference_platform ?r = Inr ?r"
    using assms urn
    by (simp add: representation_make_def identified_def thenE_Inr_iff bindE_Inr_iff check_texts_iff check_digest_iff
        refuse_Inr_iff)
  then have "representation_create reference_platform ?r = Inr ?r"
    by (auto simp: representation_create_def representation_make_def bindE_Inr_iff thenE_Inr_iff refuse_Inr_iff)
  moreover have "verify_blob_bytes reference_platform (rp_blob ?r) c ''representation'' = Inr ()"
    using assms(2,3) by (simp add: verify_blob_bytes_iff identified_def)
  moreover have "representation_ok reference_platform False ?r"
    using made assms(1,4) by (simp add: representation_ok_def) (simp add: identified_def)
  ultimately show ?thesis by (simp add: payload_ok_def representation_payload_make_def) (simp add: identified_def)
qed

lemma whole_payload_ok: "payload_ok reference_platform False (whole_payload c)"
  unfolding whole_payload_def
proof (rule identified_payload_ok)
  show "blob_ref_ok (rp_blob (whole_fields c))"
    by (simp add: whole_fields_def blob_ref_ok_def blob_ref_make_def thenE_Inr_iff check_texts_iff check_digest_iff
        refuse_Inr_iff sha256_digest_form strip_eq_Nil_iff char_isspace_def)
  show "\<forall>m \<in> set (rp_evidence_mappings (whole_fields c)). evidence_mapping_ok False m"
    using whole_mapping_ok by (simp add: whole_fields_def)
qed (simp_all add: whole_fields_def whole_mapping_def identity_mapping_check_def sha256_digest_form strip_eq_Nil_iff
      char_isspace_def)

lemma whole_representation_ok: "representation_ok reference_platform False (rpp_representation (whole_payload c))"
  using whole_payload_ok by (simp add: payload_ok_def)

lemma whole_payload_evidence:
  assumes "0 \<le> s" "s \<le> e" "e \<le> int (length c)"
  shows "payload_evidence False (whole_payload c) s e =
     Inr ((em_evidence (whole_mapping c))\<lparr>ec_start := Some s, ec_end := Some e\<rparr>)"
  using assms
  by (simp add: payload_evidence_def whole_payload_def identified_def whole_fields_def evidence_for_range_def whole_mapping_def
      resolve_evidence_mapping_def evidence_coordinate_make_def check_texts_iff check_digest_iff sha256_digest_form
      strip_eq_Nil_iff char_isspace_def coordinate_interval_bad_def when_given_def thenE_Inr_iff refuse_Inr_iff)

lemma whole_payload_verified: "verify_representation_evidence reference_platform None (whole_payload c) c = Inr ()"
  by (simp add: verify_representation_evidence_def verify_representation_mapping_def whole_payload_def identified_def whole_fields_def
      whole_mapping_def)


section \<open>Properties\<close>

text \<open>
  C1. What \<open>verify_segment_evidence\<close> accepts is source: a verified segment lies in one evidence
  mapping, its evidence names the captured bytes by their digest, and its content is the exact
  source range the evidence coordinates give (for a derived mapping, what the resolver returns for
  the whole mapping). This holds for a segment reloaded from storage, whoever built it.
\<close>

theorem verified_segment_in_source:
  assumes "payload_ok P trusted p" "verify_segment_evidence P trusted' derived s p src = Inr ()"
  shows "\<exists>m \<in> set (rp_evidence_mappings (rpp_representation p)).
     em_representation_start m \<le> sg_representation_start (sgp_segment s) \<and>
     sg_representation_end (sgp_segment s) \<le> em_representation_end m \<and>
     ec_source_digest (sg_evidence (sgp_segment s)) = sha256_digest P src \<and>
     evidence_of_source derived m (sg_evidence (sgp_segment s)) (sgp_content s) src"
  by (rule verified_segment_source [OF assms])

definition hello :: bytes where
  "hello = [72, 101, 108, 108, 111]"

definition hello_segment :: segment_payload where
  "hello_segment = \<lparr>sgp_segment = built_record reference_platform (whole_payload hello)
       ((em_evidence (whole_mapping hello))\<lparr>ec_start := Some 1, ec_end := Some 3\<rparr>) 0 ''text'' 1 3 ''segmenter''
       (sha256_digest reference_platform []) [],
     sgp_content = [101, 108]\<rparr>"

lemma hello_built:
  "\<exists>i. build_segment reference_platform False (whole_payload hello) 0 ''text'' 1 3 ''segmenter''
       (sha256_digest reference_platform []) [] None =
     Inr (hello_segment\<lparr>sgp_segment := (sgp_segment hello_segment)\<lparr>sg_segment_id := i\<rparr>\<rparr>)"
proof -
  have ev: "payload_evidence False (whole_payload hello) 1 3 =
      Inr ((em_evidence (whole_mapping hello))\<lparr>ec_start := Some 1, ec_end := Some 3\<rparr>)"
    by (rule whole_payload_evidence) (simp_all add: hello_def)
  have slice: "py_slice (rpp_content (whole_payload hello)) 1 3 = [101, 108]"
    by (simp add: whole_payload_def identified_def hello_def py_slice_inside slice_of_def)
  show ?thesis
    using build_segment_total [OF whole_payload_ok reference_hex_documented ev, of 0 "''text''" "''segmenter''"
      "sha256_digest reference_platform []" "[]"]
    by (auto simp: slice hello_segment_def sha256_digest_form strip_eq_Nil_iff char_isspace_def is_ok_iff)
qed

theorem verified_segment_in_source_witness:
  "sgp_content hello_segment = slice_of hello 1 3 \<and>
     verify_segment_evidence reference_platform False None hello_segment (whole_payload hello) hello = Inr ()"
proof -
  from hello_built obtain i where built: "build_segment reference_platform False (whole_payload hello) 0 ''text'' 1 3 ''segmenter''
      (sha256_digest reference_platform []) [] None = Inr (hello_segment\<lparr>sgp_segment := (sgp_segment hello_segment)\<lparr>sg_segment_id := i\<rparr>\<rparr>)"
    by blast
  then have "verify_segment_representation False hello_segment (whole_payload hello) = Inr ()"
    using build_segment_verified [OF built] by (simp add: verify_segment_representation_def)
  then have v: "verify_segment_evidence reference_platform False None hello_segment (whole_payload hello) hello = Inr ()"
    using whole_payload_verified by (simp add: verify_segment_evidence_def)
  from verified_segment_in_source [OF whole_payload_ok v] obtain m
    where m: "m \<in> set (rp_evidence_mappings (rpp_representation (whole_payload hello)))"
      "evidence_of_source None m (sg_evidence (sgp_segment hello_segment)) (sgp_content hello_segment) hello" by blast
  moreover have "sg_evidence (sgp_segment hello_segment) = (em_evidence (whole_mapping hello))\<lparr>ec_start := Some 1, ec_end := Some 3\<rparr>"
    by (simp add: hello_segment_def built_record_def Let_def)
  moreover have "em_transformation m = identity_transformation"
    using m(1) by (simp add: whole_payload_def identified_def whole_fields_def whole_mapping_def)
  ultimately show ?thesis using v by (simp add: evidence_of_source_def)
qed

text \<open>
  C12. \<open>build_segment\<close> keeps that promise: over a representation verified against its source, every
  segment it returns is accepted by \<open>verify_segment_evidence\<close>, holds exactly the bytes of the range
  asked for, and reads back from its own JSON as the same record.
\<close>

theorem built_segment_verifies:
  assumes "payload_ok P trusted p" "verify_representation_evidence P derived p src = Inr ()"
    "build_segment P trusted p ordinal kind start e segmenter_id policy_digest derivation media_type = Inr s"
  shows "verify_segment_evidence P trusted derived s p src = Inr () \<and>
     sgp_content s = slice_of (rpp_content p) (nat start) (nat e) \<and> int (length (sgp_content s)) = e - start \<and>
     segment_from P trusted (segment_json (sgp_segment s)) = Inr (sgp_segment s)"
proof -
  from build_segment_parts [OF assms(3)] obtain i reference evidence where b:
    "sgp_content s = py_slice (rpp_content p) start e" "payload_evidence trusted p start e = Inr evidence"
    "sgp_segment s = \<lparr>sg_segment_id = i, sg_source_item_id = rp_source_item_id (rpp_representation p),
           sg_file_id = rp_file_id (rpp_representation p), sg_representation_id = rp_representation_id (rpp_representation p),
           sg_representation_start = start, sg_representation_end = e, sg_ordinal = ordinal, sg_kind = kind,
           sg_content = reference, sg_evidence = evidence, sg_segmenter_id = segmenter_id,
           sg_policy_digest = policy_digest,
           sg_derivation = (''representation:'' @ rp_representation_id (rpp_representation p)) # derivation\<rparr>"
    "segment_make P (sgp_segment s) = Inr (sgp_segment s)" "blob_ref_ok reference" by metis
  have bounds: "0 \<le> start" "start \<le> e" "e \<le> int (length (rpp_content p))"
    using payload_evidence_found [OF b(2)] by auto
  have "segment_ok P trusted (sgp_segment s)"
    using b(3-5) payload_evidence_ok [OF assms(1) b(2)] by (simp add: segment_ok_def)
  then show ?thesis
    using build_segment_verified [OF assms(3)] assms(2) b(1) py_slice_inside [OF bounds] py_slice_length [OF bounds]
      segment.from_to by (simp add: verify_segment_evidence_def)
qed

theorem built_segment_verifies_witness:
  "\<exists>s. build_segment reference_platform False (whole_payload hello) 0 ''text'' 1 3 ''segmenter''
       (sha256_digest reference_platform []) [] None = Inr s \<and> sgp_content s = slice_of hello 1 3 \<and>
     segment_from reference_platform False (segment_json (sgp_segment s)) = Inr (sgp_segment s)"
proof -
  from hello_built obtain s where s: "build_segment reference_platform False (whole_payload hello) 0 ''text'' 1 3
      ''segmenter'' (sha256_digest reference_platform []) [] None = Inr s" by blast
  from built_segment_verifies [OF whole_payload_ok whole_payload_verified s] s show ?thesis
    by (auto simp: whole_payload_def identified_def)
qed

text \<open>
  C35. A representation read back from storage is well formed: its mappings are in order, do not
  overlap and lie inside the bytes of its blob, each names the captured file by its digest, an
  identity mapping covers as many source bytes as representation bytes, its identity is the URN of
  its fields, and writing it and reading it again returns it.
\<close>

theorem representation_admitted:
  assumes "representation_from P trusted v = Inr r"
  shows "sorted_wrt (\<lambda>m m'. em_representation_end m \<le> em_representation_start m') (rp_evidence_mappings r) \<and>
     (\<forall>m \<in> set (rp_evidence_mappings r).
        0 \<le> em_representation_start m \<and> em_representation_start m \<le> em_representation_end m \<and>
        em_representation_end m \<le> br_byte_size (rp_blob r) \<and> ec_source_digest (em_evidence m) = rp_file_digest r \<and>
        (em_transformation m = identity_transformation \<longrightarrow> (\<exists>a b. ec_start (em_evidence m) = Some a \<and>
           ec_end (em_evidence m) = Some b \<and> 0 \<le> a \<and> b - a = em_representation_end m - em_representation_start m))) \<and>
     stable_urn P ''representation'' (representation_identity r) = Inr (rp_representation_id r) \<and>
     representation_from P trusted (representation_json r) = Inr r"
proof -
  have ok: "representation_ok P trusted r" by (rule representation.from_ok [OF assms])
  have le: "\<forall>m \<in> set (rp_evidence_mappings r). em_representation_start m \<le> em_representation_end m"
    using ok mapping_okD(1) by (auto simp: representation_ok_def)
  have parts: "check_mappings (rp_file_digest r) (br_byte_size (rp_blob r)) 0 (rp_evidence_mappings r) = Inr ()"
    "stable_urn P ''representation'' (representation_identity r) = Inr (rp_representation_id r)"
    using ok by (auto simp: representation_ok_def representation_make_def thenE_Inr_iff bindE_Inr_iff refuse_Inr_iff)
  have coord: "evidence_mapping_ok trusted m" if "m \<in> set (rp_evidence_mappings r)" for m
    using ok that by (simp add: representation_ok_def)
  have "\<exists>a b. ec_start (em_evidence m) = Some a \<and> ec_end (em_evidence m) = Some b \<and> 0 \<le> a \<and>
      b - a = em_representation_end m - em_representation_start m"
    if "m \<in> set (rp_evidence_mappings r)" "identity_mapping_check m = Inr ()" for m
    using that(2) mapping_okD(2) [OF coord [OF that(1)]]
    by (auto simp: identity_mapping_check_def refuse_Inr_iff split: option.splits)
  then show ?thesis
    using check_mappings_member [OF parts(1) _ _ le] check_mappings_sorted [OF parts(1) le] parts(2) le
      representation.from_to [OF ok] by (intro conjI ballI) auto
qed

theorem representation_admitted_witness:
  "representation_from reference_platform False (representation_json (rpp_representation (whole_payload hello)))
     = Inr (rpp_representation (whole_payload hello)) \<and>
   em_representation_end (whole_mapping hello) \<le> br_byte_size (rp_blob (rpp_representation (whole_payload hello)))"
proof -
  have r: "representation_from reference_platform False (representation_json (rpp_representation (whole_payload hello)))
     = Inr (rpp_representation (whole_payload hello))"
    by (rule representation.from_to [OF whole_representation_ok])
  have "whole_mapping hello \<in> set (rp_evidence_mappings (rpp_representation (whole_payload hello)))"
    by (simp add: whole_payload_def identified_def whole_fields_def)
  with representation_admitted [OF r] r show ?thesis by blast
qed

end
