(* ===== verification/Bounded_Segmentation.thy ===== *)
theory Bounded_Segmentation
  imports Bounding Artifacts Key_Order
begin

text \<open>
  The record side of src/src/docspec/processing/bounded_segmentation.py: the policy identity, the
  segmenter over a representation payload, and its receipt. The windows are the character ranges of
  the identity evidence mappings; boundaries are those of \<^theory_text>\<open>Bounding\<close>. The theorems carry
  the account and the exactness of the text segmentation over to the segments that are stored, and
  join them to the evidence chain of \<^theory_text>\<open>Artifacts\<close>.
\<close>

section \<open>Settings and their identity\<close>

definition bounded_segmenter_id :: string where
  "bounded_segmenter_id = ''docspec.bounded-structure-overlap/v1''"

definition bounded_segment_kind :: string where
  "bounded_segment_kind = ''bounded-text''"

definition bounded_text_kinds :: "string list" where
  "bounded_text_kinds = [''text'', ''html'', ''xml'']"

text \<open>\<open>BoundedSegmentSettings.for_counter(counter)\<close> with its defaults.\<close>

definition settings_for_counter :: "counter \<Rightarrow> bounded_settings" where
  "settings_for_counter c = \<lparr>bs_policy = ''structure-overlap'', bs_policy_version = ''structure-overlap-v1'',
     bs_max_tokens = 1800, bs_min_tokens = 720, bs_overlap_tokens = 80, bs_tokenizer = ct_name c,
     bs_tokenizer_version = ct_version c, bs_boundary_method = ''source-native-oversized-overlap''\<rparr>"

definition settings_identity :: "bounded_settings \<Rightarrow> json" where
  "settings_identity s = JObj [(''policy'', JStr (bs_policy s)), (''policyVersion'', JStr (bs_policy_version s)),
     (''maxTokens'', JInt (bs_max_tokens s)), (''minTokens'', JInt (bs_min_tokens s)),
     (''overlapTokens'', JInt (bs_overlap_tokens s)), (''tokenizer'', JStr (bs_tokenizer s)),
     (''tokenizerVersion'', JStr (bs_tokenizer_version s)), (''boundaryMethod'', JStr (bs_boundary_method s)),
     (''coordinates'', JStr ''utf8-byte-range'')]"

definition policy_digest :: "platform \<Rightarrow> bounded_settings \<Rightarrow> string result" where
  "policy_digest P s = identity_digest P (settings_identity s)"

section \<open>Receipts\<close>

definition excluded_json :: "excluded_region \<Rightarrow> json" where
  "excluded_json x = JObj [(''start'', JInt (xr_start x)), (''end'', JInt (xr_end x)),
     (''reasonCode'', JStr (xr_reason_code x)), (''reason'', JStr (xr_reason x))]"

definition coverage_json :: "segment_coverage \<Rightarrow> json" where
  "coverage_json c = JObj [(''representationByteTotal'', JInt (cv_representation_bytes c)),
     (''segmentedByteTotal'', JInt (cv_covered_bytes c)), (''duplicatedByteTotal'', JInt (cv_duplicated_bytes c)),
     (''excludedByteTotal'', JInt (cv_excluded_bytes c)), (''uncoveredByteTotal'', JInt (cv_uncovered_bytes c)),
     (''segmentCount'', JInt (cv_segment_count c))]"

record segmentation_receipt =
  rcp_representation_id :: string
  rcp_segmenter_id :: string
  rcp_policy_digest :: string
  rcp_segment_ids :: "string list"
  rcp_excluded :: "excluded_region list"
  rcp_coverage :: segment_coverage

definition receipt_make :: "segmentation_receipt \<Rightarrow> segmentation_receipt result" where
  "receipt_make r =
     thenE (check_texts [(''segmentation receipt representation_id'', rcp_representation_id r),
       (''segmentation receipt segmenter_id'', rcp_segmenter_id r)])
    (thenE (check_digest (rcp_policy_digest r) ''segmentation receipt policy_digest'')
    (thenE (check_texts (map (\<lambda>i. (''segmentation receipt segment_id'', i)) (rcp_segment_ids r)))
    (thenE (refuse (\<not> distinct (rcp_segment_ids r))
              (ValueError ''segmentation receipt segment identities must be distinct'')) (Inr r))))"

definition receipt_format :: string where
  "receipt_format = ''docspec-bounded-segmentation-receipt''"

definition receipt_format_version :: string where
  "receipt_format_version = ''1.0''"

definition receipt_json :: "segmentation_receipt \<Rightarrow> json" where
  "receipt_json r = JObj [(''format'', JStr receipt_format), (''formatVersion'', JStr receipt_format_version),
     (''representationId'', JStr (rcp_representation_id r)), (''segmenterId'', JStr (rcp_segmenter_id r)),
     (''policyDigest'', JStr (rcp_policy_digest r)), (''segments'', JArr (map JStr (rcp_segment_ids r))),
     (''excludedRanges'', JArr (map excluded_json (rcp_excluded r))), (''coverage'', coverage_json (rcp_coverage r))]"

text \<open>\<open>item[key]\<close> of an object, absent keys refused.\<close>

definition required :: "object \<Rightarrow> string \<Rightarrow> json result" where
  "required kvs k = (case map_of kvs k of None \<Rightarrow> Inl (KeyError k) | Some v \<Rightarrow> Inr v)"

definition required_int :: "object \<Rightarrow> string \<Rightarrow> int result" where
  "required_int kvs k = bindE (required kvs k) (\<lambda>v. case v of JInt i \<Rightarrow> Inr i | _ \<Rightarrow> Inl (IllTyped k))"

definition required_text :: "object \<Rightarrow> string \<Rightarrow> string result" where
  "required_text kvs k = bindE (required kvs k) (\<lambda>v. case v of JStr s \<Rightarrow> Inr s | _ \<Rightarrow> Inl (IllTyped k))"

text \<open>The \<open>isinstance\<close> test on the offsets; a boolean, which is an \<open>int\<close> there, is not modelled.\<close>

definition as_offset :: "json \<Rightarrow> int result" where
  "as_offset v = (case v of JInt i \<Rightarrow> Inr i | JBool _ \<Rightarrow> Inl (IllTyped ''offset'')
     | _ \<Rightarrow> Inl (ValueError ''an excluded range must carry integer byte offsets''))"

definition excluded_from :: "json \<Rightarrow> excluded_region result" where
  "excluded_from item = (case item of
     JObj kvs \<Rightarrow> bindE (required kvs ''start'') (\<lambda>s. bindE (required kvs ''end'') (\<lambda>e.
       bindE (required_text kvs ''reasonCode'') (\<lambda>code. bindE (required_text kvs ''reason'') (\<lambda>reason.
       bindE (as_offset s) (\<lambda>start. bindE (as_offset e) (\<lambda>e.
         excluded_check \<lparr>xr_start = start, xr_end = e, xr_reason_code = code, xr_reason = reason\<rparr>))))))
   | _ \<Rightarrow> Inl (IllTyped ''excludedRanges''))"

definition coverage_from :: "object \<Rightarrow> segment_coverage result" where
  "coverage_from kvs =
     bindE (required_int kvs ''representationByteTotal'') (\<lambda>total.
     bindE (required_int kvs ''segmentedByteTotal'') (\<lambda>segmented.
     bindE (required_int kvs ''duplicatedByteTotal'') (\<lambda>duplicated.
     bindE (required_int kvs ''excludedByteTotal'') (\<lambda>excluded.
     bindE (required_int kvs ''uncoveredByteTotal'') (\<lambda>uncovered.
     bindE (required_int kvs ''segmentCount'') (\<lambda>count.
       Inr \<lparr>cv_representation_bytes = total, cv_covered_bytes = segmented, cv_duplicated_bytes = duplicated,
            cv_excluded_bytes = excluded, cv_uncovered_bytes = uncovered, cv_segment_count = count\<rparr>))))))"

definition receipt_keys :: "string list" where
  "receipt_keys = [''format'', ''formatVersion'', ''representationId'', ''segmenterId'', ''policyDigest'',
     ''segments'', ''excludedRanges'', ''coverage'']"

definition receipt_from :: "json \<Rightarrow> segmentation_receipt result" where
  "receipt_from value = (case value of
     JObj kvs \<Rightarrow>
       if set (map fst kvs) \<noteq> set receipt_keys
       then Inl (ValueError ''bounded segmentation receipt has an invalid closed shape'')
       else if dict_get kvs ''format'' \<noteq> JStr receipt_format
       then Inl (ValueError ''bounded segmentation receipt format is not supported'')
       else if dict_get kvs ''formatVersion'' \<noteq> JStr receipt_format_version
       then Inl (ValueError ''bounded segmentation receipt format version is not supported'')
       else (case (dict_get kvs ''segments'', dict_get kvs ''excludedRanges'') of
          (JArr segments, JArr excluded) \<Rightarrow> (case dict_get kvs ''coverage'' of
             JObj cov \<Rightarrow>
               bindE (get_text kvs ''representationId'') (\<lambda>representation_id.
               bindE (get_text kvs ''segmenterId'') (\<lambda>segmenter_id.
               bindE (get_text kvs ''policyDigest'') (\<lambda>digest.
               bindE (mapE as_text segments) (\<lambda>segment_ids.
               bindE (mapE excluded_from excluded) (\<lambda>excluded.
               bindE (coverage_from cov) (\<lambda>coverage.
                 receipt_make \<lparr>rcp_representation_id = representation_id, rcp_segmenter_id = segmenter_id,
                   rcp_policy_digest = digest, rcp_segment_ids = segment_ids, rcp_excluded = excluded,
                   rcp_coverage = coverage\<rparr>))))))
           | _ \<Rightarrow> Inl (ValueError ''bounded segmentation receipt coverage must be an object''))
        | _ \<Rightarrow> Inl (ValueError ''bounded segmentation receipt arrays must be arrays''))
   | _ \<Rightarrow> Inl (ValueError ''bounded segmentation receipt has an invalid closed shape''))"

definition receipt_digest :: "platform \<Rightarrow> segmentation_receipt \<Rightarrow> string result" where
  "receipt_digest P r = identity_digest P (receipt_json r)"

definition receipt_ok :: "segmentation_receipt \<Rightarrow> bool" where
  "receipt_ok r \<longleftrightarrow> receipt_make r = Inr r \<and> (\<forall>x \<in> set (rcp_excluded r). excluded_check x = Inr x)"

lemma required_simps [wire_simps]:
  "required_int kvs k = bindE (required kvs k) (\<lambda>v. case v of JInt i \<Rightarrow> Inr i | _ \<Rightarrow> Inl (IllTyped k))"
  "required_text kvs k = bindE (required kvs k) (\<lambda>v. case v of JStr s \<Rightarrow> Inr s | _ \<Rightarrow> Inl (IllTyped k))"
  "required ((k', v) # kvs) k = (if k' = k then Inr v else required kvs k)"
  by (simp_all add: required_int_def required_text_def required_def)

lemma excluded_check_same: "excluded_check x = Inr y \<Longrightarrow> y = x"
  by (auto simp: excluded_check_def thenE_Inr_iff bindE_Inr_iff)

lemma excluded_read: "excluded_from (excluded_json x) = excluded_check x"
  by (cases x) (simp add: excluded_from_def excluded_json_def as_offset_def wire_simps)

lemma excluded_from_ok: "excluded_from v = Inr x \<Longrightarrow> excluded_check x = Inr x"
proof -
  assume "excluded_from v = Inr x"
  then obtain y where "excluded_check y = Inr x"
    by (cases v) (auto simp: excluded_from_def bindE_Inr_iff)
  then show ?thesis using excluded_check_same by blast
qed

interpretation excluded: wire "\<lambda>x. excluded_check x = Inr x" excluded_json excluded_from
  by (rule wireI [where construct = excluded_check]) (simp_all add: excluded_read excluded_from_ok)

lemma coverage_read: "coverage_json c = JObj kvs \<Longrightarrow> coverage_from kvs = Inr c"
  by (cases c) (auto simp: coverage_json_def coverage_from_def wire_simps)

lemma receipt_make_same: "receipt_make r = Inr r' \<Longrightarrow> r' = r"
  by (auto simp: receipt_make_def thenE_Inr_iff)

lemma receipt_read: "\<forall>x \<in> set (rcp_excluded r). excluded_check x = Inr x \<Longrightarrow> receipt_from (receipt_json r) = receipt_make r"
proof -
  assume x: "\<forall>x \<in> set (rcp_excluded r). excluded_check x = Inr x"
  obtain cov where cov: "coverage_json (rcp_coverage r) = JObj cov" by (simp add: coverage_json_def)
  show ?thesis using excluded.from_to_list [OF x] coverage_read [OF cov] cov
    by (cases r) (simp add: receipt_from_def receipt_json_def receipt_keys_def wire_simps)
qed

lemma receipt_from_ok: "receipt_from v = Inr r \<Longrightarrow> receipt_ok r"
  using receipt_make_same
  by (fastforce simp: receipt_from_def bindE_Inr_iff receipt_ok_def dest: excluded.from_list_ok
      split: json.splits if_splits)

interpretation receipt: wire receipt_ok receipt_json receipt_from
  by (rule wireI [where construct = receipt_make])
    (auto simp: receipt_ok_def receipt_read dest: receipt_from_ok [unfolded receipt_ok_def])


section \<open>The segmenter over a representation\<close>

text \<open>\<open>bisect_left\<close> on the ascending offsets: how many are below.\<close>

definition char_index :: "nat list \<Rightarrow> int \<Rightarrow> string \<Rightarrow> nat result" where
  "char_index offsets byte_offset label =
     (let index = length (takeWhile (\<lambda>q. int q < byte_offset) offsets) in
      if length offsets \<le> index \<or> int (offsets ! index) \<noteq> byte_offset
      then Inl (BoundedSegmentationError (label @ '' does not fall on a UTF-8 character boundary''))
      else Inr index)"

definition mapping_window :: "nat list \<Rightarrow> evidence_mapping \<Rightarrow> span result" where
  "mapping_window offsets m =
     thenE (refuse (em_transformation m \<noteq> identity_transformation)
              (BoundedSegmentationError (''bounded segmentation requires reversible identity byte-slice evidence; this representation carries a ''
                 @ em_transformation m @ '' mapping'')))
       (bindE (char_index offsets (em_representation_start m) ''an evidence mapping start'') (\<lambda>a.
        bindE (char_index offsets (em_representation_end m) ''an evidence mapping end'') (\<lambda>b. Inr (a, b))))"

definition identity_windows :: "representation_payload \<Rightarrow> nat list \<Rightarrow> span list result" where
  "identity_windows p offsets =
     (let mappings = rp_evidence_mappings (rpp_representation p) in
      thenE (refuse (mappings = [])
               (BoundedSegmentationError ''bounded segmentation requires at least one evidence mapping''))
        (mapE (mapping_window offsets) mappings))"

record bounded_segmenter =
  bsg_counter :: counter
  bsg_settings :: bounded_settings

definition segmenter_make :: "counter \<Rightarrow> bounded_settings option \<Rightarrow> bounded_segmenter result" where
  "segmenter_make c given =
     bindE (case given of Some s \<Rightarrow> Inr s
            | None \<Rightarrow> let s = settings_for_counter c in thenE (settings_check s) (Inr s)) (\<lambda>resolved.
       thenE (require_matching_counter resolved c) (Inr \<lparr>bsg_counter = c, bsg_settings = resolved\<rparr>))"

definition segmenter_policy_digest :: "platform \<Rightarrow> bounded_segmenter \<Rightarrow> string result" where
  "segmenter_policy_digest P g =
     thenE (require_matching_counter (bsg_settings g) (bsg_counter g)) (policy_digest P (bsg_settings g))"

definition selected_identity :: "platform \<Rightarrow> bounded_segmenter \<Rightarrow> (string \<times> string) result" where
  "selected_identity P g = bindE (segmenter_policy_digest P g) (\<lambda>d. Inr (bounded_segmenter_id, d))"

record bounded_segment =
  bs_payload :: segment_payload
  bs_context :: "utext list"
  bs_token_count :: int

record bounded_segmentation =
  bsn_representation_id :: string
  bsn_segmenter_id :: string
  bsn_settings :: bounded_settings
  bsn_segments :: "bounded_segment list"
  bsn_excluded :: "excluded_region list"
  bsn_coverage :: segment_coverage

definition bounded_segment_of ::
    "platform \<Rightarrow> bool \<Rightarrow> bounded_settings \<Rightarrow> representation_payload \<Rightarrow> nat \<times> text_span \<Rightarrow> bounded_segment result" where
  "bounded_segment_of P trusted s p item = (case item of (ordinal, x) \<Rightarrow>
     bindE (policy_digest P s) (\<lambda>digest.
     bindE (build_segment P trusted p (int ordinal) bounded_segment_kind (int (ts_start x)) (int (ts_end x))
              bounded_segmenter_id digest [''source-native-text'', ''bounded:'' @ bs_policy s] None) (\<lambda>payload.
       Inr \<lparr>bs_payload = payload, bs_context = ts_headings x, bs_token_count = ts_token_count x\<rparr>)))"

definition segment_bounded ::
    "platform \<Rightarrow> bool \<Rightarrow> bounded_segmenter \<Rightarrow> representation_payload \<Rightarrow> bounded_segmentation result" where
  "segment_bounded P trusted g p =
     (let s = bsg_settings g; r = rpp_representation p in
      if rp_kind r \<notin> set bounded_text_kinds
      then Inl (BoundedSegmentationError (''bounded segmentation does not accept representation kind '' @ rp_kind r))
      else bindE (decode_utf8 (rpp_content p) ''bounded segmentation representation'') (\<lambda>t.
           let offsets = utf8_byte_offsets t in
           bindE (identity_windows p offsets) (\<lambda>windows.
           bindE (bound s (bsg_counter g) t offsets windows (length (rpp_content p)) (rp_representation_id r)) (\<lambda>bounded.
           bindE (mapE (bounded_segment_of P trusted s p) (enumerate 0 (bt_spans bounded))) (\<lambda>segments.
             Inr \<lparr>bsn_representation_id = rp_representation_id r, bsn_segmenter_id = bounded_segmenter_id,
                  bsn_settings = s, bsn_segments = segments, bsn_excluded = bt_excluded bounded,
                  bsn_coverage = bt_coverage bounded\<rparr>)))))"

definition segmenter_segment ::
    "platform \<Rightarrow> bool \<Rightarrow> bounded_segmenter \<Rightarrow> representation_payload \<Rightarrow> segment_payload list result" where
  "segmenter_segment P trusted g p =
     bindE (segment_bounded P trusted g p) (\<lambda>n. Inr (map bs_payload (bsn_segments n)))"

definition segmentation_receipt_of :: "platform \<Rightarrow> bounded_segmentation \<Rightarrow> segmentation_receipt result" where
  "segmentation_receipt_of P n =
     bindE (policy_digest P (bsn_settings n)) (\<lambda>digest.
       receipt_make \<lparr>rcp_representation_id = bsn_representation_id n, rcp_segmenter_id = bsn_segmenter_id n,
         rcp_policy_digest = digest,
         rcp_segment_ids = map (\<lambda>x. sg_segment_id (sgp_segment (bs_payload x))) (bsn_segments n),
         rcp_excluded = bsn_excluded n, rcp_coverage = bsn_coverage n\<rparr>)"

section \<open>Windows\<close>

lemma char_index_iff:
  "char_index (utf8_byte_offsets t) k l = Inr i \<longleftrightarrow> i \<le> length t \<and> int (utf8_byte_offsets t ! i) = k"
proof -
  let ?o = "utf8_byte_offsets t"
  define n where "n = length (takeWhile (\<lambda>q. int q < k) ?o)"
  have hit: "j = n" if "j \<le> length t" "int (?o ! j) = k" for j
  proof (rule antisym)
    show "j \<le> n"
    proof (rule ccontr)
      assume "\<not> j \<le> n"
      then have "n < j" by simp
      then have less: "?o ! n < ?o ! j" using that(1) by (intro offsets_less) auto
      have "n < length ?o" using \<open>n < j\<close> that(1) by (simp add: offsets_length)
      then have "\<not> int (?o ! n) < k" unfolding n_def by (rule nth_length_takeWhile)
      with less that(2) show False by simp
    qed
    show "n \<le> j"
    proof (rule ccontr)
      assume "\<not> n \<le> j"
      then have jn: "j < length (takeWhile (\<lambda>q. int q < k) ?o)" by (simp add: n_def)
      then have "takeWhile (\<lambda>q. int q < k) ?o ! j \<in> set (takeWhile (\<lambda>q. int q < k) ?o)" by (rule nth_mem)
      then have "int (takeWhile (\<lambda>q. int q < k) ?o ! j) < k" by (blast dest: set_takeWhileD)
      with that(2) takeWhile_nth [OF jn] show False by simp
    qed
  qed
  have "i = n" if "i \<le> length t \<and> int (?o ! i) = k" using hit that by blast
  then show ?thesis unfolding char_index_def Let_def n_def [symmetric] by auto
qed

lemma mapping_window_iff:
  "mapping_window (utf8_byte_offsets t) m = Inr w \<longleftrightarrow> em_transformation m = identity_transformation \<and>
     fst w \<le> length t \<and> snd w \<le> length t \<and> em_representation_start m = int (utf8_byte_offsets t ! fst w) \<and>
     em_representation_end m = int (utf8_byte_offsets t ! snd w)"
  by (cases w) (auto simp: mapping_window_def thenE_Inr_iff bindE_Inr_iff refuse_Inr_iff char_index_iff)

lemma identity_windows_iff:
  "identity_windows p (utf8_byte_offsets t) = Inr ws \<longleftrightarrow> rp_evidence_mappings (rpp_representation p) \<noteq> [] \<and>
     list_all2 (\<lambda>m w. mapping_window (utf8_byte_offsets t) m = Inr w) (rp_evidence_mappings (rpp_representation p)) ws"
  by (simp add: identity_windows_def Let_def thenE_Inr_iff refuse_Inr_iff mapE_Inr_iff)


text \<open>The windows of a well-formed payload are legal and in order, and give its mappings back in bytes.\<close>

lemma window_mappings:
  assumes "payload_ok P trusted p" "rpp_content p = utf8_encode t" "identity_windows p (utf8_byte_offsets t) = Inr ws"
  shows "legal_windows t ws" "ordered_windows ws"
    "map (\<lambda>m. (em_representation_start m, em_representation_end m)) (rp_evidence_mappings (rpp_representation p))
       = map (\<lambda>w. (int (fst (byte_span t w)), int (snd (byte_span t w)))) ws"
proof -
  let ?ms = "rp_evidence_mappings (rpp_representation p)"
  have all: "list_all2 (\<lambda>m w. mapping_window (utf8_byte_offsets t) m = Inr w) ?ms ws"
    using assms(3) by (simp add: identity_windows_iff)
  then have len: "length ?ms = length ws" by (rule list_all2_lengthD)
  have at: "mapping_window (utf8_byte_offsets t) (?ms ! i) = Inr (ws ! i)" if "i < length ws" for i
    using list_all2_nthD2 [OF all that] .
  show map: "map (\<lambda>m. (em_representation_start m, em_representation_end m)) ?ms
       = map (\<lambda>w. (int (fst (byte_span t w)), int (snd (byte_span t w)))) ws"
    by (rule nth_equalityI) (use len at in \<open>auto simp: mapping_window_iff byte_span_def\<close>)
  have le: "\<forall>m \<in> set ?ms. em_representation_start m \<le> em_representation_end m"
    using payload_mapping [OF assms(1)] by blast
  have legal: "fst (ws ! i) \<le> snd (ws ! i) \<and> snd (ws ! i) \<le> length t" if i: "i < length ws" for i
  proof -
    have "em_representation_start (?ms ! i) \<le> em_representation_end (?ms ! i)" using le i len by simp
    then have m: "fst (ws ! i) \<le> length t" "snd (ws ! i) \<le> length t"
      "utf8_byte_offsets t ! fst (ws ! i) \<le> utf8_byte_offsets t ! snd (ws ! i)"
      using at [OF i] by (simp_all add: mapping_window_iff)
    then have "\<not> snd (ws ! i) < fst (ws ! i)" using offsets_less [of "snd (ws ! i)" "fst (ws ! i)" t] by auto
    then show ?thesis using m by simp
  qed
  then show "legal_windows t ws" by (fastforce simp: in_set_conv_nth)
  have "check_mappings (rp_file_digest (rpp_representation p)) (br_byte_size (rp_blob (rpp_representation p))) 0 ?ms = Inr ()"
    using assms(1) by (auto simp: payload_ok_def representation_ok_def representation_make_def thenE_Inr_iff bindE_Inr_iff)
  from check_mappings_sorted [OF this le]
  have sorted: "sorted_wrt (\<lambda>m m'. em_representation_end m \<le> em_representation_start m') ?ms" by blast
  show "ordered_windows ws"
    unfolding sorted_wrt_iff_nth_less
  proof (intro allI impI)
    fix i j assume ij: "i < j" "j < length ws"
    then have "em_representation_end (?ms ! i) \<le> em_representation_start (?ms ! j)"
      using sorted len by (simp add: sorted_wrt_iff_nth_less)
    then have "utf8_byte_offsets t ! snd (ws ! i) \<le> utf8_byte_offsets t ! fst (ws ! j)"
      using at [of i] at [of j] ij by (simp add: mapping_window_iff)
    then show "snd (ws ! i) \<le> fst (ws ! j)"
      using offsets_less [of "fst (ws ! j)" "snd (ws ! i)" t] legal [of i] ij by (meson leD not_le_imp_less order.strict_trans)
  qed
qed

section \<open>The stored segments\<close>

lemma segment_bounded_run:
  assumes "segment_bounded P trusted g p = Inr n"
  obtains t ws bounded where "rp_kind (rpp_representation p) \<in> set bounded_text_kinds" "rpp_content p = utf8_encode t"
    "identity_windows p (utf8_byte_offsets t) = Inr ws"
    "bound (bsg_settings g) (bsg_counter g) t (utf8_byte_offsets t) ws (length (utf8_encode t))
       (rp_representation_id (rpp_representation p)) = Inr bounded"
    "mapE (bounded_segment_of P trusted (bsg_settings g) p) (enumerate 0 (bt_spans bounded)) = Inr (bsn_segments n)"
    "bsn_excluded n = bt_excluded bounded" "bsn_coverage n = bt_coverage bounded"
    "bsn_representation_id n = rp_representation_id (rpp_representation p)" "bsn_settings n = bsg_settings g"
    "bsn_segmenter_id n = bounded_segmenter_id"
proof -
  obtain t ws bounded where "rp_kind (rpp_representation p) \<in> set bounded_text_kinds" "utf8_decode (rpp_content p) = Some t"
    "identity_windows p (utf8_byte_offsets t) = Inr ws"
    "bound (bsg_settings g) (bsg_counter g) t (utf8_byte_offsets t) ws (length (rpp_content p))
       (rp_representation_id (rpp_representation p)) = Inr bounded"
    "mapE (bounded_segment_of P trusted (bsg_settings g) p) (enumerate 0 (bt_spans bounded)) = Inr (bsn_segments n)"
    "bsn_excluded n = bt_excluded bounded" "bsn_coverage n = bt_coverage bounded"
    "bsn_representation_id n = rp_representation_id (rpp_representation p)" "bsn_settings n = bsg_settings g"
    "bsn_segmenter_id n = bounded_segmenter_id"
    using assms by (auto simp: segment_bounded_def Let_def bindE_Inr_iff decode_utf8_def split: if_splits option.splits)
  then show thesis using utf8_encode_decode that by metis
qed


definition stored_ranges :: "bounded_segmentation \<Rightarrow> span list" where
  "stored_ranges n = map (\<lambda>x. (nat (sg_representation_start (sgp_segment (bs_payload x))),
     nat (sg_representation_end (sgp_segment (bs_payload x))))) (bsn_segments n)"

lemma bounded_segments_nth:
  assumes "mapE (bounded_segment_of P trusted s p) (enumerate 0 spans) = Inr segments" "i < length segments"
  shows "length segments = length spans" "\<exists>digest. policy_digest P s = Inr digest \<and>
     build_segment P trusted p (int i) bounded_segment_kind (int (ts_start (spans ! i))) (int (ts_end (spans ! i)))
       bounded_segmenter_id digest [''source-native-text'', ''bounded:'' @ bs_policy s] None = Inr (bs_payload (segments ! i)) \<and>
     bs_token_count (segments ! i) = ts_token_count (spans ! i) \<and> bs_context (segments ! i) = ts_headings (spans ! i)"
proof -
  have all: "list_all2 (\<lambda>x y. bounded_segment_of P trusted s p x = Inr y) (enumerate 0 spans) segments"
    using assms(1) by (simp add: mapE_Inr_iff)
  show len: "length segments = length spans" using list_all2_lengthD [OF all] by simp
  have "bounded_segment_of P trusted s p (i, spans ! i) = Inr (segments ! i)"
    using list_all2_nthD2 [OF all assms(2)] len assms(2) by (simp add: nth_enumerate_eq)
  then show "\<exists>digest. policy_digest P s = Inr digest \<and>
     build_segment P trusted p (int i) bounded_segment_kind (int (ts_start (spans ! i))) (int (ts_end (spans ! i)))
       bounded_segmenter_id digest [''source-native-text'', ''bounded:'' @ bs_policy s] None = Inr (bs_payload (segments ! i)) \<and>
     bs_token_count (segments ! i) = ts_token_count (spans ! i) \<and> bs_context (segments ! i) = ts_headings (spans ! i)"
    by (cases "segments ! i") (auto simp: bounded_segment_of_def bindE_Inr_iff)
qed

lemma built_ranges:
  assumes "build_segment P trusted p ordinal kind start e segmenter_id digest derivation media_type = Inr s"
  shows "sg_representation_start (sgp_segment s) = start" "sg_representation_end (sgp_segment s) = e"
    "sg_ordinal (sgp_segment s) = ordinal" "sg_representation_id (sgp_segment s) = rp_representation_id (rpp_representation p)"
    "sg_policy_digest (sgp_segment s) = digest" "sgp_content s = py_slice (rpp_content p) start e"
    "payload_evidence trusted p start e = Inr (sg_evidence (sgp_segment s))"
  using build_segment_parts [OF assms] by (metis segment.select_convs)+

lemma built_made:
  "build_segment P trusted p ordinal kind start e segmenter_id digest derivation media_type = Inr s \<Longrightarrow>
     segment_make P (sgp_segment s) = Inr (sgp_segment s)"
  by (rule build_segment_parts)

lemma stored_ranges_spans:
  assumes "mapE (bounded_segment_of P trusted s p) (enumerate 0 (bt_spans b)) = Inr (bsn_segments n)"
  shows "stored_ranges n = span_ranges b"
proof (rule nth_equalityI)
  have "length (bsn_segments n) = length (bt_spans b)"
    using assms by (auto simp: mapE_Inr_iff dest!: list_all2_lengthD)
  then show "length (stored_ranges n) = length (span_ranges b)" by (simp add: stored_ranges_def)
  fix i assume "i < length (stored_ranges n)"
  then have i: "i < length (bsn_segments n)" by (simp add: stored_ranges_def)
  from bounded_segments_nth [OF assms i] built_ranges(1,2) i
  show "stored_ranges n ! i = span_ranges b ! i" by (fastforce simp: stored_ranges_def)
qed

lemma segment_bounded_account:
  assumes "payload_ok P trusted' p" "segment_bounded P trusted g p = Inr n"
  shows "cover (stored_ranges n) \<union> cover (map excluded_span (bsn_excluded n)) = {0..<length (rpp_content p)}"
    "cover (stored_ranges n) \<inter> cover (map excluded_span (bsn_excluded n)) = {}" "identity_holds (bsn_coverage n)"
proof -
  from segment_bounded_run [OF assms(2)] obtain t ws b where run: "rpp_content p = utf8_encode t"
    "identity_windows p (utf8_byte_offsets t) = Inr ws"
    "bound (bsg_settings g) (bsg_counter g) t (utf8_byte_offsets t) ws (length (utf8_encode t))
       (rp_representation_id (rpp_representation p)) = Inr b"
    "mapE (bounded_segment_of P trusted (bsg_settings g) p) (enumerate 0 (bt_spans b)) = Inr (bsn_segments n)"
    "bsn_excluded n = bt_excluded b" "bsn_coverage n = bt_coverage b" by metis
  note W = window_mappings [OF assms(1) run(1,2)]
  show "cover (stored_ranges n) \<union> cover (map excluded_span (bsn_excluded n)) = {0..<length (rpp_content p)}"
    "cover (stored_ranges n) \<inter> cover (map excluded_span (bsn_excluded n)) = {}" "identity_holds (bsn_coverage n)"
    using bound_partition [OF W(1,2) run(3)] stored_ranges_spans [OF run(4)] run(1,5,6) by simp_all
qed


lemma segment_bounded_segments:
  assumes "payload_ok P trusted' p" "segment_bounded P trusted g p = Inr n"
  shows "\<exists>t. rpp_content p = utf8_encode t \<and> (\<forall>i < length (bsn_segments n). \<exists>a b. a < b \<and> b \<le> length t \<and>
     sgp_content (bs_payload (bsn_segments n ! i)) = utf8_encode (slice_of t a b) \<and>
     bs_token_count (bsn_segments n ! i) = ct_count (bsg_counter g) (slice_of t a b) \<and>
     bs_token_count (bsn_segments n ! i) \<le> bs_max_tokens (bsg_settings g) \<and>
     sg_ordinal (sgp_segment (bs_payload (bsn_segments n ! i))) = int i)"
proof -
  from segment_bounded_run [OF assms(2)] obtain t ws bt where run: "rpp_content p = utf8_encode t"
    "identity_windows p (utf8_byte_offsets t) = Inr ws"
    "bound (bsg_settings g) (bsg_counter g) t (utf8_byte_offsets t) ws (length (utf8_encode t))
       (rp_representation_id (rpp_representation p)) = Inr bt"
    "mapE (bounded_segment_of P trusted (bsg_settings g) p) (enumerate 0 (bt_spans bt)) = Inr (bsn_segments n)" by metis
  note W = window_mappings [OF assms(1) run(1,2)]
  have "\<exists>a b. a < b \<and> b \<le> length t \<and>
     sgp_content (bs_payload (bsn_segments n ! i)) = utf8_encode (slice_of t a b) \<and>
     bs_token_count (bsn_segments n ! i) = ct_count (bsg_counter g) (slice_of t a b) \<and>
     bs_token_count (bsn_segments n ! i) \<le> bs_max_tokens (bsg_settings g) \<and>
     sg_ordinal (sgp_segment (bs_payload (bsn_segments n ! i))) = int i" if i: "i < length (bsn_segments n)" for i
  proof -
    let ?x = "bt_spans bt ! i"
    note B = bounded_segments_nth [OF run(4) i]
    obtain digest where build: "build_segment P trusted p (int i) bounded_segment_kind (int (ts_start ?x)) (int (ts_end ?x))
       bounded_segmenter_id digest [''source-native-text'', ''bounded:'' @ bs_policy (bsg_settings g)] None
       = Inr (bs_payload (bsn_segments n ! i))" and count: "bs_token_count (bsn_segments n ! i) = ts_token_count ?x"
      using B(2) by blast
    have "?x \<in> set (bt_spans bt)" using i B(1) by simp
    from bound_segments(1) [OF W(1,2) run(3) this] obtain a b
      where ex: "exact_segment t (bsg_counter g) (bs_max_tokens (bsg_settings g)) ?x a b" by blast
    have "0 \<le> int (ts_start ?x) \<and> int (ts_start ?x) \<le> int (ts_end ?x) \<and> int (ts_end ?x) \<le> int (length (rpp_content p))"
      using payload_evidence_found [OF built_ranges(7) [OF build]] by blast
    then have "sgp_content (bs_payload (bsn_segments n ! i)) = slice_of (utf8_encode t) (ts_start ?x) (ts_end ?x)"
      using built_ranges(6) [OF build] py_slice_inside [of "int (ts_start ?x)" "int (ts_end ?x)" "rpp_content p"] run(1) by simp
    then show ?thesis using ex count built_ranges(3) [OF build]
      by (intro exI [of _ a] exI [of _ b]) (auto simp: exact_segment_def)
  qed
  then show ?thesis using run(1) by blast
qed

lemma segment_bounded_built:
  assumes "segment_bounded P trusted g p = Inr n" "x \<in> set (bsn_segments n)"
  shows "\<exists>ordinal kind start e segmenter_id digest derivation media_type.
     build_segment P trusted p ordinal kind start e segmenter_id digest derivation media_type = Inr (bs_payload x)"
    "\<forall>m \<in> set (rp_evidence_mappings (rpp_representation p)). em_transformation m = identity_transformation"
proof -
  obtain t ws and bt :: bounded_text where run: "identity_windows p (utf8_byte_offsets t) = Inr ws"
    "mapE (bounded_segment_of P trusted (bsg_settings g) p) (enumerate 0 (bt_spans bt)) = Inr (bsn_segments n)"
    by (rule segment_bounded_run [OF assms(1)]) (rule that)
  from assms(2) obtain i where i: "i < length (bsn_segments n)" "x = bsn_segments n ! i" by (auto simp: in_set_conv_nth)
  from bounded_segments_nth(2) [OF run(2) i(1)] i(2)
  show "\<exists>ordinal kind start e segmenter_id digest derivation media_type.
     build_segment P trusted p ordinal kind start e segmenter_id digest derivation media_type = Inr (bs_payload x)" by blast
  have "list_all2 (\<lambda>m w. mapping_window (utf8_byte_offsets t) m = Inr w) (rp_evidence_mappings (rpp_representation p)) ws"
    using run(1) by (simp add: identity_windows_iff)
  then show "\<forall>m \<in> set (rp_evidence_mappings (rpp_representation p)). em_transformation m = identity_transformation"
    by (auto simp: in_set_conv_nth mapping_window_iff dest: list_all2_nthD)
qed

lemma segment_bounded_source:
  assumes "payload_ok P trusted' p" "verify_representation_evidence P derived p src = Inr ()"
    "segment_bounded P trusted g p = Inr n" "x \<in> set (bsn_segments n)"
  shows "verify_segment_evidence P trusted derived (bs_payload x) p src = Inr ()"
    "ec_source_digest (sg_evidence (sgp_segment (bs_payload x))) = sha256_digest P src"
    "\<exists>a b. ec_start (sg_evidence (sgp_segment (bs_payload x))) = Some a \<and>
       ec_end (sg_evidence (sgp_segment (bs_payload x))) = Some b \<and> 0 \<le> a \<and> a \<le> b \<and> b \<le> int (length src) \<and>
       sgp_content (bs_payload x) = slice_of src (nat a) (nat b)"
proof -
  from segment_bounded_built(1) [OF assms(3,4)] have "verify_segment_representation trusted (bs_payload x) p = Inr ()"
    using build_segment_verified by blast
  then show v: "verify_segment_evidence P trusted derived (bs_payload x) p src = Inr ()"
    using assms(2) by (simp add: verify_segment_evidence_def)
  from verified_segment_source [OF assms(1) v] obtain m where m: "m \<in> set (rp_evidence_mappings (rpp_representation p))"
    "ec_source_digest (sg_evidence (sgp_segment (bs_payload x))) = sha256_digest P src"
    "evidence_of_source derived m (sg_evidence (sgp_segment (bs_payload x))) (sgp_content (bs_payload x)) src" by blast
  show "ec_source_digest (sg_evidence (sgp_segment (bs_payload x))) = sha256_digest P src" by (rule m(2))
  have "em_transformation m = identity_transformation" using segment_bounded_built(2) [OF assms(3,4)] m(1) by blast
  then show "\<exists>a b. ec_start (sg_evidence (sgp_segment (bs_payload x))) = Some a \<and>
       ec_end (sg_evidence (sgp_segment (bs_payload x))) = Some b \<and> 0 \<le> a \<and> a \<le> b \<and> b \<le> int (length src) \<and>
       sgp_content (bs_payload x) = slice_of src (nat a) (nat b)"
    using m(3) by (auto simp: evidence_of_source_def split: option.splits)
qed

section \<open>The segmenter returns\<close>

text \<open>
  The evidence mappings say the text can be cut: identity mappings on character boundaries that
  together cover all bytes, and identities the canonical encoder accepts.
\<close>

definition cuttable :: "utext \<Rightarrow> representation_payload \<Rightarrow> bool" where
  "cuttable t p \<longleftrightarrow> (let ms = rp_evidence_mappings (rpp_representation p) in ms \<noteq> [] \<and>
     (\<forall>m \<in> set ms. em_transformation m = identity_transformation \<and>
        (\<exists>a \<le> length t. em_representation_start m = int (utf8_byte_offsets t ! a)) \<and>
        (\<exists>b \<le> length t. em_representation_end m = int (utf8_byte_offsets t ! b))) \<and>
     (\<forall>k < length (utf8_encode t). \<exists>m \<in> set ms. em_representation_start m \<le> int k \<and> int k < em_representation_end m))"

lemma cuttable_windows:
  assumes "cuttable t p" "rpp_content p = utf8_encode t" "payload_ok P trusted p"
  shows "\<exists>ws. identity_windows p (utf8_byte_offsets t) = Inr ws \<and> cover ws = {0..<length t}"
proof -
  let ?ms = "rp_evidence_mappings (rpp_representation p)"
  have ex: "\<forall>m \<in> set ?ms. \<exists>w. mapping_window (utf8_byte_offsets t) m = Inr w"
  proof
    fix m assume "m \<in> set ?ms"
    then obtain a b where "em_transformation m = identity_transformation" "a \<le> length t" "b \<le> length t"
      "em_representation_start m = int (utf8_byte_offsets t ! a)" "em_representation_end m = int (utf8_byte_offsets t ! b)"
      using assms(1) by (auto simp: cuttable_def Let_def)
    then have "mapping_window (utf8_byte_offsets t) m = Inr (a, b)" by (simp add: mapping_window_iff)
    then show "\<exists>w. mapping_window (utf8_byte_offsets t) m = Inr w" by blast
  qed
  define ws where "ws = map (\<lambda>m. SOME w. mapping_window (utf8_byte_offsets t) m = Inr w) ?ms"
  have at: "mapping_window (utf8_byte_offsets t) (?ms ! i) = Inr (ws ! i)" if "i < length ?ms" for i
    using ex that someI_ex [of "\<lambda>w. mapping_window (utf8_byte_offsets t) (?ms ! i) = Inr w"] by (simp add: ws_def)
  have run: "identity_windows p (utf8_byte_offsets t) = Inr ws"
    using assms(1) at by (auto simp: identity_windows_iff cuttable_def Let_def list_all2_conv_all_nth ws_def)
  note W = window_mappings [OF assms(3,2) run]
  have "i \<in> cover ws" if i: "i < length t" for i
  proof -
    have "utf8_byte_offsets t ! i < length (utf8_encode t)"
      using offsets_less [of i "length t" t] i by (simp add: offsets_last)
    then obtain m where m: "m \<in> set ?ms" "em_representation_start m \<le> int (utf8_byte_offsets t ! i)"
      "int (utf8_byte_offsets t ! i) < em_representation_end m"
      using assms(1) by (auto simp: cuttable_def Let_def)
    then obtain k where k: "k < length ?ms" "m = ?ms ! k" by (auto simp: in_set_conv_nth)
    have w: "fst (ws ! k) \<le> length t" "snd (ws ! k) \<le> length t"
      "utf8_byte_offsets t ! fst (ws ! k) \<le> utf8_byte_offsets t ! i"
      "utf8_byte_offsets t ! i < utf8_byte_offsets t ! snd (ws ! k)"
      using at [OF k(1)] m k(2) by (simp_all add: mapping_window_iff)
    have "fst (ws ! k) \<le> i" using w offsets_less [of i "fst (ws ! k)" t] by (meson leD not_le_imp_less)
    moreover have "i < snd (ws ! k)" using w offsets_mono [of "snd (ws ! k)" i t] i by (meson leD leI less_imp_le)
    moreover have "ws ! k \<in> set ws" using k(1) by (simp add: ws_def)
    ultimately show ?thesis by (auto simp: mem_cover)
  qed
  moreover have "cover ws \<subseteq> {0..<length t}" using W(1) by (fastforce simp: mem_cover)
  ultimately show ?thesis using run by auto
qed


lemma payload_evidence_total:
  assumes "payload_ok P trusted p" "m \<in> set (rp_evidence_mappings (rpp_representation p))"
    "\<forall>m \<in> set (rp_evidence_mappings (rpp_representation p)). em_transformation m = identity_transformation"
    "em_representation_start m \<le> s" "s \<le> e" "e \<le> em_representation_end m"
  shows "\<exists>ev. payload_evidence trusted' p s e = Inr ev"
proof -
  let ?ms = "rp_evidence_mappings (rpp_representation p)"
  let ?in = "\<lambda>m. em_representation_start m \<le> s \<and> e \<le> em_representation_end m"
  obtain k where k: "find ?in ?ms = Some k"
    using assms(2,4,6) by (cases "find ?in ?ms") (auto simp: find_None_iff)
  then have kin: "k \<in> set ?ms" "?in k" by (auto simp: find_Some_iff in_set_conv_nth)
  have bounds: "0 \<le> s" "e \<le> int (length (rpp_content p))"
    using payload_mapping [OF assms(1,2)] assms(4,6) by auto
  have ident: "em_transformation k = identity_transformation" using assms(3) kin(1) by blast
  have "identity_mapping_check k = Inr ()" using payload_mapping [OF assms(1) kin(1)] ident by blast
  then obtain a b where ab: "ec_start (em_evidence k) = Some a" "ec_end (em_evidence k) = Some b"
    by (auto simp: identity_mapping_check_def split: option.splits)
  have ok: "evidence_mapping_ok trusted k"
    using assms(1) kin(1) by (auto simp: payload_ok_def representation_ok_def)
  have "0 \<le> a" using mapping_okD(2) [OF ok ab] by simp
  then have "\<exists>ev. resolve_evidence_mapping trusted' k s e = Inr ev"
    using ok kin(2) ident ab assms(5)
    by (auto simp: resolve_evidence_mapping_def evidence_mapping_ok_def evidence_coordinate_ok_def
        evidence_coordinate_make_def thenE_Inr_iff refuse_Inr_iff coordinate_interval_bad_def)
  then show ?thesis
    using k bounds assms(5) payload_blob [OF assms(1)]
    by (auto simp: payload_evidence_def evidence_for_range_def)
qed

lemma kinds_nonblank: "strip bounded_segment_kind \<noteq> []" "strip bounded_segmenter_id \<noteq> []"
  by (simp_all add: bounded_segment_kind_def bounded_segmenter_id_def strip_eq_Nil_iff char_isspace_def)


text \<open>When its inputs are in order, building a segment fails at most in the canonical encoder.\<close>

lemma build_segment_refused:
  assumes "payload_ok P trusted p" "hex_documented P" "payload_evidence trusted' p start e = Inr ev" "strip kind \<noteq> []"
    "canonical P (segment_identity (built_record P p ev ordinal kind start e segmenter_id digest derivation)) = Inl err"
  shows "build_segment P trusted' p ordinal kind start e segmenter_id digest derivation None = Inl err"
proof -
  have blob: "content_blob_ref P (py_slice (rpp_content p) start e) (br_media_type (rp_blob (rpp_representation p))) =
      Inr (sg_content (built_record P p ev ordinal kind start e segmenter_id digest derivation))"
    using content_blob_ref_ok [OF assms(2)] payload_texts [OF assms(1)] by (simp add: built_record_def Let_def)
  have "segment_create P (built_record P p ev ordinal kind start e segmenter_id digest derivation) = Inl err"
    using assms(5) by (simp add: segment_create_def stable_urn_def require_text_def is_urn_part_def identity_digest_eq
        strip_eq_Nil_iff char_isspace_def)
  then show ?thesis using assms(3) blob
    by (simp add: build_segment_def Let_def media_type_or_def built_record_def)
qed

lemma bounded_segment_of_total:
  assumes "payload_ok P trusted p" "hex_documented P" "payload_evidence trusted' p (int (ts_start x)) (int (ts_end x)) = Inr ev"
  shows "is_ok (bounded_segment_of P trusted' s p (i, x)) \<or>
    (\<exists>j err. canonical P j = Inl err \<and> bounded_segment_of P trusted' s p (i, x) = Inl err)"
proof (cases "canonical P (settings_identity s)")
  case (Inl err)
  then show ?thesis by (force simp: bounded_segment_of_def policy_digest_def identity_digest_eq)
next
  case (Inr d)
  let ?digest = "sha256_digest P d" and ?deriv = "[''source-native-text'', ''bounded:'' @ bs_policy s]"
  let ?r = "built_record P p ev (int i) bounded_segment_kind (int (ts_start x)) (int (ts_end x)) bounded_segmenter_id
      ?digest ?deriv"
  have digest: "policy_digest P s = Inr ?digest" using Inr by (simp add: policy_digest_def identity_digest_eq)
  show ?thesis
  proof (cases "canonical P (segment_identity ?r)")
    case (Inl err)
    have "bounded_segment_of P trusted' s p (i, x) = Inl err"
      using build_segment_refused [OF assms kinds_nonblank(1) Inl] digest by (simp add: bounded_segment_of_def)
    with Inl show ?thesis by blast
  next
    case (Inr b)
    have "is_ok (canonical P (segment_identity ?r))" using Inr by simp
    from build_segment_total [OF assms _ kinds_nonblank _ this] sha256_digest_form [OF assms(2)] digest
    have "is_ok (bounded_segment_of P trusted' s p (i, x))" by (force simp: bounded_segment_of_def is_ok_iff bindE_Inr_iff)
    then show ?thesis by blast
  qed
qed

lemma mapE_total_or:
  "\<forall>x \<in> set xs. is_ok (f x) \<or> (\<exists>e. Q e \<and> f x = Inl e) \<Longrightarrow> is_ok (mapE f xs) \<or> (\<exists>e. Q e \<and> mapE f xs = Inl e)"
  by (induction xs) (auto simp: is_ok_iff bindE_Inr_iff)

lemma segment_bounded_returns:
  assumes counter: "monotone_counter (bsg_counter g)" "subadditive_counter (bsg_counter g)"
    and settings: "settings_check (bsg_settings g) = Inr ()" "require_matching_counter (bsg_settings g) (bsg_counter g) = Inr ()"
    and content: "scalar_text t" "rpp_content p = utf8_encode t"
      "\<forall>i < length t. ct_count (bsg_counter g) (slice_of t i (Suc i)) \<le> leaf_budget (bsg_settings g)"
    and payload: "payload_ok P trusted p" "cuttable t p" "rp_kind (rpp_representation p) \<in> set bounded_text_kinds"
    and hex: "hex_documented P"
  shows "(\<exists>n. segment_bounded P trusted' g p = Inr n) \<or>
    (\<exists>j err. canonical P j = Inl err \<and> segment_bounded P trusted' g p = Inl err)"
proof -
  obtain ws where ws: "identity_windows p (utf8_byte_offsets t) = Inr ws" "cover ws = {0..<length t}"
    using cuttable_windows [OF payload(2) content(2) payload(1)] by blast
  note W = window_mappings [OF payload(1) content(2) ws(1)]
  obtain r :: bounded_text where r: "bound (bsg_settings g) (bsg_counter g) t (utf8_byte_offsets t) ws (length (utf8_encode t))
      (rp_representation_id (rpp_representation p)) = Inr r"
    using bound_total [OF counter settings _ W(1,2) ws(2)] content(3) by blast
  let ?f = "bounded_segment_of P trusted' (bsg_settings g) p"
  have ident: "\<forall>m \<in> set (rp_evidence_mappings (rpp_representation p)). em_transformation m = identity_transformation"
    using payload(2) by (auto simp: cuttable_def Let_def)
  have one: "is_ok (?f y) \<or> (\<exists>err. (\<exists>j. canonical P j = Inl err) \<and> ?f y = Inl err)"
    if y: "y \<in> set (enumerate 0 (bt_spans r))" for y
  proof -
    obtain i x where x: "y = (i, x)" by (cases y)
    then have x_in: "x \<in> set (bt_spans r)" using y by (auto simp: in_set_enumerate_eq)
    obtain a b w where ab: "exact_segment t (bsg_counter g) (bs_max_tokens (bsg_settings g)) x a b" "w \<in> set ws"
      "fst w \<le> a" "b \<le> snd w" using bound_segments(1) [OF W(1,2) r x_in] by blast
    have top: "snd w \<le> length t" using W(1) ab(2) by blast
    have "(int (fst (byte_span t w)), int (snd (byte_span t w))) \<in>
        set (map (\<lambda>m. (em_representation_start m, em_representation_end m)) (rp_evidence_mappings (rpp_representation p)))"
      unfolding W(3) using ab(2) by auto
    then obtain m where m: "m \<in> set (rp_evidence_mappings (rpp_representation p))"
      "em_representation_start m = int (utf8_byte_offsets t ! fst w)" "em_representation_end m = int (utf8_byte_offsets t ! snd w)"
      by (auto simp: byte_span_def)
    have "\<exists>ev. payload_evidence trusted' p (int (ts_start x)) (int (ts_end x)) = Inr ev"
      by (rule payload_evidence_total [OF payload(1) m(1) ident])
        (use ab top m(2,3) offsets_mono in \<open>auto simp: exact_segment_def\<close>)
    then show ?thesis using bounded_segment_of_total [OF payload(1) hex] unfolding x by blast
  qed
  have "is_ok (mapE ?f (enumerate 0 (bt_spans r))) \<or>
    (\<exists>err. (\<exists>j. canonical P j = Inl err) \<and> mapE ?f (enumerate 0 (bt_spans r)) = Inl err)"
    by (rule mapE_total_or) (use one in blast)
  moreover have "segment_bounded P trusted' g p = bindE (mapE ?f (enumerate 0 (bt_spans r))) (\<lambda>segments.
      Inr \<lparr>bsn_representation_id = rp_representation_id (rpp_representation p), bsn_segmenter_id = bounded_segmenter_id,
           bsn_settings = bsg_settings g, bsn_segments = segments, bsn_excluded = bt_excluded r, bsn_coverage = bt_coverage r\<rparr>)"
    using payload(3) ws(1) r by (simp add: segment_bounded_def Let_def decode_utf8_def content(2) utf8_decode_encode [OF content(1)])
  ultimately show ?thesis by (auto simp: is_ok_iff)
qed


section \<open>The receipt of a segmentation\<close>

lemma mapE_all:
  assumes "mapE f xs = Inr ys" "\<And>x y. f x = Inr y \<Longrightarrow> Q y"
  shows "\<forall>y \<in> set ys. Q y"
  using assms(1) by (induction xs arbitrary: ys) (auto simp: bindE_Inr_iff intro: assms(2))

lemma bound_excluded_checked:
  assumes "bound s c t offsets ws n label = Inr r"
  shows "\<forall>x \<in> set (bt_excluded r). excluded_check x = Inr x"
proof -
  obtain covered and held :: "held_back list" and xs
    where xs: "mapE (held_excluded offsets covered) held = Inr xs" "bt_excluded r = concat xs"
    using assms by (auto simp: bound_def thenE_Inr_iff bindE_Inr_iff Let_def split: prod.splits)
  have "\<forall>ys \<in> set xs. \<forall>x \<in> set ys. excluded_check x = Inr x"
  proof (rule mapE_all [OF xs(1)])
    fix h ys assume ys: "held_excluded offsets covered h = Inr ys"
    show "\<forall>x \<in> set ys. excluded_check x = Inr x"
    proof (rule mapE_all [OF ys [unfolded held_excluded_def]])
      fix x y assume "(\<lambda>(a, b). bindE (index_or_raise offsets a) (\<lambda>start. bindE (index_or_raise offsets b) (\<lambda>e.
            excluded_check \<lparr>xr_start = int start, xr_end = int e,
              xr_reason_code = hb_reason_code h, xr_reason = hb_reason h\<rparr>))) x = Inr y"
      then obtain z where "excluded_check z = Inr y" by (auto simp: bindE_Inr_iff split: prod.splits)
      then show "excluded_check y = Inr y" using excluded_check_same by blast
    qed
  qed
  then show ?thesis by (simp add: xs(2))
qed

lemma segment_identity_ordinal:
  assumes "key_sorted (segment_identity r) = key_sorted (segment_identity q)"
  shows "sg_ordinal r = sg_ordinal q"
  using key_sorted_obj_get [OF assms [unfolded segment_identity_def], of "''ordinal''"] by simp

lemma segment_id_bytes:
  assumes "segment_make P r = Inr r"
  obtains b where "canonical P (segment_identity r) = Inr b" "sg_segment_id r = ''urn:docspec:segment:v1:'' @ sha256_hex P b"
proof -
  have "stable_urn P ''segment'' (segment_identity r) = Inr (sg_segment_id r)"
    using assms by (auto simp: segment_make_def thenE_Inr_iff bindE_Inr_iff refuse_Inr_iff)
  then show thesis using that
    by (subst (asm) stable_urn_eq) (auto simp: bindE_Inr_iff is_urn_part_def strip_eq_Nil_iff char_isspace_def)
qed

lemma segment_ids_distinct:
  assumes "canonical_documented P" "\<forall>x \<in> set xs. segment_make P x = Inr x"
    "inj_on (sha256_hex P) {b. \<exists>x \<in> set xs. canonical P (segment_identity x) = Inr b}" "distinct (map sg_ordinal xs)"
  shows "distinct (map sg_segment_id xs)"
proof -
  have "sg_ordinal x = sg_ordinal y" if x: "x \<in> set xs" and y: "y \<in> set xs" and id: "sg_segment_id x = sg_segment_id y" for x y
  proof -
    obtain b where b: "canonical P (segment_identity x) = Inr b" "sg_segment_id x = ''urn:docspec:segment:v1:'' @ sha256_hex P b"
      using segment_id_bytes assms(2) x by blast
    obtain d where d: "canonical P (segment_identity y) = Inr d" "sg_segment_id y = ''urn:docspec:segment:v1:'' @ sha256_hex P d"
      using segment_id_bytes assms(2) y by blast
    have "sha256_hex P b = sha256_hex P d" using b(2) d(2) id by simp
    then have "b = d" using assms(3) b(1) d(1) x y by (auto simp: inj_on_def)
    then have "canonical P (segment_identity y) = Inr b" using d(1) by simp
    then have "key_sorted (segment_identity x) = key_sorted (segment_identity y)"
      using assms(1) b(1) unfolding canonical_documented_def by blast
    then show ?thesis by (rule segment_identity_ordinal)
  qed
  moreover have "distinct xs" and "inj_on sg_ordinal (set xs)" using assms(4) by (simp_all add: distinct_map)
  ultimately have "inj_on sg_segment_id (set xs)" unfolding inj_on_def by blast
  with \<open>distinct xs\<close> show ?thesis by (simp add: distinct_map)
qed

abbreviation segment_records :: "bounded_segmentation \<Rightarrow> segment list" where
  "segment_records n \<equiv> map (\<lambda>x. sgp_segment (bs_payload x)) (bsn_segments n)"

lemma segment_bounded_records:
  assumes "payload_ok P trusted' p" "segment_bounded P trusted g p = Inr n"
  shows "\<forall>r \<in> set (segment_records n). segment_make P r = Inr r" "map sg_ordinal (segment_records n) = map int [0..<length (bsn_segments n)]"
proof -
  show "\<forall>r \<in> set (segment_records n). segment_make P r = Inr r"
    using segment_bounded_built(1) [OF assms(2)] built_made by auto blast
  show "map sg_ordinal (segment_records n) = map int [0..<length (bsn_segments n)]"
    using segment_bounded_segments [OF assms] by (auto intro!: nth_equalityI)
qed

lemma receipt_exists:
  assumes "payload_ok P trusted' p" "segment_bounded P trusted g p = Inr n" "policy_digest P (bsg_settings g) = Inr d"
    "canonical_documented P" "hex_documented P"
    "inj_on (sha256_hex P) {b. \<exists>r \<in> set (segment_records n). canonical P (segment_identity r) = Inr b}"
  shows "\<exists>q. segmentation_receipt_of P n = Inr q \<and> rcp_segment_ids q = map sg_segment_id (segment_records n) \<and>
     rcp_policy_digest q = d \<and> rcp_excluded q = bsn_excluded n \<and> rcp_coverage q = bsn_coverage n \<and>
     receipt_from (receipt_json q) = Inr q"
proof -
  obtain t ws and bt :: bounded_text where run:
    "bound (bsg_settings g) (bsg_counter g) t (utf8_byte_offsets t) ws (length (utf8_encode t))
       (rp_representation_id (rpp_representation p)) = Inr bt" "bsn_excluded n = bt_excluded bt"
    "bsn_representation_id n = rp_representation_id (rpp_representation p)" "bsn_settings n = bsg_settings g"
    "bsn_segmenter_id n = bounded_segmenter_id"
    by (rule segment_bounded_run [OF assms(2)]) (rule that)
  note R = segment_bounded_records [OF assms(1,2)]
  have distinct: "distinct (map sg_segment_id (segment_records n))"
    by (rule segment_ids_distinct [OF assms(4) R(1) assms(6)]) (simp only: R(2) distinct_map, simp)
  have texts: "\<forall>r \<in> set (segment_records n). strip (sg_segment_id r) \<noteq> []"
    using R(1) by (auto simp: segment_make_def thenE_Inr_iff bindE_Inr_iff check_texts_iff)
  have sha: "is_sha256 d" using assms(3) sha256_digest_form [OF assms(5)]
    by (auto simp: policy_digest_def identity_digest_eq bindE_Inr_iff)
  let ?q = "\<lparr>rcp_representation_id = bsn_representation_id n, rcp_segmenter_id = bsn_segmenter_id n,
         rcp_policy_digest = d, rcp_segment_ids = map (\<lambda>x. sg_segment_id (sgp_segment (bs_payload x))) (bsn_segments n),
         rcp_excluded = bsn_excluded n, rcp_coverage = bsn_coverage n\<rparr>"
  have made: "receipt_make ?q = Inr ?q"
    using texts distinct sha payload_texts [OF assms(1)] kinds_nonblank
    by (simp add: receipt_make_def thenE_Inr_iff check_texts_iff check_digest_iff refuse_Inr_iff run(3,5) comp_def)
  have "receipt_from (receipt_json ?q) = Inr ?q"
    by (rule receipt.from_to) (use made bound_excluded_checked [OF run(1)] run(2) in \<open>simp add: receipt_ok_def\<close>)
  then show ?thesis using made assms(3) by (simp add: segmentation_receipt_of_def run(4) comp_def)
qed


section \<open>Properties\<close>

text \<open>
  C3. The stored segments account for the representation: whenever \<open>segment_bounded\<close> returns, the
  representation ranges of its segments and the excluded ranges together are exactly the bytes of
  the representation, no excluded byte is in a segment, and the reported coverage satisfies the
  identity \<^theory_text>\<open>segmentedByteTotal + excludedByteTotal = representationByteTotal\<close>.
\<close>

theorem stored_segments_account:
  assumes "payload_ok P trusted' p" "segment_bounded P trusted g p = Inr n"
  shows "cover (stored_ranges n) \<union> cover (map excluded_span (bsn_excluded n)) = {0..<length (rpp_content p)} \<and>
    cover (stored_ranges n) \<inter> cover (map excluded_span (bsn_excluded n)) = {} \<and> identity_holds (bsn_coverage n)"
  using segment_bounded_account [OF assms] by blast

definition sample_segmenter :: bounded_segmenter where
  "sample_segmenter = \<lparr>bsg_counter = length_counter, bsg_settings = sample_settings\<rparr>"

definition sample_payload :: representation_payload where
  "sample_payload = whole_payload (utf8_encode sample_text)"

lemma sample_payload_ok: "payload_ok reference_platform False sample_payload"
  unfolding sample_payload_def by (rule whole_payload_ok)

lemma sample_content: "rpp_content sample_payload = utf8_encode sample_text"
  by (simp add: sample_payload_def whole_payload_def identified_def)

lemma sample_scalar: "scalar_text sample_text"
  by (auto simp: sample_text_def scalar_text_def is_scalar_def)

lemma sample_cuttable: "cuttable sample_text sample_payload"
proof -
  have "utf8_byte_offsets sample_text ! length sample_text = length (utf8_encode sample_text)" by (rule offsets_last)
  then show ?thesis
    by (simp add: cuttable_def Let_def sample_payload_def whole_payload_def identified_def whole_fields_def whole_mapping_def)
      (metis le_refl le0 offsets_zero of_nat_0)
qed

lemma sample_chars: "\<forall>i < length sample_text. ct_count (bsg_counter sample_segmenter) (slice_of sample_text i (Suc i))
    \<le> leaf_budget (bsg_settings sample_segmenter)"
  by (auto simp: sample_segmenter_def sample_text_def leaf_budget_def sample_settings_def slice_of_def)

lemma sample_segmented: "\<exists>n. segment_bounded reference_platform False sample_segmenter sample_payload = Inr n"
proof -
  have "rp_kind (rpp_representation sample_payload) \<in> set bounded_text_kinds"
    by (simp add: sample_payload_def whole_payload_def identified_def whole_fields_def bounded_text_kinds_def)
  from segment_bounded_returns [OF _ _ _ _ sample_scalar sample_content sample_chars sample_payload_ok sample_cuttable this
      reference_hex_documented]
  show ?thesis using length_counter_monotone length_counter_subadditive sample_settings_ok
    by (force simp: sample_segmenter_def)
qed

theorem stored_segments_account_witness:
  "\<exists>n. segment_bounded reference_platform False sample_segmenter sample_payload = Inr n \<and>
     cover (stored_ranges n) \<union> cover (map excluded_span (bsn_excluded n)) = {0..<7}"
proof -
  obtain n where n: "segment_bounded reference_platform False sample_segmenter sample_payload = Inr n"
    using sample_segmented by blast
  from stored_segments_account [OF sample_payload_ok n] show ?thesis
    using n sample_bytes by (auto simp: sample_content)
qed

lemma sample_windows: "identity_windows sample_payload (utf8_byte_offsets sample_text) = Inr [(0, 7)]"
proof -
  have "length sample_text = 7" by (simp add: sample_text_def)
  then have "utf8_byte_offsets sample_text ! 7 = length (utf8_encode sample_text)"
    using offsets_last [of sample_text] by (simp only:)
  then show ?thesis
    by (simp add: identity_windows_iff mapping_window_iff sample_payload_def whole_payload_def identified_def whole_fields_def
        whole_mapping_def) (simp add: sample_text_def)
qed

lemma sample_units:
  "text_units sample_settings length_counter (regions sample_text [(0, 7)]) =
     Inr ([\<lparr>un_start = 5, un_end = 7, un_headings = [[65]], un_key = (0, 1), un_split = False\<rparr>],
          [\<lparr>hb_start = 0, hb_end = 3, hb_reason_code = excluded_not_eligible, hb_reason = heading_exclusion_reason,
            hb_heading = Some (1, [65])\<rparr>,
           \<lparr>hb_start = 3, hb_end = 5, hb_reason_code = excluded_empty, hb_reason = empty_exclusion_reason,
            hb_heading = None\<rparr>])"
  by (simp add: sample_regions text_units_def units_step_def units_start_def push_heading_def heading_match_def
      hash_def is_blank_def newline_def strip_text_def isspace_def evidence_eligible_def heading_path_def Let_def
      sample_settings_def length_counter_def)

lemma sample_single:
  assumes "segment_bounded reference_platform False sample_segmenter sample_payload = Inr n"
  shows "length (bsn_segments n) = 1"
proof -
  obtain bt :: bounded_text where run:
    "bound sample_settings length_counter sample_text (utf8_byte_offsets sample_text) [(0, 7)] (length (utf8_encode sample_text))
       (rp_representation_id (rpp_representation sample_payload)) = Inr bt"
    "mapE (bounded_segment_of reference_platform False sample_settings sample_payload) (enumerate 0 (bt_spans bt)) = Inr (bsn_segments n)"
    using assms utf8_decode_encode [OF sample_scalar]
    by (auto simp: segment_bounded_def Let_def decode_utf8_def bindE_Inr_iff sample_content sample_windows sample_segmenter_def
        split: if_splits)
  have "length (bt_spans bt) = 1"
    using run(1) by (auto simp: bound_def thenE_Inr_iff bindE_Inr_iff sample_units pack_def flush_def Let_def)
  then show ?thesis using run(2) by (auto simp: mapE_Inr_iff dest!: list_all2_lengthD)
qed

text \<open>
  C14. Every stored segment is exact: it is a nonempty range of whole characters of the decoded
  representation, its bytes are that text's encoding, the recorded token count is the counter's on
  exactly that text and within the hard budget, and the ordinals number the segments from zero.
\<close>

theorem stored_segments_exact:
  assumes "payload_ok P trusted' p" "segment_bounded P trusted g p = Inr n"
  shows "\<exists>t. rpp_content p = utf8_encode t \<and> (\<forall>i < length (bsn_segments n). \<exists>a b. a < b \<and> b \<le> length t \<and>
     sgp_content (bs_payload (bsn_segments n ! i)) = utf8_encode (slice_of t a b) \<and>
     bs_token_count (bsn_segments n ! i) = ct_count (bsg_counter g) (slice_of t a b) \<and>
     bs_token_count (bsn_segments n ! i) \<le> bs_max_tokens (bsg_settings g) \<and>
     sg_ordinal (sgp_segment (bs_payload (bsn_segments n ! i))) = int i)"
  by (rule segment_bounded_segments [OF assms])

theorem stored_segments_exact_witness:
  "\<exists>n. segment_bounded reference_platform False sample_segmenter sample_payload = Inr n \<and> length (bsn_segments n) = 1 \<and>
     bs_token_count (bsn_segments n ! 0) \<le> 3"
proof -
  obtain n where n: "segment_bounded reference_platform False sample_segmenter sample_payload = Inr n"
    using sample_segmented by blast
  from stored_segments_exact [OF sample_payload_ok n] sample_single [OF n]
  have "bs_token_count (bsn_segments n ! 0) \<le> bs_max_tokens (bsg_settings sample_segmenter)" by auto
  then show ?thesis using n sample_single [OF n] by (auto simp: sample_segmenter_def sample_settings_def)
qed

text \<open>
  C13. The segments refine the source: over a representation that verifies against its captured
  bytes, every segment \<open>segment_bounded\<close> returns passes \<open>verify_segment_evidence\<close>, names the
  captured bytes by digest, and its content is the range of the captured bytes its own evidence
  coordinates give.
\<close>

theorem stored_segments_in_source:
  assumes "payload_ok P trusted' p" "verify_representation_evidence P derived p src = Inr ()"
    "segment_bounded P trusted g p = Inr n" "x \<in> set (bsn_segments n)"
  shows "verify_segment_evidence P trusted derived (bs_payload x) p src = Inr () \<and>
    ec_source_digest (sg_evidence (sgp_segment (bs_payload x))) = sha256_digest P src \<and>
    (\<exists>a b. ec_start (sg_evidence (sgp_segment (bs_payload x))) = Some a \<and>
       ec_end (sg_evidence (sgp_segment (bs_payload x))) = Some b \<and> 0 \<le> a \<and> a \<le> b \<and> b \<le> int (length src) \<and>
       sgp_content (bs_payload x) = slice_of src (nat a) (nat b))"
  using segment_bounded_source [OF assms] by blast

theorem stored_segments_in_source_witness:
  "\<exists>n a b. segment_bounded reference_platform False sample_segmenter sample_payload = Inr n \<and>
     sgp_content (bs_payload (bsn_segments n ! 0)) = slice_of (utf8_encode sample_text) a b"
proof -
  obtain n where n: "segment_bounded reference_platform False sample_segmenter sample_payload = Inr n"
    using sample_segmented by blast
  have v: "verify_representation_evidence reference_platform None sample_payload (utf8_encode sample_text) = Inr ()"
    unfolding sample_payload_def by (rule whole_payload_verified)
  have "bsn_segments n ! 0 \<in> set (bsn_segments n)" using sample_single [OF n] by simp
  from stored_segments_in_source [OF sample_payload_ok v n this] n show ?thesis by blast
qed



text \<open>
  C30. The receipt is recomputable evidence: as long as the digest does not collide on the segment
  identities, the segments have distinct identities, a receipt is made with them, the ledger, the
  coverage and the digest of the policy, and it reads back from its JSON unchanged.
\<close>

theorem receipt_recovered:
  assumes "payload_ok P trusted' p" "segment_bounded P trusted g p = Inr n" "policy_digest P (bsg_settings g) = Inr d"
    "canonical_documented P" "hex_documented P"
    "inj_on (sha256_hex P) {b. \<exists>r \<in> set (segment_records n). canonical P (segment_identity r) = Inr b}"
  shows "\<exists>q. segmentation_receipt_of P n = Inr q \<and> rcp_segment_ids q = map sg_segment_id (segment_records n) \<and>
     rcp_policy_digest q = d \<and> rcp_excluded q = bsn_excluded n \<and> rcp_coverage q = bsn_coverage n \<and>
     receipt_from (receipt_json q) = Inr q"
  by (rule receipt_exists [OF assms])

theorem receipt_recovered_witness:
  "\<exists>n q. segment_bounded reference_platform False sample_segmenter sample_payload = Inr n \<and>
     segmentation_receipt_of reference_platform n = Inr q \<and> length (rcp_segment_ids q) = 1 \<and>
     receipt_from (receipt_json q) = Inr q"
proof -
  obtain n where n: "segment_bounded reference_platform False sample_segmenter sample_payload = Inr n"
    using sample_segmented by blast
  obtain y where y: "bsn_segments n = [y]" using sample_single [OF n] by (auto simp: length_Suc_conv)
  have inj: "inj_on (sha256_hex reference_platform) {b. \<exists>r \<in> set (segment_records n).
      canonical reference_platform (segment_identity r) = Inr b}"
    unfolding y inj_on_def
  proof (intro ballI impI)
    fix b c
    assume "b \<in> {b. \<exists>r \<in> set (map (\<lambda>x. sgp_segment (bs_payload x)) [y]). canonical reference_platform (segment_identity r) = Inr b}"
      and "c \<in> {b. \<exists>r \<in> set (map (\<lambda>x. sgp_segment (bs_payload x)) [y]). canonical reference_platform (segment_identity r) = Inr b}"
    then have "(Inr b :: bytes result) = Inr c" by (simp del: reference_canonical sum.inject)
    then show "b = c" by simp
  qed
  have d: "policy_digest reference_platform (bsg_settings sample_segmenter)
      = Inr (sha256_digest reference_platform (ascii_bytes (emit (key_sorted (settings_identity sample_settings)))))"
    unfolding policy_digest_def identity_digest_eq reference_canonical by (simp add: sample_segmenter_def)
  from receipt_recovered [OF sample_payload_ok n d reference_canonical_documented reference_hex_documented inj]
  obtain q where q: "segmentation_receipt_of reference_platform n = Inr q"
    "rcp_segment_ids q = map sg_segment_id (segment_records n)" "receipt_from (receipt_json q) = Inr q" by blast
  have "length (rcp_segment_ids q) = 1" unfolding q(2) using sample_single [OF n] by simp
  with n q(1,3) show ?thesis by blast
qed

end
