(* ===== verification/Segmenters.thy ===== *)
theory Segmenters
  imports Bounded_Segmentation
begin

text \<open>
  The segmenters of src/src/docspec/processing/segmentation.py and their registry, over the interface
  \<^theory_text>\<open>segmenter\<close>: whatever a segmenter does to find its ranges, it mints segments with
  \<open>build_segment\<close>, numbered from zero. Every law of stored segments is proved once in that interface
  and holds of the paragraph, page, record, whole-image and bounded segmenters and of the registry
  that dispatches to them. The JSON record reader is a package the code calls: its installed identity
  and its record spans are parameters.
\<close>

section \<open>The interface\<close>

definition minted :: "platform \<Rightarrow> bool \<Rightarrow> representation_payload \<Rightarrow> nat \<Rightarrow> segment_payload \<Rightarrow> bool" where
  "minted P trusted p i s \<longleftrightarrow> (\<exists>kind start e segmenter_id digest derivation media.
     build_segment P trusted p (int i) kind start e segmenter_id digest derivation media = Inr s)"

lemma mintedI: "build_segment P trusted p (int i) kind start e segmenter_id digest derivation media = Inr s \<Longrightarrow> minted P trusted p i s"
  unfolding minted_def by blast

lemma minted_facts:
  assumes "minted P trusted p i s"
  shows "verify_segment_representation trusted s p = Inr ()" "segment_make P (sgp_segment s) = Inr (sgp_segment s)"
    "sg_ordinal (sgp_segment s) = int i"
proof -
  obtain kind start e segmenter_id digest derivation media where
    b: "build_segment P trusted p (int i) kind start e segmenter_id digest derivation media = Inr s"
    using assms unfolding minted_def by blast
  show "verify_segment_representation trusted s p = Inr ()" by (rule build_segment_verified [OF b])
  show "segment_make P (sgp_segment s) = Inr (sgp_segment s)" by (rule built_made [OF b])
  show "sg_ordinal (sgp_segment s) = int i" by (rule built_ranges(3) [OF b])
qed

locale segmenter =
  fixes P :: platform
    and run :: "bool \<Rightarrow> representation_payload \<Rightarrow> segment_payload list result"
  assumes built: "run trusted p = Inr ss \<Longrightarrow> i < length ss \<Longrightarrow>
    minted P trusted p i (ss ! i)"
begin

lemma verified: "run trusted p = Inr ss \<Longrightarrow> s \<in> set ss \<Longrightarrow> verify_segment_representation trusted s p = Inr ()"
  by (metis built minted_facts(1) in_set_conv_nth)

lemma made: "run trusted p = Inr ss \<Longrightarrow> s \<in> set ss \<Longrightarrow> segment_make P (sgp_segment s) = Inr (sgp_segment s)"
  by (metis built minted_facts(2) in_set_conv_nth)

lemma numbered: "run trusted p = Inr ss \<Longrightarrow> map (\<lambda>s. sg_ordinal (sgp_segment s)) ss = map int [0..<length ss]"
proof (rule nth_equalityI)
  fix i assume "run trusted p = Inr ss" "i < length (map (\<lambda>s. sg_ordinal (sgp_segment s)) ss)"
  then show "map (\<lambda>s. sg_ordinal (sgp_segment s)) ss ! i = map int [0..<length ss] ! i"
    using built [of trusted p ss i] minted_facts(3) by fastforce
qed simp

lemma in_source:
  assumes "payload_ok P trusted' p" "verify_representation_evidence P derived p src = Inr ()"
    "run trusted p = Inr ss" "s \<in> set ss"
  shows "verify_segment_evidence P trusted derived s p src = Inr () \<and>
    (\<exists>m \<in> set (rp_evidence_mappings (rpp_representation p)).
       evidence_of_source derived m (sg_evidence (sgp_segment s)) (sgp_content s) src)"
proof -
  have v: "verify_segment_evidence P trusted derived s p src = Inr ()"
    using verified [OF assms(3,4)] assms(2) by (simp add: verify_segment_evidence_def)
  then show ?thesis using verified_segment_source [OF assms(1) v] by blast
qed

lemma distinct_ids:
  assumes "canonical_documented P" "run trusted p = Inr ss"
    "inj_on (sha256_hex P) {b. \<exists>s \<in> set ss. canonical P (segment_identity (sgp_segment s)) = Inr b}"
  shows "distinct (map (\<lambda>s. sg_segment_id (sgp_segment s)) ss)"
proof -
  have "map sg_ordinal (map sgp_segment ss) = map int [0..<length ss]" using numbered [OF assms(2)] by (simp add: comp_def)
  then have "distinct (map sg_ordinal (map sgp_segment ss))" by (simp only: distinct_map) simp
  moreover have "\<forall>r \<in> set (map sgp_segment ss). segment_make P r = Inr r" using made [OF assms(2)] by simp
  ultimately have "distinct (map sg_segment_id (map sgp_segment ss))"
    using segment_ids_distinct [OF assms(1), of "map sgp_segment ss"] assms(3) by simp
  then show ?thesis by (simp add: comp_def)
qed

end

text \<open>A segmenter that maps a list of ranges through \<open>build_segment\<close> is one.\<close>

lemma built_by_map:
  assumes "mapE (\<lambda>(ordinal, x). build_segment P trusted p (int ordinal) (kind x) (start x) (e x) (sid x) (digest x)
      (derivation x) (media x)) (enumerate 0 xs) = Inr ss" "i < length ss"
  shows "minted P trusted p i (ss ! i)"
proof -
  have all: "list_all2 (\<lambda>x s. (case x of (ordinal, x) \<Rightarrow> build_segment P trusted p (int ordinal) (kind x) (start x) (e x)
      (sid x) (digest x) (derivation x) (media x)) = Inr s) (enumerate 0 xs) ss"
    using assms(1) by (simp add: mapE_Inr_iff)
  show ?thesis using list_all2_nthD2 [OF all assms(2)] list_all2_lengthD [OF all] assms(2)
    by (auto simp: nth_enumerate_eq intro: mintedI)
qed

interpretation bounded: segmenter P "\<lambda>trusted. segmenter_segment P trusted g" for P g
proof
  fix trusted p ss i
  assume run: "segmenter_segment P trusted g p = Inr ss" and i: "i < length ss"
  then obtain n where n: "segment_bounded P trusted g p = Inr n" "ss = map bs_payload (bsn_segments n)"
    by (auto simp: segmenter_segment_def bindE_Inr_iff)
  obtain t ws and bt :: bounded_text where bt:
    "mapE (bounded_segment_of P trusted (bsg_settings g) p) (enumerate 0 (bt_spans bt)) = Inr (bsn_segments n)"
    by (rule segment_bounded_run [OF n(1)]) (rule that)
  have len: "i < length (bsn_segments n)" using i n(2) by simp
  obtain digest where "build_segment P trusted p (int i) bounded_segment_kind (int (ts_start (bt_spans bt ! i)))
      (int (ts_end (bt_spans bt ! i))) bounded_segmenter_id digest
      [''source-native-text'', ''bounded:'' @ bs_policy (bsg_settings g)] None = Inr (bs_payload (bsn_segments n ! i))"
    using bounded_segments_nth(2) [OF bt len] by blast
  then have "minted P trusted p i (bs_payload (bsn_segments n ! i))" by (rule mintedI)
  then show "minted P trusted p i (ss ! i)" using len n(2) by simp
qed

section \<open>Paragraphs\<close>

definition paragraph_policy_digest :: "platform \<Rightarrow> string result" where
  "paragraph_policy_digest P = identity_digest P (JObj [(''policy'', JStr ''blank-line-paragraphs''),
     (''version'', JInt 1), (''coordinates'', JStr ''utf8-byte-range''), (''trimOuterWhitespace'', JBool True)])"

definition trim_char_range :: "utext \<Rightarrow> nat \<Rightarrow> nat \<Rightarrow> span option" where
  "trim_char_range t a b = (let a' = skip_space t a b; b' = drop_space t a' b in
     if a' < b' then Some (a', b') else None)"

text \<open>The loop over the gaps, with the start of the text not yet consumed.\<close>

fun paragraphs_from :: "utext \<Rightarrow> nat \<Rightarrow> span list \<Rightarrow> span list" where
  "paragraphs_from t start [] = (case trim_char_range t start (length t) of None \<Rightarrow> [] | Some r \<Rightarrow> [r])"
| "paragraphs_from t start ((a, b) # rest) =
     (case trim_char_range t start a of None \<Rightarrow> [] | Some r \<Rightarrow> [r]) @ paragraphs_from t b rest"

definition paragraph_char_ranges :: "utext \<Rightarrow> span list" where
  "paragraph_char_ranges t = paragraphs_from t 0 (gaps t (length t) 0)"

definition paragraph_segments ::
    "platform \<Rightarrow> bool \<Rightarrow> representation_payload \<Rightarrow> segment_payload list result" where
  "paragraph_segments P trusted p =
     bindE (paragraph_policy_digest P) (\<lambda>digest.
     bindE (decode_utf8 (rpp_content p) ''paragraph representation'') (\<lambda>t.
       let offsets = utf8_byte_offsets t in
       mapE (\<lambda>(ordinal, r). build_segment P trusted p (int ordinal) ''paragraph'' (int (offsets ! fst r))
               (int (offsets ! snd r)) ''docspec.paragraph/v1'' digest [''source-native-text'', ''blank-line-paragraph''] None)
         (enumerate 0 (paragraph_char_ranges t))))"

interpretation paragraphs: segmenter P "paragraph_segments P" for P
  by unfold_locales (auto simp: paragraph_segments_def Let_def bindE_Inr_iff intro: built_by_map)

section \<open>Pages\<close>

definition pdf_page_text_transform :: string where
  "pdf_page_text_transform = ''pypdf-page-text''"

definition ocr_page_transform :: string where
  "ocr_page_transform = ''spicy-docs-page-recognition/v1''"

definition page_policy_digest :: "platform \<Rightarrow> string result" where
  "page_policy_digest P = identity_digest P (JObj [(''policy'', JStr ''declared-pdf-pages''), (''version'', JInt 1),
     (''includeEmptyPages'', JBool True)])"

definition page_segment ::
    "platform \<Rightarrow> bool \<Rightarrow> representation_payload \<Rightarrow> string \<Rightarrow> nat \<times> evidence_mapping \<Rightarrow> segment_payload result" where
  "page_segment P trusted p digest item = (case item of (ordinal, m) \<Rightarrow>
     case ec_page (em_evidence m) of
       None \<Rightarrow> Inl (IntegrityError ''PDF text representation has a non-page evidence link'')
     | Some page \<Rightarrow>
         if em_transformation m \<notin> {pdf_page_text_transform, ocr_page_transform}
         then Inl (IntegrityError ''PDF text representation has a non-page evidence link'')
         else build_segment P trusted p (int ordinal) ''page'' (em_representation_start m) (em_representation_end m)
           ''docspec.pdf-page/v1'' digest
           [if em_transformation m = ocr_page_transform then ''ocr-recognition'' else ''pypdf-embedded-text'',
            ''page:'' @ str_of_int page] None)"

definition page_segments :: "platform \<Rightarrow> bool \<Rightarrow> representation_payload \<Rightarrow> segment_payload list result" where
  "page_segments P trusted p =
     bindE (page_policy_digest P) (\<lambda>digest.
     thenE (refuse (rp_kind (rpp_representation p) \<noteq> ''pdf-text'')
              (IntegrityError ''page segmentation requires a pdf-text representation''))
       (mapE (page_segment P trusted p digest) (enumerate 0 (rp_evidence_mappings (rpp_representation p)))))"

lemma page_segment_nth:
  assumes "mapE (page_segment P trusted p digest) (enumerate 0 ms) = Inr ss" "i < length ss"
  shows "length ss = length ms" "page_segment P trusted p digest (i, ms ! i) = Inr (ss ! i)"
proof -
  have all: "list_all2 (\<lambda>x s. page_segment P trusted p digest x = Inr s) (enumerate 0 ms) ss"
    using assms(1) by (simp add: mapE_Inr_iff)
  show len: "length ss = length ms" using list_all2_lengthD [OF all] by simp
  show "page_segment P trusted p digest (i, ms ! i) = Inr (ss ! i)"
    using list_all2_nthD2 [OF all assms(2)] len assms(2) by (simp add: nth_enumerate_eq)
qed

lemma page_segment_built:
  "page_segment P trusted p digest (i, m) = Inr s \<Longrightarrow> \<exists>page derivation. ec_page (em_evidence m) = Some page \<and>
     build_segment P trusted p (int i) ''page'' (em_representation_start m) (em_representation_end m)
       ''docspec.pdf-page/v1'' digest derivation None = Inr s"
  by (auto simp: page_segment_def split: option.splits if_splits)

interpretation page: segmenter P "page_segments P" for P
proof
  fix trusted p ss i
  assume "page_segments P trusted p = Inr ss" "i < length ss"
  then obtain digest where run: "mapE (page_segment P trusted p digest)
      (enumerate 0 (rp_evidence_mappings (rpp_representation p))) = Inr ss" "i < length ss"
    by (auto simp: page_segments_def bindE_Inr_iff thenE_Inr_iff)
  show "minted P trusted p i (ss ! i)"
    using page_segment_built [OF page_segment_nth(2) [OF run]] mintedI by blast
qed


section \<open>JSON records\<close>

text \<open>
  What the code takes from the reader package: its version and module digests, as installed at the
  time of the call, and the byte spans of the records it finds (\<open>ValueError\<close> otherwise).
\<close>

type_synonym reader_identity = "string \<times> (string \<times> string) list"

record json_reader =
  jr_installed :: "reader_identity option"
  jr_records :: "bytes \<Rightarrow> (int \<times> int) list result"

definition reader_configuration :: "reader_identity option \<Rightarrow> (string \<times> json) list" where
  "reader_configuration identity =
     [(''readerVersion'', case identity of Some (v, _) \<Rightarrow> JStr v | None \<Rightarrow> JNull),
      (''readerModules'', case identity of Some (_, ms) \<Rightarrow> JObj (map (\<lambda>(n, d). (n, JStr d)) ms) | None \<Rightarrow> JNull)]"

definition require_reader_identity :: "reader_identity option \<Rightarrow> reader_identity option \<Rightarrow> unit result" where
  "require_reader_identity identity installed =
     thenE (refuse (identity = None) (IntegrityError ''the configured SpicyDocs reader files are unavailable''))
       (refuse (installed \<noteq> identity)
          (IntegrityError ''installed SpicyDocs reader differs from the configured version or module bytes''))"

definition json_source_profile :: json where
  "json_source_profile = JObj [(''number_policy'', JStr ''finite-float''), (''max_bytes'', JInt (64 * 1024 * 1024)),
     (''max_nodes'', JInt 1000000), (''max_depth'', JInt 256)]"

record record_segmenter =
  rsg_reader_identity :: "reader_identity option"
  rsg_policy_digest :: string

definition record_segmenter_new :: "platform \<Rightarrow> json_reader \<Rightarrow> record_segmenter result" where
  "record_segmenter_new P R =
     bindE (identity_digest P (JObj ([(''policy'', JStr ''top-level-json-records''), (''version'', JInt 2),
       (''arrayMembers'', JStr ''one-record-each''), (''otherRoots'', JStr ''one-record''),
       (''sourceProfile'', json_source_profile)] @ reader_configuration (jr_installed R)))) (\<lambda>digest.
     Inr \<lparr>rsg_reader_identity = jr_installed R, rsg_policy_digest = digest\<rparr>)"

definition record_policy_digest :: "json_reader \<Rightarrow> record_segmenter \<Rightarrow> string result" where
  "record_policy_digest R g =
     thenE (require_reader_identity (rsg_reader_identity g) (jr_installed R)) (Inr (rsg_policy_digest g))"

definition record_segments ::
    "platform \<Rightarrow> json_reader \<Rightarrow> record_segmenter \<Rightarrow> bool \<Rightarrow> representation_payload \<Rightarrow> segment_payload list result" where
  "record_segments P R g trusted p =
     thenE (refuse (rp_kind (rpp_representation p) \<noteq> ''json'')
              (IntegrityError ''record segmentation requires a JSON representation''))
    (bindE (record_policy_digest R g) (\<lambda>digest.
     bindE (value_error_as_integrity (jr_records R (rpp_content p))) (\<lambda>spans.
       mapE (\<lambda>(ordinal, r). build_segment P trusted p (int ordinal) ''record'' (fst r) (snd r) ''docspec.json-record/v2''
               digest [''source-native-json'', ''top-level-record''] (Some ''application/json''))
         (enumerate 0 spans))))"

interpretation records: segmenter P "record_segments P R g" for P R g
  by unfold_locales (auto simp: record_segments_def thenE_Inr_iff bindE_Inr_iff intro: built_by_map)

section \<open>Images\<close>

definition image_policy_digest :: "platform \<Rightarrow> string result" where
  "image_policy_digest P = identity_digest P (JObj [(''policy'', JStr ''whole-image''), (''version'', JInt 1)])"

definition image_segments :: "platform \<Rightarrow> bool \<Rightarrow> representation_payload \<Rightarrow> segment_payload list result" where
  "image_segments P trusted p =
     bindE (image_policy_digest P) (\<lambda>digest.
     thenE (refuse (rp_kind (rpp_representation p) \<noteq> ''image'')
              (IntegrityError ''whole-image segmentation requires an image representation''))
    (bindE (build_segment P trusted p 0 ''whole-image'' 0 (int (length (rpp_content p))) ''docspec.whole-image/v1'' digest
              [''source-image'', ''whole-image''] None) (\<lambda>s. Inr [s])))"

interpretation image: segmenter P "image_segments P" for P
  by unfold_locales
    (auto simp: image_segments_def thenE_Inr_iff bindE_Inr_iff less_Suc_eq intro: mintedI [where i = 0, simplified])

section \<open>The registry\<close>

record segmenter_registry =
  reg_record :: record_segmenter
  reg_bounded :: "bounded_segmenter option"

datatype route = ToBounded bounded_segmenter | ToParagraph | ToPage | ToRecord | ToImage

definition select_segmenter :: "segmenter_registry \<Rightarrow> string \<Rightarrow> route result" where
  "select_segmenter G kind =
     (case (reg_bounded G, kind \<in> set bounded_text_kinds) of
        (Some g, True) \<Rightarrow> Inr (ToBounded g)
      | _ \<Rightarrow>
          if kind \<in> {''text'', ''html'', ''xml''} then Inr ToParagraph
          else if kind = ''pdf-text'' then Inr ToPage
          else if kind = ''json'' then Inr ToRecord
          else if kind = ''image'' then Inr ToImage
          else Inl (IntegrityError (''no segmenter is registered for representation kind '' @ kind)))"

definition registry_selected_identity ::
    "platform \<Rightarrow> json_reader \<Rightarrow> segmenter_registry \<Rightarrow> representation \<Rightarrow> (string \<times> string) result" where
  "registry_selected_identity P R G r =
     bindE (select_segmenter G (rp_kind r)) (\<lambda>route. case route of
        ToBounded g \<Rightarrow> selected_identity P g
      | ToParagraph \<Rightarrow> bindE (paragraph_policy_digest P) (\<lambda>d. Inr (''docspec.paragraph/v1'', d))
      | ToPage \<Rightarrow> bindE (page_policy_digest P) (\<lambda>d. Inr (''docspec.pdf-page/v1'', d))
      | ToRecord \<Rightarrow> bindE (record_policy_digest R (reg_record G)) (\<lambda>d. Inr (''docspec.json-record/v2'', d))
      | ToImage \<Rightarrow> bindE (image_policy_digest P) (\<lambda>d. Inr (''docspec.whole-image/v1'', d)))"

definition registry_segments ::
    "platform \<Rightarrow> json_reader \<Rightarrow> segmenter_registry \<Rightarrow> bool \<Rightarrow> representation_payload \<Rightarrow> segment_payload list result" where
  "registry_segments P R G trusted p =
     bindE (select_segmenter G (rp_kind (rpp_representation p))) (\<lambda>route. case route of
        ToBounded g \<Rightarrow> segmenter_segment P trusted g p
      | ToParagraph \<Rightarrow> paragraph_segments P trusted p
      | ToPage \<Rightarrow> page_segments P trusted p
      | ToRecord \<Rightarrow> record_segments P R (reg_record G) trusted p
      | ToImage \<Rightarrow> image_segments P trusted p)"

interpretation registry: segmenter P "registry_segments P R G" for P R G
proof
  fix trusted p ss i
  assume run: "registry_segments P R G trusted p = Inr ss" and i: "i < length ss"
  from run obtain route where select: "select_segmenter G (rp_kind (rpp_representation p)) = Inr route"
    by (auto simp: registry_segments_def bindE_Inr_iff)
  from run i show "minted P trusted p i (ss ! i)"
    by (cases route) (auto simp: registry_segments_def select
        intro: bounded.built paragraphs.built page.built records.built image.built)
qed

definition registered_policy_digests :: "platform \<Rightarrow> json_reader \<Rightarrow> segmenter_registry \<Rightarrow> (string \<times> string) list result" where
  "registered_policy_digests P R G =
     bindE (paragraph_policy_digest P) (\<lambda>a. bindE (page_policy_digest P) (\<lambda>b.
     bindE (record_policy_digest R (reg_record G)) (\<lambda>c. bindE (image_policy_digest P) (\<lambda>d.
       let registered = [(''docspec.paragraph/v1'', a), (''docspec.pdf-page/v1'', b), (''docspec.json-record/v2'', c),
                         (''docspec.whole-image/v1'', d)] in
       case reg_bounded G of None \<Rightarrow> Inr registered
       | Some g \<Rightarrow> bindE (segmenter_policy_digest P g) (\<lambda>e. Inr (registered @ [(bounded_segmenter_id, e)]))))))"

definition child_identity :: "string \<Rightarrow> string \<Rightarrow> json" where
  "child_identity segmenter_id digest = JObj [(''segmenterId'', JStr segmenter_id), (''policyDigest'', JStr digest)]"

definition registry_policy_digest :: "platform \<Rightarrow> json_reader \<Rightarrow> segmenter_registry \<Rightarrow> string result" where
  "registry_policy_digest P R G =
     bindE (paragraph_policy_digest P) (\<lambda>a. bindE (page_policy_digest P) (\<lambda>b.
     bindE (record_policy_digest R (reg_record G)) (\<lambda>c. bindE (image_policy_digest P) (\<lambda>d.
     bindE (case reg_bounded G of None \<Rightarrow> Inr JNull
            | Some g \<Rightarrow> bindE (segmenter_policy_digest P g) (\<lambda>e. Inr (child_identity bounded_segmenter_id e))) (\<lambda>e.
       identity_digest P (JObj [(''dispatcher'', JStr ''docspec.default-segmenters/v1''),
         (''boundedTextKinds'', JArr (if reg_bounded G = None then [] else map JStr [''html'', ''text'', ''xml''])),
         (''children'', JObj [(''paragraph'', child_identity ''docspec.paragraph/v1'' a),
            (''page'', child_identity ''docspec.pdf-page/v1'' b),
            (''record'', child_identity ''docspec.json-record/v2'' c),
            (''image'', child_identity ''docspec.whole-image/v1'' d), (''bounded'', e)])]))))))"


section \<open>Receipts\<close>

record segmenter_receipt =
  src_representation_id :: string
  src_segmenter_id :: string
  src_policy_digest :: string
  src_segment_ids :: "string list"

definition segmenter_receipt_make :: "segmenter_receipt \<Rightarrow> segmenter_receipt result" where
  "segmenter_receipt_make r =
     thenE (check_texts [(''segmentation receipt representation_id'', src_representation_id r),
       (''segmentation receipt segmenter_id'', src_segmenter_id r)])
    (thenE (check_digest (src_policy_digest r) ''segmentation receipt policy_digest'')
    (thenE (check_texts (map (\<lambda>i. (''segmentation receipt segment_id'', i)) (src_segment_ids r)))
    (thenE (refuse (\<not> distinct (src_segment_ids r))
              (ValueError ''segmentation receipt segment identities must be distinct'')) (Inr r))))"

definition segmenter_receipt_format :: string where
  "segmenter_receipt_format = ''docspec-segmentation-receipt''"

definition segmenter_receipt_json :: "segmenter_receipt \<Rightarrow> json" where
  "segmenter_receipt_json r = JObj [(''format'', JStr segmenter_receipt_format), (''formatVersion'', JStr ''2.0''),
     (''representationId'', JStr (src_representation_id r)), (''segmenterId'', JStr (src_segmenter_id r)),
     (''policyDigest'', JStr (src_policy_digest r)), (''segments'', JArr (map JStr (src_segment_ids r)))]"

definition segmenter_receipt_from :: "json \<Rightarrow> segmenter_receipt result" where
  "segmenter_receipt_from value = (case value of
     JObj kvs \<Rightarrow>
       if set (map fst kvs) \<noteq> {''format'', ''formatVersion'', ''representationId'', ''segmenterId'', ''policyDigest'', ''segments''}
       then Inl (ValueError ''segmentation receipt has an invalid closed shape'')
       else if dict_get kvs ''format'' \<noteq> JStr segmenter_receipt_format
       then Inl (ValueError ''segmentation receipt format is not supported'')
       else if dict_get kvs ''formatVersion'' \<noteq> JStr ''2.0''
       then Inl (ValueError ''segmentation receipt format version is not supported'')
       else (case dict_get kvs ''segments'' of
          JArr segments \<Rightarrow>
            bindE (get_text kvs ''representationId'') (\<lambda>representation_id.
            bindE (get_text kvs ''segmenterId'') (\<lambda>segmenter_id.
            bindE (get_text kvs ''policyDigest'') (\<lambda>digest.
            bindE (mapE as_text segments) (\<lambda>segment_ids.
              segmenter_receipt_make \<lparr>src_representation_id = representation_id, src_segmenter_id = segmenter_id,
                src_policy_digest = digest, src_segment_ids = segment_ids\<rparr>))))
        | _ \<Rightarrow> Inl (ValueError ''segmentation receipt segments must be an array''))
   | _ \<Rightarrow> Inl (ValueError ''segmentation receipt has an invalid closed shape''))"

definition segmenter_receipt_digest :: "platform \<Rightarrow> segmenter_receipt \<Rightarrow> string result" where
  "segmenter_receipt_digest P r = identity_digest P (segmenter_receipt_json r)"

lemma segmenter_receipt_make_same: "segmenter_receipt_make r = Inr r' \<Longrightarrow> r' = r \<and> segmenter_receipt_make r = Inr r"
  by (auto simp: segmenter_receipt_make_def thenE_Inr_iff)

lemma segmenter_receipt_read: "segmenter_receipt_from (segmenter_receipt_json r) = segmenter_receipt_make r"
  by (cases r) (simp add: segmenter_receipt_from_def segmenter_receipt_json_def wire_simps)

lemma segmenter_receipt_from_ok: "segmenter_receipt_from v = Inr r \<Longrightarrow> segmenter_receipt_make r = Inr r"
proof -
  assume "segmenter_receipt_from v = Inr r"
  then obtain q where "segmenter_receipt_make q = Inr r"
    by (auto simp: segmenter_receipt_from_def bindE_Inr_iff split: json.splits if_splits)
  then show ?thesis using segmenter_receipt_make_same by blast
qed

interpretation segmenter_receipt: wire "\<lambda>r. segmenter_receipt_make r = Inr r" segmenter_receipt_json segmenter_receipt_from
  by (rule wireI [where construct = segmenter_receipt_make]) (simp_all add: segmenter_receipt_read segmenter_receipt_from_ok)

section \<open>Paragraphs are regions\<close>

text \<open>
  \<open>_paragraph_char_ranges\<close> and the region tiling of the bounded segmenter split a text at the same
  blank lines and trim the same white space, by two implementations of one rule.
\<close>

lemma trim_block:
  assumes "a \<le> b" "b \<le> length t"
  shows "map span_of (filter (\<lambda>r. rg_kind r \<noteq> EmptyRegion) (block_regions t i (a, b))) =
    (case trim_char_range t a b of None \<Rightarrow> [] | Some r \<Rightarrow> [r])"
proof -
  define a' where "a' = skip_space t a b"
  define b' where "b' = drop_space t a' b"
  note A = skip_space_parts [OF assms, folded a'_def]
  have "a' \<le> b" using A by simp
  note B = drop_space_parts [OF this assms(2), folded b'_def]
  show ?thesis
  proof (cases "a = b")
    case True
    have "a' = b'" using A B True by simp
    then have "trim_char_range t a b = None"
      unfolding trim_char_range_def Let_def a'_def [symmetric] b'_def [symmetric] by simp
    then show ?thesis using True
      by (simp add: block_regions_def)
  next
    case False
    then show ?thesis using B
      by (auto simp: block_regions_def trim_char_range_def a'_def [symmetric] b'_def [symmetric] Let_def span_of_def)
  qed
qed

lemma gaps_member: "(a, b) \<in> set (gaps t upper i) \<Longrightarrow> gap_end t upper a = Some b"
proof (induction t upper i rule: gaps.induct)
  case (1 t upper i)
  show ?case
  proof (cases "i < upper")
    case True
    show ?thesis
    proof (cases "gap_end t upper i")
      case None
      have "gaps t upper i = gaps t upper (i + 1)" using True None by (subst gaps.simps) simp
      then show ?thesis using "1.IH"(1) [OF True None] "1.prems" by simp
    next
      case (Some j)
      have "gaps t upper i = (i, j) # gaps t upper j" using True Some by (subst gaps.simps) simp
      then show ?thesis using "1.IH"(2) [OF True Some] "1.prems" Some by auto
    qed
  next
    case False
    then have "gaps t upper i = []" by (subst gaps.simps) simp
    then show ?thesis using "1.prems" by simp
  qed
qed

lemma trim_gap:
  assumes "gap_end t upper a = Some b" "upper \<le> length t"
  shows "trim_char_range t a b = None"
proof -
  have b: "a < b" "b \<le> upper" using gap_end_bounds [OF assms(1)] by auto
  have "isspace (slice_of t a b ! k)" if "k < b - a" for k
    using gap_space [OF assms(1), of "a + k"] that b assms(2) by (simp add: slice_of_nth)
  then have "takeWhile isspace (slice_of t a b) = slice_of t a b"
    using b assms(2) by (auto simp: takeWhile_eq_all_conv in_set_conv_nth slice_of_length)
  then have "length (takeWhile isspace (slice_of t a b)) = b - a" using b assms(2) by (simp only:) (simp add: slice_of_length)
  then have "skip_space t a b = b" using b by (simp add: skip_space_def)
  then show ?thesis by (simp add: trim_char_range_def Let_def drop_space_def)
qed

lemma paragraphs_from_regions:
  assumes "in_order start (length t) gs" "\<forall>(a, b) \<in> set gs. gap_end t (length t) a = Some b"
  shows "map span_of (filter (\<lambda>r. rg_kind r \<noteq> EmptyRegion) (concat (map (block_regions t i) (blocks_from (length t) start gs))))
    = paragraphs_from t start gs"
  using assms
proof (induction "length t" start gs rule: blocks_from.induct)
  case (1 start)
  then show ?case using trim_block [of start "length t" t i] by simp
next
  case (2 start a b rest)
  have le: "start \<le> a" "a < b" "b \<le> length t" "in_order b (length t) rest"
    using "2.prems"(1) in_order_end by auto
  have gap: "gap_end t (length t) a = Some b" using "2.prems"(2) by auto
  have one: "map span_of (filter (\<lambda>r. rg_kind r \<noteq> EmptyRegion) (block_regions t i (start, a)))
      = (case trim_char_range t start a of None \<Rightarrow> [] | Some r \<Rightarrow> [r])"
    by (rule trim_block) (use le in auto)
  have two: "map span_of (filter (\<lambda>r. rg_kind r \<noteq> EmptyRegion) (block_regions t i (a, b))) = []"
    using trim_block [of a b t i] trim_gap [OF gap] le by simp
  have rest: "map span_of (filter (\<lambda>r. rg_kind r \<noteq> EmptyRegion) (concat (map (block_regions t i) (blocks_from (length t) b rest))))
      = paragraphs_from t b rest"
    by (rule "2.hyps") (use le "2.prems"(2) in auto)
  show ?case by (simp add: one two rest del: map_map)
qed


lemma paragraph_regions:
  "map span_of (filter (\<lambda>r. rg_kind r \<noteq> EmptyRegion) (regions t [(0, length t)])) = paragraph_char_ranges t"
  using paragraphs_from_regions [OF gaps_in_order [of 0 "length t" t], of 0] gaps_member [of _ _ t "length t" 0]
  by (fastforce simp: regions_def window_regions_def blocks_def paragraph_char_ranges_def)

section \<open>Pages as the extractor lays them out\<close>

text \<open>
  The page ranges of the PDF text extractor in src/src/docspec/processing/extraction.py: the pages
  are joined by a nonempty separator and each mapping is the range of its page.
\<close>

fun page_ranges :: "nat \<Rightarrow> nat \<Rightarrow> bytes list \<Rightarrow> span list" where
  "page_ranges gap position [] = []"
| "page_ranges gap position (page # rest) =
     (position, position + length page) # page_ranges gap (position + length page + (if rest \<noteq> [] then gap else 0)) rest"

definition page_mapping :: "string \<Rightarrow> nat \<times> span \<Rightarrow> evidence_mapping" where
  "page_mapping digest item = (case item of (page, a, b) \<Rightarrow>
     \<lparr>em_representation_start = int a, em_representation_end = int b,
      em_evidence = \<lparr>ec_coordinate_system = ''pdf-page'', ec_source_digest = digest, ec_start = None, ec_end = None,
        ec_page = Some (int page), ec_region = JObj [(''kind'', JStr ''whole-page''), (''page'', JInt (int page))]\<rparr>,
      em_transformation = pdf_page_text_transform\<rparr>)"

definition page_mappings :: "string \<Rightarrow> bytes \<Rightarrow> bytes list \<Rightarrow> evidence_mapping list" where
  "page_mappings digest separator pages = map (page_mapping digest) (enumerate 1 (page_ranges (length separator) 0 pages))"

lemma page_ranges_length [simp]: "length (page_ranges g k ps) = length ps"
  by (induction ps arbitrary: k) auto

lemma page_ranges_bounds: "i < length ps \<Longrightarrow> k \<le> fst (page_ranges g k ps ! i) \<and>
    fst (page_ranges g k ps ! i) + length (ps ! i) = snd (page_ranges g k ps ! i)"
proof (induction ps arbitrary: k i)
  case (Cons p ps)
  show ?case
  proof (cases i)
    case (Suc j)
    then have "j < length ps" "ps \<noteq> []" using Cons.prems by auto
    then show ?thesis using Cons.IH [of j "k + length p + g"] Suc by simp
  qed simp
qed simp

lemma page_ranges_apart:
  "i < j \<Longrightarrow> j < length ps \<Longrightarrow> snd (page_ranges g k ps ! i) + g \<le> fst (page_ranges g k ps ! j)"
proof (induction ps arbitrary: k i j)
  case (Cons p ps)
  then obtain m where j: "j = Suc m" "m < length ps" by (cases j) auto
  show ?case
  proof (cases i)
    case 0
    have "k + length p + g \<le> fst (page_ranges g (k + length p + g) ps ! m)"
      using page_ranges_bounds [OF j(2)] by blast
    then show ?thesis using 0 j by auto
  next
    case (Suc n)
    then show ?thesis using Cons.IH [of n m "k + length p + g"] Cons.prems j by auto
  qed
qed simp

lemma slice_prefix:
  assumes "length xs = length zs" "length xs \<le> a"
  shows "slice_of (xs @ ys) a b = slice_of (zs @ ys) a b"
  using assms by (simp add: slice_of_def)

lemma page_ranges_content:
  "i < length ps \<Longrightarrow> slice_of (replicate k z @ join_with sep ps) (fst (page_ranges (length sep) k ps ! i))
     (snd (page_ranges (length sep) k ps ! i)) = ps ! i"
proof (induction ps arbitrary: k i)
  case (Cons p ps)
  show ?case
  proof (cases i)
    case 0
    have "take (length p) (join_with sep (p # ps)) = p" by (cases ps) auto
    then show ?thesis using 0 by (simp add: slice_of_def)
  next
    case (Suc j)
    then have j: "j < length ps" "ps \<noteq> []" using Cons.prems by auto
    define m where "m = k + length p + length sep"
    have "join_with sep (p # ps) = p @ sep @ join_with sep ps" using j(2) by (cases ps) auto
    moreover have "m \<le> fst (page_ranges (length sep) m ps ! j)" using page_ranges_bounds [OF j(1)] by blast
    then have "slice_of ((replicate k z @ p @ sep) @ join_with sep ps) (fst (page_ranges (length sep) m ps ! j))
        (snd (page_ranges (length sep) m ps ! j))
      = slice_of (replicate m z @ join_with sep ps) (fst (page_ranges (length sep) m ps ! j)) (snd (page_ranges (length sep) m ps ! j))"
      by (intro slice_prefix) (simp_all add: m_def)
    ultimately show ?thesis using Cons.IH [OF j(1), of m] Suc j(2) by (simp add: m_def)
  qed
qed simp

definition pdf_text :: "string \<Rightarrow> bytes \<Rightarrow> bytes list \<Rightarrow> representation_payload \<Rightarrow> bool" where
  "pdf_text digest separator pages p \<longleftrightarrow> rp_kind (rpp_representation p) = ''pdf-text'' \<and> separator \<noteq> [] \<and>
     rpp_content p = join_with separator pages \<and>
     rp_evidence_mappings (rpp_representation p) = page_mappings digest separator pages"

lemma page_mappings_nth:
  "i < length pages \<Longrightarrow> page_mappings digest sep pages ! i = page_mapping digest (Suc i, page_ranges (length sep) 0 pages ! i)"
  by (simp add: page_mappings_def nth_enumerate_eq)

lemma page_slice:
  assumes "pdf_text digest sep pages p" "payload_ok P trusted p" "i < length pages"
  shows "py_slice (rpp_content p) (em_representation_start (page_mappings digest sep pages ! i))
     (em_representation_end (page_mappings digest sep pages ! i)) = pages ! i"
proof -
  have m: "page_mappings digest sep pages ! i \<in> set (rp_evidence_mappings (rpp_representation p))"
    using assms(1,3) by (simp add: pdf_text_def page_mappings_def)
  have "slice_of (join_with sep pages) (fst (page_ranges (length sep) 0 pages ! i)) (snd (page_ranges (length sep) 0 pages ! i)) = pages ! i"
    using page_ranges_content [OF assms(3), of 0 _ sep] by simp
  then show ?thesis using payload_mapping [OF assms(2) m] assms(1)
    by (simp add: py_slice_inside page_mappings_nth [OF assms(3)] page_mapping_def pdf_text_def split: prod.splits)
qed

text \<open>Because the separator is not empty, no page but its own contains the range of an empty page.\<close>

lemma page_evidence:
  assumes "pdf_text digest sep pages p" "payload_ok P trusted p" "i < length pages"
  shows "payload_evidence trusted' p (em_representation_start (page_mappings digest sep pages ! i))
     (em_representation_end (page_mappings digest sep pages ! i)) = Inr (em_evidence (page_mappings digest sep pages ! i))"
proof -
  let ?ms = "page_mappings digest sep pages" and ?r = "page_ranges (length sep) 0 pages"
  let ?m = "?ms ! i"
  have ms: "rp_evidence_mappings (rpp_representation p) = ?ms" using assms(1) by (simp add: pdf_text_def)
  have len: "length ?ms = length pages" by (simp add: page_mappings_def)
  have at: "em_representation_start (?ms ! j) = int (fst (?r ! j)) \<and> em_representation_end (?ms ! j) = int (snd (?r ! j))"
    if "j < length pages" for j using that by (simp add: page_mappings_nth page_mapping_def split: prod.splits)
  have before: "\<not> (em_representation_start (?ms ! j) \<le> em_representation_start ?m \<and>
      em_representation_end ?m \<le> em_representation_end (?ms ! j))" if "j < i" for j
  proof -
    have "snd (?r ! j) + length sep \<le> fst (?r ! i)" by (rule page_ranges_apart [OF that assms(3)])
    moreover have "fst (?r ! i) \<le> snd (?r ! i)" using page_ranges_bounds [OF assms(3), of 0 "length sep"] by simp
    moreover have "1 \<le> length sep" using assms(1) by (simp add: pdf_text_def Suc_le_eq)
    ultimately have "snd (?r ! j) < snd (?r ! i)" by linarith
    then show ?thesis using at [OF assms(3)] at [of j] that assms(3) by auto
  qed
  have "find (\<lambda>m. em_representation_start m \<le> em_representation_start ?m \<and> em_representation_end ?m \<le> em_representation_end m) ?ms
      = Some ?m"
    using before assms(3) len by (auto simp: find_Some_iff intro!: exI [of _ i])
  moreover have mem: "?m \<in> set (rp_evidence_mappings (rpp_representation p))" using ms len assms(3) by simp
  moreover have "em_transformation ?m \<noteq> identity_transformation"
    using assms(3) by (simp add: page_mappings_nth page_mapping_def pdf_page_text_transform_def identity_transformation_def
        split: prod.splits)
  ultimately show ?thesis
    using payload_mapping [OF assms(2) mem] payload_blob [OF assms(2)]
    by (simp add: payload_evidence_def evidence_for_range_def ms resolve_evidence_mapping_def)
qed


lemma build_segment_or:
  assumes "payload_ok P trusted p" "hex_documented P" "payload_evidence trusted' p start e = Inr ev" "0 \<le> ordinal"
    "strip kind \<noteq> []" "strip segmenter_id \<noteq> []" "is_sha256 digest"
  shows "is_ok (build_segment P trusted' p ordinal kind start e segmenter_id digest derivation None) \<or>
    (\<exists>err. (\<exists>j. canonical P j = Inl err) \<and>
       build_segment P trusted' p ordinal kind start e segmenter_id digest derivation None = Inl err)"
proof (cases "canonical P (segment_identity (built_record P p ev ordinal kind start e segmenter_id digest derivation))")
  case (Inl err)
  from build_segment_refused [OF assms(1-3,5) Inl] Inl show ?thesis by blast
next
  case (Inr b)
  then have "is_ok (canonical P (segment_identity (built_record P p ev ordinal kind start e segmenter_id digest derivation)))"
    by simp
  from build_segment_total [OF assms this] show ?thesis by (auto simp: is_ok_iff)
qed

lemma page_names: "strip ''page'' \<noteq> []" "strip ''docspec.pdf-page/v1'' \<noteq> []"
  by (simp_all add: strip_eq_Nil_iff char_isspace_def)

lemma pages_segmented:
  assumes "pdf_text digest sep pages p" "payload_ok P trusted p" "hex_documented P"
  shows "(\<exists>ss. page_segments P trusted' p = Inr ss \<and> map sgp_content ss = pages \<and>
      map (\<lambda>s. ec_page (sg_evidence (sgp_segment s))) ss = map (\<lambda>n. Some (int n)) [1..<Suc (length pages)]) \<or>
    (\<exists>j err. canonical P j = Inl err \<and> page_segments P trusted' p = Inl err)"
proof (cases "page_policy_digest P")
  case (Inl err)
  then have "\<exists>j. canonical P j = Inl err" by (auto simp: page_policy_digest_def identity_digest_eq bindE_Inl_iff)
  then show ?thesis using Inl by (auto simp: page_segments_def)
next
  case (Inr d)
  let ?ms = "page_mappings digest sep pages"
  have sha: "is_sha256 d" using Inr sha256_digest_form [OF assms(3)]
    by (auto simp: page_policy_digest_def identity_digest_eq bindE_Inr_iff)
  have ms: "rp_evidence_mappings (rpp_representation p) = ?ms" "length ?ms = length pages"
    using assms(1) by (simp_all add: pdf_text_def page_mappings_def)
  have page: "ec_page (em_evidence (?ms ! i)) = Some (int (Suc i))" "em_transformation (?ms ! i) = pdf_page_text_transform"
    if "i < length pages" for i using that by (simp_all add: page_mappings_nth page_mapping_def split: prod.splits)
  have step: "page_segment P trusted' p d (i, ?ms ! i) = build_segment P trusted' p (int i) ''page''
      (em_representation_start (?ms ! i)) (em_representation_end (?ms ! i)) ''docspec.pdf-page/v1'' d
      [if pdf_page_text_transform = ocr_page_transform then ''ocr-recognition'' else ''pypdf-embedded-text'',
       ''page:'' @ str_of_int (int (Suc i))] None" if "i < length pages" for i
    using page [OF that] by (simp add: page_segment_def)
  have run: "page_segments P trusted' p = mapE (page_segment P trusted' p d) (enumerate 0 ?ms)"
    using assms(1) Inr by (simp add: page_segments_def ms(1)) (simp add: pdf_text_def)
  have "\<forall>x \<in> set (enumerate 0 ?ms). is_ok (page_segment P trusted' p d x) \<or>
      (\<exists>err. (\<exists>j. canonical P j = Inl err) \<and> page_segment P trusted' p d x = Inl err)"
  proof
    fix x assume mem: "x \<in> set (enumerate 0 ?ms)"
    obtain i m where im: "x = (i, m)" by (rule prod.exhaust)
    have x: "x = (i, ?ms ! i)" "i < length pages" using mem ms(2) im by (auto simp: in_set_enumerate_eq)
    show "is_ok (page_segment P trusted' p d x) \<or>
        (\<exists>err. (\<exists>j. canonical P j = Inl err) \<and> page_segment P trusted' p d x = Inl err)"
      unfolding x(1) step [OF x(2)]
      by (rule build_segment_or [OF assms(2,3) page_evidence [OF assms(1,2) x(2)] _ page_names sha]) simp
  qed
  from mapE_total_or [OF this] show ?thesis
  proof
    assume "is_ok (mapE (page_segment P trusted' p d) (enumerate 0 ?ms))"
    then obtain ss where ss: "mapE (page_segment P trusted' p d) (enumerate 0 ?ms) = Inr ss" by (auto simp: is_ok_iff)
    have all: "list_all2 (\<lambda>x s. page_segment P trusted' p d x = Inr s) (enumerate 0 ?ms) ss"
      using ss by (simp add: mapE_Inr_iff)
    have len: "length ss = length pages" using list_all2_lengthD [OF all] ms(2) by simp
    have one: "sgp_content (ss ! i) = pages ! i \<and> ec_page (sg_evidence (sgp_segment (ss ! i))) = Some (int (Suc i))"
      if i: "i < length pages" for i
    proof -
      have b: "page_segment P trusted' p d (i, ?ms ! i) = Inr (ss ! i)"
        using page_segment_nth(2) [OF ss] i len by simp
      note B = built_ranges(6,7) [OF b [unfolded step [OF i]]]
      have "em_evidence (?ms ! i) = sg_evidence (sgp_segment (ss ! i))"
        using B(2) page_evidence [OF assms(1,2) i, of trusted'] by simp
      then show ?thesis using B(1) page_slice [OF assms(1,2) i] page(1) [OF i] by simp
    qed
    have "map sgp_content ss = pages" by (rule nth_equalityI) (use len one in auto)
    moreover have "map (\<lambda>s. ec_page (sg_evidence (sgp_segment s))) ss = map (\<lambda>n. Some (int n)) [1..<Suc (length pages)]"
      by (rule nth_equalityI) (use len one in \<open>auto simp del: upt_Suc\<close>)
    ultimately show ?thesis using ss run by auto
  next
    assume "\<exists>err. (\<exists>j. canonical P j = Inl err) \<and> mapE (page_segment P trusted' p d) (enumerate 0 ?ms) = Inl err"
    then show ?thesis using run by auto
  qed
qed


lemma nonspace_regions:
  assumes "i < length t" "\<not> isspace (t ! i)"
  shows "\<exists>r \<in> set (filter (\<lambda>r. rg_kind r \<noteq> EmptyRegion) (regions t [(0, length t)])). rg_start r \<le> i \<and> i < rg_end r"
proof -
  have legal: "legal_windows t [(0, length t)]" by simp
  have "tiles 0 (length t) (map span_of (filter (\<lambda>r. rg_window r = 0) (regions t [(0, length t)])))"
    using regions_window_tiles [OF legal, of 0] by simp
  from tiles_hit [OF this _ assms(1)] obtain r where r: "r \<in> set (regions t [(0, length t)])" "rg_start r \<le> i" "i < rg_end r"
    by (auto simp: span_of_def)
  have ok: "region_ok t (rg_window r) r" by (rule regions_ok(1) [OF legal r(1)])
  have "rg_kind r \<noteq> EmptyRegion"
  proof
    assume "rg_kind r = EmptyRegion"
    then have "list_all isspace (rg_text r)" "rg_text r = slice_of t (rg_start r) (rg_end r)" "rg_end r \<le> length t"
      using ok by (auto simp: region_ok_def)
    moreover from this have "rg_text r ! (i - rg_start r) = t ! i" "i - rg_start r < length (rg_text r)"
      using r(2,3) by (simp_all add: slice_of_nth slice_of_length)
    ultimately have "isspace (t ! i)" by (metis list_all_length)
    then show False using assms(2) by simp
  qed
  with r show ?thesis by auto
qed

section \<open>Properties\<close>

text \<open>
  C24. Whatever the registry selects, its segments are source: over a representation that verifies
  against its captured bytes, each segment the registry returns passes \<open>verify_segment_evidence\<close>, is
  what its evidence names in those bytes, and the ordinals number the segments from zero.
\<close>

theorem registry_in_source:
  assumes "payload_ok P trusted' p" "verify_representation_evidence P derived p src = Inr ()"
    "registry_segments P R G trusted p = Inr ss"
  shows "(\<forall>s \<in> set ss. verify_segment_evidence P trusted derived s p src = Inr () \<and>
      (\<exists>m \<in> set (rp_evidence_mappings (rpp_representation p)).
         evidence_of_source derived m (sg_evidence (sgp_segment s)) (sgp_content s) src)) \<and>
    map (\<lambda>s. sg_ordinal (sgp_segment s)) ss = map int [0..<length ss]"
  using registry.in_source [OF assms(1,2,3)] registry.numbered [OF assms(3)] by blast

definition sample_registry :: segmenter_registry where
  "sample_registry = \<lparr>reg_record = \<lparr>rsg_reader_identity = None, rsg_policy_digest = []\<rparr>,
     reg_bounded = Some sample_segmenter\<rparr>"

definition sample_reader :: json_reader where
  "sample_reader = \<lparr>jr_installed = None, jr_records = (\<lambda>b. Inr [])\<rparr>"

theorem registry_in_source_witness:
  "\<exists>s. registry_segments reference_platform sample_reader sample_registry False sample_payload = Inr [s] \<and>
     verify_segment_evidence reference_platform False None s sample_payload (utf8_encode sample_text) = Inr ()"
proof -
  obtain n where n: "segment_bounded reference_platform False sample_segmenter sample_payload = Inr n"
    using sample_segmented by blast
  obtain y where y: "bsn_segments n = [y]" using sample_single [OF n] by (auto simp: length_Suc_conv)
  have "rp_kind (rpp_representation sample_payload) \<in> set bounded_text_kinds"
    by (simp add: sample_payload_def whole_payload_def identified_def whole_fields_def bounded_text_kinds_def)
  then have run: "registry_segments reference_platform sample_reader sample_registry False sample_payload = Inr [bs_payload y]"
    using n y by (simp add: registry_segments_def select_segmenter_def sample_registry_def segmenter_segment_def)
  have v: "verify_representation_evidence reference_platform None sample_payload (utf8_encode sample_text) = Inr ()"
    unfolding sample_payload_def by (rule whole_payload_verified)
  from registry_in_source [OF sample_payload_ok v run] run show ?thesis by auto
qed

text \<open>
  C36. The paragraph segmenter and the region tiling of the bounded segmenter agree: the paragraph
  ranges of a text are exactly its heading and paragraph regions, in order, and every character
  that is not white space is in one of them.
\<close>

theorem paragraphs_are_regions:
  "paragraph_char_ranges t = map span_of (filter (\<lambda>r. rg_kind r \<noteq> EmptyRegion) (regions t [(0, length t)])) \<and>
   {i. i < length t \<and> \<not> isspace (t ! i)} \<subseteq> cover (paragraph_char_ranges t)"
proof -
  have "i \<in> cover (paragraph_char_ranges t)" if "i < length t" "\<not> isspace (t ! i)" for i
    using nonspace_regions [OF that] unfolding paragraph_regions [symmetric] by (auto simp: mem_cover span_of_def)
  then show ?thesis using paragraph_regions by auto
qed

text \<open>
  A PDF text gives its pages back: for a representation laid out by the extractor, pages joined
  by a nonempty separator, the page segmenter returns one segment per page, empty pages included,
  with exactly the bytes of the page and its number as evidence; it fails at most in the canonical
  encoder on one of the identities.
\<close>

theorem pages_recovered:
  assumes "pdf_text digest sep pages p" "payload_ok P trusted p" "hex_documented P"
  shows "(\<exists>ss. page_segments P trusted' p = Inr ss \<and> map sgp_content ss = pages \<and>
      map (\<lambda>s. ec_page (sg_evidence (sgp_segment s))) ss = map (\<lambda>n. Some (int n)) [1..<Suc (length pages)]) \<or>
    (\<exists>j err. canonical P j = Inl err \<and> page_segments P trusted' p = Inl err)"
  by (rule pages_segmented [OF assms])

definition sample_pages :: "bytes list" where
  "sample_pages = [[97], [], [98, 99]]"

definition pages_fields :: representation where
  "pages_fields = \<lparr>rp_representation_id = [], rp_source_item_id = ''item'', rp_file_id = ''file'',
     rp_file_digest = sha256_digest reference_platform [], rp_kind = ''pdf-text'',
     rp_blob = \<lparr>br_locator = ''cas'', br_digest = sha256_digest reference_platform [97, 12, 12, 98, 99],
       br_byte_size = 5, br_media_type = ''text/plain''\<rparr>,
     rp_extractor_id = ''pypdf'', rp_configuration_digest = sha256_digest reference_platform [],
     rp_evidence_mappings = page_mappings (sha256_digest reference_platform []) [12] sample_pages, rp_warnings = []\<rparr>"

lemma pages_payload_ok: "payload_ok reference_platform False (identified pages_fields [97, 12, 12, 98, 99])"
proof (rule identified_payload_ok)
  show "blob_ref_ok (rp_blob pages_fields)"
    by (simp add: pages_fields_def blob_ref_ok_def blob_ref_make_def thenE_Inr_iff check_texts_iff check_digest_iff
        refuse_Inr_iff sha256_digest_form strip_eq_Nil_iff char_isspace_def)
  have "key_sorted (JObj [(''kind'', JStr ''whole-page''), (''page'', JInt k)]) = JObj [(''kind'', JStr ''whole-page''), (''page'', JInt k)]"
    for k by (simp add: list_less_def)
  then have "evidence_mapping_ok False (page_mapping (sha256_digest reference_platform []) (Suc k, a, b))" if "a \<le> b" for k a b
    using that
    by (simp add: page_mapping_def evidence_mapping_ok_def evidence_mapping_make_def evidence_coordinate_ok_def
        evidence_coordinate_make_def check_texts_iff check_digest_iff coordinate_interval_bad_def when_given_def
        sha256_digest_form strip_eq_Nil_iff char_isspace_def pdf_page_text_transform_def thenE_Inr_iff refuse_Inr_iff
        del: key_sorted.simps)
  then show "\<forall>m \<in> set (rp_evidence_mappings pages_fields). evidence_mapping_ok False m"
    by (simp add: pages_fields_def page_mappings_def sample_pages_def)
qed (simp_all add: pages_fields_def page_mappings_def page_mapping_def sample_pages_def sha256_digest_form strip_eq_Nil_iff
      char_isspace_def pdf_page_text_transform_def identity_transformation_def)

theorem pages_recovered_witness:
  "\<exists>ss. page_segments reference_platform False (identified pages_fields [97, 12, 12, 98, 99]) = Inr ss \<and>
     map sgp_content ss = [[97], [], [98, 99]]"
proof -
  have "pdf_text (sha256_digest reference_platform []) [12] sample_pages (identified pages_fields [97, 12, 12, 98, 99])"
    by (simp add: pdf_text_def identified_def pages_fields_def sample_pages_def)
  from pages_recovered [OF this pages_payload_ok reference_hex_documented, of False] show ?thesis
    by (auto simp: sample_pages_def)
qed

end
