(* ===== verification/Markup_Count.thy ===== *)
theory Markup_Count
  imports Unicode_Text
begin

text \<open>
  \<open>_html_visible_count\<close> of src/src/docspec/processing/extraction.py: the number of code points of
  an HTML document outside script, style, template and noscript elements. The code keeps, beside the
  stack of open elements, the positions of each name in it, so that an unmatched end tag costs no
  search. The theorem says that the two never disagree: no pop fails, and the count is that of the plain
  definition, which searches the stack. The event reader is a package the code calls.
\<close>

datatype markup_event = StartTag string | EndTag string | TextRun utext | OtherEvent

definition suppressed_tags :: "string list" where
  "suppressed_tags = [''script'', ''style'', ''template'', ''noscript'']"

section \<open>The counter\<close>

text \<open>The last entry of the stack is its top; an absent name has no list of positions.\<close>

record count_state =
  hc_stack :: "(string \<times> bool) list"
  hc_positions :: "string \<rightharpoonup> nat list"
  hc_depth :: int
  hc_count :: nat

definition count_start :: count_state where
  "count_start = \<lparr>hc_stack = [], hc_positions = Map.empty, hc_depth = 0, hc_count = 0\<rparr>"

text \<open>\<open>while len(stack) > index\<close>.\<close>

function pop_open :: "nat \<Rightarrow> count_state \<Rightarrow> count_state result" where
  "pop_open index s =
     (if length (hc_stack s) \<le> index then Inr s
      else case last (hc_stack s) of (name, flag) \<Rightarrow>
        (case hc_positions s name of
           None \<Rightarrow> Inl (KeyError name)
         | Some ps \<Rightarrow> if ps = [] then Inl IndexError
             else pop_open index (s\<lparr>hc_stack := butlast (hc_stack s),
               hc_positions := (hc_positions s)(name \<mapsto> butlast ps),
               hc_depth := hc_depth s - (if flag then 1 else 0)\<rparr>)))"
  by pat_completeness auto
termination
  by (relation "measure (\<lambda>(index, s). length (hc_stack s))") auto

declare pop_open.simps [simp del]

definition count_event :: "count_state \<Rightarrow> markup_event \<Rightarrow> count_state result" where
  "count_event s event = (case event of
     StartTag name \<Rightarrow>
       let suppressed = name \<in> set suppressed_tags;
           ps = (case hc_positions s name of None \<Rightarrow> [] | Some ps \<Rightarrow> ps) in
       Inr (s\<lparr>hc_positions := (hc_positions s)(name \<mapsto> ps @ [length (hc_stack s)]),
              hc_stack := hc_stack s @ [(name, suppressed)],
              hc_depth := hc_depth s + (if suppressed then 1 else 0)\<rparr>)
   | EndTag name \<Rightarrow>
       (case hc_positions s name of
          None \<Rightarrow> Inr s
        | Some ps \<Rightarrow> if ps = [] then Inr s else pop_open (last ps) s)
   | TextRun t \<Rightarrow> Inr (if hc_depth s = 0 then s\<lparr>hc_count := hc_count s + length t\<rparr> else s)
   | OtherEvent \<Rightarrow> Inr s)"

definition html_visible_count :: "markup_event list \<Rightarrow> nat result" where
  "html_visible_count events = bindE (foldE count_event count_start events) (\<lambda>s. Inr (hc_count s))"

section \<open>The plain definition\<close>

text \<open>The open elements, innermost first. An end tag closes up to the innermost element it names.\<close>

fun open_after :: "string list \<Rightarrow> markup_event \<Rightarrow> string list" where
  "open_after st (StartTag name) = name # st"
| "open_after st (EndTag name) = (if name \<in> set st then tl (dropWhile (\<lambda>n. n \<noteq> name) st) else st)"
| "open_after st _ = st"

fun visible_text_count :: "string list \<Rightarrow> markup_event list \<Rightarrow> nat" where
  "visible_text_count st [] = 0"
| "visible_text_count st (e # es) =
     (case e of TextRun t \<Rightarrow> if set st \<inter> set suppressed_tags = {} then length t else 0 | _ \<Rightarrow> 0)
     + visible_text_count (open_after st e) es"

section \<open>They agree\<close>

definition positions_of :: "string \<Rightarrow> (string \<times> bool) list \<Rightarrow> nat list" where
  "positions_of name stack = filter (\<lambda>i. fst (stack ! i) = name) [0..<length stack]"

definition counts_open :: "count_state \<Rightarrow> string list \<Rightarrow> bool" where
  "counts_open s st \<longleftrightarrow> hc_stack s = map (\<lambda>n. (n, n \<in> set suppressed_tags)) (rev st) \<and>
     (\<forall>name. (case hc_positions s name of None \<Rightarrow> [] | Some ps \<Rightarrow> ps) = positions_of name (hc_stack s)) \<and>
     hc_depth s = int (length (filter (\<lambda>n. n \<in> set suppressed_tags) st))"

lemma positions_of_Nil [simp]: "positions_of name [] = []"
  by (simp add: positions_of_def)

lemma positions_of_snoc:
  "positions_of name (stack @ [x]) = positions_of name stack @ (if fst x = name then [length stack] else [])"
proof -
  have "filter (\<lambda>i. fst ((stack @ [x]) ! i) = name) [0..<length stack] = positions_of name stack"
    unfolding positions_of_def by (rule filter_cong) (simp_all add: nth_append)
  then show ?thesis by (simp add: positions_of_def)
qed

lemma pop_open_counts:
  assumes "counts_open s st" "index \<le> length st"
  shows "\<exists>s'. pop_open index s = Inr s' \<and> counts_open s' (drop (length st - index) st) \<and> hc_count s' = hc_count s"
  using assms
proof (induction st arbitrary: s)
  case Nil
  then show ?case by (subst pop_open.simps) (simp add: counts_open_def)
next
  case (Cons n st)
  show ?case
  proof (cases "index = Suc (length st)")
    case True
    then show ?thesis using Cons.prems by (subst pop_open.simps) (simp add: counts_open_def)
  next
    case False
    let ?flag = "n \<in> set suppressed_tags" and ?rest = "map (\<lambda>n. (n, n \<in> set suppressed_tags)) (rev st)"
    have stack: "hc_stack s = ?rest @ [(n, ?flag)]" using Cons.prems(1) by (simp add: counts_open_def)
    have pos: "(case hc_positions s m of None \<Rightarrow> [] | Some ps \<Rightarrow> ps)
        = positions_of m ?rest @ (if n = m then [length st] else [])" for m
      using Cons.prems(1) stack by (simp add: counts_open_def positions_of_snoc)
    from pos [of n] obtain ps where ps: "hc_positions s n = Some ps" "ps = positions_of n ?rest @ [length st]"
      by (cases "hc_positions s n") auto
    let ?s = "s\<lparr>hc_stack := butlast (hc_stack s), hc_positions := (hc_positions s)(n \<mapsto> butlast ps),
               hc_depth := hc_depth s - (if ?flag then 1 else 0)\<rparr>"
    have depth: "hc_depth s = int (length (filter (\<lambda>n. n \<in> set suppressed_tags) (n # st)))"
      using Cons.prems(1) by (simp add: counts_open_def)
    have "(case ((hc_positions s)(n \<mapsto> butlast ps)) m of None \<Rightarrow> [] | Some ps \<Rightarrow> ps) = positions_of m ?rest" for m
      using pos [of m] ps by (cases "m = n") simp_all
    then have "counts_open ?s st"
      using depth stack by (simp add: counts_open_def)
    moreover have le: "index \<le> length st" using False Cons.prems(2) by simp
    ultimately obtain s' where s': "pop_open index ?s = Inr s'" "counts_open s' (drop (length st - index) st)"
      "hc_count s' = hc_count s" using Cons.IH [of ?s] by auto
    have "pop_open index s = pop_open index ?s"
      using stack ps le by (subst pop_open.simps) simp
    then show ?thesis using s' le by (simp add: Suc_diff_le)
  qed
qed

lemma innermost_position:
  assumes "name \<in> set st"
  shows "last (positions_of name (map (\<lambda>n. (n, f n)) (rev st))) = length (tl (dropWhile (\<lambda>n. n \<noteq> name) st)) \<and>
    positions_of name (map (\<lambda>n. (n, f n)) (rev st)) \<noteq> []"
  using assms by (induction st) (auto simp: positions_of_snoc)

lemma drop_to_innermost: "drop (length st - length (tl (dropWhile p st))) st = tl (dropWhile p st)"
proof (induction st)
  case (Cons a st)
  have "length (tl (dropWhile p st)) \<le> length st"
    using length_dropWhile_le [of p st] by simp
  then show ?case using Cons by (auto simp: Suc_diff_le)
qed simp

lemma no_position: "name \<notin> set st \<Longrightarrow> positions_of name (map (\<lambda>n. (n, f n)) (rev st)) = []"
  by (induction st) (auto simp: positions_of_snoc)

lemma count_event_counts:
  assumes "counts_open s st"
  shows "\<exists>s'. count_event s e = Inr s' \<and> counts_open s' (open_after st e) \<and>
    hc_count s' = hc_count s + visible_text_count st [e]"
proof (cases e)
  case (StartTag name)
  then show ?thesis using assms
    by (auto simp: count_event_def counts_open_def Let_def positions_of_snoc)
next
  case (EndTag name)
  have pos: "(case hc_positions s name of None \<Rightarrow> [] | Some ps \<Rightarrow> ps)
      = positions_of name (map (\<lambda>n. (n, n \<in> set suppressed_tags)) (rev st))"
    using assms by (simp add: counts_open_def)
  show ?thesis
  proof (cases "name \<in> set st")
    case True
    let ?left = "tl (dropWhile (\<lambda>n. n \<noteq> name) st)"
    from pos innermost_position [OF True, of "\<lambda>n. n \<in> set suppressed_tags"]
    obtain ps where ps: "hc_positions s name = Some ps" "ps \<noteq> []" "last ps = length ?left"
      by (cases "hc_positions s name") auto
    have "length ?left \<le> length st" using length_dropWhile_le [of "\<lambda>n. n \<noteq> name" st] by simp
    from pop_open_counts [OF assms this] obtain s' where
      "pop_open (length ?left) s = Inr s'" "counts_open s' ?left" "hc_count s' = hc_count s"
      unfolding drop_to_innermost by blast
    then show ?thesis using ps True EndTag by (simp add: count_event_def)
  next
    case False
    then show ?thesis using pos no_position [OF False] assms EndTag
      by (auto simp: count_event_def split: option.splits)
  qed
next
  case (TextRun t)
  have "hc_depth s = 0 \<longleftrightarrow> set st \<inter> set suppressed_tags = {}"
    using assms by (auto simp: counts_open_def filter_empty_conv)
  then show ?thesis using assms TextRun
    by (auto simp: count_event_def counts_open_def)
qed (use assms in \<open>simp add: count_event_def\<close>)

lemma fold_counts:
  "counts_open s st \<Longrightarrow> \<exists>s'. foldE count_event s es = Inr s' \<and> hc_count s' = hc_count s + visible_text_count st es"
proof (induction es arbitrary: s st)
  case (Cons e es)
  from count_event_counts [OF Cons.prems, of e] obtain s1 where s1: "count_event s e = Inr s1"
    "counts_open s1 (open_after st e)" "hc_count s1 = hc_count s + visible_text_count st [e]" by blast
  from Cons.IH [OF s1(2)] show ?case using s1 by auto
qed simp

text \<open>
  C28. The counter with its index of positions never fails and counts exactly the characters that lie
  in no suppressed element, by the plain definition that searches the stack of open elements.
\<close>

theorem html_visible_count_exact: "html_visible_count events = Inr (visible_text_count [] events)"
proof -
  have "counts_open count_start []"
    by (simp add: counts_open_def count_start_def positions_of_def)
  from fold_counts [OF this, of events] show ?thesis by (auto simp: html_visible_count_def count_start_def)
qed

end
