(* ===== verification/Char_Text.thy ===== *)
theory Char_Text
  imports Prelude
begin

text \<open>
  The \<open>str\<close> methods of Python on the characters an Isabelle \<open>string\<close> holds, code points 0 to 255:
  case folding, upper case, the classes of characters and splitting at white space.
\<close>

section \<open>Case\<close>

text \<open>
  \<open>str.casefold\<close> on the characters an Isabelle \<open>string\<close> holds. The micro sign, which folds to a
  letter above 255, keeps its place: no other of these characters folds to that letter.
\<close>

definition fold_char :: "char \<Rightarrow> string" where
  "fold_char c = (let n = (of_char c :: nat) in
     if 65 \<le> n \<and> n \<le> 90 \<or> 192 \<le> n \<and> n \<le> 222 \<and> n \<noteq> 215 then [char_of (n + 32)]
     else if n = 223 then ''ss'' else [c])"

definition casefold :: "string \<Rightarrow> string" where
  "casefold s = concat (map fold_char s)"

text \<open>
  \<open>str.upper\<close>: the micro sign and the letter y with diaeresis, whose capitals lie above 255, keep
  their place; no name the code compares with holds a character above 127.
\<close>

definition py_upper_char :: "char \<Rightarrow> string" where
  "py_upper_char c = (let n = (of_char c :: nat) in
     if 97 \<le> n \<and> n \<le> 122 \<or> 224 \<le> n \<and> n \<le> 254 \<and> n \<noteq> 247 then [char_of (n - 32)]
     else if n = 223 then ''SS'' else [c])"

definition py_upper :: "string \<Rightarrow> string" where
  "py_upper s = concat (map py_upper_char s)"

section \<open>Classes\<close>

definition is_ascii_letter :: "char \<Rightarrow> bool" where
  "is_ascii_letter c = (let n = (of_char c :: nat) in 65 \<le> n \<and> n \<le> 90 \<or> 97 \<le> n \<and> n \<le> 122)"

text \<open>\<open>str.isalnum\<close>: letters, digits, the superscript digits and the vulgar fractions.\<close>

definition is_alnum :: "char \<Rightarrow> bool" where
  "is_alnum c = (let n = (of_char c :: nat) in
     48 \<le> n \<and> n \<le> 57 \<or> 65 \<le> n \<and> n \<le> 90 \<or> 97 \<le> n \<and> n \<le> 122
       \<or> 192 \<le> n \<and> n \<noteq> 215 \<and> n \<noteq> 247 \<or> n \<in> {170, 178, 179, 181, 185, 186, 188, 189, 190})"

section \<open>Parts\<close>

definition ends_with :: "string \<Rightarrow> string \<Rightarrow> bool" where
  "ends_with suffix s = starts_with (rev suffix) (rev s)"

end
