(* ===== verification/Extractors.thy ===== *)
theory Extractors
  imports Segmenters Markup_Count Char_Text
begin

text \<open>
  The extractors of src/src/docspec/processing/extraction.py: the receipt and the result of an
  extraction, the extractors that keep the captured bytes as they are, the PDF text extractor, and
  the registry that chooses by media type. The readers are packages the code calls: what they find
  in a file, and which version of them is installed at the time of a call, is the record
  \<open>source_readers\<close>. The theorems compose extraction with segmentation: whatever is extracted and cut,
  each segment is what its evidence names in the captured file.
\<close>

section \<open>Media types\<close>

definition base_media_type :: "string \<Rightarrow> string" where
  "base_media_type value = casefold (strip (takeWhile (\<lambda>c. c \<noteq> CHR '';'') value))"

definition verify_media :: "captured_file \<Rightarrow> string \<Rightarrow> unit result" where
  "verify_media captured expected = refuse (base_media_type (cap_media_type captured) \<noteq> expected)
     (ExtractionError (''extractor requires '' @ expected @ '', received '' @ cap_media_type captured))"

definition verify_media_prefix :: "captured_file \<Rightarrow> string \<Rightarrow> unit result" where
  "verify_media_prefix captured prefix = refuse (\<not> starts_with prefix (base_media_type (cap_media_type captured)))
     (ExtractionError (''extractor requires '' @ prefix @ ''*, received '' @ cap_media_type captured))"

definition verify_captured_bytes :: "platform \<Rightarrow> captured_file \<Rightarrow> bytes \<Rightarrow> unit result" where
  "verify_captured_bytes P captured src =
     thenE (verify_blob_bytes P (cap_blob captured) src ''captured file'')
       (refuse (base_media_type (cap_media_type captured) \<noteq> base_media_type (br_media_type (cap_blob captured)))
          (IntegrityError ''captured file media type differs from its blob reference''))"

section \<open>Receipts\<close>

record extraction_receipt =
  xrc_extractor_id :: string
  xrc_configuration_digest :: string
  xrc_file_id :: string
  xrc_input_digest :: string
  xrc_representation_id :: string
  xrc_output_digest :: string
  xrc_output_byte_size :: int
  xrc_kind :: string
  xrc_metadata :: json
  xrc_warnings :: "string list"

definition extraction_receipt_make :: "bool \<Rightarrow> extraction_receipt \<Rightarrow> extraction_receipt result" where
  "extraction_receipt_make trusted r =
     thenE (check_texts [(''extraction receipt extractor_id'', xrc_extractor_id r),
       (''extraction receipt file_id'', xrc_file_id r),
       (''extraction receipt representation_id'', xrc_representation_id r), (''extraction receipt kind'', xrc_kind r)])
    (thenE (check_digest (xrc_configuration_digest r) ''extraction receipt configuration_digest'')
    (thenE (check_digest (xrc_input_digest r) ''extraction receipt input_digest'')
    (thenE (check_digest (xrc_output_digest r) ''extraction receipt output_digest'')
    (thenE (refuse (xrc_output_byte_size r < 0) (ValueError ''extraction output byte size must be non-negative''))
    (case xrc_metadata r of
       JObj _ \<Rightarrow>
         bindE (stored trusted ''extraction receipt metadata'' (xrc_metadata r)) (\<lambda>metadata.
         thenE (check_texts (map (\<lambda>w. (''extraction receipt warning'', w)) (xrc_warnings r)))
           (Inr (r\<lparr>xrc_metadata := metadata\<rparr>)))
     | _ \<Rightarrow> Inl (ValueError ''extraction receipt metadata must be an object''))))))"

definition extraction_receipt_format :: string where
  "extraction_receipt_format = ''docspec-extraction-receipt''"

definition extraction_receipt_version :: string where
  "extraction_receipt_version = ''1.0''"

definition extraction_receipt_json :: "extraction_receipt \<Rightarrow> json" where
  "extraction_receipt_json r = JObj [(''format'', JStr extraction_receipt_format),
     (''formatVersion'', JStr extraction_receipt_version), (''extractorId'', JStr (xrc_extractor_id r)),
     (''configurationDigest'', JStr (xrc_configuration_digest r)), (''fileId'', JStr (xrc_file_id r)),
     (''inputDigest'', JStr (xrc_input_digest r)), (''representationId'', JStr (xrc_representation_id r)),
     (''outputDigest'', JStr (xrc_output_digest r)), (''outputByteSize'', JInt (xrc_output_byte_size r)),
     (''kind'', JStr (xrc_kind r)), (''metadata'', xrc_metadata r), (''warnings'', JArr (map JStr (xrc_warnings r)))]"

definition extraction_receipt_keys :: "string list" where
  "extraction_receipt_keys = [''format'', ''formatVersion'', ''extractorId'', ''configurationDigest'', ''fileId'',
     ''inputDigest'', ''representationId'', ''outputDigest'', ''outputByteSize'', ''kind'', ''metadata'', ''warnings'']"

definition extraction_receipt_from :: "bool \<Rightarrow> json \<Rightarrow> extraction_receipt result" where
  "extraction_receipt_from trusted value = (case value of
     JObj kvs \<Rightarrow>
       if set (map fst kvs) \<noteq> set extraction_receipt_keys
       then Inl (ValueError ''extraction receipt has an invalid closed shape'')
       else if dict_get kvs ''format'' \<noteq> JStr extraction_receipt_format
       then Inl (ValueError ''extraction receipt format is not supported'')
       else if dict_get kvs ''formatVersion'' \<noteq> JStr extraction_receipt_version
       then Inl (ValueError ''extraction receipt format version is not supported'')
       else (case dict_get kvs ''metadata'' of
          JObj _ \<Rightarrow> (case dict_get kvs ''warnings'' of
             JArr warnings \<Rightarrow>
               bindE (get_text kvs ''extractorId'') (\<lambda>extractor_id.
               bindE (get_text kvs ''configurationDigest'') (\<lambda>configuration_digest.
               bindE (get_text kvs ''fileId'') (\<lambda>file_id. bindE (get_text kvs ''inputDigest'') (\<lambda>input_digest.
               bindE (get_text kvs ''representationId'') (\<lambda>representation_id.
               bindE (get_text kvs ''outputDigest'') (\<lambda>output_digest.
               bindE (get_int kvs ''outputByteSize'') (\<lambda>output_byte_size. bindE (get_text kvs ''kind'') (\<lambda>kind.
               bindE (mapE as_text warnings) (\<lambda>warnings.
                 extraction_receipt_make trusted \<lparr>xrc_extractor_id = extractor_id,
                   xrc_configuration_digest = configuration_digest, xrc_file_id = file_id,
                   xrc_input_digest = input_digest, xrc_representation_id = representation_id,
                   xrc_output_digest = output_digest, xrc_output_byte_size = output_byte_size, xrc_kind = kind,
                   xrc_metadata = dict_get kvs ''metadata'', xrc_warnings = warnings\<rparr>)))))))))
           | _ \<Rightarrow> Inl (ValueError ''extraction receipt warnings must be an array''))
        | _ \<Rightarrow> Inl (ValueError ''extraction receipt metadata must be an object''))
   | _ \<Rightarrow> Inl (ValueError ''extraction receipt has an invalid closed shape''))"

definition extraction_receipt_digest :: "platform \<Rightarrow> extraction_receipt \<Rightarrow> string result" where
  "extraction_receipt_digest P r = identity_digest P (extraction_receipt_json r)"

section \<open>Results\<close>

record extraction_evidence =
  xev_label :: string
  xev_content :: bytes
  xev_media_type :: string

definition extraction_evidence_make :: "extraction_evidence \<Rightarrow> extraction_evidence result" where
  "extraction_evidence_make e =
     thenE (check_texts [(''extraction evidence label'', xev_label e)])
    (thenE (check_texts [(''extraction evidence media type'', xev_media_type e)])
    (thenE (refuse (xev_label e \<in> {''content'', ''representation''}) (ValueError ''extraction evidence label is reserved''))
       (Inr e)))"

definition extraction_evidence_json :: "platform \<Rightarrow> extraction_evidence \<Rightarrow> json result" where
  "extraction_evidence_json P e =
     bindE (content_blob_ref P (xev_content e) (xev_media_type e)) (\<lambda>r.
       Inr (JObj [(''label'', JStr (xev_label e)), (''blob'', blob_ref_json r)]))"

record extraction_result =
  xrs_payload :: representation_payload
  xrs_receipt :: extraction_receipt
  xrs_evidence :: "extraction_evidence list"

definition extraction_result_make :: "platform \<Rightarrow> extraction_result \<Rightarrow> extraction_result result" where
  "extraction_result_make P x =
     (let r = rpp_representation (xrs_payload x); receipt = xrs_receipt x in
      thenE (refuse (\<not> distinct (map xev_label (xrs_evidence x)))
               (IntegrityError ''extraction evidence labels must be unique''))
     (thenE (if xrs_evidence x = [] then Inr ()
             else bindE (mapE (extraction_evidence_json P) (xrs_evidence x)) (\<lambda>items.
               refuse ((case xrc_metadata receipt of JObj kvs \<Rightarrow> py_normal (dict_get kvs ''evidence'') | _ \<Rightarrow> JNull)
                   \<noteq> py_normal (JArr items))
                 (IntegrityError ''extraction evidence differs from its receipt'')))
     (thenE (refuse (xrc_extractor_id receipt \<noteq> rp_extractor_id r)
               (IntegrityError ''extraction receipt names a different extractor''))
     (thenE (refuse (xrc_configuration_digest receipt \<noteq> rp_configuration_digest r)
               (IntegrityError ''extraction receipt configuration digest differs''))
     (thenE (refuse (xrc_file_id receipt \<noteq> rp_file_id r)
               (IntegrityError ''extraction receipt names a different captured file''))
     (thenE (refuse (xrc_representation_id receipt \<noteq> rp_representation_id r)
               (IntegrityError ''extraction receipt names a different representation''))
     (thenE (refuse (xrc_input_digest receipt \<noteq> rp_file_digest r)
               (IntegrityError ''extraction receipt input digest differs''))
     (thenE (refuse (xrc_output_digest receipt \<noteq> br_digest (rp_blob r))
               (IntegrityError ''extraction receipt output digest differs''))
     (thenE (refuse (xrc_output_byte_size receipt \<noteq> br_byte_size (rp_blob r))
               (IntegrityError ''extraction receipt output byte size differs''))
     (thenE (refuse (xrc_kind receipt \<noteq> rp_kind r)
               (IntegrityError ''extraction receipt representation kind differs''))
     (thenE (refuse (xrc_warnings receipt \<noteq> rp_warnings r)
               (IntegrityError ''extraction receipt warnings differ'')) (Inr x))))))))))))"

definition receipt_for :: "bool \<Rightarrow> captured_file \<Rightarrow> representation_payload \<Rightarrow> json \<Rightarrow> extraction_receipt result" where
  "receipt_for trusted captured p metadata =
     (let r = rpp_representation p in
      extraction_receipt_make trusted \<lparr>xrc_extractor_id = rp_extractor_id r,
        xrc_configuration_digest = rp_configuration_digest r, xrc_file_id = cap_file_id captured,
        xrc_input_digest = br_digest (cap_blob captured), xrc_representation_id = rp_representation_id r,
        xrc_output_digest = br_digest (rp_blob r), xrc_output_byte_size = br_byte_size (rp_blob r),
        xrc_kind = rp_kind r, xrc_metadata = metadata, xrc_warnings = rp_warnings r\<rparr>)"


section \<open>The captured bytes as they are\<close>

definition passthrough_result ::
    "platform \<Rightarrow> bool \<Rightarrow> captured_file \<Rightarrow> bytes \<Rightarrow> string \<Rightarrow> string \<Rightarrow> string \<Rightarrow> json \<Rightarrow> string \<Rightarrow> json
       \<Rightarrow> extraction_result result" where
  "passthrough_result P trusted captured src extractor_id configuration_digest kind metadata coordinate_system region =
     thenE (verify_captured_bytes P captured src)
    (bindE (evidence_coordinate_make trusted \<lparr>ec_coordinate_system = coordinate_system,
         ec_source_digest = br_digest (cap_blob captured), ec_start = Some 0, ec_end = Some (int (length src)),
         ec_page = None, ec_region = region\<rparr>) (\<lambda>evidence.
     bindE (evidence_mapping_make \<lparr>em_representation_start = 0, em_representation_end = int (length src),
         em_evidence = evidence, em_transformation = identity_transformation\<rparr>) (\<lambda>mapping.
     bindE (representation_create P \<lparr>rp_representation_id = [], rp_source_item_id = cap_source_item_id captured,
         rp_file_id = cap_file_id captured, rp_file_digest = br_digest (cap_blob captured), rp_kind = kind,
         rp_blob = cap_blob captured, rp_extractor_id = extractor_id,
         rp_configuration_digest = configuration_digest, rp_evidence_mappings = [mapping], rp_warnings = []\<rparr>)
       (\<lambda>representation.
     bindE (representation_payload_make P \<lparr>rpp_representation = representation, rpp_content = src\<rparr>) (\<lambda>payload.
     bindE (receipt_for trusted captured payload metadata) (\<lambda>receipt.
     bindE (extraction_result_make P \<lparr>xrs_payload = payload, xrs_receipt = receipt, xrs_evidence = []\<rparr>) (\<lambda>x.
       thenE (verify_representation_evidence P None (xrs_payload x) src) (Inr x))))))))"

text \<open>
  What the reader packages give: the identity of the installed reader files at the time of a call
  (\<open>None\<close> when they are not installed), the observations of a document or the \<open>ValueError\<close> they
  raise, and the page texts of a PDF with the version of the backend.
\<close>

datatype pdf_reading =
    PdfPages "utext option list" string
  | EncryptedPdf
  | UnreadablePdf string
  | MissingPdfReader

record source_readers =
  sr_markup :: "reader_identity option"
  sr_json :: "reader_identity option"
  sr_image :: "reader_identity option"
  sr_pdf :: "(string \<times> string) option"
  sr_pypdf_version :: "string option"
  sr_html_events :: "bytes \<Rightarrow> (int \<times> markup_event list) result"
  sr_xml_events :: "bytes \<Rightarrow> (string \<times> int) result"
  sr_load_json :: "bytes \<Rightarrow> pyval result"
  sr_image_header :: "bytes \<Rightarrow> (json \<times> int option \<times> int option) result"
  sr_pdf_pages :: "string \<Rightarrow> bytes \<Rightarrow> pdf_reading"

record reader_extractor =
  rx_identity :: "reader_identity option"
  rx_digest :: string

definition passthrough_mode :: "string \<times> json" where
  "passthrough_mode = (''mode'', JStr ''source-native-passthrough'')"

text \<open>The constructor of the reader-backed extractors: the configuration and the reader it names.\<close>

definition reader_extractor_new ::
    "platform \<Rightarrow> reader_identity option \<Rightarrow> (string \<times> json) list \<Rightarrow> reader_extractor result" where
  "reader_extractor_new P installed options =
     bindE (identity_digest P (JObj ([passthrough_mode] @ options @ reader_configuration installed))) (\<lambda>digest.
       Inr \<lparr>rx_identity = installed, rx_digest = digest\<rparr>)"

definition html_extractor_new :: "platform \<Rightarrow> source_readers \<Rightarrow> reader_extractor result" where
  "html_extractor_new P R = reader_extractor_new P (sr_markup R) []"

definition xml_extractor_new :: "platform \<Rightarrow> source_readers \<Rightarrow> reader_extractor result" where
  "xml_extractor_new P R = reader_extractor_new P (sr_markup R) [(''allowExternalDoctype'', JBool True)]"

definition json_extractor_new :: "platform \<Rightarrow> source_readers \<Rightarrow> reader_extractor result" where
  "json_extractor_new P R = reader_extractor_new P (sr_json R) [(''sourceProfile'', json_source_profile)]"

definition image_extractor_new :: "platform \<Rightarrow> source_readers \<Rightarrow> reader_extractor result" where
  "image_extractor_new P R = reader_extractor_new P (sr_image R) []"

text \<open>The digest an extractor gives once its reader is checked to be the configured one.\<close>

definition reader_digest :: "reader_extractor \<Rightarrow> reader_identity option \<Rightarrow> string result" where
  "reader_digest g installed = thenE (require_reader_identity (rx_identity g) installed) (Inr (rx_digest g))"

definition text_extractor_id :: string where "text_extractor_id = ''docspec.text-source/v1''"
definition html_extractor_id :: string where "html_extractor_id = ''docspec.html-source/v2''"
definition xml_extractor_id :: string where "xml_extractor_id = ''docspec.xml-source/v2''"
definition json_extractor_id :: string where "json_extractor_id = ''docspec.json-source/v2''"
definition image_extractor_id :: string where "image_extractor_id = ''docspec.image-passthrough/v2''"

definition text_configuration_digest :: "platform \<Rightarrow> string result" where
  "text_configuration_digest P = identity_digest P (JObj [passthrough_mode])"

text \<open>\<open>str.splitlines\<close>.\<close>

definition is_line_break :: "nat \<Rightarrow> bool" where
  "is_line_break c = (10 \<le> c \<and> c \<le> 13 \<or> 28 \<le> c \<and> c \<le> 30 \<or> c = 0x85 \<or> c = 0x2028 \<or> c = 0x2029)"

function splitlines :: "utext \<Rightarrow> utext list" where
  "splitlines t =
     (if t = [] then []
      else takeWhile (\<lambda>c. \<not> is_line_break c) t #
        (case dropWhile (\<lambda>c. \<not> is_line_break c) t of
           [] \<Rightarrow> []
         | c # rest \<Rightarrow> splitlines (if c = 13 \<and> rest \<noteq> [] \<and> hd rest = 10 then tl rest else rest)))"
  by pat_completeness auto
termination
proof (relation "measure length")
  fix t :: utext and c rest
  assume "t \<noteq> []" "dropWhile (\<lambda>c. \<not> is_line_break c) t = c # rest"
  then have "length (c # rest) \<le> length t" by (metis length_dropWhile_le)
  then show "(if c = 13 \<and> rest \<noteq> [] \<and> hd rest = 10 then tl rest else rest, t) \<in> measure length"
    by auto
qed simp

declare splitlines.simps [simp del]

definition text_extract ::
    "platform \<Rightarrow> bool \<Rightarrow> captured_file \<Rightarrow> bytes \<Rightarrow> extraction_result result" where
  "text_extract P trusted captured src =
     bindE (text_configuration_digest P) (\<lambda>digest.
     bindE (decode_utf8 src ''captured text'') (\<lambda>t.
       passthrough_result P trusted captured src text_extractor_id digest ''text''
         (JObj [(''unicodeCodepointCount'', JInt (int (length t))),
                (''lineCount'', JInt (if t \<noteq> [] then int (length (splitlines t)) else 0))])
         ''utf8-byte-range'' JNull))"

text \<open>\<open>except ValueError as error\<close> with the extractor's own exception.\<close>

definition unless_value_error :: "(string \<Rightarrow> error) \<Rightarrow> 'a result \<Rightarrow> 'a result" where
  "unless_value_error raise x = (case x of
     Inl e \<Rightarrow> Inl (if is_value_error e then raise (message_of e) else e) | Inr y \<Rightarrow> Inr y)"

definition html_extract ::
    "platform \<Rightarrow> source_readers \<Rightarrow> reader_extractor \<Rightarrow> bool \<Rightarrow> captured_file \<Rightarrow> bytes \<Rightarrow> extraction_result result" where
  "html_extract P R g trusted captured src =
     bindE (reader_digest g (sr_markup R)) (\<lambda>digest.
     bindE (unless_value_error (\<lambda>m. ExtractionError (''captured HTML cannot be parsed: '' @ m)) (sr_html_events R src))
       (\<lambda>(element_count, events).
     bindE (html_visible_count events) (\<lambda>visible.
       passthrough_result P trusted captured src html_extractor_id digest ''html''
         (JObj [(''elementCount'', JInt element_count), (''visibleUnicodeCodepointCount'', JInt (int visible))])
         ''utf8-byte-range'' JNull)))"

definition xml_extract ::
    "platform \<Rightarrow> source_readers \<Rightarrow> reader_extractor \<Rightarrow> bool \<Rightarrow> captured_file \<Rightarrow> bytes \<Rightarrow> extraction_result result" where
  "xml_extract P R g trusted captured src =
     bindE (reader_digest g (sr_markup R)) (\<lambda>digest.
     bindE (decode_utf8 src ''captured XML'') (\<lambda>_.
     bindE (unless_value_error (\<lambda>m. ExtractionError (''captured XML cannot be parsed: '' @ m)) (sr_xml_events R src))
       (\<lambda>(root, element_count).
       passthrough_result P trusted captured src xml_extractor_id digest ''xml''
         (JObj [(''rootTag'', JStr root), (''elementCount'', JInt element_count)]) ''utf8-byte-range'' JNull)))"

definition json_root :: "pyval \<Rightarrow> string \<times> int" where
  "json_root v = (case v of PList xs \<Rightarrow> (''array'', int (length xs)) | PDict _ \<Rightarrow> (''object'', 1) | _ \<Rightarrow> (''scalar'', 1))"

definition json_extract ::
    "platform \<Rightarrow> source_readers \<Rightarrow> reader_extractor \<Rightarrow> bool \<Rightarrow> captured_file \<Rightarrow> bytes \<Rightarrow> extraction_result result" where
  "json_extract P R g trusted captured src =
     bindE (reader_digest g (sr_json R)) (\<lambda>digest.
     bindE (unless_value_error IntegrityError (sr_load_json R src)) (\<lambda>v.
       passthrough_result P trusted captured src json_extractor_id digest ''json''
         (JObj [(''rootKind'', JStr (fst (json_root v))), (''recordCount'', JInt (snd (json_root v)))])
         ''utf8-byte-range'' JNull))"

definition image_extract ::
    "platform \<Rightarrow> source_readers \<Rightarrow> reader_extractor \<Rightarrow> bool \<Rightarrow> captured_file \<Rightarrow> bytes \<Rightarrow> extraction_result result" where
  "image_extract P R g trusted captured src =
     bindE (reader_digest g (sr_image R)) (\<lambda>digest.
     thenE (verify_media_prefix captured ''image/'')
    (bindE (sr_image_header R src) (\<lambda>(image_format, width, height).
       (case (width, height) of
          (Some w, Some h) \<Rightarrow>
            passthrough_result P trusted captured src image_extractor_id digest ''image''
              (JObj [(''imageFormat'', image_format), (''widthPixels'', JInt w), (''heightPixels'', JInt h)])
              ''source-byte-range''
              (JObj [(''kind'', JStr ''whole-image''), (''x'', JInt 0), (''y'', JInt 0), (''width'', JInt w),
                 (''height'', JInt h), (''unit'', JStr ''pixel'')])
        | _ \<Rightarrow>
            passthrough_result P trusted captured src image_extractor_id digest ''image''
              (JObj [(''imageFormat'', image_format)]) ''source-byte-range''
              (JObj [(''kind'', JStr ''whole-image'')])))))"


section \<open>PDF text\<close>

record pdf_extractor =
  px_separator :: string
  px_strip :: bool
  px_reader :: "(string \<times> string) option"
  px_version :: "string option"

definition pdf_extractor_new :: "source_readers \<Rightarrow> string \<Rightarrow> bool \<Rightarrow> pdf_extractor result" where
  "pdf_extractor_new R separator strip_pages =
     thenE (refuse (separator = []) (ValueError ''PDF page separator must be non-empty''))
    (thenE (when_given (\<lambda>v. check_texts [(''pypdf distribution version'', v)]) (sr_pypdf_version R))
       (Inr \<lparr>px_separator = separator, px_strip = strip_pages, px_reader = sr_pdf R, px_version = sr_pypdf_version R\<rparr>))"

definition pdf_configuration_digest :: "platform \<Rightarrow> pdf_extractor \<Rightarrow> string result" where
  "pdf_configuration_digest P g = identity_digest P (JObj [(''provider'', JStr ''pypdf''),
     (''providerVersion'', opt_text (px_version g)), (''reader'', JStr ''spicy-docs.extraction.pypdf''),
     (''readerVersion'', opt_text (map_option fst (px_reader g))),
     (''readerModuleSha256'', opt_text (map_option snd (px_reader g))),
     (''available'', JBool (px_version g \<noteq> None \<and> px_reader g \<noteq> None)),
     (''pageSeparator'', JStr (px_separator g)), (''stripPageWhitespace'', JBool (px_strip g))])"

definition require_provider_version :: "source_readers \<Rightarrow> pdf_extractor \<Rightarrow> string result" where
  "require_provider_version R g =
     (case (px_version g, px_reader g) of
        (Some v, Some _) \<Rightarrow>
          if sr_pdf R \<noteq> px_reader g
          then Inl (ExtractionError ''installed PDF reader differs from the configured reader version or module bytes'')
          else Inr v
      | _ \<Rightarrow> Inl (ExtractionError ''the pypdf extraction profile requires the docspec[pdf] extra''))"

definition pdf_selected_identity ::
    "platform \<Rightarrow> source_readers \<Rightarrow> pdf_extractor \<Rightarrow> captured_file \<Rightarrow> (string \<times> string) result" where
  "pdf_selected_identity P R g captured =
     thenE (verify_media captured ''application/pdf'')
    (bindE (require_provider_version R g) (\<lambda>v.
     bindE (pdf_configuration_digest P g) (\<lambda>digest. Inr (''docspec.pypdf/'' @ v, digest))))"

definition read_pages :: "source_readers \<Rightarrow> pdf_extractor \<Rightarrow> bytes \<Rightarrow> (utext list \<times> string) result" where
  "read_pages R g src =
     bindE (require_provider_version R g) (\<lambda>expected. case sr_pdf_pages R expected src of
       MissingPdfReader \<Rightarrow> Inl (ExtractionError ''the pypdf extraction profile requires the docspec[pdf] extra'')
     | EncryptedPdf \<Rightarrow> Inl (ExtractionError ''encrypted PDF requires an explicit decryption profile'')
     | UnreadablePdf m \<Rightarrow> Inl (ExtractionError (''pypdf cannot extract the captured PDF: '' @ m))
     | PdfPages pages v \<Rightarrow>
         let extracted = map (\<lambda>page. case page of None \<Rightarrow> [] | Some t \<Rightarrow> t) pages in
         Inr (if px_strip g then map strip_text extracted else extracted, v))"

text \<open>\<open>page.encode("utf-8")\<close>: a surrogate has no encoding.\<close>

definition encode_utf8 :: "utext \<Rightarrow> bytes result" where
  "encode_utf8 t = (if scalar_text t then Inr (utf8_encode t) else Inl (UnicodeError ''surrogates not allowed''))"

definition page_resolver :: "bytes list \<Rightarrow> evidence_mapping \<Rightarrow> bytes \<Rightarrow> bytes result" where
  "page_resolver encoded m src =
     (case ec_page (em_evidence m) of
        None \<Rightarrow> Inl (IntegrityError ''PDF evidence names a page outside the captured file'')
      | Some page \<Rightarrow>
          if int (length encoded) < page
          then Inl (IntegrityError ''PDF evidence names a page outside the captured file'')
          else let i = (if page - 1 < 0 then page - 1 + int (length encoded) else page - 1) in
            if i < 0 then Inl IndexError else Inr (encoded ! nat i))"

definition pdf_evidence_resolver ::
    "source_readers \<Rightarrow> pdf_extractor \<Rightarrow> bytes \<Rightarrow> utext list option \<Rightarrow> (evidence_mapping \<Rightarrow> bytes \<Rightarrow> bytes result) result" where
  "pdf_evidence_resolver R g src pages =
     bindE (case pages of Some ps \<Rightarrow> Inr ps | None \<Rightarrow> bindE (read_pages R g src) (\<lambda>(ps, _). Inr ps)) (\<lambda>resolved.
     bindE (mapE encode_utf8 resolved) (\<lambda>encoded. Inr (page_resolver encoded)))"

definition checked_mapping :: "bool \<Rightarrow> evidence_mapping \<Rightarrow> evidence_mapping result" where
  "checked_mapping trusted m =
     bindE (evidence_coordinate_make trusted (em_evidence m)) (\<lambda>evidence.
       evidence_mapping_make (m\<lparr>em_evidence := evidence\<rparr>))"

definition empty_page_warnings :: "utext list \<Rightarrow> string list" where
  "empty_page_warnings pages = map (\<lambda>(page, _). ''page '' @ str_of_int (int page) @ '' has no embedded text'')
     (filter (\<lambda>(page, value). value = []) (enumerate 1 pages))"

definition pdf_extract ::
    "platform \<Rightarrow> source_readers \<Rightarrow> pdf_extractor \<Rightarrow> bool \<Rightarrow> captured_file \<Rightarrow> bytes \<Rightarrow> extraction_result result" where
  "pdf_extract P R g trusted captured src =
     thenE (verify_captured_bytes P captured src)
    (bindE (pdf_selected_identity P R g captured) (\<lambda>(extractor_id, configuration_digest).
     bindE (read_pages R g src) (\<lambda>(pages, _).
     bindE (mapE encode_utf8 pages) (\<lambda>page_bytes.
     let separator = utf8_encode (text_of (px_separator g)); content = join_with separator page_bytes in
     bindE (mapE (checked_mapping trusted) (page_mappings (br_digest (cap_blob captured)) separator page_bytes)) (\<lambda>mappings.
     bindE (content_blob_ref P content ''text/plain; charset=utf-8'') (\<lambda>blob.
     bindE (representation_create P \<lparr>rp_representation_id = [], rp_source_item_id = cap_source_item_id captured,
         rp_file_id = cap_file_id captured, rp_file_digest = br_digest (cap_blob captured), rp_kind = ''pdf-text'',
         rp_blob = blob, rp_extractor_id = extractor_id, rp_configuration_digest = configuration_digest,
         rp_evidence_mappings = mappings, rp_warnings = empty_page_warnings pages\<rparr>) (\<lambda>representation.
     bindE (representation_payload_make P \<lparr>rpp_representation = representation, rpp_content = content\<rparr>) (\<lambda>payload.
     bindE (receipt_for trusted captured payload (JObj [(''pageCount'', JInt (int (length pages))),
         (''emptyPageCount'', JInt (int (length (filter (\<lambda>page. page = []) pages))))])) (\<lambda>receipt.
     bindE (extraction_result_make P \<lparr>xrs_payload = payload, xrs_receipt = receipt, xrs_evidence = []\<rparr>) (\<lambda>x.
     bindE (pdf_evidence_resolver R g src (Some pages)) (\<lambda>resolve.
       thenE (verify_representation_evidence P (Some resolve) (xrs_payload x) src) (Inr x))))))))))))"

definition pdf_verify ::
    "platform \<Rightarrow> source_readers \<Rightarrow> pdf_extractor \<Rightarrow> extraction_result \<Rightarrow> bytes \<Rightarrow> unit result" where
  "pdf_verify P R g x src =
     bindE (read_pages R g src) (\<lambda>(pages, provider_version).
     thenE (refuse (rp_extractor_id (rpp_representation (xrs_payload x)) \<noteq> ''docspec.pypdf/'' @ provider_version)
              (IntegrityError ''PDF representation names a different parser version''))
    (bindE (pdf_configuration_digest P g) (\<lambda>digest.
     thenE (refuse (rp_configuration_digest (rpp_representation (xrs_payload x)) \<noteq> digest)
              (IntegrityError ''PDF representation names different extraction settings''))
    (bindE (pdf_evidence_resolver R g src (Some pages)) (\<lambda>resolve.
       verify_representation_evidence P (Some resolve) (xrs_payload x) src)))))"

section \<open>The registry\<close>

text \<open>The default registry, whose PDF route is the extractor above.\<close>

record extractor_registry =
  xg_html :: reader_extractor
  xg_xml :: reader_extractor
  xg_json :: reader_extractor
  xg_image :: reader_extractor
  xg_pdf :: pdf_extractor

definition extractor_registry_new :: "platform \<Rightarrow> source_readers \<Rightarrow> pdf_extractor option \<Rightarrow> extractor_registry result" where
  "extractor_registry_new P R pdf =
     bindE (html_extractor_new P R) (\<lambda>html. bindE (xml_extractor_new P R) (\<lambda>xml.
     bindE (json_extractor_new P R) (\<lambda>js. bindE (image_extractor_new P R) (\<lambda>image.
     bindE (case pdf of Some g \<Rightarrow> Inr g
            | None \<Rightarrow> pdf_extractor_new R [CHR 0x0A, CHR 0x0C, CHR 0x0A] False) (\<lambda>pdf.
       Inr \<lparr>xg_html = html, xg_xml = xml, xg_json = js, xg_image = image, xg_pdf = pdf\<rparr>)))))"

datatype extractor_route = TextRoute | HtmlRoute | XmlRoute | JsonRoute | ImageRoute | PdfRoute

definition select_extractor :: "string \<Rightarrow> extractor_route result" where
  "select_extractor media =
     (let media_type = base_media_type media in
      if media_type = ''text/html'' then Inr HtmlRoute
      else if media_type \<in> {''application/xml'', ''text/xml''} \<or> ends_with ''+xml'' media_type then Inr XmlRoute
      else if media_type = ''application/json'' \<or> ends_with ''+json'' media_type then Inr JsonRoute
      else if media_type = ''application/pdf'' then Inr PdfRoute
      else if starts_with ''image/'' media_type then Inr ImageRoute
      else if starts_with ''text/'' media_type then Inr TextRoute
      else Inl (ExtractionError ''no extractor is registered for the media type''))"

definition registry_extract ::
    "platform \<Rightarrow> source_readers \<Rightarrow> extractor_registry \<Rightarrow> bool \<Rightarrow> captured_file \<Rightarrow> bytes \<Rightarrow> extraction_result result" where
  "registry_extract P R G trusted captured src =
     bindE (select_extractor (cap_media_type captured)) (\<lambda>route. case route of
        TextRoute \<Rightarrow> text_extract P trusted captured src
      | HtmlRoute \<Rightarrow> html_extract P R (xg_html G) trusted captured src
      | XmlRoute \<Rightarrow> xml_extract P R (xg_xml G) trusted captured src
      | JsonRoute \<Rightarrow> json_extract P R (xg_json G) trusted captured src
      | ImageRoute \<Rightarrow> image_extract P R (xg_image G) trusted captured src
      | PdfRoute \<Rightarrow> pdf_extract P R (xg_pdf G) trusted captured src)"

definition extractor_selected_identity ::
    "platform \<Rightarrow> source_readers \<Rightarrow> extractor_registry \<Rightarrow> captured_file \<Rightarrow> (string \<times> string) result" where
  "extractor_selected_identity P R G captured =
     bindE (select_extractor (cap_media_type captured)) (\<lambda>route. case route of
        TextRoute \<Rightarrow> bindE (text_configuration_digest P) (\<lambda>d. Inr (text_extractor_id, d))
      | HtmlRoute \<Rightarrow> bindE (reader_digest (xg_html G) (sr_markup R)) (\<lambda>d. Inr (html_extractor_id, d))
      | XmlRoute \<Rightarrow> bindE (reader_digest (xg_xml G) (sr_markup R)) (\<lambda>d. Inr (xml_extractor_id, d))
      | JsonRoute \<Rightarrow> bindE (reader_digest (xg_json G) (sr_json R)) (\<lambda>d. Inr (json_extractor_id, d))
      | ImageRoute \<Rightarrow> bindE (reader_digest (xg_image G) (sr_image R)) (\<lambda>d. Inr (image_extractor_id, d))
      | PdfRoute \<Rightarrow> pdf_selected_identity P R (xg_pdf G) captured)"

definition extractor_child :: "string \<Rightarrow> string \<Rightarrow> json" where
  "extractor_child extractor_id digest =
     JObj [(''extractorId'', JStr extractor_id), (''configurationDigest'', JStr digest)]"

definition extractors_configuration_digest :: "platform \<Rightarrow> source_readers \<Rightarrow> extractor_registry \<Rightarrow> string result" where
  "extractors_configuration_digest P R G =
     bindE (text_configuration_digest P) (\<lambda>text_digest.
     bindE (reader_digest (xg_json G) (sr_json R)) (\<lambda>json_digest.
     bindE (pdf_configuration_digest P (xg_pdf G)) (\<lambda>pdf_digest.
       identity_digest P (JObj [(''dispatcher'', JStr ''docspec.default-extractors/v1''),
         (''children'', JObj [(''text'', extractor_child text_extractor_id text_digest),
           (''html'', extractor_child html_extractor_id (rx_digest (xg_html G))),
           (''xml'', extractor_child xml_extractor_id (rx_digest (xg_xml G))),
           (''json'', extractor_child json_extractor_id json_digest),
           (''image'', extractor_child image_extractor_id (rx_digest (xg_image G))),
           (''pdf'', extractor_child ''docspec.pypdf-adapter/v2'' pdf_digest)])]))))"


section \<open>What a result says\<close>

lemma stored_object:
  "\<exists>kvs'. (if trusted then JObj kvs else key_sorted (JObj kvs)) = JObj kvs' \<and>
     (if trusted then JObj kvs' else key_sorted (JObj kvs')) = JObj kvs'"
proof (cases trusted)
  case False
  obtain kvs' where "key_sorted (JObj kvs) = JObj kvs'" by simp
  then show ?thesis using False key_sorted_idem [of "JObj kvs"] by (auto simp del: key_sorted.simps)
qed simp

lemma extraction_receipt_make_ok:
  assumes "extraction_receipt_make trusted r = Inr r'"
  shows "extraction_receipt_make trusted r' = Inr r' \<and> (\<exists>m. r' = r\<lparr>xrc_metadata := m\<rparr>)"
proof -
  obtain kvs where kvs: "xrc_metadata r = JObj kvs"
    using assms by (auto simp: extraction_receipt_make_def thenE_Inr_iff split: json.splits)
  from stored_object [of trusted kvs] show ?thesis using assms kvs
    by (auto simp: extraction_receipt_make_def thenE_Inr_iff refuse_Inr_iff check_texts_iff check_digest_iff
        simp del: key_sorted.simps)
qed

lemma extraction_receipt_read:
  "extraction_receipt_make trusted r = Inr r \<Longrightarrow>
     extraction_receipt_from trusted (extraction_receipt_json r) = extraction_receipt_make trusted r"
  by (cases r) (auto simp: extraction_receipt_from_def extraction_receipt_json_def extraction_receipt_keys_def wire_simps
      extraction_receipt_make_def thenE_Inr_iff split: json.splits)

lemma extraction_receipt_from_ok:
  assumes "extraction_receipt_from trusted v = Inr r"
  shows "extraction_receipt_make trusted r = Inr r"
proof -
  from assms obtain q where "extraction_receipt_make trusted q = Inr r"
    by (auto simp: extraction_receipt_from_def bindE_Inr_iff split: json.splits if_splits)
  then show ?thesis using extraction_receipt_make_ok by blast
qed

interpretation extraction_receipt: wire "\<lambda>r. extraction_receipt_make trusted r = Inr r" extraction_receipt_json
    "extraction_receipt_from trusted" for trusted
  by (rule wireI [where construct = "extraction_receipt_make trusted"])
    (simp_all add: extraction_receipt_read extraction_receipt_from_ok)

text \<open>The agreement of a receipt with the representation it was written for.\<close>

definition receipt_agrees :: "extraction_result \<Rightarrow> bool" where
  "receipt_agrees x \<longleftrightarrow> (let r = rpp_representation (xrs_payload x); c = xrs_receipt x in
     xrc_extractor_id c = rp_extractor_id r \<and> xrc_configuration_digest c = rp_configuration_digest r \<and>
     xrc_file_id c = rp_file_id r \<and> xrc_representation_id c = rp_representation_id r \<and>
     xrc_input_digest c = rp_file_digest r \<and> xrc_output_digest c = br_digest (rp_blob r) \<and>
     xrc_output_byte_size c = br_byte_size (rp_blob r) \<and> xrc_kind c = rp_kind r \<and> xrc_warnings c = rp_warnings r)"

lemma extraction_result_agrees: "extraction_result_make P x = Inr y \<Longrightarrow> y = x \<and> receipt_agrees x"
  by (auto simp: extraction_result_make_def receipt_agrees_def Let_def thenE_Inr_iff refuse_Inr_iff)

lemma representation_create_parts:
  "representation_create P r = Inr r' \<Longrightarrow> \<exists>i. r' = r\<lparr>rp_representation_id := i\<rparr> \<and> representation_make P r' = Inr r'"
  using representation_make_same by (fastforce simp: representation_create_def bindE_Inr_iff)

lemma representation_payload_make_same: "representation_payload_make P p = Inr q \<Longrightarrow> q = p"
  by (auto simp: representation_payload_make_def thenE_Inr_iff bindE_Inr_iff)

text \<open>The common end of every extractor.\<close>

lemma extracted_payload:
  assumes "representation_create P r = Inr representation"
    "representation_payload_make P \<lparr>rpp_representation = representation, rpp_content = content\<rparr> = Inr p"
    "receipt_for trusted captured p metadata = Inr receipt"
    "extraction_result_make P \<lparr>xrs_payload = p, xrs_receipt = receipt, xrs_evidence = []\<rparr> = Inr x"
    "blob_ref_ok (rp_blob r)" "\<forall>m \<in> set (rp_evidence_mappings r). evidence_mapping_ok trusted m"
  shows "payload_ok P trusted (xrs_payload x)" "rpp_content (xrs_payload x) = content" "receipt_agrees x"
    "\<exists>i. rpp_representation (xrs_payload x) = r\<lparr>rp_representation_id := i\<rparr>"
    "extraction_receipt_make trusted (xrs_receipt x) = Inr (xrs_receipt x)"
proof -
  from representation_create_parts [OF assms(1)] obtain i where i: "representation = r\<lparr>rp_representation_id := i\<rparr>"
    "representation_make P representation = Inr representation" by blast
  have p: "p = \<lparr>rpp_representation = representation, rpp_content = content\<rparr>"
    by (rule representation_payload_make_same [OF assms(2)])
  have x: "x = \<lparr>xrs_payload = p, xrs_receipt = receipt, xrs_evidence = []\<rparr>" "receipt_agrees x"
    using extraction_result_agrees [OF assms(4)] by auto
  show "payload_ok P trusted (xrs_payload x)"
    using assms(2,5,6) i p x(1) by (simp add: payload_ok_def representation_ok_def)
  show "rpp_content (xrs_payload x) = content" "receipt_agrees x" using x p by auto
  show "\<exists>i. rpp_representation (xrs_payload x) = r\<lparr>rp_representation_id := i\<rparr>" using x p i by auto
  show "extraction_receipt_make trusted (xrs_receipt x) = Inr (xrs_receipt x)"
    using assms(3) extraction_receipt_make_ok x(1) by (auto simp: receipt_for_def Let_def)
qed


text \<open>What an extractor that keeps the captured bytes returns.\<close>

definition passed_through :: "platform \<Rightarrow> bool \<Rightarrow> captured_file \<Rightarrow> bytes \<Rightarrow> extraction_result \<Rightarrow> bool" where
  "passed_through P trusted captured src x \<longleftrightarrow> rpp_content (xrs_payload x) = src \<and>
     (\<exists>m. rp_evidence_mappings (rpp_representation (xrs_payload x)) = [m] \<and>
        em_representation_start m = 0 \<and> em_representation_end m = int (length src) \<and>
        em_transformation m = identity_transformation \<and> ec_start (em_evidence m) = Some 0 \<and>
        ec_end (em_evidence m) = Some (int (length src)) \<and> ec_page (em_evidence m) = None) \<and>
     rp_blob (rpp_representation (xrs_payload x)) = cap_blob captured"

text \<open>The facts every route shares.\<close>

definition extracted :: "platform \<Rightarrow> bool \<Rightarrow> captured_file \<Rightarrow> bytes \<Rightarrow> resolver \<Rightarrow> extraction_result \<Rightarrow> bool" where
  "extracted P trusted captured src derived x \<longleftrightarrow> payload_ok P trusted (xrs_payload x) \<and> receipt_agrees x \<and>
     extraction_receipt_make trusted (xrs_receipt x) = Inr (xrs_receipt x) \<and>
     verify_representation_evidence P derived (xrs_payload x) src = Inr () \<and>
     br_digest (cap_blob captured) = sha256_digest P src \<and>
     rp_file_id (rpp_representation (xrs_payload x)) = cap_file_id captured \<and>
     rp_source_item_id (rpp_representation (xrs_payload x)) = cap_source_item_id captured \<and>
     rp_file_digest (rpp_representation (xrs_payload x)) = br_digest (cap_blob captured)"

lemma passthrough_extracted:
  assumes "passthrough_result P trusted captured src extractor_id digest kind metadata coordinate_system region = Inr x"
    "blob_ref_ok (cap_blob captured)"
  shows "extracted P trusted captured src None x" "passed_through P trusted captured src x"
    "rp_kind (rpp_representation (xrs_payload x)) = kind"
proof -
  from assms(1) obtain evidence mapping representation payload receipt y where
    v: "verify_captured_bytes P captured src = Inr ()"
    and ev: "evidence_coordinate_make trusted \<lparr>ec_coordinate_system = coordinate_system,
         ec_source_digest = br_digest (cap_blob captured), ec_start = Some 0, ec_end = Some (int (length src)),
         ec_page = None, ec_region = region\<rparr> = Inr evidence"
    and m: "evidence_mapping_make \<lparr>em_representation_start = 0, em_representation_end = int (length src),
         em_evidence = evidence, em_transformation = identity_transformation\<rparr> = Inr mapping"
    and rest: "representation_create P \<lparr>rp_representation_id = [], rp_source_item_id = cap_source_item_id captured,
         rp_file_id = cap_file_id captured, rp_file_digest = br_digest (cap_blob captured), rp_kind = kind,
         rp_blob = cap_blob captured, rp_extractor_id = extractor_id,
         rp_configuration_digest = digest, rp_evidence_mappings = [mapping], rp_warnings = []\<rparr> = Inr representation"
      "representation_payload_make P \<lparr>rpp_representation = representation, rpp_content = src\<rparr> = Inr payload"
      "receipt_for trusted captured payload metadata = Inr receipt"
      "extraction_result_make P \<lparr>xrs_payload = payload, xrs_receipt = receipt, xrs_evidence = []\<rparr> = Inr x"
    and ver: "verify_representation_evidence P None (xrs_payload x) src = Inr ()"
    unfolding passthrough_result_def bindE_Inr_iff thenE_Inr_iff by blast
  have mapping: "mapping = \<lparr>em_representation_start = 0, em_representation_end = int (length src),
      em_evidence = evidence, em_transformation = identity_transformation\<rparr>"
    by (rule evidence_mapping_make_same [OF m])
  have mok: "evidence_mapping_ok trusted mapping"
    using m evidence_coordinate_make_ok [OF ev] mapping by (simp add: evidence_mapping_ok_def)
  have evf: "ec_start evidence = Some 0" "ec_end evidence = Some (int (length src))" "ec_page evidence = None"
    using ev by (auto simp: evidence_coordinate_make_def thenE_Inr_iff)
  note facts = extracted_payload [OF rest, simplified, OF assms(2) mok]
  then show "extracted P trusted captured src None x"
    using ver v by (auto simp: extracted_def verify_captured_bytes_def thenE_Inr_iff verify_blob_bytes_iff)
  show "passed_through P trusted captured src x" "rp_kind (rpp_representation (xrs_payload x)) = kind"
    using facts(2,4) mapping evf by (auto simp: passed_through_def)
qed

lemma text_extracted:
  assumes "text_extract P trusted captured src = Inr x" "blob_ref_ok (cap_blob captured)"
  shows "extracted P trusted captured src None x" "passed_through P trusted captured src x"
    "rp_kind (rpp_representation (xrs_payload x)) = ''text''"
  using assms by (auto simp: text_extract_def bindE_Inr_iff dest: passthrough_extracted)

lemma html_extracted:
  assumes "html_extract P R g trusted captured src = Inr x" "blob_ref_ok (cap_blob captured)"
  shows "extracted P trusted captured src None x" "passed_through P trusted captured src x"
  using assms by (auto simp: html_extract_def bindE_Inr_iff dest: passthrough_extracted)

lemma xml_extracted:
  assumes "xml_extract P R g trusted captured src = Inr x" "blob_ref_ok (cap_blob captured)"
  shows "extracted P trusted captured src None x" "passed_through P trusted captured src x"
  using assms by (auto simp: xml_extract_def bindE_Inr_iff dest: passthrough_extracted)

lemma json_extracted:
  assumes "json_extract P R g trusted captured src = Inr x" "blob_ref_ok (cap_blob captured)"
  shows "extracted P trusted captured src None x" "passed_through P trusted captured src x"
  using assms by (auto simp: json_extract_def bindE_Inr_iff dest: passthrough_extracted)

lemma image_extracted:
  assumes "image_extract P R g trusted captured src = Inr x" "blob_ref_ok (cap_blob captured)"
  shows "extracted P trusted captured src None x" "passed_through P trusted captured src x"
  using assms by (auto simp: image_extract_def bindE_Inr_iff thenE_Inr_iff split: option.splits dest: passthrough_extracted)

lemma page_region_sorted: "key_sorted (JObj [(''kind'', JStr s), (''page'', JInt k)]) = JObj [(''kind'', JStr s), (''page'', JInt k)]"
  by (simp add: list_less_def)

lemma checked_page:
  assumes "checked_mapping trusted (page_mapping digest x) = Inr m"
  shows "m = page_mapping digest x \<and> evidence_mapping_ok trusted m"
proof -
  let ?m = "page_mapping digest x"
  from assms obtain ev where ev: "evidence_coordinate_make trusted (em_evidence ?m) = Inr ev"
    "evidence_mapping_make (?m\<lparr>em_evidence := ev\<rparr>) = Inr m" by (auto simp: checked_mapping_def bindE_Inr_iff)
  have "ev = em_evidence ?m" using ev(1) page_region_sorted
    by (auto simp: evidence_coordinate_make_def thenE_Inr_iff page_mapping_def split: prod.splits simp del: key_sorted.simps)
  then show ?thesis using ev evidence_mapping_make_same [OF ev(2)] evidence_coordinate_make_ok [OF ev(1)]
    by (auto simp: evidence_mapping_ok_def)
qed

lemma pdf_extracted:
  assumes "pdf_extract P R g trusted captured src = Inr x"
  obtains pages v encoded separator where
    "read_pages R g src = Inr (pages, v)" "mapE encode_utf8 pages = Inr encoded"
    "extracted P trusted captured src (Some (page_resolver encoded)) x"
    "rp_kind (rpp_representation (xrs_payload x)) = ''pdf-text''"
    "separator = utf8_encode (text_of (px_separator g))"
    "rpp_content (xrs_payload x) = join_with separator encoded"
    "rp_evidence_mappings (rpp_representation (xrs_payload x)) = page_mappings (br_digest (cap_blob captured)) separator encoded"
proof -
  define separator where "separator = utf8_encode (text_of (px_separator g))"
  from assms obtain extractor_id digest pages v encoded mappings blob representation payload receipt resolve where
    v: "verify_captured_bytes P captured src = Inr ()"
    and pages: "read_pages R g src = Inr (pages, v)" "mapE encode_utf8 pages = Inr encoded"
    and ms: "mapE (checked_mapping trusted) (page_mappings (br_digest (cap_blob captured)) separator encoded) = Inr mappings"
    and blob: "content_blob_ref P (join_with separator encoded) ''text/plain; charset=utf-8'' = Inr blob"
    and rest: "representation_create P \<lparr>rp_representation_id = [], rp_source_item_id = cap_source_item_id captured,
         rp_file_id = cap_file_id captured, rp_file_digest = br_digest (cap_blob captured), rp_kind = ''pdf-text'',
         rp_blob = blob, rp_extractor_id = extractor_id, rp_configuration_digest = digest,
         rp_evidence_mappings = mappings, rp_warnings = empty_page_warnings pages\<rparr> = Inr representation"
      "representation_payload_make P \<lparr>rpp_representation = representation, rpp_content = join_with separator encoded\<rparr> = Inr payload"
      "receipt_for trusted captured payload (JObj [(''pageCount'', JInt (int (length pages))),
         (''emptyPageCount'', JInt (int (length (filter (\<lambda>page. page = []) pages))))]) = Inr receipt"
      "extraction_result_make P \<lparr>xrs_payload = payload, xrs_receipt = receipt, xrs_evidence = []\<rparr> = Inr x"
    and res: "pdf_evidence_resolver R g src (Some pages) = Inr resolve"
      "verify_representation_evidence P (Some resolve) (xrs_payload x) src = Inr ()"
    unfolding pdf_extract_def bindE_Inr_iff thenE_Inr_iff Let_def separator_def split_paired_Ex prod.case by blast
  have all: "list_all2 (\<lambda>m m'. checked_mapping trusted m = Inr m')
      (page_mappings (br_digest (cap_blob captured)) separator encoded) mappings"
    using ms by (simp add: mapE_Inr_iff)
  have same: "checked_mapping trusted m = Inr m' \<Longrightarrow> m' = m \<and> evidence_mapping_ok trusted m'"
    if "m \<in> set (page_mappings (br_digest (cap_blob captured)) separator encoded)" for m m'
    using that checked_page by (auto simp: page_mappings_def)
  have mappings: "mappings = page_mappings (br_digest (cap_blob captured)) separator encoded"
    by (rule nth_equalityI) (use all same in \<open>auto simp: list_all2_conv_all_nth\<close>)
  have mok: "\<forall>m \<in> set mappings. evidence_mapping_ok trusted m"
    using all same by (fastforce simp: list_all2_conv_all_nth in_set_conv_nth)
  have "blob_ref_ok blob" using blob by (simp add: content_blob_ref_def Let_def blob_ref_make_ok)
  then have facts: "payload_ok P trusted (xrs_payload x)" "rpp_content (xrs_payload x) = join_with separator encoded"
    "receipt_agrees x" "extraction_receipt_make trusted (xrs_receipt x) = Inr (xrs_receipt x)"
    "rp_kind (rpp_representation (xrs_payload x)) = ''pdf-text''"
    "rp_evidence_mappings (rpp_representation (xrs_payload x)) = mappings"
    "rp_file_digest (rpp_representation (xrs_payload x)) = br_digest (cap_blob captured)"
    "rp_file_id (rpp_representation (xrs_payload x)) = cap_file_id captured"
    "rp_source_item_id (rpp_representation (xrs_payload x)) = cap_source_item_id captured"
    using extracted_payload [OF rest, simplified, OF _ mok] by auto
  have "resolve = page_resolver encoded" using res(1) pages(2) by (simp add: pdf_evidence_resolver_def)
  then have "extracted P trusted captured src (Some (page_resolver encoded)) x"
    using facts res(2) v by (auto simp: extracted_def verify_captured_bytes_def thenE_Inr_iff verify_blob_bytes_iff)
  then show ?thesis using that pages facts(2,5,6) mappings separator_def by blast
qed


section \<open>A captured text file\<close>

definition sample_fields :: "string \<Rightarrow> string \<Rightarrow> utext \<Rightarrow> captured_file" where
  "sample_fields media blob_media t = \<lparr>cap_file_id = [], cap_source_item_id = ''item'', cap_source_version = ''1'',
     cap_candidate_id = ''candidate'', cap_blob = \<lparr>br_locator = ''cas'', br_digest = sha256_digest reference_platform (utf8_encode t),
       br_byte_size = int (length (utf8_encode t)), br_media_type = blob_media\<rparr>,
     cap_media_type = media, cap_acquired_at = ''now'', cap_downloader_id = ''local'',
     cap_transport_version = None, cap_disposition = Captured, cap_acquisition_started_at = None,
     cap_downloader_configuration_digest = None, cap_task_id = None, cap_attempt_id = None\<rparr>"

definition captured_of :: "string \<Rightarrow> string \<Rightarrow> utext \<Rightarrow> captured_file" where
  "captured_of media blob_media t = (sample_fields media blob_media t)\<lparr>cap_file_id := ''urn:docspec:'' @ ''captured-file'' @ '':v1:'' @
     sha256_hex reference_platform (ascii_bytes (emit (key_sorted (captured_file_identity (sample_fields media blob_media t)))))\<rparr>"

lemma captured_of_ok:
  "strip media \<noteq> [] \<Longrightarrow> strip blob_media \<noteq> [] \<Longrightarrow> captured_file_ok reference_platform (captured_of media blob_media t)"
proof -
  let ?f = "sample_fields media blob_media t" and ?c = "captured_of media blob_media t"
  assume media: "strip media \<noteq> []" "strip blob_media \<noteq> []"
  have same: "captured_file_identity ?c = captured_file_identity ?f"
    by (simp add: captured_file_identity_def captured_of_def)
  have "stable_urn reference_platform ''captured-file'' (captured_file_identity ?f) = Inr (cap_file_id ?c)"
    by (subst stable_urn_eq) (simp_all add: captured_of_def is_urn_part_def strip_eq_Nil_iff char_isspace_def)
  moreover have "strip (cap_file_id ?c) \<noteq> []"
    using urn_nonblank by (simp add: captured_of_def del: append_assoc)
  ultimately have "captured_file_make reference_platform ?c = Inr ?c"
    unfolding captured_file_make_def same using media
    by (simp add: thenE_Inr_iff bindE_Inr_iff check_texts_iff when_given_def refuse_Inr_iff)
      (simp add: captured_of_def sample_fields_def strip_eq_Nil_iff char_isspace_def)
  then show ?thesis using media
    by (simp add: captured_file_ok_def)
      (simp add: captured_of_def sample_fields_def blob_ref_ok_def blob_ref_make_def thenE_Inr_iff check_texts_iff
        check_digest_iff refuse_Inr_iff sha256_digest_form strip_eq_Nil_iff char_isspace_def)
qed

definition sample_captured :: "utext \<Rightarrow> captured_file" where
  "sample_captured = captured_of ''Text/Plain; charset=utf-8'' ''text/plain''"

lemma sample_captured_ok: "captured_file_ok reference_platform (sample_captured t)"
  unfolding sample_captured_def by (rule captured_of_ok) (simp_all add: strip_eq_Nil_iff char_isspace_def)

lemma sample_media: "base_media_type ''Text/Plain; charset=utf-8'' = ''text/plain''" "base_media_type ''text/plain'' = ''text/plain''"
  by code_simp+

lemma sample_captured_bytes: "verify_captured_bytes reference_platform (sample_captured t) (utf8_encode t) = Inr ()"
  using sample_media by (simp add: verify_captured_bytes_def verify_blob_bytes_iff thenE_Inr_iff sample_captured_def captured_of_def sample_fields_def)

lemma sample_route: "select_extractor (cap_media_type (sample_captured t)) = Inr TextRoute"
  using sample_media(1) by (simp add: sample_captured_def captured_of_def sample_fields_def select_extractor_def ends_with_def starts_with_def)

definition sample_readers :: source_readers where
  "sample_readers = \<lparr>sr_markup = None, sr_json = None, sr_image = None, sr_pdf = None, sr_pypdf_version = None,
     sr_html_events = (\<lambda>_. Inr (0, [])), sr_xml_events = (\<lambda>_. Inr (''root'', 0)),
     sr_load_json = (\<lambda>_. Inr PNone), sr_image_header = (\<lambda>_. Inr (JStr ''png'', None, None)),
     sr_pdf_pages = (\<lambda>_ _. MissingPdfReader)\<rparr>"

definition sample_extractors :: extractor_registry where
  "sample_extractors = (let g = \<lparr>rx_identity = None, rx_digest = []\<rparr> in
     \<lparr>xg_html = g, xg_xml = g, xg_json = g, xg_image = g,
      xg_pdf = \<lparr>px_separator = [CHR 0x0A], px_strip = False, px_reader = None, px_version = None\<rparr>\<rparr>)"

section \<open>Extraction and segmentation together\<close>

text \<open>The route of a captured file and what it leaves for the segmenters.\<close>

lemma registry_extracted:
  assumes "registry_extract P R G trusted captured src = Inr x" "blob_ref_ok (cap_blob captured)"
  shows "(extracted P trusted captured src None x \<and> passed_through P trusted captured src x) \<or>
    (select_extractor (cap_media_type captured) = Inr PdfRoute \<and> pdf_extract P R (xg_pdf G) trusted captured src = Inr x)"
proof -
  from assms(1) obtain route where route: "select_extractor (cap_media_type captured) = Inr route"
    by (auto simp: registry_extract_def bindE_Inr_iff)
  show ?thesis using assms route
    by (cases route) (auto simp: registry_extract_def dest: text_extracted html_extracted xml_extracted json_extracted
        image_extracted)
qed

definition segment_of_bytes :: "platform \<Rightarrow> bytes \<Rightarrow> segment_payload \<Rightarrow> bool" where
  "segment_of_bytes P src s \<longleftrightarrow> (let a = sg_representation_start (sgp_segment s); b = sg_representation_end (sgp_segment s) in
     0 \<le> a \<and> a \<le> b \<and> b \<le> int (length src) \<and> sgp_content s = slice_of src (nat a) (nat b) \<and>
     ec_start (sg_evidence (sgp_segment s)) = Some a \<and> ec_end (sg_evidence (sgp_segment s)) = Some b \<and>
     ec_source_digest (sg_evidence (sgp_segment s)) = sha256_digest P src)"

definition segment_of_page :: "platform \<Rightarrow> bytes list \<Rightarrow> bytes \<Rightarrow> segment_payload \<Rightarrow> bool" where
  "segment_of_page P pages src s \<longleftrightarrow> (\<exists>page \<in> {1..int (length pages)}.
     ec_page (sg_evidence (sgp_segment s)) = Some page \<and> sgp_content s = pages ! nat (page - 1) \<and>
     ec_source_digest (sg_evidence (sgp_segment s)) = sha256_digest P src)"

lemma coordinate_equal_page: "coordinate_equal a b \<Longrightarrow> ec_page a = ec_page b"
  by (cases a; cases b) (simp add: coordinate_equal_def)

lemma passed_through_segment:
  assumes "extracted P trusted captured src derived x" "passed_through P trusted captured src x"
    "verify_segment_representation trusted' s (xrs_payload x) = Inr ()"
  shows "segment_of_bytes P src s"
proof -
  let ?p = "xrs_payload x" and ?a = "sg_representation_start (sgp_segment s)" and ?b = "sg_representation_end (sgp_segment s)"
  obtain ev where ev: "sgp_content s = py_slice (rpp_content ?p) ?a ?b" "payload_evidence trusted' ?p ?a ?b = Inr ev"
    "coordinate_equal (sg_evidence (sgp_segment s)) ev"
    by (rule verify_segment_representationD [OF assms(3)])
  from payload_evidence_found [OF ev(2)] assms(2) obtain m where bounds: "0 \<le> ?a" "?a \<le> ?b" "?b \<le> int (length src)"
    and m: "m \<in> set (rp_evidence_mappings (rpp_representation ?p))" "resolve_evidence_mapping trusted' m ?a ?b = Inr ev"
    "em_representation_start m = 0" "em_transformation m = identity_transformation" "ec_start (em_evidence m) = Some 0"
    by (auto simp: passed_through_def)
  from resolve_identity [OF m(2,4)] m(3,5) have "ec_start ev = Some ?a" "ec_end ev = Some ?b"
    "ec_source_digest ev = ec_source_digest (em_evidence m)" by auto
  moreover have "ec_source_digest (em_evidence m) = sha256_digest P src"
    using payload_mapping [OF _ m(1)] assms(1) by (auto simp: extracted_def)
  ultimately show ?thesis using coordinate_equal_fields [OF ev(3)] ev(1) assms(2) bounds
    by (simp add: segment_of_bytes_def Let_def passed_through_def py_slice_inside)
qed

lemma paged_segment:
  assumes "extracted P trusted captured src (Some (page_resolver encoded)) x"
    "rp_evidence_mappings (rpp_representation (xrs_payload x)) = page_mappings digest separator encoded"
    "verify_segment_representation trusted' s (xrs_payload x) = Inr ()"
  shows "segment_of_page P encoded src s"
proof -
  let ?p = "xrs_payload x" and ?a = "sg_representation_start (sgp_segment s)" and ?b = "sg_representation_end (sgp_segment s)"
  obtain ev where ev: "sgp_content s = py_slice (rpp_content ?p) ?a ?b" "payload_evidence trusted' ?p ?a ?b = Inr ev"
    "coordinate_equal (sg_evidence (sgp_segment s)) ev"
    by (rule verify_segment_representationD [OF assms(3)])
  from payload_evidence_found [OF ev(2)] obtain m where
    m: "m \<in> set (rp_evidence_mappings (rpp_representation ?p))" "resolve_evidence_mapping trusted' m ?a ?b = Inr ev" by blast
  then obtain i where i: "i < length encoded" "m = page_mapping digest (Suc i, page_ranges (length separator) 0 encoded ! i)"
    using assms(2) page_mappings_nth [of _ encoded digest separator] unfolding in_set_conv_nth
    by (auto simp: page_mappings_def)
  then have page: "ec_page (em_evidence m) = Some (int (Suc i))" and tr: "em_transformation m \<noteq> identity_transformation"
    by (auto simp: page_mapping_def pdf_page_text_transform_def identity_transformation_def split: prod.splits)
  from resolve_derived [OF m(2) tr] have r: "?a = em_representation_start m" "?b = em_representation_end m" "ev = em_evidence m"
    by auto
  have "verify_representation_mapping (Some (page_resolver encoded)) m (py_slice (rpp_content ?p) ?a ?b) src = Inr ()"
    using mapping_verified(2) [OF _ m(1), of P "Some (page_resolver encoded)" src] assms(1) r by (simp add: extracted_def)
  then have "page_resolver encoded m src = Inr (py_slice (rpp_content ?p) ?a ?b)"
    using tr by (auto simp: verify_representation_mapping_def bindE_Inr_iff refuse_Inr_iff)
  then have "sgp_content s = encoded ! i"
    using i(1) page ev(1) by (simp add: page_resolver_def)
  moreover have "ec_source_digest (em_evidence m) = sha256_digest P src"
    using payload_mapping [OF _ m(1)] assms(1) by (auto simp: extracted_def)
  ultimately show ?thesis
    using coordinate_equal_fields [OF ev(3)] coordinate_equal_page [OF ev(3)] r page i(1)
    by (auto simp: segment_of_page_def intro!: bexI [of _ "int (Suc i)"])
qed

section \<open>The extractors return\<close>

lemma representation_urn:
  "canonical P j = Inr b \<Longrightarrow> stable_urn P ''representation'' j = Inr (''urn:docspec:'' @ ''representation'' @ '':v1:'' @ sha256_hex P b)"
  "canonical P j = Inl err \<Longrightarrow> stable_urn P ''representation'' j = Inl err"
  by (subst stable_urn_eq; simp add: is_urn_part_def strip_eq_Nil_iff char_isspace_def)+

lemma representation_create_total:
  assumes "canonical P (representation_identity r) = Inr b"
    "\<forall>v \<in> {rp_source_item_id r, rp_file_id r, rp_kind r, rp_extractor_id r}. strip v \<noteq> []"
    "is_sha256 (rp_file_digest r)" "is_sha256 (rp_configuration_digest r)"
    "check_mappings (rp_file_digest r) (br_byte_size (rp_blob r)) 0 (rp_evidence_mappings r) = Inr ()"
    "\<forall>w \<in> set (rp_warnings r). strip w \<noteq> []"
  shows "\<exists>i. strip i \<noteq> [] \<and> representation_create P r = Inr (r\<lparr>rp_representation_id := i\<rparr>) \<and>
    representation_create P (r\<lparr>rp_representation_id := i\<rparr>) = Inr (r\<lparr>rp_representation_id := i\<rparr>)"
proof -
  let ?i = "''urn:docspec:'' @ ''representation'' @ '':v1:'' @ sha256_hex P b"
  have "representation_make P (r\<lparr>rp_representation_id := ?i\<rparr>) = Inr (r\<lparr>rp_representation_id := ?i\<rparr>)"
    using assms representation_urn(1) [OF assms(1)] urn_nonblank
    by (simp add: representation_make_def thenE_Inr_iff bindE_Inr_iff check_texts_iff check_digest_iff refuse_Inr_iff
        del: append_assoc)
  then show ?thesis using representation_urn(1) [OF assms(1)] urn_nonblank
    by (intro exI [of _ ?i]) (simp add: representation_create_def del: append_assoc)
qed

lemma captured_facts:
  assumes "captured_file_ok P captured"
  shows "strip (cap_source_item_id captured) \<noteq> []" "strip (cap_file_id captured) \<noteq> []" "is_sha256 (br_digest (cap_blob captured))"
    "blob_ref_ok (cap_blob captured)"
  using assms by (auto simp: captured_file_ok_def captured_file_make_def thenE_Inr_iff check_texts_iff blob_ref_ok_def
      blob_ref_make_def check_digest_iff)

lemma receipt_for_total:
  assumes "strip (cap_file_id captured) \<noteq> []" "is_sha256 (br_digest (cap_blob captured))"
    "\<forall>v \<in> {rp_extractor_id (rpp_representation p), rp_representation_id (rpp_representation p), rp_kind (rpp_representation p)}.
       strip v \<noteq> []" "is_sha256 (rp_configuration_digest (rpp_representation p))"
    "is_sha256 (br_digest (rp_blob (rpp_representation p)))" "0 \<le> br_byte_size (rp_blob (rpp_representation p))"
    "\<forall>w \<in> set (rp_warnings (rpp_representation p)). strip w \<noteq> []"
    "rp_file_id (rpp_representation p) = cap_file_id captured"
    "rp_file_digest (rpp_representation p) = br_digest (cap_blob captured)"
  shows "\<exists>c. receipt_for trusted captured p (JObj kvs) = Inr c \<and>
    receipt_agrees \<lparr>xrs_payload = p, xrs_receipt = c, xrs_evidence = []\<rparr>"
proof -
  from stored_object [of trusted kvs] obtain kvs' where "(if trusted then JObj kvs else key_sorted (JObj kvs)) = JObj kvs'"
    by blast
  then show ?thesis using assms
    by (simp add: receipt_for_def Let_def extraction_receipt_make_def check_texts_iff check_digest_iff thenE_Inr_iff
        refuse_Inr_iff bindE_Inr_iff receipt_agrees_def del: key_sorted.simps)
qed

lemma passthrough_total:
  assumes "captured_file_ok P captured" "verify_captured_bytes P captured src = Inr ()" "is_sha256 digest"
    "\<forall>v \<in> {extractor_id, kind, coordinate_system}. strip v \<noteq> []"
  shows "is_ok (passthrough_result P trusted captured src extractor_id digest kind (JObj kvs) coordinate_system region) \<or>
    (\<exists>j err. canonical P j = Inl err \<and>
       passthrough_result P trusted captured src extractor_id digest kind (JObj kvs) coordinate_system region = Inl err)"
proof -
  note cap = captured_facts [OF assms(1)]
  let ?ev = "\<lparr>ec_coordinate_system = coordinate_system, ec_source_digest = br_digest (cap_blob captured),
      ec_start = Some 0, ec_end = Some (int (length src)), ec_page = None, ec_region = region\<rparr>"
  let ?ev' = "?ev\<lparr>ec_region := if trusted then region else key_sorted region\<rparr>"
  let ?m = "\<lparr>em_representation_start = 0, em_representation_end = int (length src),
      em_evidence = ?ev', em_transformation = identity_transformation\<rparr>"
  let ?r = "\<lparr>rp_representation_id = [], rp_source_item_id = cap_source_item_id captured,
         rp_file_id = cap_file_id captured, rp_file_digest = br_digest (cap_blob captured), rp_kind = kind,
         rp_blob = cap_blob captured, rp_extractor_id = extractor_id,
         rp_configuration_digest = digest, rp_evidence_mappings = [?m], rp_warnings = []\<rparr>"
  have size: "br_byte_size (cap_blob captured) = int (length src)" "br_digest (cap_blob captured) = sha256_digest P src"
    using assms(2) by (auto simp: verify_captured_bytes_def thenE_Inr_iff verify_blob_bytes_iff)
  have ev: "evidence_coordinate_make trusted ?ev = Inr ?ev'"
    using cap assms(4) by (simp add: evidence_coordinate_make_def thenE_Inr_iff check_texts_iff check_digest_iff
        coordinate_interval_bad_def when_given_def refuse_Inr_iff)
  have m: "evidence_mapping_make ?m = Inr ?m"
    by (simp add: evidence_mapping_make_def check_texts_iff thenE_Inr_iff refuse_Inr_iff identity_transformation_def
        strip_eq_Nil_iff char_isspace_def)
  show ?thesis
  proof (cases "canonical P (representation_identity ?r)")
    case (Inl err)
    then have "representation_create P ?r = Inl err"
      by (simp add: representation_create_def representation_urn(2))
    then have "passthrough_result P trusted captured src extractor_id digest kind (JObj kvs) coordinate_system region = Inl err"
      using assms(2) ev m by (simp add: passthrough_result_def)
    then show ?thesis using Inl by blast
  next
    case (Inr b)
    have "check_mappings (br_digest (cap_blob captured)) (int (length src)) 0 [?m] = Inr ()"
      by (simp add: identity_mapping_check_def)
    then obtain i where i: "strip i \<noteq> []" "representation_create P ?r = Inr (?r\<lparr>rp_representation_id := i\<rparr>)"
      "representation_create P (?r\<lparr>rp_representation_id := i\<rparr>) = Inr (?r\<lparr>rp_representation_id := i\<rparr>)"
      using representation_create_total [OF Inr] cap assms(3,4) size(1) by auto
    let ?p = "\<lparr>rpp_representation = ?r\<lparr>rp_representation_id := i\<rparr>, rpp_content = src\<rparr>"
    have p: "representation_payload_make P ?p = Inr ?p"
      using i(3) size by (simp add: representation_payload_make_def verify_blob_bytes_iff thenE_Inr_iff)
    obtain c where c: "receipt_for trusted captured ?p (JObj kvs) = Inr c"
      "receipt_agrees \<lparr>xrs_payload = ?p, xrs_receipt = c, xrs_evidence = []\<rparr>"
      using receipt_for_total [of captured ?p trusted kvs] cap i(1) assms(3,4) size by auto
    then have x: "extraction_result_make P \<lparr>xrs_payload = ?p, xrs_receipt = c, xrs_evidence = []\<rparr> =
        Inr \<lparr>xrs_payload = ?p, xrs_receipt = c, xrs_evidence = []\<rparr>"
      by (simp add: extraction_result_make_def receipt_agrees_def Let_def thenE_Inr_iff)
    have "verify_representation_evidence P None ?p src = Inr ()"
      using size by (simp add: verify_representation_evidence_def verify_representation_mapping_def thenE_Inr_iff refuse_Inr_iff)
    then show ?thesis using assms(2) ev m i(2) p c(1) x by (simp add: passthrough_result_def thenE_Inr_iff is_ok_iff)
  qed
qed

lemma text_extraction_returns:
  assumes "captured_file_ok P captured" "hex_documented P" "verify_captured_bytes P captured (utf8_encode t) = Inr ()"
    "scalar_text t"
  shows "is_ok (text_extract P trusted captured (utf8_encode t)) \<or>
    (\<exists>j err. canonical P j = Inl err \<and> text_extract P trusted captured (utf8_encode t) = Inl err)"
proof (cases "text_configuration_digest P")
  case (Inl err)
  then have "\<exists>j. canonical P j = Inl err" by (auto simp: text_configuration_digest_def identity_digest_eq bindE_Inl_iff)
  then show ?thesis using Inl by (auto simp: text_extract_def)
next
  case (Inr d)
  have sha: "is_sha256 d" using Inr sha256_digest_form [OF assms(2)]
    by (auto simp: text_configuration_digest_def identity_digest_eq bindE_Inr_iff)
  have "decode_utf8 (utf8_encode t) ''captured text'' = Inr t" using assms(4) by (simp add: decode_utf8_def utf8_decode_encode)
  moreover have "\<forall>v \<in> {text_extractor_id, ''text'', ''utf8-byte-range''}. strip v \<noteq> []"
    by (simp add: text_extractor_id_def strip_eq_Nil_iff char_isspace_def)
  ultimately show ?thesis
    using passthrough_total [OF assms(1,3) sha] Inr by (simp add: text_extract_def)
qed






text \<open>
  C16. From the captured file to its segments: whatever file the extractor registry accepts and
  whatever segmenter cuts the result, every segment is source. It is the byte range of the captured file its
  evidence states, or, for a PDF, the encoded text the reader gives for the page its evidence
  names; the evidence carries the digest of the captured bytes, which is the digest the captured
  file is stored under, and the segment passes the verification of evidence.
\<close>

theorem extracted_segments_in_source:
  assumes "captured_file_ok P captured" "registry_extract P R G trusted captured src = Inr x"
    "registry_segments P J S trusted' (xrs_payload x) = Inr ss" "s \<in> set ss"
  shows "br_digest (cap_blob captured) = sha256_digest P src \<and>
    (segment_of_bytes P src s \<and> verify_segment_evidence P trusted' None s (xrs_payload x) src = Inr () \<or>
     (\<exists>pages v encoded. read_pages R (xg_pdf G) src = Inr (pages, v) \<and> mapE encode_utf8 pages = Inr encoded \<and>
        segment_of_page P encoded src s \<and>
        verify_segment_evidence P trusted' (Some (page_resolver encoded)) s (xrs_payload x) src = Inr ()))"
proof -
  have blob: "blob_ref_ok (cap_blob captured)" using assms(1) by (simp add: captured_file_ok_def)
  have v: "verify_segment_representation trusted' s (xrs_payload x) = Inr ()" by (rule registry.verified [OF assms(3,4)])
  from registry_extracted [OF assms(2) blob] show ?thesis
  proof
    assume x: "extracted P trusted captured src None x \<and> passed_through P trusted captured src x"
    then have "segment_of_bytes P src s" using passed_through_segment v by blast
    then show ?thesis using x v by (auto simp: extracted_def verify_segment_evidence_def)
  next
    assume "select_extractor (cap_media_type captured) = Inr PdfRoute \<and> pdf_extract P R (xg_pdf G) trusted captured src = Inr x"
    then have "pdf_extract P R (xg_pdf G) trusted captured src = Inr x" ..
    then obtain pages w encoded separator where e: "read_pages R (xg_pdf G) src = Inr (pages, w)" "mapE encode_utf8 pages = Inr encoded"
      "extracted P trusted captured src (Some (page_resolver encoded)) x"
      "rp_evidence_mappings (rpp_representation (xrs_payload x)) = page_mappings (br_digest (cap_blob captured)) separator encoded"
      by (rule pdf_extracted) (rule that)
    have "segment_of_page P encoded src s" by (rule paged_segment [OF e(3,4) v])
    then show ?thesis using e v by (auto simp: extracted_def verify_segment_evidence_def)
  qed
qed


definition hello_text :: utext where
  "hello_text = [72, 101, 108, 108, 111]"

definition paragraph_registry :: segmenter_registry where
  "paragraph_registry = sample_registry\<lparr>reg_bounded := None\<rparr>"

lemma hello_scalar: "scalar_text hello_text"
  by (simp add: hello_text_def scalar_text_def is_scalar_def)

lemma hello_bytes: "length (utf8_encode hello_text) = 5"
  by (simp add: hello_text_def utf8_encode_def utf8_char_def)

lemma hello_ranges: "paragraph_char_ranges hello_text = [(0, 5)]"
  by (simp add: paragraph_char_ranges_def hello_text_def gaps.simps gap_end_def newline_at_def newline_def
      trim_char_range_def skip_space_def drop_space_def isspace_def slice_of_def)

lemma hello_offsets: "utf8_byte_offsets hello_text = [0, 1, 2, 3, 4, 5]"
  by (simp add: hello_text_def utf8_byte_offsets_def utf8_char_def)

theorem extracted_segments_in_source_witness:
  "\<exists>x s. registry_extract reference_platform sample_readers sample_extractors False (sample_captured hello_text) (utf8_encode hello_text) = Inr x \<and>
    registry_segments reference_platform sample_reader paragraph_registry False (xrs_payload x) = Inr [s] \<and>
    sgp_content s = utf8_encode hello_text \<and> segment_of_bytes reference_platform (utf8_encode hello_text) s"
proof -
  obtain x where x: "text_extract reference_platform False (sample_captured hello_text) (utf8_encode hello_text) = Inr x"
    using text_extraction_returns [OF sample_captured_ok reference_hex_documented sample_captured_bytes hello_scalar, of False]
    by (auto simp: is_ok_iff)
  note facts = text_extracted [OF x captured_facts(4) [OF sample_captured_ok]]
  have ok: "payload_ok reference_platform False (xrs_payload x)" using facts(1) by (simp add: extracted_def)
  have content: "rpp_content (xrs_payload x) = utf8_encode hello_text" using facts(2) by (simp add: passed_through_def)
  obtain m where m: "rp_evidence_mappings (rpp_representation (xrs_payload x)) = [m]" "em_representation_start m = 0"
    "em_representation_end m = 5" "em_transformation m = identity_transformation"
    using facts(2) hello_bytes by (auto simp: passed_through_def)
  obtain ev where ev: "payload_evidence False (xrs_payload x) 0 5 = Inr ev"
    using payload_evidence_total [OF ok, of m 0 5 False] m by auto
  obtain d where d: "paragraph_policy_digest reference_platform = Inr d"
    by (simp add: paragraph_policy_digest_def identity_digest_eq)
  then have "is_sha256 d" using sha256_digest_form [OF reference_hex_documented]
    by (auto simp: paragraph_policy_digest_def identity_digest_eq)
  then obtain s where s: "build_segment reference_platform False (xrs_payload x) 0 ''paragraph'' 0 5 ''docspec.paragraph/v1'' d
      [''source-native-text'', ''blank-line-paragraph''] None = Inr s"
    using build_segment_or [OF ok reference_hex_documented ev, of 0 "''paragraph''" "''docspec.paragraph/v1''" d]
    by (auto simp: strip_eq_Nil_iff char_isspace_def is_ok_iff)
  have "paragraph_segments reference_platform False (xrs_payload x) = Inr [s]"
    using d s hello_scalar hello_ranges hello_offsets
    by (simp add: paragraph_segments_def content decode_utf8_def utf8_decode_encode Let_def)
  then have seg: "registry_segments reference_platform sample_reader paragraph_registry False (xrs_payload x) = Inr [s]"
    using facts(3) by (simp add: registry_segments_def select_segmenter_def paragraph_registry_def)
  have run: "registry_extract reference_platform sample_readers sample_extractors False (sample_captured hello_text)
      (utf8_encode hello_text) = Inr x"
    using x sample_route by (simp add: registry_extract_def)
  have "read_pages sample_readers (xg_pdf sample_extractors) src \<noteq> Inr y" for src y
    by (simp add: read_pages_def require_provider_version_def sample_extractors_def Let_def)
  then have "segment_of_bytes reference_platform (utf8_encode hello_text) s"
    using extracted_segments_in_source [OF sample_captured_ok run seg, of s] by simp
  moreover have "sgp_content s = utf8_encode hello_text"
    using build_segment_parts [OF s] content hello_bytes by (auto simp: py_slice_inside slice_of_def)
  ultimately show ?thesis using run seg by blast
qed

section \<open>PDF extraction returns\<close>










end
