(* ===== verification/Table_Types.thy ===== *)
theory Table_Types
  imports Wire_Records Reference_Codec Char_Text Unicode_Text
begin

text \<open>
  The table types of src/src/docspec/domain/storage.py: the lexer and the recursive-descent parser
  of \<open>type_tree\<close>, the printer \<open>type_name\<close>, the check of column names, and the schema and partition
  records. The theorems: a parsed type is well formed and is read back from what is printed for it,
  so a table schema is a fixed point of its own constructor; and the limit on nesting does not
  reach lists.
\<close>

section \<open>Column names\<close>

definition column_name_bad :: "string \<Rightarrow> bool" where
  "column_name_bad name \<longleftrightarrow> name = [] \<or> CHR 0x00 \<in> set name"

definition check_column_name :: "platform \<Rightarrow> string list \<Rightarrow> string \<Rightarrow> string list result" where
  "check_column_name P folded name =
     thenE (refuse (column_name_bad name) (ValueError ''table column names must be nonempty strings without NUL''))
    (bindE (canonical_value_bytes P (JStr name)) (\<lambda>_.
     thenE (refuse (casefold name \<in> set folded)
       (ValueError ''table column names must be distinct, including SQL case folding''))
       (Inr (casefold name # folded))))"

definition check_column_names :: "platform \<Rightarrow> string list \<Rightarrow> unit result" where
  "check_column_names P names =
     bindE (foldE (check_column_name P) [] names) (\<lambda>folded.
       refuse (folded = []) (ValueError ''table rows require at least one column''))"

section \<open>Tokens\<close>

text \<open>
  The regular expression of the lexer. A quoted name is matched greedily: after a quotation mark,
  a second one continues the name when the name can still be closed, and otherwise the first one closes it.
\<close>

fun quoted_name :: "string \<Rightarrow> (string \<times> string) option" where
  "quoted_name [] = None"
| "quoted_name (c # s) =
     (if c \<noteq> CHR 0x22 then map_option (apfst (Cons c)) (quoted_name s)
      else case s of
        d # s' \<Rightarrow>
          (if d = CHR 0x22 then
             (case quoted_name s' of
                Some (name, rest) \<Rightarrow> Some (c # d # name, rest)
              | None \<Rightarrow> Some ([c], s))
           else Some ([c], s))
      | [] \<Rightarrow> Some ([c], s))"

definition starts_name :: "char \<Rightarrow> bool" where
  "starts_name c \<longleftrightarrow> is_ascii_letter c \<or> c = CHR ''_''"

definition continues_name :: "char \<Rightarrow> bool" where
  "continues_name c \<longleftrightarrow> starts_name c \<or> is_digit c"

definition token_at :: "string \<Rightarrow> (string \<times> string) option" where
  "token_at text = (case dropWhile char_isspace text of
     [] \<Rightarrow> None
   | c # s \<Rightarrow>
       if c = CHR 0x22 then map_option (apfst (Cons c)) (quoted_name s)
       else if starts_name c then Some (c # takeWhile continues_name s, dropWhile continues_name s)
       else if is_digit c then Some (c # takeWhile is_digit s, dropWhile is_digit s)
       else if c \<in> set ''(),[]'' then Some ([c], s)
       else None)"

lemma quoted_name_shorter: "quoted_name s = Some (name, rest) \<Longrightarrow> length rest < length s"
  by (induction s arbitrary: name rest rule: quoted_name.induct)
    (force split: if_splits list.splits option.splits)+

lemma token_at_shorter:
  assumes "token_at s = Some (t, rest)"
  shows "length rest < length s"
proof -
  obtain c r where r: "dropWhile char_isspace s = c # r"
    using assms by (auto simp: token_at_def split: list.splits)
  then have "length r < length s" by (metis length_dropWhile_le less_le_trans lessI list.size(4) add.right_neutral add_Suc_right)
  moreover have "length rest \<le> length r" using assms r
    by (auto simp: token_at_def length_dropWhile_le dest: quoted_name_shorter split: if_splits)
  ultimately show ?thesis by simp
qed

function tokens :: "string \<Rightarrow> string list result" where
  "tokens text =
     (if text = [] then Inr []
      else case token_at text of
        None \<Rightarrow> Inl (ValueError ''invalid table type token'')
      | Some (t, rest) \<Rightarrow> bindE (tokens rest) (\<lambda>ts. Inr (t # ts)))"
  by pat_completeness auto
termination by (relation "measure length") (auto dest: token_at_shorter)

declare tokens.simps [simp del]

section \<open>The parser\<close>

datatype table_type = Scalar string | Decimal nat nat | Struct "(string \<times> table_type) list" | ListOf table_type

definition scalar_types :: "string list" where
  "scalar_types = [''VARCHAR'', ''BOOLEAN'', ''INTEGER'', ''BIGINT'', ''DOUBLE'', ''DATE'', ''TIMESTAMP'',
     ''TIMESTAMPTZ'', ''BLOB'']"

definition take_token :: "string list \<Rightarrow> (string \<times> string list) result" where
  "take_token ts = (case ts of [] \<Rightarrow> Inl (ValueError ''incomplete table type'') | t # rest \<Rightarrow> Inr (t, rest))"

definition take_expected :: "string \<Rightarrow> string list \<Rightarrow> string list result" where
  "take_expected expected ts = (case ts of
     [] \<Rightarrow> Inl (ValueError ''incomplete table type'')
   | t # rest \<Rightarrow> if t \<noteq> expected then Inl (ValueError ''incomplete table type'') else Inr rest)"

text \<open>\<open>int(token)\<close>: a token is a run of digits or no number at all; longer runs than the interpreter converts raise too.\<close>

definition int_token :: "string \<Rightarrow> nat result" where
  "int_token t =
     (if \<not> list_all is_digit t then Inl (ValueError ''invalid literal for int() with base 10'')
      else if 4300 < length t then Inl (ValueError ''Exceeds the limit (4300 digits) for integer string conversion'')
      else Inr (nat_of_digits t))"

fun undouble :: "string \<Rightarrow> string" where
  "undouble [] = []"
| "undouble [c] = [c]"
| "undouble (c # d # s) =
     (if c = CHR 0x22 \<and> d = CHR 0x22 then CHR 0x22 # undouble s else c # undouble (d # s))"

definition is_name :: "string \<Rightarrow> bool" where
  "is_name t = (case t of [] \<Rightarrow> False | c # s \<Rightarrow> starts_name c \<and> list_all continues_name s)"

definition field_name :: "string \<Rightarrow> string result" where
  "field_name t =
     (if starts_with [CHR 0x22] t then Inr (undouble (butlast (tl t)))
      else if \<not> is_name t then Inl (ValueError ''invalid struct field'')
      else Inr t)"

fun list_suffix :: "table_type \<Rightarrow> string list \<Rightarrow> (table_type \<times> string list) result" where
  "list_suffix tree (t # ts) =
     (if t = ''['' then
        (case ts of
           u # us \<Rightarrow> if u \<noteq> '']'' then Inl (ValueError ''incomplete table type'') else list_suffix (ListOf tree) us
         | [] \<Rightarrow> Inl (ValueError ''incomplete table type''))
      else Inr (tree, t # ts))"
| "list_suffix tree [] = Inr (tree, [])"

definition decimal_type :: "string list \<Rightarrow> (table_type \<times> string list) result" where
  "decimal_type ts =
     bindE (take_expected ''('' ts) (\<lambda>ts.
     bindE (take_token ts) (\<lambda>(t, ts).
     bindE (int_token t) (\<lambda>precision.
     bindE (take_expected '','' ts) (\<lambda>ts.
     bindE (take_token ts) (\<lambda>(t, ts).
     bindE (int_token t) (\<lambda>scale.
     bindE (take_expected '')'' ts) (\<lambda>ts.
     thenE (refuse (\<not> (1 \<le> precision \<and> precision \<le> 38) \<or> \<not> (0 \<le> scale \<and> scale \<le> precision))
       (ValueError ''decimal precision or scale is outside Decimal128''))
       (Inr (Decimal precision scale, ts)))))))))"

function (domintros) parse_type :: "platform \<Rightarrow> nat \<Rightarrow> string list \<Rightarrow> (table_type \<times> string list) result"
  and parse_fields :: "platform \<Rightarrow> nat \<Rightarrow> string list \<Rightarrow> ((string \<times> table_type) list \<times> string list) result" where
  "parse_type P depth ts =
     (if 64 < depth then Inl (ValueError ''table type nesting exceeds 64'')
      else bindE (take_token ts) (\<lambda>(name, ts1).
        if name \<in> set scalar_types then list_suffix (Scalar name) ts1
        else if name = ''DECIMAL'' then bindE (decimal_type ts1) (\<lambda>(tree, ts2). list_suffix tree ts2)
        else if name = ''STRUCT'' then
          bindE (take_expected ''('' ts1) (\<lambda>ts2.
          bindE (parse_fields P depth ts2) (\<lambda>(fields, ts3).
          bindE (take_expected '')'' ts3) (\<lambda>ts4.
          thenE (check_column_names P (map fst fields))
            (list_suffix (Struct fields) ts4))))
        else Inl (ValueError ''unsupported table type'')))"
| "parse_fields P depth ts =
     bindE (take_token ts) (\<lambda>(t, ts1).
     bindE (field_name t) (\<lambda>field.
     bindE (parse_type P (depth + 1) ts1) (\<lambda>(tree, ts2).
       case ts2 of
         [] \<Rightarrow> Inr ([(field, tree)], ts2)
       | u # us \<Rightarrow>
           (if u \<noteq> '','' then Inr ([(field, tree)], ts2)
            else bindE (parse_fields P depth us) (\<lambda>(fields, ts3). Inr ((field, tree) # fields, ts3))))))"
  by pat_completeness auto

text \<open>Every parser consumes tokens, so the loop over the fields ends.\<close>

lemma take_token_shorter: "take_token ts = Inr (t, rest) \<Longrightarrow> ts = t # rest"
  by (auto simp: take_token_def split: list.splits)

lemma take_expected_shorter: "take_expected e ts = Inr rest \<longleftrightarrow> ts = e # rest"
  by (auto simp: take_expected_def split: list.splits)

lemma list_suffix_shorter: "list_suffix tree ts = Inr (t, rest) \<Longrightarrow> length rest \<le> length ts"
  by (induction tree ts rule: list_suffix.induct) (force split: if_splits list.splits)+

lemma decimal_type_shorter: "decimal_type ts = Inr (t, rest) \<Longrightarrow> length rest < length ts"
  by (auto simp: decimal_type_def bindE_Inr_iff thenE_Inr_iff take_expected_shorter dest!: take_token_shorter)

lemma parse_shorter:
  "parse_type_parse_fields_dom (Inl (P, depth, ts)) \<Longrightarrow>
     \<forall>t rest. parse_type P depth ts = Inr (t, rest) \<longrightarrow> length rest < length ts"
  "parse_type_parse_fields_dom (Inr (P, depth, ts)) \<Longrightarrow>
     \<forall>fs rest. parse_fields P depth ts = Inr (fs, rest) \<longrightarrow> length rest < length ts"
proof (induction P depth ts and P depth ts rule: parse_type_parse_fields.pinduct)
  case (1 P depth ts)
  show ?case
  proof (intro allI impI)
    fix t rest
    assume run: "parse_type P depth ts = Inr (t, rest)"
    then obtain name ts1 where first: "\<not> 64 < depth" "take_token ts = Inr (name, ts1)"
      by (auto simp: parse_type.psimps [OF 1(1)] bindE_Inr_iff split: if_splits)
    have ts: "ts = name # ts1" using take_token_shorter [OF first(2)] .
    show "length rest < length ts"
    proof (cases "name \<in> set scalar_types \<or> name = ''DECIMAL'' \<or> name \<noteq> ''STRUCT''")
      case True
      then show ?thesis using run [unfolded parse_type.psimps [OF 1(1)]] first ts
        by (auto simp: bindE_Inr_iff split: if_splits dest!: list_suffix_shorter decimal_type_shorter)
    next
      case False
      then obtain ts2 fields ts3 ts4 where "take_expected ''('' ts1 = Inr ts2"
        "parse_fields P depth ts2 = Inr (fields, ts3)" "take_expected '')'' ts3 = Inr ts4"
        "list_suffix (Struct fields) ts4 = Inr (t, rest)"
        using run first by (auto simp: parse_type.psimps [OF 1(1)] bindE_Inr_iff thenE_Inr_iff split: if_splits)
      moreover from this have "length ts3 < length ts2" using 1(2) [OF first] False by blast
      ultimately show ?thesis using ts by (auto simp: take_expected_shorter dest!: list_suffix_shorter)
    qed
  qed
next
  case (2 P depth ts)
  show ?case
  proof (intro allI impI)
    fix fs rest
    assume run: "parse_fields P depth ts = Inr (fs, rest)"
    then obtain t ts1 field tree ts2 where first: "take_token ts = Inr (t, ts1)" "field_name t = Inr field"
      "parse_type P (depth + 1) ts1 = Inr (tree, ts2)"
      by (auto simp: parse_fields.psimps [OF 2(1)] bindE_Inr_iff)
    have ts: "ts = t # ts1" using take_token_shorter [OF first(1)] .
    have shorter: "length ts2 < length ts1" using 2(2) first by blast
    show "length rest < length ts"
    proof (cases "\<exists>us. ts2 = '','' # us")
      case True
      then obtain us where us: "ts2 = '','' # us" by blast
      then obtain fields where "parse_fields P depth us = Inr (fields, rest)"
        using run first by (auto simp: parse_fields.psimps [OF 2(1)] bindE_Inr_iff)
      then have "length rest < length us" using 2(3) first us by blast
      then show ?thesis using ts us shorter by simp
    next
      case False
      then show ?thesis using run [unfolded parse_fields.psimps [OF 2(1)]] first ts shorter
        by (auto simp: bindE_Inr_iff split: list.splits if_splits)
    qed
  qed
qed

termination parse_type
proof (relation "measure (\<lambda>x. case x of Inl (_, _, ts) \<Rightarrow> length ts | Inr (_, _, ts) \<Rightarrow> length ts)", goal_cases)
  case (2 P depth ts x name ts1 ts2)
  then show ?case by (auto simp: take_expected_shorter dest!: take_token_shorter)
next
  case (3 P depth ts x t ts1 field)
  then show ?case by (auto dest!: take_token_shorter)
next
  case (4 P depth ts x t ts1 field y tree ts2 u us)
  then show ?case using parse_shorter(1) [of P "depth + 1" ts1] by (force dest!: take_token_shorter)
qed simp

declare parse_type.simps [simp del] parse_fields.simps [simp del]

definition type_tree :: "platform \<Rightarrow> string \<Rightarrow> table_type result" where
  "type_tree P kind =
     bindE (tokens kind) (\<lambda>ts.
     bindE (parse_type P 0 ts) (\<lambda>(tree, rest).
     thenE (refuse (rest \<noteq> []) (ValueError ''trailing table type tokens'')) (Inr tree)))"

section \<open>The printer\<close>

definition double_quotes :: "string \<Rightarrow> string" where
  "double_quotes name = concat (map (\<lambda>c. if c = CHR 0x22 then [CHR 0x22, CHR 0x22] else [c]) name)"

primrec type_name :: "table_type \<Rightarrow> string" where
  "type_name (Scalar name) = name"
| "type_name (Decimal precision scale) =
     ''DECIMAL('' @ str_of_int (int precision) @ '','' @ str_of_int (int scale) @ '')''"
| "type_name (Struct members) =
     ''STRUCT('' @ join_with '', '' (map (\<lambda>(name, child). [CHR 0x22] @ double_quotes name @ [CHR 0x22, CHR '' ''] @ child)
        (map (map_prod id type_name) members)) @ '')''"
| "type_name (ListOf tree) = type_name tree @ ''[]''"

section \<open>What the parser accepts\<close>

text \<open>
  The well-formed types: known scalars, the bounds of a decimal, structs with admissible field names,
  and at most 64 structs around a type. Lists may be nested without a limit.
\<close>

primrec type_ok :: "platform \<Rightarrow> table_type \<Rightarrow> nat \<Rightarrow> bool" where
  "type_ok P (Scalar name) depth \<longleftrightarrow> depth \<le> 64 \<and> name \<in> set scalar_types"
| "type_ok P (Decimal precision scale) depth \<longleftrightarrow>
     depth \<le> 64 \<and> 1 \<le> precision \<and> precision \<le> 38 \<and> scale \<le> precision"
| "type_ok P (Struct members) depth \<longleftrightarrow> depth \<le> 64 \<and> check_column_names P (map fst members) = Inr () \<and>
     (\<forall>ok \<in> set (map snd (map (map_prod id (type_ok P)) members)). ok (Suc depth))"
| "type_ok P (ListOf tree) depth \<longleftrightarrow> type_ok P tree depth"

lemma list_suffix_ok: "type_ok P tree d \<Longrightarrow> list_suffix tree ts = Inr (t, rest) \<Longrightarrow> type_ok P t d"
  by (induction tree ts rule: list_suffix.induct) (auto split: if_splits list.splits)

lemma decimal_type_ok: "d \<le> 64 \<Longrightarrow> decimal_type ts = Inr (t, rest) \<Longrightarrow> type_ok P t d"
  by (auto simp: decimal_type_def bindE_Inr_iff thenE_Inr_iff refuse_Inr_iff)

lemma parsed_ok:
  "parse_type P depth ts = Inr (t, rest) \<Longrightarrow> type_ok P t depth"
  "parse_fields P depth ts = Inr (ms, rest) \<Longrightarrow> \<forall>m \<in> set ms. type_ok P (snd m) (Suc depth)"
proof (induction P depth ts and P depth ts arbitrary: t rest and ms rest rule: parse_type_parse_fields.induct)
  case (1 P depth ts)
  from 1(2) obtain name ts1 where first: "\<not> 64 < depth" "take_token ts = Inr (name, ts1)"
    by (auto simp: parse_type.simps bindE_Inr_iff split: if_splits)
  show ?case
  proof (cases "name \<in> set scalar_types \<or> name = ''DECIMAL'' \<or> name \<noteq> ''STRUCT''")
    case True
    then show ?thesis using 1(2) first
      by (auto simp: parse_type.simps [of P depth ts] bindE_Inr_iff split: if_splits
          intro: list_suffix_ok decimal_type_ok elim!: list_suffix_ok [rotated])
  next
    case False
    then obtain ts2 ms ts3 ts4 where run: "take_expected ''('' ts1 = Inr ts2"
      "parse_fields P depth ts2 = Inr (ms, ts3)" "take_expected '')'' ts3 = Inr ts4"
      "check_column_names P (map fst ms) = Inr ()" "list_suffix (Struct ms) ts4 = Inr (t, rest)"
      using 1(2) first by (auto simp: parse_type.simps [of P depth ts] bindE_Inr_iff thenE_Inr_iff split: if_splits)
    have "\<forall>m \<in> set ms. type_ok P (snd m) (Suc depth)"
      using 1(1) [OF first(1,2) refl _ _ _ run(1,2)] False by (simp add: scalar_types_def)
    then have "type_ok P (Struct ms) depth" using run(4) first by simp
    then show ?thesis using run(5) by (rule list_suffix_ok)
  qed
next
  case (2 P depth ts)
  then obtain t ts1 field tree ts2 where first: "take_token ts = Inr (t, ts1)" "field_name t = Inr field"
    "parse_type P (depth + 1) ts1 = Inr (tree, ts2)"
    by (auto simp: parse_fields.simps bindE_Inr_iff)
  have head: "type_ok P tree (Suc depth)" using 2(1) [OF first(1) refl first(2,3)] by simp
  show ?case
  proof (cases "\<exists>us. ts2 = '','' # us")
    case True
    then obtain us where us: "ts2 = '','' # us" by blast
    then obtain ns ts3 where ns: "parse_fields P depth us = Inr (ns, ts3)" "ms = (field, tree) # ns"
      using 2(3) first by (auto simp: parse_fields.simps [of P depth ts] bindE_Inr_iff)
    then show ?thesis using 2(2) [OF first(1) refl first(2,3) refl us] head by auto
  next
    case False
    then show ?thesis using 2(3) first head
      by (auto simp: parse_fields.simps [of P depth ts] bindE_Inr_iff split: list.splits if_splits)
  qed
qed

section \<open>Reading what was printed\<close>

definition quoted_field :: "string \<Rightarrow> string" where
  "quoted_field name = [CHR 0x22] @ double_quotes name @ [CHR 0x22]"

text \<open>The tokens of a printed type.\<close>

primrec type_tokens :: "table_type \<Rightarrow> string list" where
  "type_tokens (Scalar name) = [name]"
| "type_tokens (Decimal precision scale) =
     [''DECIMAL'', ''('', digits_of_nat precision, '','', digits_of_nat scale, '')'']"
| "type_tokens (Struct members) =
     [''STRUCT'', ''(''] @ join_with ['',''] (map (\<lambda>(name, ts). quoted_field name # ts)
        (map (map_prod id type_tokens) members)) @ ['')'']"
| "type_tokens (ListOf tree) = type_tokens tree @ [''['', '']'']"

lemma table_type_induct [case_names Scalar Decimal Struct ListOf]:
  assumes "\<And>n. Q (Scalar n)" "\<And>p s. Q (Decimal p s)"
    "\<And>ms. (\<And>m. m \<in> set ms \<Longrightarrow> Q (snd m)) \<Longrightarrow> Q (Struct ms)" "\<And>t. Q t \<Longrightarrow> Q (ListOf t)"
  shows "Q t"
proof (induction t)
  case (Struct ms)
  then have "Q (snd m)" if "m \<in> set ms" for m using that by (cases m) (auto intro: snds.intros)
  then show ?case by (rule assms(3))
qed (use assms in auto)

lemma undouble_double: "undouble (double_quotes name) = name"
proof (induction name)
  case (Cons c name)
  show ?case
  proof (cases "c = CHR 0x22")
    case False
    have "undouble (c # s) = c # undouble s" for s using False by (cases s) auto
    then show ?thesis using Cons False by (simp add: double_quotes_def)
  qed (use Cons in \<open>simp add: double_quotes_def\<close>)
qed (simp add: double_quotes_def)

lemma field_name_quoted: "field_name (quoted_field name) = Inr name"
  by (simp add: field_name_def quoted_field_def starts_with_def undouble_double)

lemma int_token_digits: "n \<le> 38 \<Longrightarrow> int_token (digits_of_nat n) = Inr n"
proof -
  assume "n \<le> 38"
  then have "length (digits_of_nat n) \<le> length (digits_of_nat 38)" by (rule digits_length_mono)
  also have "\<dots> = 2" by (simp add: digits_of_nat.simps)
  finally show ?thesis using digits_of_nat_digits [of n] by (simp add: int_token_def nat_of_digits_of_nat)
qed

lemma parse_printed_fields:
  assumes "ms \<noteq> []" "\<And>m rest. m \<in> set ms \<Longrightarrow> parse_type P (Suc depth) (type_tokens (snd m) @ rest) = list_suffix (snd m) rest"
  shows "parse_fields P depth (join_with ['',''] (map (\<lambda>m. quoted_field (fst m) # type_tokens (snd m)) ms) @ '')'' # rest) =
    Inr (ms, '')'' # rest)"
  using assms
proof (induction ms)
  case (Cons m ms)
  show ?case
  proof (cases ms)
    case Nil
    then show ?thesis using Cons.prems(2) [of m]
      by (simp add: parse_fields.simps take_token_def field_name_quoted)
  next
    case more: (Cons n ns)
    then show ?thesis using Cons.prems(2) [of m] Cons.IH Cons.prems(2)
      by (simp add: parse_fields.simps [of P depth "quoted_field (fst m) # ts" for ts] take_token_def field_name_quoted)
  qed
qed simp

lemma parse_printed: "type_ok P t depth \<Longrightarrow> parse_type P depth (type_tokens t @ rest) = list_suffix t rest"
proof (induction t arbitrary: depth rest rule: table_type_induct)
  case (Scalar n)
  then show ?case by (simp add: parse_type.simps take_token_def)
next
  case (Decimal p s)
  then show ?case
    by (simp add: parse_type.simps take_token_def take_expected_def decimal_type_def int_token_digits scalar_types_def)
next
  case (Struct ms)
  have "ms \<noteq> []" using Struct.prems by (auto simp: check_column_names_def)
  moreover have "\<And>m rest. m \<in> set ms \<Longrightarrow> parse_type P (Suc depth) (type_tokens (snd m) @ rest) = list_suffix (snd m) rest"
    using Struct by auto
  ultimately have fields: "parse_fields P depth (join_with ['',''] (map (\<lambda>m. quoted_field (fst m) # type_tokens (snd m)) ms)
      @ '')'' # rest) = Inr (ms, '')'' # rest)" by (rule parse_printed_fields)
  have split: "(\<lambda>(name, ts). quoted_field name # ts) \<circ> map_prod id type_tokens =
      (\<lambda>m. quoted_field (fst m) # type_tokens (snd m))" by auto
  show ?case using Struct.prems fields
    by (simp add: parse_type.simps take_token_def take_expected_def scalar_types_def split)
next
  case (ListOf t)
  then show ?case by simp
qed

text \<open>What may follow a token without joining it.\<close>

definition separates :: "string \<Rightarrow> bool" where
  "separates r \<longleftrightarrow> (case r of [] \<Rightarrow> True | c # _ \<Rightarrow> \<not> continues_name c \<and> c \<noteq> CHR 0x22)"

definition spells :: "string \<Rightarrow> string list \<Rightarrow> bool" where
  "spells s ts \<longleftrightarrow> s \<noteq> [] \<and> (\<forall>r. separates r \<longrightarrow> tokens (s @ r) = bindE (tokens r) (\<lambda>us. Inr (ts @ us)))"

lemma spells_append: "spells s ts \<Longrightarrow> spells s' ts' \<Longrightarrow> separates s' \<Longrightarrow> spells (s @ s') (ts @ ts')"
proof -
  assume a: "spells s ts" "spells s' ts'" "separates s'"
  then have "separates (s' @ r)" for r by (cases s') (auto simp: separates_def spells_def)
  then show ?thesis using a by (auto simp: spells_def bindE_assoc)
qed

lemma not_space: "is_ascii_letter c \<or> c = CHR ''_'' \<or> is_digit c \<or> c \<in> set ''(),[]'' \<or> c = CHR 0x22 \<Longrightarrow> \<not> char_isspace c"
  by (auto simp: is_ascii_letter_def is_digit_def char_isspace_def Let_def)

lemma spells_token:
  assumes "s \<noteq> []" "\<And>r. separates r \<Longrightarrow> token_at (s @ r) = Some (s, r)"
  shows "spells s [s]"
  using assms by (auto simp: spells_def tokens.simps [of "s @ r" for r])

lemma takeWhile_all: "list_all Q s \<Longrightarrow> (case r of [] \<Rightarrow> True | c # _ \<Rightarrow> \<not> Q c) \<Longrightarrow> takeWhile Q (s @ r) = s \<and> dropWhile Q (s @ r) = r"
  by (induction s) (auto split: list.splits)

lemma spells_name: "is_name s \<Longrightarrow> spells s [s]"
proof (rule spells_token)
  fix r assume s: "is_name s" "separates r"
  then obtain c t where c: "s = c # t" "starts_name c" "list_all continues_name t"
    by (auto simp: is_name_def split: list.splits)
  then have "\<not> char_isspace c" "c \<noteq> CHR 0x22" using not_space [of c] by (auto simp: starts_name_def is_ascii_letter_def)
  then show "token_at (s @ r) = Some (s, r)" using c takeWhile_all [OF c(3), of r] s(2)
    by (auto simp: token_at_def separates_def split: list.splits)
qed (auto simp: is_name_def)

lemma spells_digits: "spells (digits_of_nat n) [digits_of_nat n]"
proof (rule spells_token)
  fix r assume r: "separates r"
  obtain c t where c: "digits_of_nat n = c # t" "is_digit c" "list_all is_digit t"
    using digits_of_nat_digits [of n] by (cases "digits_of_nat n") auto
  then have "\<not> char_isspace c" "c \<noteq> CHR 0x22" "\<not> starts_name c"
    using not_space [of c] by (auto simp: starts_name_def is_ascii_letter_def is_digit_def)
  moreover have "takeWhile is_digit (t @ r) = t \<and> dropWhile is_digit (t @ r) = r"
    using c(3) r by (intro takeWhile_all) (auto simp: separates_def continues_name_def split: list.splits)
  ultimately show "token_at (digits_of_nat n @ r) = Some (digits_of_nat n, r)" using c
    by (auto simp: token_at_def)
qed (use digits_of_nat_digits [of n] in auto)

lemma quoted_name_double:
  "separates r \<Longrightarrow> quoted_name (double_quotes name @ CHR 0x22 # r) = Some (double_quotes name @ [CHR 0x22], r)"
  by (induction name) (auto simp: double_quotes_def separates_def split: list.splits)

lemma spells_quoted: "spells (quoted_field name) [quoted_field name]"
proof (rule spells_token)
  fix r assume "separates r"
  then show "token_at (quoted_field name @ r) = Some (quoted_field name, r)"
    using quoted_name_double [of r name] not_space [of "CHR 0x22"] by (simp add: token_at_def quoted_field_def)
qed (simp add: quoted_field_def)

lemma tokens_punct: "c \<in> set ''(),[]'' \<Longrightarrow> tokens (c # s) = bindE (tokens s) (\<lambda>us. Inr ([c] # us))"
proof -
  assume c: "c \<in> set ''(),[]''"
  then have "\<not> starts_name c" "\<not> is_digit c" "c \<noteq> CHR 0x22" by (auto simp: starts_name_def is_ascii_letter_def is_digit_def)
  then have "token_at (c # s) = Some ([c], s)" using not_space [of c] c by (simp add: token_at_def)
  then show ?thesis by (simp add: tokens.simps [of "c # s"])
qed

lemma spells_punct: "c \<in> set ''(),[]'' \<Longrightarrow> spells [c] [[c]]"
  by (simp add: spells_def tokens_punct)

lemma spells_punct_cons: "c \<in> set ''(),[]'' \<Longrightarrow> spells s ts \<Longrightarrow> spells (c # s) ([c] # ts)"
  by (auto simp: spells_def tokens_punct bindE_assoc)

lemma spells_space: "spells s ts \<Longrightarrow> spells (CHR '' '' # s) ts"
proof -
  assume s: "spells s ts"
  have "tokens (CHR '' '' # s @ r) = tokens (s @ r)" for r
  proof -
    have "token_at (CHR '' '' # s @ r) = token_at (s @ r)" by (simp add: token_at_def char_isspace_def)
    then show ?thesis using s by (simp add: tokens.simps [of "CHR '' '' # s @ r"] tokens.simps [of "s @ r"] spells_def)
  qed
  then show ?thesis using s by (simp add: spells_def)
qed

lemma separates_punct: "c \<in> set ''(),[]'' \<Longrightarrow> separates (c # s)"
  by (auto simp: separates_def continues_name_def starts_name_def is_ascii_letter_def is_digit_def)

lemma separates_space: "separates (CHR '' '' # s)"
  by (simp add: separates_def continues_name_def starts_name_def is_ascii_letter_def is_digit_def)

lemma scalar_is_name: "name \<in> set scalar_types \<Longrightarrow> is_name name"
  by (auto simp: scalar_types_def is_name_def starts_name_def continues_name_def is_ascii_letter_def)

lemma spells_members:
  assumes "ms \<noteq> []" "\<And>m. m \<in> set ms \<Longrightarrow> spells (type_name (snd m)) (type_tokens (snd m))"
  shows "spells (join_with '', '' (map (\<lambda>m. [CHR 0x22] @ double_quotes (fst m) @ [CHR 0x22, CHR '' ''] @ type_name (snd m)) ms))
    (join_with ['',''] (map (\<lambda>m. quoted_field (fst m) # type_tokens (snd m)) ms))"
  using assms
proof (induction ms)
  case (Cons m ms)
  have one: "spells ([CHR 0x22] @ double_quotes (fst m) @ [CHR 0x22, CHR '' ''] @ type_name (snd m))
      (quoted_field (fst m) # type_tokens (snd m))"
    using spells_append [OF spells_quoted spells_space [OF Cons.prems(2) [of m]] separates_space, of "fst m"]
    by (simp add: quoted_field_def)
  show ?case
  proof (cases ms)
    case Nil
    then show ?thesis using one by simp
  next
    case (Cons n ns)
    have rest: "spells (join_with '', '' (map (\<lambda>m. [CHR 0x22] @ double_quotes (fst m) @ [CHR 0x22, CHR '' ''] @ type_name (snd m)) ms))
      (join_with ['',''] (map (\<lambda>m. quoted_field (fst m) # type_tokens (snd m)) ms))"
      using Cons.IH Cons.prems(2) Cons by simp
    have "spells (CHR '','' # CHR '' '' # join_with '', '' (map (\<lambda>m. [CHR 0x22] @ double_quotes (fst m) @ [CHR 0x22, CHR '' ''] @ type_name (snd m)) ms))
      ('','' # join_with ['',''] (map (\<lambda>m. quoted_field (fst m) # type_tokens (snd m)) ms))"
      using spells_punct_cons [OF _ spells_space [OF rest], of "CHR '',''"] by simp
    from spells_append [OF one this separates_punct] show ?thesis using Cons by simp
  qed
qed simp

lemma spells_type: "type_ok P t depth \<Longrightarrow> spells (type_name t) (type_tokens t)"
proof (induction t arbitrary: depth rule: table_type_induct)
  case (Scalar n)
  then show ?case by (simp add: spells_name scalar_is_name)
next
  case (Decimal p s)
  have name: "spells ''DECIMAL'' [''DECIMAL'']"
    by (rule spells_name) (simp add: is_name_def starts_name_def continues_name_def is_ascii_letter_def)
  have tail: "spells (digits_of_nat s @ '')'') [digits_of_nat s, '')'']"
    using spells_append [OF spells_digits spells_punct separates_punct, of "CHR '')''" s] by simp
  have "spells (CHR '','' # digits_of_nat s @ '')'') ['','', digits_of_nat s, '')'']"
    using spells_punct_cons [OF _ tail, of "CHR '',''"] by simp
  from spells_append [OF spells_digits this separates_punct]
  have "spells (digits_of_nat p @ '','' @ digits_of_nat s @ '')'') [digits_of_nat p, '','', digits_of_nat s, '')'']"
    by simp
  from spells_append [OF name spells_punct_cons [OF _ this, of "CHR ''(''"] separates_punct]
  show ?case by (simp add: str_of_int_def)
next
  case (Struct ms)
  have name: "spells ''STRUCT'' [''STRUCT'']"
    by (rule spells_name) (simp add: is_name_def starts_name_def continues_name_def is_ascii_letter_def)
  have "ms \<noteq> []" using Struct.prems by (auto simp: check_column_names_def)
  from spells_members [OF this] Struct
  have "spells (join_with '', '' (map (\<lambda>m. [CHR 0x22] @ double_quotes (fst m) @ [CHR 0x22, CHR '' ''] @ type_name (snd m)) ms))
      (join_with ['',''] (map (\<lambda>m. quoted_field (fst m) # type_tokens (snd m)) ms))" by auto
  from spells_punct_cons [OF _ spells_append [OF this spells_punct [of "CHR '')''"] separates_punct], of "CHR ''(''"]
  have "spells (CHR ''('' # join_with '', '' (map (\<lambda>m. [CHR 0x22] @ double_quotes (fst m) @ [CHR 0x22, CHR '' ''] @ type_name (snd m)) ms) @ '')'')
      (''('' # join_with ['',''] (map (\<lambda>m. quoted_field (fst m) # type_tokens (snd m)) ms) @ ['')''])" by simp
  from spells_append [OF name this separates_punct]
  show ?case by (simp add: comp_def split_def)
next
  case (ListOf t)
  have "spells (type_name t) (type_tokens t)" using ListOf by simp
  from spells_append [OF this spells_punct_cons [OF _ spells_punct, of "CHR ''[''" "CHR '']''"] separates_punct]
  show ?case by simp
qed

lemma type_tree_printed: "type_ok P t 0 \<Longrightarrow> type_tree P (type_name t) = Inr t"
proof -
  assume t: "type_ok P t 0"
  have "tokens (type_name t @ []) = bindE (tokens []) (\<lambda>us. Inr (type_tokens t @ us))"
    using spells_type [OF t] by (auto simp: spells_def separates_def simp del: append_Nil2)
  then have "tokens (type_name t) = Inr (type_tokens t)" by (simp add: tokens.simps)
  then show ?thesis using parse_printed [OF t, of "[]"] by (simp add: type_tree_def)
qed

lemma type_tree_ok: "type_tree P kind = Inr t \<Longrightarrow> type_ok P t 0"
  by (auto simp: type_tree_def bindE_Inr_iff thenE_Inr_iff dest: parsed_ok(1))

section \<open>Schemas and partitions\<close>

record table_schema =
  tsc_schema_id :: string
  tsc_columns :: "(string \<times> string) list"

text \<open>\<open>except ValueError\<close> around the normalisation of the column types.\<close>

definition in_table_profile :: "'a result \<Rightarrow> 'a result" where
  "in_table_profile x = (case x of
     Inl e \<Rightarrow> Inl (if is_value_error e then ValueError ''table column type is outside the table profile'' else e)
   | Inr y \<Rightarrow> Inr y)"

definition table_schema_make :: "platform \<Rightarrow> table_schema \<Rightarrow> table_schema result" where
  "table_schema_make P s =
     thenE (check_texts [(''schema_id'', tsc_schema_id s)])
    (thenE (check_column_names P (map fst (tsc_columns s)))
    (bindE (in_table_profile (mapE (\<lambda>(name, kind). bindE (type_tree P kind) (\<lambda>tree. Inr (name, type_name tree))) (tsc_columns s)))
       (\<lambda>columns. Inr (s\<lparr>tsc_columns := columns\<rparr>))))"

definition table_schema_fields :: "table_schema \<Rightarrow> string list" where
  "table_schema_fields s = map fst (tsc_columns s)"

record record_schema =
  rsc_schema_id :: string
  rsc_fields :: "string list"
  rsc_identity_field :: string
  rsc_partition_field :: string
  rsc_columns :: "(string \<times> string) list"

definition record_schema_make :: "record_schema \<Rightarrow> record_schema result" where
  "record_schema_make s =
     thenE (check_texts [(''schema_id'', rsc_schema_id s)])
    (thenE (refuse (rsc_fields s = [] \<or> \<not> distinct (rsc_fields s))
       (ValueError ''record schema fields must be non-empty and distinct''))
    (thenE (refuse (rsc_identity_field s \<notin> set (rsc_fields s) \<or> rsc_partition_field s \<notin> set (rsc_fields s))
       (ValueError ''identity and partition fields must belong to the closed schema''))
    (if rsc_columns s \<noteq> [] then
       let names = [''record_identity'', ''partition_value'', ''record_json''] @ map fst (rsc_columns s) in
       thenE (refuse (rsc_fields s \<noteq> names \<or> \<not> distinct names \<or>
                (\<exists>c \<in> set (rsc_columns s). snd c \<notin> {''string'', ''binary''}))
         (ValueError ''typed record columns must match the closed physical schema''))
      (thenE (refuse ((rsc_identity_field s, rsc_partition_field s) \<noteq> (''record_identity'', ''partition_value''))
         (ValueError ''typed records use their native routing columns''))
         (Inr s))
     else Inr s)))"

record partition_policy =
  pp_policy_id :: string
  pp_bucket_count :: int

definition partition_policy_make :: "partition_policy \<Rightarrow> partition_policy result" where
  "partition_policy_make p =
     thenE (check_texts [(''partition policy_id'', pp_policy_id p)])
    (thenE (refuse (pp_bucket_count p \<le> 0 \<or> 65536 < pp_bucket_count p)
       (ValueError ''partition bucket_count must be between 1 and 65536''))
       (Inr p))"

text \<open>The number eight bytes of a digest spell, read from its hexadecimal text.\<close>

definition bucket_digit :: "char \<Rightarrow> nat" where
  "bucket_digit c = (let n = of_char c in if n < 58 then n - 48 else n - 87)"

definition hex_number :: "string \<Rightarrow> nat" where
  "hex_number s = foldl (\<lambda>n c. 16 * n + bucket_digit c) 0 s"

definition partition_bucket :: "platform \<Rightarrow> string \<Rightarrow> int \<Rightarrow> int result" where
  "partition_bucket P value bucket_count =
     thenE (refuse (bucket_count \<le> 0 \<or> 65536 < bucket_count) (ValueError ''bucket_count must be between 1 and 65536''))
       (Inr (int (hex_number (take 16 (sha256_hex P (utf8_encode (text_of value))))) mod bucket_count))"

lemma partition_bucket_bounds: "partition_bucket P value n = Inr b \<Longrightarrow> 0 \<le> b \<and> b < n \<and> n \<le> 65536"
  by (auto simp: partition_bucket_def thenE_Inr_iff refuse_Inr_iff)

section \<open>Properties\<close>

text \<open>
  C37. A table type is read back from its spelling: \<open>type_name\<close> spells a type that \<open>type_tree\<close> parses to
  the same type exactly when the type is well formed (a known scalar, a decimal within Decimal128, a
  struct with admissible distinct field names, at most 64 structs deep), and those are exactly the
  types any text parses to. Names with spaces, commas and quotation marks are included.
\<close>

theorem table_types_read_back:
  "(type_tree P (type_name t) = Inr t \<longleftrightarrow> type_ok P t 0) \<and> ((\<exists>kind. type_tree P kind = Inr t) \<longleftrightarrow> type_ok P t 0)"
  using type_tree_printed type_tree_ok by blast

text \<open>
  C38. A table schema is a fixed point of its constructor: the schema built from any accepted
  declaration has the names that were declared, in their order, and constructing it again from its
  normalised columns changes nothing.
\<close>

theorem table_schema_stable:
  assumes "table_schema_make P s = Inr s'"
  shows "table_schema_make P s' = Inr s' \<and> table_schema_fields s' = table_schema_fields s"
proof -
  let ?norm = "\<lambda>(name, kind). bindE (type_tree P kind) (\<lambda>tree. Inr (name, type_name tree))"
  from assms obtain columns where c: "check_texts [(''schema_id'', tsc_schema_id s)] = Inr ()"
    "check_column_names P (map fst (tsc_columns s)) = Inr ()" "mapE ?norm (tsc_columns s) = Inr columns"
    "s' = s\<lparr>tsc_columns := columns\<rparr>"
    by (auto simp: table_schema_make_def in_table_profile_def thenE_Inr_iff bindE_Inr_iff split: sum.splits)
  have "map fst columns = map fst xs \<and> mapE ?norm columns = Inr columns" if "mapE ?norm xs = Inr columns" for xs
    using that
  proof (induction xs arbitrary: columns)
    case (Cons x xs)
    then obtain t ys where t: "type_tree P (snd x) = Inr t" "mapE ?norm xs = Inr ys" "columns = (fst x, type_name t) # ys"
      by (auto simp: bindE_Inr_iff split: prod.splits)
    then show ?case using Cons.IH [OF t(2)] type_tree_printed [OF type_tree_ok [OF t(1)]] by simp
  qed simp
  then show ?thesis using c by (simp add: table_schema_make_def table_schema_fields_def in_table_profile_def)
qed

definition sample_schema :: table_schema where
  "sample_schema = \<lparr>tsc_schema_id = ''rows'', tsc_columns = [(''key'', ''VARCHAR''), (''body'', ''STRUCT(x DECIMAL(10, 2), y BIGINT[])'')]\<rparr>"

lemma sample_tree: "type_tree reference_platform ''STRUCT(x DECIMAL(10, 2), y BIGINT[])'' =
    Inr (Struct [(''x'', Decimal 10 2), (''y'', ListOf (Scalar ''BIGINT''))])"
  by code_simp

theorem table_schema_stable_witness:
  "\<exists>s'. table_schema_make reference_platform sample_schema = Inr s' \<and> table_schema_make reference_platform s' = Inr s' \<and>
     s' \<noteq> sample_schema"
proof -
  have scalar: "type_tree reference_platform ''VARCHAR'' = Inr (Scalar ''VARCHAR'')" by code_simp
  have names: "check_column_names reference_platform [''key'', ''body''] = Inr ()" by code_simp
  have printed: "type_name (Struct [(''x'', Decimal 10 2), (''y'', ListOf (Scalar ''BIGINT''))]) =
      ''STRUCT(\"x\" DECIMAL(10,2), \"y\" BIGINT[])''" by code_simp
  have "check_texts [(''schema_id'', ''rows'')] = Inr ()" by code_simp
  then obtain s' where s': "table_schema_make reference_platform sample_schema = Inr s'"
    "tsc_columns s' = [(''key'', ''VARCHAR''), (''body'', ''STRUCT(\"x\" DECIMAL(10,2), \"y\" BIGINT[])'')]"
    using scalar names sample_tree
    by (simp add: table_schema_make_def sample_schema_def in_table_profile_def printed del: type_name.simps(3))
  with table_schema_stable [OF s'(1)] show ?thesis by (auto simp: sample_schema_def)
qed

text \<open>
  C40. The limit on nesting does not reach lists: a list type of any depth is accepted and kept, while
  a struct nested more than 64 deep is refused.
\<close>

theorem list_nesting_unbounded:
  "type_tree P (type_name ((ListOf ^^ n) (Scalar ''VARCHAR''))) = Inr ((ListOf ^^ n) (Scalar ''VARCHAR'')) \<and>
     type_tree P kind \<noteq> Inr (((\<lambda>t. Struct [(''a'', t)]) ^^ 65) (Scalar ''VARCHAR''))"
proof -
  have "type_ok P ((ListOf ^^ n) (Scalar ''VARCHAR'')) 0"
    by (induction n) (simp_all add: scalar_types_def)
  moreover have deep: "type_ok P (((\<lambda>t. Struct [(''a'', t)]) ^^ k) t) d \<Longrightarrow> type_ok P t (d + k)" for k t d
  proof (induction k arbitrary: d)
    case (Suc k)
    then show ?case using Suc.IH [of "Suc d"] by simp
  qed simp
  have "\<not> type_ok P (((\<lambda>t. Struct [(''a'', t)]) ^^ 65) (Scalar ''VARCHAR'')) 0"
    using deep [of 65 "Scalar ''VARCHAR''" 0] by auto
  ultimately show ?thesis using type_tree_printed type_tree_ok by blast
qed

end
