(* ===== verification/Secret_Rules.thy ===== *)
theory Secret_Rules
  imports Char_Text Identity
begin

text \<open>
  The credential guards of src/src/docspec/domain/security.py. Its regular expressions are patterns over
  classes of characters, with a matcher that tries every way to match; the classes are those of Python on
  the characters of a \<open>string\<close>, code points 0 to 255. The error of \<open>require_secret_free\<close> is without the
  list of paths its message ends in.
\<close>

section \<open>Patterns\<close>

text \<open>A class repeated from a least to a greatest number of times; \<open>None\<close> is no greatest number.\<close>

record run =
  rn_class :: "char \<Rightarrow> bool"
  rn_least :: nat
  rn_most :: "nat option"

text \<open>\<open>\b\<close>, a run, and a group of alternatives, each a sequence of runs.\<close>

datatype pattern = Edge | Run run | Choice "run list list"

type_synonym place = "char option \<times> string"

definition is_word :: "char \<Rightarrow> bool" where
  "is_word c \<longleftrightarrow> is_alnum c \<or> c = CHR ''_''"

definition at_edge :: "place \<Rightarrow> bool" where
  "at_edge pl = (case pl of (before, rest) \<Rightarrow>
     (case before of None \<Rightarrow> False | Some c \<Rightarrow> is_word c) \<noteq> (case rest of [] \<Rightarrow> False | c # _ \<Rightarrow> is_word c))"

definition advance :: "place \<Rightarrow> nat \<Rightarrow> place" where
  "advance pl k = (case pl of (before, rest) \<Rightarrow> (if k = 0 then before else Some (rest ! (k - 1)), drop k rest))"

definition run_ends :: "run \<Rightarrow> place \<Rightarrow> place list" where
  "run_ends r pl =
     (let longest = length (takeWhile (rn_class r) (snd pl));
          most = (case rn_most r of None \<Rightarrow> longest | Some n \<Rightarrow> min n longest) in
      map (advance pl) [rn_least r ..< Suc most])"

fun runs_ends :: "run list \<Rightarrow> place \<Rightarrow> place list" where
  "runs_ends [] pl = [pl]"
| "runs_ends (r # rs) pl = concat (map (runs_ends rs) (run_ends r pl))"

fun pattern_ends :: "pattern list \<Rightarrow> place \<Rightarrow> place list" where
  "pattern_ends [] pl = [pl]"
| "pattern_ends (Edge # ps) pl = (if at_edge pl then pattern_ends ps pl else [])"
| "pattern_ends (Run r # ps) pl = concat (map (pattern_ends ps) (run_ends r pl))"
| "pattern_ends (Choice alternatives # ps) pl =
     concat (map (pattern_ends ps) (concat (map (\<lambda>rs. runs_ends rs pl) alternatives)))"

text \<open>\<open>Pattern.search\<close>, as a truth value.\<close>

definition found_in :: "pattern list \<Rightarrow> string \<Rightarrow> bool" where
  "found_in ps text' \<longleftrightarrow> (\<exists>i \<in> set [0..<Suc (length text')]. pattern_ends ps (advance (None, text') i) \<noteq> [])"

section \<open>The rules\<close>

definition one :: "(char \<Rightarrow> bool) \<Rightarrow> run" where
  "one c = \<lparr>rn_class = c, rn_least = 1, rn_most = Some 1\<rparr>"

definition maybe :: "(char \<Rightarrow> bool) \<Rightarrow> run" where
  "maybe c = \<lparr>rn_class = c, rn_least = 0, rn_most = Some 1\<rparr>"

definition at_least :: "nat \<Rightarrow> (char \<Rightarrow> bool) \<Rightarrow> run" where
  "at_least n c = \<lparr>rn_class = c, rn_least = n, rn_most = None\<rparr>"

definition exactly :: "nat \<Rightarrow> (char \<Rightarrow> bool) \<Rightarrow> run" where
  "exactly n c = \<lparr>rn_class = c, rn_least = n, rn_most = Some n\<rparr>"

definition literal :: "string \<Rightarrow> run list" where
  "literal s = map (\<lambda>c. one ((=) c)) s"

text \<open>A literal under \<open>re.IGNORECASE\<close>.\<close>

definition same_letter :: "char \<Rightarrow> char \<Rightarrow> bool" where
  "same_letter c d \<longleftrightarrow> fold_char d = fold_char c"

definition caseless :: "string \<Rightarrow> run list" where
  "caseless s = map (\<lambda>c. one (same_letter c)) s"

definition upper :: "char \<Rightarrow> bool" where "upper c = (let n = (of_char c :: nat) in 65 \<le> n \<and> n \<le> 90)"
definition lower :: "char \<Rightarrow> bool" where "lower c = (let n = (of_char c :: nat) in 97 \<le> n \<and> n \<le> 122)"
definition digit :: "char \<Rightarrow> bool" where "digit c = (let n = (of_char c :: nat) in 48 \<le> n \<and> n \<le> 57)"

definition token_char :: "string \<Rightarrow> char \<Rightarrow> bool" where
  "token_char extra c \<longleftrightarrow> upper c \<or> lower c \<or> digit c \<or> c \<in> set extra"

definition none_of :: "string \<Rightarrow> char \<Rightarrow> bool" where
  "none_of excluded c \<longleftrightarrow> \<not> char_isspace c \<and> c \<notin> set excluded"

definition secret_patterns :: "(string \<times> pattern list) list" where
  "secret_patterns =
    [(''openai-key'', [Edge] @ map Run (literal ''sk-'') @ [Choice [literal ''proj-'', []],
        Run (at_least 20 (token_char ''_-'')), Edge]),
     (''github-token'', [Edge, Choice
        [literal ''gh'' @ [one (\<lambda>c. c \<in> set ''pousr'')] @ literal ''_'' @ [at_least 20 (token_char '''')],
         literal ''github_pat_'' @ [at_least 20 (token_char ''_'')]], Edge]),
     (''stripe-key'', [Edge, Choice [literal ''sk'', literal ''rk'']] @ map Run (literal ''_'') @
        [Choice [literal ''live'', literal ''test'']] @ map Run (literal ''_'') @ [Run (at_least 16 (token_char '''')), Edge]),
     (''google-api-key'', [Edge] @ map Run (literal ''AIza'') @ [Run (at_least 30 (token_char ''_-'')), Edge]),
     (''aws-access-key'', [Edge, Choice [literal ''AKIA'', literal ''ASIA''],
        Run (exactly 16 (\<lambda>c. upper c \<or> digit c)), Edge]),
     (''aws-secret-access-key'', [Edge] @ map Run (caseless ''aws_secret_access_key'') @ [Run (at_least 0 char_isspace),
        Run (one (\<lambda>c. c \<in> set '':='')), Run (at_least 0 char_isspace), Run (exactly 40 (token_char ''/+='')), Edge]),
     (''bearer-token'', [Edge] @ map Run (caseless ''Bearer'') @ [Run (at_least 1 char_isspace),
        Run (at_least 16 (token_char ''._~+/-'')), Run \<lparr>rn_class = (\<lambda>c. c = CHR ''=''), rn_least = 0, rn_most = Some 2\<rparr>, Edge]),
     (''jwt'', [Edge] @ map Run (literal ''eyJ'') @ [Run (at_least 5 (token_char ''_-''))] @ map Run (literal ''.'') @
        [Run (at_least 5 (token_char ''_-''))] @ map Run (literal ''.'') @ [Run (at_least 5 (token_char ''_-'')), Edge]),
     (''private-key'', map Run (literal ''-----BEGIN '') @ [Choice [literal ''RSA '', literal ''EC '', literal ''OPENSSH '', []]] @
        map Run (literal ''PRIVATE KEY-----'')),
     (''credential-url'', [Edge, Run (one (\<lambda>c. upper c \<or> lower c)), Run (at_least 0 (token_char ''+.-''))] @
        map Run (literal ''://'') @ [Run (at_least 1 (none_of ''/:@''))] @ map Run (literal '':'') @
        [Run (at_least 1 (none_of ''/@''))] @ map Run (literal ''@'')),
     (''credential-assignment'', [Edge, Choice
        [caseless ''api'' @ [maybe (\<lambda>c. c \<in> set ''_-'')] @ caseless ''key'',
         caseless ''access'' @ [maybe (\<lambda>c. c \<in> set ''_-'')] @ caseless ''token'',
         caseless ''secret'' @ [maybe (\<lambda>c. c \<in> set ''_-'')] @ caseless ''key'',
         caseless ''password'',
         caseless ''client'' @ [maybe (\<lambda>c. c \<in> set ''_-'')] @ caseless ''secret''],
        Run (at_least 0 char_isspace), Run (one (\<lambda>c. c \<in> set '':='')), Run (at_least 0 char_isspace),
        Run (at_least 8 (none_of '',;''))])]"

definition sensitive_keys :: "string list" where
  "sensitive_keys = [''apikey'', ''authorization'', ''accesstoken'', ''clientsecret'', ''credential'', ''credentials'',
     ''password'', ''privatekey'', ''secret'', ''secretkey'', ''token'']"

definition redacted_secret :: string where
  "redacted_secret = ''[redacted: secret-like content]''"

definition normalized_key :: "string \<Rightarrow> string" where
  "normalized_key value' = filter is_alnum (casefold value')"

definition sensitive :: "string \<Rightarrow> bool" where
  "sensitive key \<longleftrightarrow> normalized_key key \<in> set sensitive_keys"

definition secret_markers :: "string \<Rightarrow> string list" where
  "secret_markers text' = map fst (filter (\<lambda>(name, ps). found_in ps text') secret_patterns)"

definition redact_text :: "string \<Rightarrow> string" where
  "redact_text text' = (if secret_markers text' \<noteq> [] then redacted_secret else text')"

section \<open>Values\<close>

fun path_set :: "json \<Rightarrow> string \<Rightarrow> string set"
  and entry_paths :: "(string \<times> json) list \<Rightarrow> string \<Rightarrow> string set"
  and item_paths :: "json list \<Rightarrow> string \<Rightarrow> nat \<Rightarrow> string set" where
  "path_set (JObj kvs) path = entry_paths kvs path"
| "path_set (JArr xs) path = item_paths xs path 0"
| "path_set (JStr s) path = (if secret_markers s \<noteq> [] then {path} else {})"
| "path_set _ path = {}"
| "entry_paths [] path = {}"
| "entry_paths ((key, item) # kvs) path =
     (let child = path @ ''.'' @ key in
      (if sensitive key then {child} else {}) \<union> (if secret_markers key \<noteq> [] then {child} else {}) \<union>
      path_set item child \<union> entry_paths kvs path)"
| "item_paths [] path index = {}"
| "item_paths (item # xs) path index =
     path_set item (path @ ''['' @ str_of_int (int index) @ '']'') \<union> item_paths xs path (Suc index)"

definition secret_paths :: "json \<Rightarrow> string \<Rightarrow> string list" where
  "secret_paths value' path = sorted_list_of_set (path_set value' path)"

definition require_secret_free :: "json \<Rightarrow> string \<Rightarrow> unit result" where
  "require_secret_free value' label =
     refuse (secret_paths value' ''$'' \<noteq> []) (IntegrityError (label @ '' contains secret-like content''))"

fun redact :: "json \<Rightarrow> json"
  and redact_entries :: "(string \<times> json) list \<Rightarrow> (string \<times> json) list \<Rightarrow> (string \<times> json) list"
  and redact_items :: "json list \<Rightarrow> json list" where
  "redact (JObj kvs) = JObj (redact_entries [] kvs)"
| "redact (JArr xs) = JArr (redact_items xs)"
| "redact (JStr s) = JStr (redact_text s)"
| "redact v = v"
| "redact_entries kept [] = kept"
| "redact_entries kept ((key, item) # kvs) =
     redact_entries (dict_set kept (redact_text key) (if sensitive key then JStr redacted_secret else redact item)) kvs"
| "redact_items [] = []"
| "redact_items (item # xs) = redact item # redact_items xs"

section \<open>What a search finds\<close>

definition place :: "string \<Rightarrow> nat \<Rightarrow> place" where
  "place t i = advance (None, t) i"
















section \<open>Redaction\<close>

text \<open>Every text of a value: its strings and its keys.\<close>

fun texts_of :: "json \<Rightarrow> string set" where
  "texts_of (JObj kvs) = (\<Union>kv \<in> set kvs. insert (fst kv) (texts_of (snd kv)))"
| "texts_of (JArr xs) = (\<Union>x \<in> set xs. texts_of x)"
| "texts_of (JStr s) = {s}"
| "texts_of _ = {}"

fun keys_of :: "json \<Rightarrow> string set" where
  "keys_of (JObj kvs) = (\<Union>kv \<in> set kvs. insert (fst kv) (keys_of (snd kv)))"
| "keys_of (JArr xs) = (\<Union>x \<in> set xs. keys_of x)"
| "keys_of _ = {}"

text \<open>A value is refused as soon as one of its texts has a marker or one of its keys is sensitive.\<close>

lemma paths_empty:
  "path_set v path = {} \<longleftrightarrow> (\<forall>t \<in> texts_of v. secret_markers t = []) \<and> (\<forall>k \<in> keys_of v. \<not> sensitive k)"
  "entry_paths kvs path = {} \<longleftrightarrow> (\<forall>t \<in> texts_of (JObj kvs). secret_markers t = []) \<and> (\<forall>k \<in> keys_of (JObj kvs). \<not> sensitive k)"
  "item_paths xs path n = {} \<longleftrightarrow> (\<forall>t \<in> texts_of (JArr xs). secret_markers t = []) \<and> (\<forall>k \<in> keys_of (JArr xs). \<not> sensitive k)"
  by (induction v path and kvs path and xs path n rule: path_set_entry_paths_item_paths.induct) (auto simp: Let_def)

lemma paths_finite: "finite (path_set v path)" "finite (entry_paths kvs path)" "finite (item_paths xs path n)"
  by (induction v path and kvs path and xs path n rule: path_set_entry_paths_item_paths.induct) (auto simp: Let_def)

lemma redacted_clean [simp]: "secret_markers redacted_secret = []"
  by code_simp

lemma redact_text_clean [simp]: "secret_markers (redact_text t) = []"
  by (simp add: redact_text_def)

lemma redact_text_again [simp]: "redact_text (redact_text t) = redact_text t"
  by (simp add: redact_text_def)

lemma redact_text_same [simp]: "secret_markers t = [] \<Longrightarrow> redact_text t = t"
  by (simp add: redact_text_def)

text \<open>An object after redaction: distinct keys, each clean, and values that redaction leaves alone.\<close>

definition clean :: "json \<Rightarrow> bool" where
  "clean v \<longleftrightarrow> (\<forall>t \<in> texts_of v. secret_markers t = []) \<and> redact v = v"

definition clean_entries :: "(string \<times> json) list \<Rightarrow> bool" where
  "clean_entries kvs \<longleftrightarrow> distinct (map fst kvs) \<and> (\<forall>(key, item) \<in> set kvs. secret_markers key = [] \<and>
     (if sensitive key then item = JStr redacted_secret else clean item))"

lemma dict_set_members: "(k', v') \<in> set (dict_set d k v) \<Longrightarrow> (k' = k \<and> v' = v) \<or> (k', v') \<in> set d"
  by (induction d k v rule: dict_set.induct) (auto split: if_splits)

lemma clean_redacted [simp]: "clean (JStr redacted_secret)"
  by (simp add: clean_def)

lemma redact_kept:
  "distinct (map fst (kept @ kvs)) \<Longrightarrow> \<forall>(key, item) \<in> set kvs. secret_markers key = [] \<and>
     (if sensitive key then item = JStr redacted_secret else redact item = item) \<Longrightarrow> redact_entries kept kvs = kept @ kvs"
proof (induction kvs arbitrary: kept)
  case (Cons kv kvs)
  obtain key item where kv: "kv = (key, item)" by fastforce
  have "(if sensitive key then JStr redacted_secret else redact item) = item" "secret_markers key = []" using Cons.prems(2) kv by auto
  moreover have "dict_set kept key item = kept @ [(key, item)]" using Cons.prems(1) kv by (intro dict_set_new) auto
  moreover have "redact_entries (kept @ [(key, item)]) kvs = (kept @ [(key, item)]) @ kvs"
    by (rule Cons.IH) (use Cons.prems kv in auto)
  ultimately show ?case using kv by simp
qed simp

lemma clean_object: "clean_entries kvs \<Longrightarrow> clean (JObj kvs)"
proof -
  assume kvs: "clean_entries kvs"
  then have "redact_entries [] kvs = [] @ kvs" by (intro redact_kept) (auto simp: clean_entries_def clean_def split: if_splits)
  moreover have "secret_markers t = []" if "(key, item) \<in> set kvs" "t \<in> insert key (texts_of item)" for key item t
    using kvs that by (fastforce simp: clean_entries_def clean_def split: if_splits)
  ultimately show ?thesis by (fastforce simp: clean_def)
qed

lemma redact_clean:
  "clean (redact v)" "clean_entries kept \<Longrightarrow> clean_entries (redact_entries kept kvs)" "\<forall>x \<in> set (redact_items xs). clean x"
proof (induction v and kept kvs and xs rule: redact_redact_entries_redact_items.induct)
  case (1 kvs)
  then show ?case using clean_object by (simp add: clean_entries_def)
next
  case (2 xs)
  have "redact_items ys = ys" if "\<forall>x \<in> set ys. clean x" for ys
    using that by (induction ys) (auto simp: clean_def)
  then show ?case using 2 by (auto simp: clean_def)
next
  case (6 kept key item kvs)
  let ?item = "if sensitive key then JStr redacted_secret else redact item"
  have "clean ?item" using 6(1) by simp
  moreover have "?item = JStr redacted_secret" if "sensitive (redact_text key)"
  proof (cases "secret_markers key = []")
    case True
    then show ?thesis using that by simp
  next
    case False
    have "\<not> sensitive redacted_secret" by code_simp
    then show ?thesis using that False by (simp add: redact_text_def)
  qed
  ultimately have "clean_entries (dict_set kept (redact_text key) ?item)"
    using 6(3) distinct_dict_set [of kept "redact_text key" ?item]
    by (fastforce simp: clean_entries_def dest: dict_set_members)
  then show ?case using 6(2) by simp
qed (auto simp: clean_def)

text \<open>
  C26. Redaction removes every credential the rules can find: no text of the result, key or value, has a
  marker, and redacting again changes nothing, so that the value under a sensitive key is the notice.
\<close>

theorem redaction_complete:
  "texts_of (redact v) \<subseteq> {t. secret_markers t = []} \<and> redact (redact v) = redact v"
  using redact_clean(1) [of v] by (auto simp: clean_def)

text \<open>
  What passes the guard holds no credential the rules can find, and nothing else is refused: a value
  passes exactly when none of its texts has a marker and none of its keys is a sensitive name.
\<close>

theorem secret_free_exact:
  "require_secret_free v label = Inr () \<longleftrightarrow> (\<forall>t \<in> texts_of v. secret_markers t = []) \<and> (\<forall>k \<in> keys_of v. \<not> sensitive k)"
proof -
  have "secret_paths v ''$'' = [] \<longleftrightarrow> path_set v ''$'' = {}" using paths_finite(1) by (simp add: secret_paths_def)
  then show ?thesis using paths_empty(1) by (auto simp: require_secret_free_def refuse_Inr_iff)
qed

section \<open>The end of an access key\<close>












end
