(* ===== verification/Spec2Isabelle.thy ===== *)
theory Spec2Isabelle
  imports Core_Encoding Comparison Publication Publication_Checks Patch_Laws Extractors Table_Types Secret_Rules
begin

text \<open>
  A verification development for DocSpec (the Python package under src/src/docspec).

  THE PROGRAM. DocSpec captures source files, derives representations of them, cuts those into
  segments that carry evidence, runs operations over the results and publishes what happened as
  immutable Core records. Values move between the parts as canonical JSON bytes under SHA-256
  digests, so that every part can check what another part wrote. The development follows that path:
  the JSON and identity layer at the bottom, the Core records and their comparison above it, the
  attempts that produce them, and the text side with its evidence.

  THE THEORIES, each with the file of src/src/docspec it models.

    Prelude             exceptions as values (errors.py), results as sums, the two ways the code
                        sequences fallible steps, Python slices
    Json                the conversions of domain/identity.py between Python objects and JSON values
    Identity            digests, URNs, closed shapes and the incremental digester of
                        domain/identity.py; the record \<open>platform\<close> of imported functions
    Core_Records        the struct classes and unions of domain/core.py
    Core_Admission      the rules of domain/core_admission.py and domain/selected_values.py
    Core_Wire           the declared constraints, \<open>_plain\<close> and \<open>encode_record\<close>
    Json_Patch          domain/json_values.py; Patch_Laws holds its laws
    Graphs              domain/graphs.py
    Key_Order           objects up to the order of their keys, for the comparison theories
    Core_Encoding       domain/core_encoding.py
    Comparison          application/comparison.py and domain/streams.py
    Recovery            domain/core_recovery.py
    Operation_Context   \<open>OperationContext\<close> and \<open>_perform\<close> of application/core_execution.py
    Publication         the plan, the journal and the checkpoint of application/core_execution.py
    Retention           the closure of \<open>_PublicationCheck\<close> in application/core_publication.py
    Retention_Closure   what that closure holds, and that it ends
    Retained_Publication
                        the rest of the check and the attempts of a session, in the same file
    Publication_Checks  what a publication has checked when it commits
    Reference_Codec     a concrete platform for the closed examples
    Wire_Records        the interface of stored records, and domain/references.py
    Content, Captured_Files, Representations, Derived_Records
                        the records of domain/content.py
    Artifacts           processing/artifacts.py: payloads, segment construction, verification
    Char_Text           the methods of \<open>str\<close> on 8-bit characters
    Unicode_Text        UTF-8 and \<open>str.isspace\<close> as the segmentation uses them
    Boundaries          the searches for cuts of processing/bounded_segmentation.py
    Regions             its blocks, regions and heading stack
    Coverage            its byte accounting
    Packing             its units and their packing into segments
    Bounding            \<open>_bound\<close> and \<open>segment_text\<close>
    Bounded_Segmentation
                        the segmenter over a representation, its policy identity and its receipt
    Segmenters          processing/segmentation.py, and the page layout of processing/extraction.py
    Markup_Count        the counter of visible text of processing/extraction.py
    Table_Types         the column types, schemas and partitions of domain/storage.py
    Secret_Rules        the credential guards of domain/security.py
    Extractors          the extractors, their registry, receipts and PDF pages of that file

  HOW THE CODE IS REPRESENTED. A frozen dataclass or msgspec struct is a record and its
  \<open>__post_init__\<close> a function that returns the record or an exception: a \<open>..._make\<close> is the
  constructor, a \<open>..._json\<close> is \<open>to_dict\<close>, a \<open>..._from\<close> is \<open>from_dict\<close>. Enums and unions are
  datatypes. A dict is an association list, because the order of its keys reaches canonical
  encoders and reports. Every exception is an \<open>Inl\<close> of the program's hierarchy with the message of the
  source; where a message prints an offending value, that part is left out. Two values of \<open>error\<close>
  are not exceptions: \<open>IllTyped\<close> for arguments outside the annotated types, of which nothing but
  the absence of a result is said, and \<open>NoReturn\<close> for a call that does not return. Integers are
  \<open>int\<close> where the code computes with them or accepts negative ones and \<open>nat\<close> where they are
  lengths and positions. Identifiers are HOL strings. Document text is a list of code points and
  bytes are lists of 8-bit words; both conversions are written out. Mutation is state passing: the
  operation context and the digester are records that each call returns updated. The callbacks of a
  producer are the steps of the relation \<open>context_step\<close>, and \<open>reachable\<close> its closure over all
  the calls a producer can make.

  WHAT IS A PARAMETER. The canonical JSON encoder and parser (an external package), SHA-256 and
  \<open>datetime.fromisoformat\<close> are fields of the record \<open>platform\<close>. Facts the code relies on are the
  hypotheses \<open>canonical_documented\<close>, \<open>array_framing_documented\<close>, \<open>hex_documented\<close> and
  \<open>parse_documented\<close>; the theory Reference_Codec has an instance that satisfies them and on which
  the closed examples run. What the reader packages return for a document is the record
  \<open>source_readers\<close>. The token counter, the JSON reader that finds top-level
  records, the resolver of derived evidence and the conversion of a mapping by msgspec are
  arguments of the definitions that use them.

  INTERFACES. The locale \<open>wire\<close> (a type whose construction, writing and reading agree) is
  interpreted for every stored record and gives them their round trips; the locale \<open>segmenter\<close> (whatever finds
  the ranges, segments are minted by \<open>build_segment\<close> in order) is interpreted for each
  segmenter of the program and for the registry, and carries the evidence theorems to all of them.

  WHAT IS SHOWN.
    Identity and encoding: the incremental digest of a member stream is the digest of one canonical
    array; unordered evidence depends on the multiset of rows only; correspondence bytes determine
    the operation's meaning and its evidence, and do not depend on the order in which these are supplied.
    Edits and comparison: the laws of ordered patches; every change reported between two values is
    one, and every difference is reported; the merge of two ordered streams is their outer join.
    Attempts: an invariant of every context a producer can reach, with the budgets of rows and
    bytes; which failures can be recorded; the plan publishes each attempt once and after its
    prerequisites, keeps each record once, and writes a journal and a checkpoint that recovery accepts.
    Retention: the check of a publication computes a closure of records under what each of them stands
    on, keeps nothing without a reason, ends within a bound its byte budget gives, and never fails by a missing
    record; what a session commits is what one attempt checked against one reading of the ledger, at
    the versions it read, with its content ready.
    Tables: a column type is read back from its spelling, and a schema is a fixed point of its
    constructor.
    Credentials: the scan reports exactly the rules that spell some part of the text; redaction removes
    every text it can find, and the guard refuses nothing else.
    Segmentation: the regions tile the text; the heading path is nested; searches for cuts return
    maximal results; segments and excluded ranges account for every byte, at the text level and for stored
    segments; each segment is within the token budget; legal inputs are never refused.
    Extraction: a captured text file is extracted, segmented and accounted for byte by byte; the
    segments of whatever the registry extracts are ranges of the captured bytes, or pages of the PDF;
    a PDF gives its pages back; the counter of visible text agrees with its plain reading.
    Evidence: a verified segment is the byte range of the captured source that its evidence names;
    what the segmenters build verifies; receipts and representations read back.

  BOUNDS AND FUEL. \<open>leaf_loop\<close> (the outer loop of \<open>_leaf_spans\<close>) has the length of the text as
  fuel: each round that advances consumes a character, and \<open>leaf_loop_enough\<close> shows that for a
  counter that makes every round advance this is enough. A round that does not advance repeats
  for ever and is \<open>NoReturn\<close>. \<open>order_rounds\<close> has the number of operations as fuel, since
  each round with a ready operation finishes one. \<open>closure_loop\<close> has \<open>closure_fuel\<close>,
  twice the bytes of a batch and one: each round that leaves work has visited a record, or a description as a
  whole record, for the first time, and every record visited has been counted with at least a byte
  (\<open>closure_loop_enough\<close>). \<open>load_keys\<close> has the depth 2, since the representations that the links of
  a state name have no such links themselves. \<open>publish_attempts\<close> has the five attempts of the source. All other
  loops are structural or have a measure. The budgets of a control unit (2048 rows, 8 MiB, and the reserves the code subtracts) are the
  source's constants.

  NOT MODELLED. The ledger, the bulk layers and the state owner of a publication (adapters/storage) are SQL
  text executed by DuckDB and SQLite over Iceberg tables; what they answer a publication is the record
  \<open>retained_store\<close>, and the rest of the ports are the records \<open>content_owner\<close>, \<open>dependency_owner\<close> and
  \<open>ledger_view\<close>. One attempt of a session sees one such view; commits of others come between attempts,
  which is where the program expects them. Reads through a session with their caches, staging, resumption and
  reuse (application/core_execution.py, core_reuse.py, core_edits.py and their neighbours) are not modelled. Catalog
  artifacts, fetchers, exports, locks and directories are file and network access; the catalog
  policies are field mappings of particular sources; the command line and integrations are wiring.
  Of the modelled files, what is left out is: duplicate-key
  parsing of closed JSON (the standard decoder), the wrapper classes of admitted bytes and the reader
  version lookup of reader_identity.py. In
  \<open>BoundedSegmentSettings.for_counter\<close> only the defaults are modelled.
\<close>

end
